(* ===== verification/Kym_Prelude.thy ===== *)
theory Kym_Prelude
  imports Main "HOL-Library.Word" "HOL-Library.Monad_Syntax"
begin

text \<open>
  Shared vocabulary of the development: the fixed width integer types of the C++ code, the
  lemma collections the component proofs use, arithmetic of 32 and 64 bit words read as
  natural numbers, and a few facts about lists and options.
\<close>

unbundle bit_operations_syntax

section \<open>Machine integers\<close>

text \<open>
  \<open>u32\<close> is \<open>uint32_t\<close>; \<open>u64\<close> is \<open>uint64_t\<close>, \<open>size_t\<close> and every pointer of the
  64 bit platforms the code runs on. Arithmetic on them wraps, as it does in C++.
  A plain C++ \<open>int\<close> that only holds return codes, counters and indices is an \<open>int\<close>.
\<close>

type_synonym u8 = "8 word"
type_synonym u16 = "16 word"
type_synonym u32 = "32 word"
type_synonym u64 = "64 word"

text \<open>
  \<open>word_nat\<close> holds the rules that turn a word (in)equation into one on natural numbers;
  \<open>kym_defs\<close> holds the definitions of the model that a proof may unfold freely.
\<close>

named_theorems word_nat "rules that read words as natural numbers"
named_theorems kym_defs "definitions of the model that proofs unfold"

lemmas [word_nat] = word_less_nat_alt word_le_nat_alt word_unat_eq_iff unat_mod_distrib
  unat_div_distrib unat_of_nat

lemma unat32_lt: "unat (x::u32) < 4294967296"
  using unsigned_less [of x, where ?'a = nat] by simp

lemma unat64_lt: "unat (x::u64) < 18446744073709551616"
  using unsigned_less [of x, where ?'a = nat] by simp

lemma unat32_add [word_nat]:
  "unat (x::u32) + unat y < 4294967296 \<Longrightarrow> unat (x + y) = unat x + unat y"
  by (simp add: unat_word_ariths)

lemma unat64_add [word_nat]:
  "unat (x::u64) + unat y < 18446744073709551616 \<Longrightarrow> unat (x + y) = unat x + unat y"
  by (simp add: unat_word_ariths)

lemma unat_sub_le [word_nat]:
  "unat (y::'a::len word) \<le> unat x \<Longrightarrow> unat (x - y) = unat x - unat y"
  by (simp add: unat_sub word_le_nat_alt)

text \<open>A sum followed by a difference is right even when the sum wraps.\<close>

lemma unat32_add_sub [word_nat]:
  assumes "unat (z::u32) \<le> unat x + unat y" and "unat x + unat y - unat z < 4294967296"
  shows "unat (x + y - z) = unat x + unat y - unat z"
proof -
  have "x + y - z = word_of_nat (unat x + unat y - unat z)"
    using assms(1) by (simp add: of_nat_diff)
  then show ?thesis
    using assms(2) by (simp add: unat_of_nat)
qed

lemma unat32_of_nat: "n < 4294967296 \<Longrightarrow> unat (word_of_nat n :: u32) = n"
  by (simp add: unat_of_nat)

lemma unat64_of_nat: "n < 18446744073709551616 \<Longrightarrow> unat (word_of_nat n :: u64) = n"
  by (simp add: unat_of_nat)

lemma unat_ucast_32_64 [simp]: "unat (ucast (x::u32) :: u64) = unat x"
proof -
  have "unat x < 2 ^ 64" using unat32_lt [of x] by simp
  then show ?thesis
    by (simp add: unsigned_ucast_eq take_bit_eq_mod)
qed

lemma ucast_64_32_of_32 [simp]: "(ucast (ucast (x::u32) :: u64) :: u32) = x"
proof -
  have "unat x < 2 ^ 32" using unat32_lt [of x] by simp
  then have "unat (ucast (ucast x :: u64) :: u32) = unat x"
    by (simp only: unsigned_ucast_eq [where 'b = 64] unat_ucast_32_64) (simp add: take_bit_eq_mod)
  then show ?thesis by (simp add: word_unat_eq_iff)
qed

lemma ucast_32_64_inj [simp]: "(ucast (x::u32) :: u64) = ucast y \<longleftrightarrow> x = y"
  by (metis ucast_64_32_of_32)

lemma ucast_add_32: "(ucast (x + y :: u64) :: u32) = ucast x + ucast y"
  by (rule word_unat_eq_iff [THEN iffD2])
     (simp add: unsigned_ucast_eq take_bit_eq_mod unat_word_ariths mod_mod_cancel mod_add_eq)

text \<open>The two halves of a 64 bit address stored in two 32 bit cells, low half first.\<close>

definition lo32 :: "u64 \<Rightarrow> u32" where
  "lo32 a = ucast a"

definition hi32 :: "u64 \<Rightarrow> u32" where
  "hi32 a = ucast (drop_bit 32 a)"

definition addr_of_halves :: "u32 \<Rightarrow> u32 \<Rightarrow> u64" where
  "addr_of_halves l h = push_bit 32 (ucast h) OR ucast l"

lemma halves_roundtrip [simp]: "addr_of_halves (lo32 a) (hi32 a) = a"
  unfolding addr_of_halves_def lo32_def hi32_def
  by (rule bit_word_eqI) (auto simp: bit_simps)

text \<open>A 32 bit word in memory, least significant byte first.\<close>

definition le32 :: "u32 \<Rightarrow> u8 list" where
  "le32 w = [ucast w, ucast (drop_bit 8 w), ucast (drop_bit 16 w), ucast (drop_bit 24 w)]"

fun un_le32 :: "u8 list \<Rightarrow> u32" where
  "un_le32 (a # b # c # d # _) = ucast a OR push_bit 8 (ucast b) OR push_bit 16 (ucast c) OR push_bit 24 (ucast d)"
| "un_le32 _ = 0"

lemma length_le32 [simp]: "length (le32 w) = 4"
  by (simp add: le32_def)

lemma un_le32_le32 [simp]: "un_le32 (le32 w @ xs) = w"
proof -
  have "un_le32 (le32 w @ xs) = ucast (ucast w :: u8) OR push_bit 8 (ucast (ucast (drop_bit 8 w) :: u8)) OR
      push_bit 16 (ucast (ucast (drop_bit 16 w) :: u8)) OR push_bit 24 (ucast (ucast (drop_bit 24 w) :: u8))"
    by (simp add: le32_def)
  also have "\<dots> = w"
    by (rule bit_word_eqI, rename_tac n, case_tac "n < 8"; case_tac "n < 16"; case_tac "n < 24")
       (auto simp: bit_simps)
  finally show ?thesis .
qed

section \<open>Steps of a do block\<close>

text \<open>A block that returned ran each of its steps.\<close>

lemma bindE:
  assumes "Option.bind m f = Some y"
  obtains x where "m = Some x" "f x = Some y"
  using assms by (cases m) auto

text \<open>What a concrete run returned, from the evaluation of a test on its result.\<close>

lemma run_test:
  assumes "map_option (\<lambda>(r, e). P r e) m = Some True"
  obtains r e where "m = Some (r, e)" "P r e"
  using assms by (cases m) auto

lemma run_value:
  assumes "map_option (\<lambda>(r, e). \<not> isl r \<and> P (projr r) e) m = Some True"
  obtains v e where "m = Some (Inr v, e)" "P v e"
proof -
  from assms obtain r e where r: "m = Some (r, e)" "\<not> isl r \<and> P (projr r) e" by (rule run_test)
  then show thesis using that by (cases r) auto
qed

section \<open>Lists, as the containers of the C++ code use them\<close>

text \<open>
  \<open>std::list::remove(v)\<close> removes every element equal to \<open>v\<close>: it is \<open>removeAll v\<close>. When
  the elements are distinct it removes exactly the one at the element's position.
\<close>

definition remove_nth :: "nat \<Rightarrow> 'a list \<Rightarrow> 'a list" where
  "remove_nth i xs = take i xs @ drop (Suc i) xs"

lemma remove_nth_simps [simp]:
  "remove_nth i [] = []"
  "remove_nth 0 (x # xs) = xs"
  "remove_nth (Suc i) (x # xs) = x # remove_nth i xs"
  by (auto simp: remove_nth_def)

lemma length_remove_nth [simp]:
  "i < length xs \<Longrightarrow> length (remove_nth i xs) = length xs - 1"
  by (auto simp: remove_nth_def)

lemma map_remove_nth: "map f (remove_nth i xs) = remove_nth i (map f xs)"
  by (simp add: remove_nth_def take_map drop_map)

lemma set_remove_nth_subset: "set (remove_nth i xs) \<subseteq> set xs"
  by (auto simp: remove_nth_def dest: in_set_takeD in_set_dropD)

lemma removeAll_nth_distinct:
  "distinct xs \<Longrightarrow> i < length xs \<Longrightarrow> removeAll (xs ! i) xs = remove_nth i xs"
proof (induction xs arbitrary: i)
  case (Cons x xs)
  then show ?case
    by (cases i) (auto simp: removeAll_id nth_mem)
qed simp

lemma distinct_nth_hd_iff:
  "distinct (x # xs) \<Longrightarrow> i < length (x # xs) \<Longrightarrow> (x # xs) ! i = x \<longleftrightarrow> i = 0"
  by (cases i) auto

lemma sorted_wrt_remove_nth:
  assumes "sorted_wrt P xs"
  shows "sorted_wrt P (remove_nth i xs)"
proof -
  have "sorted_wrt P (take i xs @ drop i xs)" using assms by simp
  then have "sorted_wrt P (take i xs)" "sorted_wrt P (drop i xs)"
    "\<forall>x \<in> set (take i xs). \<forall>y \<in> set (drop i xs). P x y"
    unfolding sorted_wrt_append by auto
  moreover have "set (drop (Suc i) xs) \<subseteq> set (drop i xs)"
    by (rule set_drop_subset_set_drop) simp
  moreover have "sorted_wrt P (drop (Suc i) xs)"
    using assms by (rule sorted_wrt_drop)
  ultimately show ?thesis
    unfolding remove_nth_def sorted_wrt_append by blast
qed

section \<open>Numbers modulo a window\<close>

text \<open>Two positions less than \<open>L\<close> apart that agree modulo \<open>L\<close> are equal.\<close>

lemma mod_window_inj:
  fixes p q L :: nat
  assumes "p mod L = q mod L" and "p \<le> q" and "q < p + L"
  shows "p = q"
proof (rule ccontr)
  assume "p \<noteq> q"
  with assms(2) have "0 < q - p" by simp
  moreover have "L dvd q - p"
    using assms(1,2) mod_eq_dvd_iff_nat [of p q L] by simp
  ultimately have "L \<le> q - p" using dvd_imp_le by blast
  with assms(2,3) show False by linarith
qed

lemma mod_window_inj':
  fixes p q L :: nat
  assumes "p mod L = q mod L" and "p < q + L" and "q < p + L"
  shows "p = q"
  using assms mod_window_inj [of p L q] mod_window_inj [of q L p]
  by (cases "p \<le> q") auto

lemma mod_add_wrap:
  fixes p k L :: nat
  assumes "k < L"
  shows "(p + k) mod L = (if p mod L + k < L then p mod L + k else p mod L + k - L)"
proof -
  have eq: "(p + k) mod L = (p mod L + k) mod L" by (simp only: mod_add_left_eq)
  have "p mod L < L" using assms by simp
  with assms have lt: "p mod L + k - L < L" by linarith
  have "(p mod L + k) mod L = (if p mod L + k < L then p mod L + k else p mod L + k - L)"
  proof (cases "p mod L + k < L")
    case False
    then have "(p mod L + k) mod L = (p mod L + k - L) mod L" by (intro le_mod_geq) simp
    also have "\<dots> = p mod L + k - L" using lt by (rule mod_less)
    finally show ?thesis using False by simp
  qed simp
  with eq show ?thesis by (rule trans)
qed

end
