(* ===== verification/Kym_Status.thy ===== *)
theory Kym_Status
  imports Kym_Prelude
begin

text \<open>
  The error values of \<^verbatim>\<open>src/error.hpp\<close>: \<open>StatusCode\<close>, the class \<open>Status\<close> and the
  template \<open>StatusOr<T>\<close>. A \<open>StatusOr\<close> is a sum: \<open>Inl s\<close> was built from a \<open>Status\<close> and
  carries no value, \<open>Inr v\<close> was built from a value and has the default (ok) status. As in
  the class, \<open>ok()\<close> looks at the status only, so \<open>Inl\<close> of an ok status is ok and has no
  value.
\<close>

datatype StatusCode = Ok | Unknown | Internal | NotImplemented | InvalidArgument | NotFound | RateLimit

fun StatusCode_num :: "StatusCode \<Rightarrow> int" where
  "StatusCode_num Ok = 0"
| "StatusCode_num Unknown = 1"
| "StatusCode_num Internal = 500"
| "StatusCode_num NotImplemented = 501"
| "StatusCode_num InvalidArgument = 400"
| "StatusCode_num NotFound = 404"
| "StatusCode_num RateLimit = 420"

record status =
  code :: StatusCode
  message :: string

definition Status0 :: status where
  "Status0 = \<lparr>code = Ok, message = []\<rparr>"

definition Status :: "StatusCode \<Rightarrow> string \<Rightarrow> status" where
  "Status c m = \<lparr>code = c, message = m\<rparr>"

definition status_ok :: "status \<Rightarrow> bool" where
  "status_ok s \<longleftrightarrow> code s = Ok"

definition Wrap :: "string \<Rightarrow> status \<Rightarrow> status" where
  "Wrap m s = Status (code s) (m @ [CHR 0x0A] @ message s)"

type_synonym 'a status_or = "status + 'a"

definition StatusOr_default :: "'a status_or" where
  "StatusOr_default = Inl (Status Unknown ''default'')"

fun so_ok :: "'a status_or \<Rightarrow> bool" where
  "so_ok (Inl s) = status_ok s"
| "so_ok (Inr v) = True"

fun so_status :: "'a status_or \<Rightarrow> status" where
  "so_status (Inl s) = s"
| "so_status (Inr v) = Status0"

fun so_value :: "'a status_or \<Rightarrow> 'a option" where
  "so_value (Inl s) = None"
| "so_value (Inr v) = Some v"

text \<open>\<open>operator<<\<close> prints the message, or the numeric code when there is none.\<close>

definition status_print :: "(int \<Rightarrow> string) \<Rightarrow> status \<Rightarrow> string" where
  "status_print show_int s =
     (if message s = [] then ''Statuscode '' @ show_int (StatusCode_num (code s)) else message s)"

lemmas status_defs = Status0_def Status_def status_ok_def Wrap_def

lemma status_ok_simps [simp]:
  "status_ok Status0"
  "status_ok (Status c m) \<longleftrightarrow> c = Ok"
  "status_ok (Wrap m s) \<longleftrightarrow> status_ok s"
  "code (Status c m) = c"
  "code (Wrap m s) = code s"
  by (auto simp: status_defs)

lemma StatusCode_num_inj: "StatusCode_num c = StatusCode_num d \<longleftrightarrow> c = d"
  by (cases c; cases d; simp)

text \<open>
  A method that reports errors well never hands out an ok status in place of a value:
  \<open>real_error\<close> is that property of a result.
\<close>

definition real_error :: "'a status_or \<Rightarrow> bool" where
  "real_error r \<longleftrightarrow> (case r of Inl s \<Rightarrow> \<not> status_ok s | Inr _ \<Rightarrow> True)"

lemma real_error_simps [simp]:
  "real_error (Inr v)"
  "real_error (Inl s) \<longleftrightarrow> \<not> status_ok s"
  by (auto simp: real_error_def)

lemma so_ok_iff_value: "real_error r \<Longrightarrow> so_ok r \<longleftrightarrow> (\<exists>v. r = Inr v)"
  by (cases r) auto

end
