(* ===== verification/Verbs.thy ===== *)
theory Verbs
  imports Kym_Status
begin

text \<open>
  The outside world of the library: libibverbs, librdmacm and the operating system. None of
  that code is in the repository, so it is not defined here. What is defined is the data the
  library exchanges with it (work requests, completions, memory regions) and an environment
  \<open>env\<close> that records every call the library makes, in order, and holds the replies that the
  outside will give, in order. Every theorem quantifies over the environment, so it holds for
  all replies. A loop of the code that polls until something happens consumes one reply per
  turn; a result \<open>None\<close> means that the recorded replies are used up and the code is still
  waiting.
\<close>

section \<open>Data exchanged with the verbs library\<close>

record ibv_mr =
  mr_addr :: u64
  mr_length :: u64
  mr_lkey :: u32

record ibv_sge =
  sge_addr :: u64
  sge_length :: u32
  sge_lkey :: u32

datatype wr_opcode = WR_SEND | WR_SEND_WITH_IMM | WR_RDMA_READ | WR_RDMA_WRITE
  | WR_RDMA_WRITE_WITH_IMM | WR_ATOMIC_FETCH_AND_ADD

datatype send_flag = SEND_SIGNALED | SEND_INLINE | SEND_FENCE

text \<open>
  Fields the opcode does not use are 0. A posted list of requests is a list of these.
  \<open>swr_inline\<close> is the word that an inline request with its data in a local variable carries.
\<close>

record send_wr =
  swr_id :: u64
  swr_sge :: ibv_sge
  swr_opcode :: wr_opcode
  swr_flags :: "send_flag list"
  swr_remote_addr :: u64
  swr_rkey :: u32
  swr_imm :: u32
  swr_add :: u64
  swr_inline :: u32

record recv_wr =
  rwr_id :: u64
  rwr_sge :: ibv_sge

record ibv_wc =
  wc_wr_id :: u64
  wc_status :: int
  wc_byte_len :: u32
  wc_imm :: u32
  wc_qp_num :: u32

definition signaled :: "send_wr \<Rightarrow> bool" where
  "signaled w \<longleftrightarrow> SEND_SIGNALED \<in> set (swr_flags w)"

section \<open>The environment: calls made and replies to come\<close>

datatype qp_state = QPS_INIT | QPS_RTR | QPS_RTS

text \<open>
  The part of a \<open>rdma_cm_id\<close> the library looks at: its objects (a pointer is its address, 0
  the null pointer) and the private data of its last event.
\<close>

record cm_id =
  id_pd :: u64
  id_qp :: u64
  id_srq :: u64
  id_send_cq :: u64
  id_recv_cq :: u64
  id_event_data :: "u8 list"

record conn_param =
  cp_responder_resources :: u8
  cp_initiator_depth :: u8
  cp_flow_control :: u8
  cp_retry_count :: u8
  cp_rnr_retry_count :: u8
  cp_private_data :: "u8 list"
  cp_qp_num :: u32

datatype call =
    Post_send "send_wr list"
  | Post_recv "recv_wr list"
  | Post_srq_recv u64 "recv_wr list"
  | Reg_mr u64 u64
  | Dereg_mr u64
  | Malloc u64
  | Free_mem u64
  | Mmap u64
  | Munmap u64 u64
  | Shmget u64
  | Shmat int u64
  | Shmdt u64
  | Shmctl_rmid int
  | Memset u64 u64
  | Load u64
  | Load_block u64 u32
  | Store u64 u64 nat
  | Memcpy u64 u64 u32
  | Alloc_dm u64
  | Reg_dm_mr u64 u64
  | Memcpy_to_dm u64 u64 "u64 list"
  | Free_dm u64
  | Create_cq int
  | Create_srq u64 u32 u32
  | Destroy_srq u64
  | Create_qp u64 u64
  | Cm_create_qp u64
  | Init_qp_attr qp_state
  | Modify_qp u64 qp_state
  | Cm_connect conn_param
  | Cm_accept conn_param
  | Cm_establish
  | Cm_disconnect
  | Cm_get_request
  | Cm_getaddrinfo "string option" "string option" bool
  | Cm_freeaddrinfo
  | Cm_create_ep u64
  | Cm_listen int
  | Cm_destroy_id
  | Cm_destroy_ep

text \<open>
  \<open>replied\<close> and \<open>given\<close> are the calls that returned an integer or a pointer, each with what
  it returned; \<open>rets\<close> are the integer replies to come, \<open>addrs\<close> the pointers, \<open>mrs\<close> the registered regions,
  \<open>cm_ids\<close> the connection ids as the connection manager leaves them, \<open>loads\<close> and \<open>blocks\<close> the words and byte ranges read from memory. \<open>status_str\<close> is
  \<open>ibv_wc_status_str\<close> and \<open>qp_num_of\<close> the number the library gave to a queue pair.
\<close>

record env =
  calls :: "call list"
  replied :: "(call \<times> int) list"
  given :: "(call \<times> u64) list"
  rets :: "int list"
  addrs :: "u64 list"
  mrs :: "ibv_mr option list"
  cm_ids :: "cm_id list"
  send_polls :: "(int \<times> ibv_wc) list"
  recv_polls :: "(int \<times> ibv_wc list) list"
  loads :: "u64 list"
  blocks :: "u8 list list"
  errno :: int
  status_str :: "int \<Rightarrow> string"
  qp_num_of :: "u64 \<Rightarrow> u32"

text \<open>A call that returns an \<open>int\<close>.\<close>

definition sys :: "call \<Rightarrow> 'e env_scheme \<Rightarrow> (int \<times> 'e env_scheme) option" where
  "sys c e = (case rets e of [] \<Rightarrow> None
     | r # rs \<Rightarrow> Some (r, e\<lparr>calls := calls e @ [c], replied := replied e @ [(c, r)], rets := rs\<rparr>))"

text \<open>A call that returns nothing the code looks at.\<close>

definition sys_void :: "call \<Rightarrow> 'e env_scheme \<Rightarrow> 'e env_scheme" where
  "sys_void c e = e\<lparr>calls := calls e @ [c]\<rparr>"

text \<open>A call that returns a pointer.\<close>

definition sys_addr :: "call \<Rightarrow> 'e env_scheme \<Rightarrow> (u64 \<times> 'e env_scheme) option" where
  "sys_addr c e = (case addrs e of [] \<Rightarrow> None
     | a # as \<Rightarrow> Some (a, e\<lparr>calls := calls e @ [c], given := given e @ [(c, a)], addrs := as\<rparr>))"

text \<open>\<open>ibv_reg_mr\<close>: \<open>None\<close> inside is the null pointer.\<close>

definition sys_mr :: "call \<Rightarrow> 'e env_scheme \<Rightarrow> (ibv_mr option \<times> 'e env_scheme) option" where
  "sys_mr c e = (case mrs e of [] \<Rightarrow> None
     | m # ms \<Rightarrow> Some (m, e\<lparr>calls := calls e @ [c], mrs := ms\<rparr>))"

text \<open>
  A load from memory that the other side or another thread may change: its value comes from
  the environment. A store of the \<open>n\<close> low bytes of a value is recorded.
\<close>

definition sys_load :: "u64 \<Rightarrow> 'e env_scheme \<Rightarrow> (u64 \<times> 'e env_scheme) option" where
  "sys_load a e = (case loads e of [] \<Rightarrow> None
     | v # vs \<Rightarrow> Some (v, e\<lparr>calls := calls e @ [Load a], loads := vs\<rparr>))"

definition sys_block :: "u64 \<Rightarrow> u32 \<Rightarrow> 'e env_scheme \<Rightarrow> (u8 list \<times> 'e env_scheme) option" where
  "sys_block a n e = (case blocks e of [] \<Rightarrow> None
     | v # vs \<Rightarrow> Some (v, e\<lparr>calls := calls e @ [Load_block a n], blocks := vs\<rparr>))"

text \<open>A call of the connection manager that creates or updates an id when it returns 0.\<close>

definition sys_id :: "call \<Rightarrow> cm_id \<Rightarrow> 'e env_scheme \<Rightarrow> ((int \<times> cm_id) \<times> 'e env_scheme) option" where
  "sys_id c old e = (case sys c e of None \<Rightarrow> None
     | Some (r, e) \<Rightarrow> if r \<noteq> 0 then Some ((r, old), e)
         else (case cm_ids e of [] \<Rightarrow> None | i # is \<Rightarrow> Some ((r, i), e\<lparr>cm_ids := is\<rparr>)))"

text \<open>
  One poll of the send completion queue for one entry. The reply is the return value and the
  contents of the \<open>ibv_wc\<close> variable afterwards, which are arbitrary unless the value is
  positive. A poll of the receive queue asks for a batch. Polls are not recorded as calls.
\<close>

definition poll_send :: "'e env_scheme \<Rightarrow> ((int \<times> ibv_wc) \<times> 'e env_scheme) option" where
  "poll_send e = (case send_polls e of [] \<Rightarrow> None
     | p # ps \<Rightarrow> Some (p, e\<lparr>send_polls := ps\<rparr>))"

definition poll_recv :: "'e env_scheme \<Rightarrow> ((int \<times> ibv_wc list) \<times> 'e env_scheme) option" where
  "poll_recv e = (case recv_polls e of [] \<Rightarrow> None
     | p # ps \<Rightarrow> Some (p, e\<lparr>recv_polls := ps\<rparr>))"

lemmas sys_defs = sys_def sys_void_def sys_addr_def sys_mr_def sys_id_def sys_load_def sys_block_def
  poll_send_def poll_recv_def

text \<open>A call takes its reply and is recorded; it changes nothing else.\<close>

lemma sys_calls:
  "sys c e = Some (r, e') \<Longrightarrow> calls e' = calls e @ [c] \<and> replied e' = replied e @ [(c, r)] \<and> send_polls e' = send_polls e \<and>
     recv_polls e' = recv_polls e"
  by (auto simp: sys_def split: list.splits)

lemma sys_reply: "rets e = r # rs \<Longrightarrow> sys c e =
    Some (r, e\<lparr>calls := calls e @ [c], replied := replied e @ [(c, r)], rets := rs\<rparr>)"
  by (simp add: sys_def)

section \<open>Decimal numbers in error messages\<close>

fun digits :: "nat \<Rightarrow> nat \<Rightarrow> string" where
  "digits 0 n = []"
| "digits (Suc fuel) n =
     (if n < 10 then [char_of (48 + n)] else digits fuel (n div 10) @ [char_of (48 + n mod 10)])"

text \<open>
  \<open>std::to_string\<close> of an integer. The fuel \<open>n + 1\<close> is enough: every turn divides by ten.
\<close>

definition to_string :: "int \<Rightarrow> string" where
  "to_string i = (if i < 0 then ''-'' @ digits (nat (- i) + 1) (nat (- i))
                  else digits (nat i + 1) (nat i))"

end
