(* ===== verification/Ring_Buffer.thy ===== *)
theory Ring_Buffer
  imports Verbs
begin

text \<open>
  The ring buffers of \<^verbatim>\<open>src/ring_buffer/ring_buffer.{hpp,cpp}\<close>. A receiver owns a
  \<open>MagicRingBuffer\<close> (memory mapped twice, so that a region may run over the end) and the
  sender keeps a \<open>MagicRemoteBuffer\<close>, its view of the same memory. All offsets are
  \<open>uint32_t\<close>, addresses are 64 bit. The \<open>Basic\<close> variant that jumps to the front is here too.
  The classes \<open>ReverseRingBuffer\<close> and \<open>ReverseRemoteBuffer\<close> have the same private fields
  and share these records (see \<^verbatim>\<open>Reverse_Buffer\<close>).
\<close>

section \<open>Data\<close>

record BufferContext =
  data0 :: u32
  data1 :: u32
  data2 :: u32
  data3 :: u32

record ring_buffer =
  rb_mr_lkey :: u32
  rb_addr :: u64
  rb_head :: u32
  rb_outstanding :: "u32 list"
  rb_read_ptr :: u32
  rb_length :: u32

record remote_buffer =
  rm_addr :: u64
  rm_length :: u32
  rm_key :: u32
  rm_head :: u32
  rm_tail :: u32
  rm_full :: bool

section \<open>MagicRingBuffer: the receiver's side\<close>

definition MagicRingBuffer :: "ibv_mr \<Rightarrow> ring_buffer" where
  "MagicRingBuffer mr = \<lparr>rb_mr_lkey = mr_lkey mr, rb_addr = mr_addr mr, rb_head = 0,
     rb_outstanding = [], rb_read_ptr = 0, rb_length = ucast (mr_length mr div 2)\<rparr>"

definition MagicRingBuffer_Read :: "u32 \<Rightarrow> ring_buffer \<Rightarrow> u64 \<times> ring_buffer" where
  "MagicRingBuffer_Read len b =
     (let read_offset = rb_read_ptr b in
      (rb_addr b + ucast read_offset,
       b\<lparr>rb_read_ptr := (rb_read_ptr b + len) mod rb_length b,
         rb_outstanding := rb_outstanding b @ [read_offset]\<rparr>))"

definition MagicRingBuffer_GetReadPtr :: "ring_buffer \<Rightarrow> u64" where
  "MagicRingBuffer_GetReadPtr b = rb_addr b + ucast (rb_read_ptr b)"

definition MagicRingBuffer_GetReadOff :: "ring_buffer \<Rightarrow> u32" where
  "MagicRingBuffer_GetReadOff b = rb_read_ptr b"

text \<open>
  \<open>Free\<close> dereferences \<open>outstanding_.begin()\<close>, which is undefined behaviour on an empty list:
  that case is \<open>None\<close>. Otherwise the new head is returned.
\<close>

definition MagicRingBuffer_Free :: "u64 \<Rightarrow> ring_buffer \<Rightarrow> (u32 \<times> ring_buffer) option" where
  "MagicRingBuffer_Free addr b =
     (let region_start = ucast (addr - rb_addr b) :: u32 in
      case rb_outstanding b of
        [] \<Rightarrow> None
      | front # rest \<Rightarrow>
          let head = (if region_start = front
                      then (case rest of [] \<Rightarrow> rb_read_ptr b | nxt # _ \<Rightarrow> nxt)
                      else rb_head b);
              b' = b\<lparr>rb_head := head,
                     rb_outstanding := removeAll region_start (rb_outstanding b)\<rparr>
          in Some (rb_head b', b'))"

definition MagicRingBuffer_GetContext :: "ring_buffer \<Rightarrow> BufferContext" where
  "MagicRingBuffer_GetContext b =
     \<lparr>data0 = lo32 (rb_addr b), data1 = hi32 (rb_addr b),
      data2 = rb_mr_lkey b, data3 = rb_length b\<rparr>"

section \<open>MagicRemoteBuffer: the sender's side\<close>

definition MagicRemoteBuffer :: "BufferContext \<Rightarrow> remote_buffer" where
  "MagicRemoteBuffer ctx = \<lparr>rm_addr = addr_of_halves (data0 ctx) (data1 ctx),
     rm_length = data3 ctx, rm_key = data2 ctx, rm_head = 0, rm_tail = 0, rm_full = False\<rparr>"

definition MagicRemoteBuffer_UpdateHead :: "u32 \<Rightarrow> remote_buffer \<Rightarrow> remote_buffer" where
  "MagicRemoteBuffer_UpdateHead head b = b\<lparr>rm_head := head, rm_full := False\<rparr>"

definition MagicRemoteBuffer_GetKey :: "remote_buffer \<Rightarrow> u32" where
  "MagicRemoteBuffer_GetKey b = rm_key b"

definition MagicRemoteBuffer_GetTail :: "remote_buffer \<Rightarrow> u32" where
  "MagicRemoteBuffer_GetTail b = rm_tail b"

definition MagicRemoteBuffer_GetWriteAddr :: "u32 \<Rightarrow> remote_buffer \<Rightarrow> u64 status_or" where
  "MagicRemoteBuffer_GetWriteAddr len b =
     (if rm_head b = rm_tail b \<and> rm_full b then Inl (Status Unknown ''buffer is full'')
      else if rm_head b = rm_tail b \<and> len > rm_length b
        then Inl (Status Unknown ''message larger then buffer'')
      else if rm_head b < rm_tail b \<and> (rm_length b - rm_tail b) + rm_head b \<le> len
        then Inl (Status Unknown ''not enough free space for message'')
      else if rm_head b > rm_tail b \<and> rm_head b - rm_tail b \<le> len
        then Inl (Status Unknown ''not enough free space for message'')
      else Inr (rm_addr b + ucast (rm_tail b)))"

definition MagicRemoteBuffer_GetNextTail :: "u32 \<Rightarrow> remote_buffer \<Rightarrow> u32 status_or" where
  "MagicRemoteBuffer_GetNextTail len b =
     (case MagicRemoteBuffer_GetWriteAddr len b of
        Inl s \<Rightarrow> Inl s
      | Inr _ \<Rightarrow> Inr ((rm_tail b + len) mod rm_length b))"

definition MagicRemoteBuffer_Write :: "u32 \<Rightarrow> remote_buffer \<Rightarrow> u64 status_or \<times> remote_buffer" where
  "MagicRemoteBuffer_Write len b =
     (case MagicRemoteBuffer_GetWriteAddr len b of
        Inl s \<Rightarrow> (Inl s, b)
      | Inr a \<Rightarrow>
          let tail = (rm_tail b + len) mod rm_length b
          in (Inr a, b\<lparr>rm_tail := tail, rm_full := (tail = rm_head b)\<rparr>))"

section \<open>The Basic ring buffer\<close>

text \<open>
  \<open>BasicRingBuffer\<close> never wraps a region over the end. \<open>Close\<close> builds an error status but
  does not return it; \<open>GetContext\<close> is all zero and \<open>GetNextTail\<close> is not implemented.
\<close>

definition BasicRingBuffer_add :: "ring_buffer \<Rightarrow> u32 \<Rightarrow> u32 \<Rightarrow> u32" where
  "BasicRingBuffer_add b offset len =
     (if offset + len \<le> rb_length b then offset + len else len)"

definition BasicRingBuffer_Read :: "u32 \<Rightarrow> ring_buffer \<Rightarrow> u64 \<times> ring_buffer" where
  "BasicRingBuffer_Read len b =
     (let read_offset = (if rb_read_ptr b + len \<le> rb_length b then rb_read_ptr b else 0) in
      (rb_addr b + ucast read_offset,
       b\<lparr>rb_read_ptr := BasicRingBuffer_add b (rb_read_ptr b) len,
         rb_outstanding := rb_outstanding b @ [read_offset]\<rparr>))"

definition BasicRingBuffer_GetReadPtr :: "ring_buffer \<Rightarrow> u64" where
  "BasicRingBuffer_GetReadPtr b = rb_addr b + ucast (rb_read_ptr b)"

definition BasicRingBuffer_GetReadOff :: "ring_buffer \<Rightarrow> u32" where
  "BasicRingBuffer_GetReadOff b = rb_read_ptr b"

definition BasicRingBuffer_Free :: "u64 \<Rightarrow> ring_buffer \<Rightarrow> (u32 \<times> ring_buffer) option" where
  "BasicRingBuffer_Free addr b =
     (let region_start = ucast (addr - rb_addr b) :: u32 in
      case rb_outstanding b of
        [] \<Rightarrow> None
      | front # rest \<Rightarrow>
          let head = (if region_start = front
                      then (case rest of [] \<Rightarrow> rb_read_ptr b | nxt # _ \<Rightarrow> nxt)
                      else rb_head b);
              b' = b\<lparr>rb_head := head,
                     rb_outstanding := removeAll region_start (rb_outstanding b)\<rparr>
          in Some (rb_head b', b'))"

definition BasicRingBuffer_GetContext :: "ring_buffer \<Rightarrow> BufferContext" where
  "BasicRingBuffer_GetContext b = \<lparr>data0 = 0, data1 = 0, data2 = 0, data3 = 0\<rparr>"

definition BasicRemoteBuffer_UpdateHead :: "u32 \<Rightarrow> remote_buffer \<Rightarrow> remote_buffer" where
  "BasicRemoteBuffer_UpdateHead head b = b\<lparr>rm_head := head\<rparr>"

definition BasicRemoteBuffer_GetKey :: "remote_buffer \<Rightarrow> u32" where
  "BasicRemoteBuffer_GetKey b = rm_key b"

definition BasicRemoteBuffer_GetTail :: "remote_buffer \<Rightarrow> u32" where
  "BasicRemoteBuffer_GetTail b = rm_tail b"

definition BasicRemoteBuffer_GetWriteAddr :: "u32 \<Rightarrow> remote_buffer \<Rightarrow> u64 status_or" where
  "BasicRemoteBuffer_GetWriteAddr len b =
     (if rm_head b = rm_tail b \<and> rm_full b then Inl (Status Unknown ''buffer is full'')
      else if rm_head b = rm_tail b \<and> len > rm_length b
        then Inl (Status Unknown ''message larger then buffer'')
      else if rm_head b < rm_tail b \<and> rm_tail b + len > rm_length b \<and> len > rm_head b
        then Inl (Status Unknown ''not enough free space for message'')
      else if rm_head b > rm_tail b \<and> rm_head b - rm_tail b < len
        then Inl (Status Unknown ''not enough free space for message'')
      else Inr (rm_addr b + ucast (if rm_tail b + len \<le> rm_length b then rm_tail b else 0)))"

definition BasicRemoteBuffer_GetNextTail :: "u32 \<Rightarrow> remote_buffer \<Rightarrow> u32 status_or" where
  "BasicRemoteBuffer_GetNextTail len b = Inl (Status NotImplemented [])"

definition BasicRemoteBuffer_Write :: "u32 \<Rightarrow> remote_buffer \<Rightarrow> u64 status_or \<times> remote_buffer" where
  "BasicRemoteBuffer_Write len b =
     (case BasicRemoteBuffer_GetWriteAddr len b of
        Inl s \<Rightarrow> (Inl s, b)
      | Inr a \<Rightarrow> (Inr a, b\<lparr>rm_tail := ucast (a - rm_addr b), rm_full := False\<rparr>))"

end
