(* ===== verification/Reverse_Buffer.thy ===== *)
theory Reverse_Buffer
  imports Ring_Buffer
begin

text \<open>
  The reversed ring buffer of \<^verbatim>\<open>src/ring_buffer/reverse_buffer.{hpp,cpp}\<close>: messages are laid
  out downwards, so the read pointer and the tail move towards smaller offsets. An offset that
  comes down to the start of the buffer is written as \<open>length_\<close>, not as 0; 0 only occurs
  before the first operation.
\<close>

definition ReverseRingBuffer :: "ibv_mr \<Rightarrow> ring_buffer" where
  "ReverseRingBuffer mr = \<lparr>rb_mr_lkey = mr_lkey mr, rb_addr = mr_addr mr, rb_head = 0,
     rb_outstanding = [], rb_read_ptr = 0, rb_length = ucast (mr_length mr div 2)\<rparr>"

definition ReverseRingBuffer_Read :: "u32 \<Rightarrow> ring_buffer \<Rightarrow> u64 \<times> ring_buffer" where
  "ReverseRingBuffer_Read len b =
     (let read_ptr = (if rb_read_ptr b > len then rb_read_ptr b - len
                      else rb_length b + rb_read_ptr b - len)
      in (rb_addr b + ucast read_ptr,
          b\<lparr>rb_read_ptr := read_ptr, rb_outstanding := rb_outstanding b @ [read_ptr]\<rparr>))"

definition ReverseRingBuffer_GetReadOff :: "ring_buffer \<Rightarrow> u32" where
  "ReverseRingBuffer_GetReadOff b =
     (if rb_read_ptr b > 0 then rb_read_ptr b - 1 else rb_length b - 1)"

definition ReverseRingBuffer_GetReadPtr :: "ring_buffer \<Rightarrow> u64" where
  "ReverseRingBuffer_GetReadPtr b = rb_addr b + ucast (ReverseRingBuffer_GetReadOff b)"

definition ReverseRingBuffer_Free :: "u64 \<Rightarrow> ring_buffer \<Rightarrow> (u32 \<times> ring_buffer) option" where
  "ReverseRingBuffer_Free addr b =
     (let region_start = ucast (addr - rb_addr b) :: u32 in
      case rb_outstanding b of
        [] \<Rightarrow> None
      | front # rest \<Rightarrow>
          let head = (if region_start = front
                      then (case rest of [] \<Rightarrow> rb_read_ptr b | nxt # _ \<Rightarrow> nxt)
                      else rb_head b);
              b' = b\<lparr>rb_head := head,
                     rb_outstanding := removeAll region_start (rb_outstanding b)\<rparr>
          in Some (rb_head b', b'))"

definition ReverseRingBuffer_GetContext :: "ring_buffer \<Rightarrow> BufferContext" where
  "ReverseRingBuffer_GetContext b =
     \<lparr>data0 = lo32 (rb_addr b), data1 = hi32 (rb_addr b),
      data2 = rb_mr_lkey b, data3 = rb_length b\<rparr>"

definition ReverseRemoteBuffer :: "BufferContext \<Rightarrow> remote_buffer" where
  "ReverseRemoteBuffer ctx = \<lparr>rm_addr = addr_of_halves (data0 ctx) (data1 ctx),
     rm_length = data3 ctx, rm_key = data2 ctx, rm_head = 0, rm_tail = 0, rm_full = False\<rparr>"

definition ReverseRemoteBuffer_UpdateHead :: "u32 \<Rightarrow> remote_buffer \<Rightarrow> remote_buffer" where
  "ReverseRemoteBuffer_UpdateHead head b = b\<lparr>rm_head := head, rm_full := False\<rparr>"

definition ReverseRemoteBuffer_GetKey :: "remote_buffer \<Rightarrow> u32" where
  "ReverseRemoteBuffer_GetKey b = rm_key b"

definition ReverseRemoteBuffer_GetTail :: "remote_buffer \<Rightarrow> u32" where
  "ReverseRemoteBuffer_GetTail b = rm_tail b"

definition ReverseRemoteBuffer_GetNextTail :: "u32 \<Rightarrow> remote_buffer \<Rightarrow> u32 status_or" where
  "ReverseRemoteBuffer_GetNextTail len b =
     (if rm_head b = rm_tail b \<and> rm_full b then Inl (Status Unknown ''buffer is full'')
      else if rm_head b = rm_tail b \<and> len > rm_length b
        then Inl (Status Unknown ''message larger then buffer'')
      else if rm_head b > rm_tail b \<and> (rm_length b - rm_head b) + rm_tail b \<le> len
        then Inl (Status Unknown ''not enough free space for message'')
      else if rm_head b < rm_tail b \<and> rm_tail b - rm_head b \<le> len
        then Inl (Status Unknown ''not enough free space for message'')
      else Inr (if rm_tail b > len then rm_tail b - len else rm_tail b + rm_length b - len))"

definition ReverseRemoteBuffer_GetWriteAddr :: "u32 \<Rightarrow> remote_buffer \<Rightarrow> u64 status_or" where
  "ReverseRemoteBuffer_GetWriteAddr len b =
     (case ReverseRemoteBuffer_GetNextTail len b of
        Inl s \<Rightarrow> Inl s
      | Inr t \<Rightarrow> Inr (rm_addr b + ucast t))"

definition ReverseRemoteBuffer_Write :: "u32 \<Rightarrow> remote_buffer \<Rightarrow> u64 status_or \<times> remote_buffer" where
  "ReverseRemoteBuffer_Write len b =
     (case ReverseRemoteBuffer_GetNextTail len b of
        Inl s \<Rightarrow> (Inl s, b)
      | Inr t \<Rightarrow> (Inr (rm_addr b + ucast t), b\<lparr>rm_tail := t, rm_full := (t = rm_head b)\<rparr>))"

end
