(* ===== verification/Ring_Protocol.thy ===== *)
theory Ring_Protocol
  imports Reverse_Buffer
begin

text \<open>
  One direction of a buffered write connection, seen from its ring buffers: a sender that
  reserves space in its \<open>RemoteBuffer\<close>, a receiver that reads and frees regions of its
  \<open>Buffer\<close> in any order, and head values that travel back to the sender, delayed or lost.
  The abstract specification counts bytes with unbounded positions; the two interfaces are
  locales, and the step of a link refines the step of the specification.
\<close>

section \<open>The interfaces Buffer and RemoteBuffer as tables of operations\<close>

record Buffer_ops =
  b_GetContext :: "ring_buffer \<Rightarrow> BufferContext"
  b_GetReadPtr :: "ring_buffer \<Rightarrow> u64"
  b_GetReadOff :: "ring_buffer \<Rightarrow> u32"
  b_Read :: "u32 \<Rightarrow> ring_buffer \<Rightarrow> u64 \<times> ring_buffer"
  b_Free :: "u64 \<Rightarrow> ring_buffer \<Rightarrow> (u32 \<times> ring_buffer) option"

record RemoteBuffer_ops =
  r_UpdateHead :: "u32 \<Rightarrow> remote_buffer \<Rightarrow> remote_buffer"
  r_GetKey :: "remote_buffer \<Rightarrow> u32"
  r_GetTail :: "remote_buffer \<Rightarrow> u32"
  r_GetWriteAddr :: "u32 \<Rightarrow> remote_buffer \<Rightarrow> u64 status_or"
  r_GetNextTail :: "u32 \<Rightarrow> remote_buffer \<Rightarrow> u32 status_or"
  r_Write :: "u32 \<Rightarrow> remote_buffer \<Rightarrow> u64 status_or \<times> remote_buffer"

definition magic_buffer :: Buffer_ops where
  "magic_buffer = \<lparr>b_GetContext = MagicRingBuffer_GetContext,
     b_GetReadPtr = MagicRingBuffer_GetReadPtr, b_GetReadOff = MagicRingBuffer_GetReadOff,
     b_Read = MagicRingBuffer_Read, b_Free = MagicRingBuffer_Free\<rparr>"

definition magic_remote :: RemoteBuffer_ops where
  "magic_remote = \<lparr>r_UpdateHead = MagicRemoteBuffer_UpdateHead,
     r_GetKey = MagicRemoteBuffer_GetKey, r_GetTail = MagicRemoteBuffer_GetTail,
     r_GetWriteAddr = MagicRemoteBuffer_GetWriteAddr,
     r_GetNextTail = MagicRemoteBuffer_GetNextTail, r_Write = MagicRemoteBuffer_Write\<rparr>"

definition reverse_buffer :: Buffer_ops where
  "reverse_buffer = \<lparr>b_GetContext = ReverseRingBuffer_GetContext,
     b_GetReadPtr = ReverseRingBuffer_GetReadPtr, b_GetReadOff = ReverseRingBuffer_GetReadOff,
     b_Read = ReverseRingBuffer_Read, b_Free = ReverseRingBuffer_Free\<rparr>"

definition reverse_remote :: RemoteBuffer_ops where
  "reverse_remote = \<lparr>r_UpdateHead = ReverseRemoteBuffer_UpdateHead,
     r_GetKey = ReverseRemoteBuffer_GetKey, r_GetTail = ReverseRemoteBuffer_GetTail,
     r_GetWriteAddr = ReverseRemoteBuffer_GetWriteAddr,
     r_GetNextTail = ReverseRemoteBuffer_GetNextTail, r_Write = ReverseRemoteBuffer_Write\<rparr>"

lemma buffer_ops_simps [simp]:
  "b_GetReadOff magic_buffer = MagicRingBuffer_GetReadOff"
  "b_GetReadPtr magic_buffer = MagicRingBuffer_GetReadPtr"
  "b_Read magic_buffer = MagicRingBuffer_Read" "b_Free magic_buffer = MagicRingBuffer_Free"
  "b_GetReadOff reverse_buffer = ReverseRingBuffer_GetReadOff"
  "b_GetReadPtr reverse_buffer = ReverseRingBuffer_GetReadPtr"
  "b_Read reverse_buffer = ReverseRingBuffer_Read" "b_Free reverse_buffer = ReverseRingBuffer_Free"
  "r_UpdateHead magic_remote = MagicRemoteBuffer_UpdateHead"
  "r_GetWriteAddr magic_remote = MagicRemoteBuffer_GetWriteAddr"
  "r_GetNextTail magic_remote = MagicRemoteBuffer_GetNextTail"
  "r_Write magic_remote = MagicRemoteBuffer_Write"
  "r_UpdateHead reverse_remote = ReverseRemoteBuffer_UpdateHead"
  "r_GetWriteAddr reverse_remote = ReverseRemoteBuffer_GetWriteAddr"
  "r_GetNextTail reverse_remote = ReverseRemoteBuffer_GetNextTail"
  "r_Write reverse_remote = ReverseRemoteBuffer_Write"
  by (simp_all add: magic_buffer_def magic_remote_def reverse_buffer_def reverse_remote_def)

section \<open>A link: sender, receiver and what is in transit\<close>

record link =
  l_snd :: remote_buffer
  l_rcv :: ring_buffer
  l_wire :: "(u64 \<times> u32) list"
  l_held :: "(u64 \<times> u32) list"
  l_acks :: "u32 list"

datatype link_event = Send u32 | Receive | FreeRegion nat | Ack | DropAck

text \<open>
  \<open>M\<close> bounds how many received regions the client keeps before it frees one. \<open>None\<close> means
  that the event cannot happen now (no space, nothing to receive, undefined behaviour).
\<close>

fun link_step :: "Buffer_ops \<Rightarrow> RemoteBuffer_ops \<Rightarrow> nat \<Rightarrow> link \<Rightarrow> link_event \<Rightarrow> link option" where
  "link_step bo ro M l (Send len) =
     (case r_Write ro len (l_snd l) of
        (Inl _, _) \<Rightarrow> None
      | (Inr a, s) \<Rightarrow> Some (l\<lparr>l_snd := s, l_wire := l_wire l @ [(a, len)]\<rparr>))"
| "link_step bo ro M l Receive =
     (case l_wire l of
        [] \<Rightarrow> None
      | (_, len) # ws \<Rightarrow>
          if length (l_held l) < M
          then (case b_Read bo len (l_rcv l) of (a, b) \<Rightarrow>
                  Some (l\<lparr>l_rcv := b, l_wire := ws, l_held := l_held l @ [(a, len)]\<rparr>))
          else None)"
| "link_step bo ro M l (FreeRegion i) =
     (if i < length (l_held l)
      then (case b_Free bo (fst (l_held l ! i)) (l_rcv l) of
              None \<Rightarrow> None
            | Some (h, b) \<Rightarrow> Some (l\<lparr>l_rcv := b, l_held := remove_nth i (l_held l),
                                    l_acks := l_acks l @ [h]\<rparr>))
      else None)"
| "link_step bo ro M l Ack =
     (case l_acks l of [] \<Rightarrow> None
      | h # hs \<Rightarrow> Some (l\<lparr>l_snd := r_UpdateHead ro h (l_snd l), l_acks := hs\<rparr>))"
| "link_step bo ro M l DropAck =
     (case l_acks l of [] \<Rightarrow> None | h # hs \<Rightarrow> Some (l\<lparr>l_acks := hs\<rparr>))"

fun link_run :: "Buffer_ops \<Rightarrow> RemoteBuffer_ops \<Rightarrow> nat \<Rightarrow> link \<Rightarrow> link_event list \<Rightarrow> link option" where
  "link_run bo ro M l [] = Some l"
| "link_run bo ro M l (e # es) =
     (case link_step bo ro M l e of None \<Rightarrow> None | Some l' \<Rightarrow> link_run bo ro M l' es)"

text \<open>
  A link right after the connection is set up: the receiver's buffer over a registered region,
  and the sender's view built from the context that was exchanged.
\<close>

definition link_start :: "(ibv_mr \<Rightarrow> ring_buffer) \<Rightarrow> (BufferContext \<Rightarrow> remote_buffer) \<Rightarrow>
    Buffer_ops \<Rightarrow> ibv_mr \<Rightarrow> link" where
  "link_start mk_rcv mk_snd bo mr =
     \<lparr>l_snd = mk_snd (b_GetContext bo (mk_rcv mr)), l_rcv = mk_rcv mr,
      l_wire = [], l_held = [], l_acks = []\<rparr>"

definition magic_link :: "ibv_mr \<Rightarrow> link" where
  "magic_link = link_start MagicRingBuffer MagicRemoteBuffer magic_buffer"

definition reverse_link :: "ibv_mr \<Rightarrow> link" where
  "reverse_link = link_start ReverseRingBuffer ReverseRemoteBuffer reverse_buffer"

text \<open>
  The bytes of the buffer of length \<open>L\<close> at \<open>base\<close> that a region covers: the second mapping
  makes byte \<open>L + i\<close> the byte \<open>i\<close>.
\<close>

definition region_bytes :: "u64 \<Rightarrow> nat \<Rightarrow> u64 \<times> u32 \<Rightarrow> nat set" where
  "region_bytes base L = (\<lambda>(a, len). (\<lambda>i. (unat (a - base) + i) mod L) ` {..<unat len})"

text \<open>Messages shorter than the buffer and not empty.\<close>

fun proper_event :: "nat \<Rightarrow> link_event \<Rightarrow> bool" where
  "proper_event L (Send len) \<longleftrightarrow> 0 < unat len \<and> unat len < L"
| "proper_event L _ \<longleftrightarrow> True"

section \<open>Abstract specification: positions that never wrap\<close>

record ring_spec =
  sp_written :: nat
  sp_read :: nat
  sp_known :: nat
  sp_held :: "(nat \<times> nat) list"
  sp_wire :: "nat list"
  sp_acks :: "nat list"

text \<open>The head: the position of the oldest region the receiver still holds.\<close>

fun head_pos :: "nat \<Rightarrow> (nat \<times> nat) list \<Rightarrow> nat" where
  "head_pos R [] = R"
| "head_pos R ((p, _) # _) = p"

fun spec_step :: "nat \<Rightarrow> nat \<Rightarrow> ring_spec \<Rightarrow> link_event \<Rightarrow> ring_spec option" where
  "spec_step L M s (Send len) =
     (if sp_written s + unat len < sp_known s + L
      then Some (s\<lparr>sp_written := sp_written s + unat len, sp_wire := sp_wire s @ [unat len]\<rparr>)
      else None)"
| "spec_step L M s Receive =
     (case sp_wire s of [] \<Rightarrow> None
      | n # ns \<Rightarrow> if length (sp_held s) < M
          then Some (s\<lparr>sp_read := sp_read s + n, sp_wire := ns,
                       sp_held := sp_held s @ [(sp_read s, n)]\<rparr>)
          else None)"
| "spec_step L M s (FreeRegion i) =
     (if i < length (sp_held s)
      then (let held = remove_nth i (sp_held s) in
            Some (s\<lparr>sp_held := held, sp_acks := sp_acks s @ [head_pos (sp_read s) held]\<rparr>))
      else None)"
| "spec_step L M s Ack =
     (case sp_acks s of [] \<Rightarrow> None | h # hs \<Rightarrow> Some (s\<lparr>sp_known := h, sp_acks := hs\<rparr>))"
| "spec_step L M s DropAck =
     (case sp_acks s of [] \<Rightarrow> None | h # hs \<Rightarrow> Some (s\<lparr>sp_acks := hs\<rparr>))"

fun spec_run :: "nat \<Rightarrow> nat \<Rightarrow> ring_spec \<Rightarrow> link_event list \<Rightarrow> ring_spec option" where
  "spec_run L M s [] = Some s"
| "spec_run L M s (e # es) =
     (case spec_step L M s e of None \<Rightarrow> None | Some s' \<Rightarrow> spec_run L M s' es)"

definition spec_start :: ring_spec where
  "spec_start = \<lparr>sp_written = 0, sp_read = 0, sp_known = 0, sp_held = [], sp_wire = [],
     sp_acks = []\<rparr>"

text \<open>Held regions lie below the read position, in order and apart from each other.\<close>

definition held_ok :: "nat \<Rightarrow> (nat \<times> nat) list \<Rightarrow> bool" where
  "held_ok R held \<longleftrightarrow> sorted_wrt (\<lambda>x y. fst x + snd x \<le> fst y) held \<and>
     (\<forall>x \<in> set held. 0 < snd x \<and> fst x + snd x \<le> R)"

definition spec_inv :: "nat \<Rightarrow> ring_spec \<Rightarrow> bool" where
  "spec_inv L s \<longleftrightarrow>
     held_ok (sp_read s) (sp_held s) \<and>
     sp_written s = sp_read s + sum_list (sp_wire s) \<and> (\<forall>n \<in> set (sp_wire s). 0 < n) \<and>
     sp_written s < sp_known s + L \<and>
     sorted (sp_known s # sp_acks s @ [head_pos (sp_read s) (sp_held s)])"

fun wire_regions :: "nat \<Rightarrow> nat list \<Rightarrow> (nat \<times> nat) list" where
  "wire_regions R [] = []"
| "wire_regions R (n # ns) = (R, n) # wire_regions (R + n) ns"

lemma wire_regions_append [simp]:
  "wire_regions R (xs @ [n]) = wire_regions R xs @ [(R + sum_list xs, n)]"
  by (induction xs arbitrary: R) (auto simp: add.assoc)

lemma wire_regions_bounds:
  "x \<in> set (wire_regions R ns) \<Longrightarrow> R \<le> fst x \<and> fst x + snd x \<le> R + sum_list ns"
proof (induction ns arbitrary: R)
  case (Cons n ns)
  then show ?case by (fastforce simp: add.assoc)
qed simp

lemma head_pos_le: "held_ok R held \<Longrightarrow> head_pos R held \<le> R"
  by (cases held) (auto simp: held_ok_def)

lemma head_pos_member: "held_ok R held \<Longrightarrow> x \<in> set held \<Longrightarrow> head_pos R held \<le> fst x"
  by (cases held) (auto simp: held_ok_def)

lemma held_nth_bounds:
  assumes "held_ok R held" and "j < length held"
  shows "head_pos R held \<le> fst (held ! j)" "fst (held ! j) < R"
proof -
  have m: "held ! j \<in> set held" using assms(2) by simp
  then have "0 < snd (held ! j)" "fst (held ! j) + snd (held ! j) \<le> R"
    using assms(1) by (simp_all add: held_ok_def)
  then show "fst (held ! j) < R" by linarith
  show "head_pos R held \<le> fst (held ! j)" by (rule head_pos_member [OF assms(1) m])
qed

lemma held_nth_less:
  assumes "held_ok R held" and "j < k" and "k < length held"
  shows "fst (held ! j) < fst (held ! k)"
proof -
  have "fst (held ! j) + snd (held ! j) \<le> fst (held ! k)"
    using assms by (auto simp: held_ok_def sorted_wrt_iff_nth_less)
  moreover have "0 < snd (held ! j)" using assms by (auto simp: held_ok_def)
  ultimately show ?thesis by linarith
qed

lemma held_ok_remove: "held_ok R held \<Longrightarrow> held_ok R (remove_nth i held)"
  using set_remove_nth_subset [of i held]
  by (auto simp: held_ok_def intro: sorted_wrt_remove_nth)

lemma head_pos_remove:
  assumes "held_ok R held"
  shows "head_pos R held \<le> head_pos R (remove_nth i held)"
proof (cases "remove_nth i held")
  case Nil
  then show ?thesis using head_pos_le [OF assms] by simp
next
  case (Cons y ys)
  then have "y \<in> set held" using set_remove_nth_subset [of i held] by auto
  then have "head_pos R held \<le> fst y" by (rule head_pos_member [OF assms])
  then show ?thesis unfolding Cons by (cases y) simp
qed

lemma held_ok_snoc:
  "held_ok R held \<Longrightarrow> 0 < n \<Longrightarrow> held_ok (R + n) (held @ [(R, n)])"
  by (auto simp: held_ok_def sorted_wrt_append)

lemma head_pos_snoc [simp]: "head_pos (R + n) (held @ [(R, n)]) = head_pos R held"
  by (cases held) auto

lemma spec_inv_start: "0 < L \<Longrightarrow> spec_inv L spec_start"
  by (simp add: spec_inv_def spec_start_def held_ok_def)

lemma spec_inv_window:
  assumes "spec_inv L s"
  shows "sp_known s \<le> head_pos (sp_read s) (sp_held s)"
    "head_pos (sp_read s) (sp_held s) \<le> sp_read s" "sp_read s \<le> sp_written s"
    "sp_written s < sp_known s + L"
  using assms head_pos_le [of "sp_read s" "sp_held s"] by (auto simp: spec_inv_def)

text \<open>Every step of the specification keeps the invariant.\<close>

lemma spec_inv_step:
  assumes "spec_inv L s" and "proper_event L e" and "spec_step L M s e = Some s'"
  shows "spec_inv L s'"
proof (cases e)
  case (Send len)
  then show ?thesis using assms by (auto simp: spec_inv_def split: if_splits)
next
  case Receive
  then show ?thesis using assms
    by (auto simp: spec_inv_def held_ok_snoc split: list.splits if_splits)
next
  case (FreeRegion i)
  then show ?thesis using assms head_pos_remove [of "sp_read s" "sp_held s" i]
    by (force simp: spec_inv_def held_ok_remove sorted_append Let_def split: if_splits)
next
  case Ack
  then show ?thesis using assms by (auto simp: spec_inv_def split: list.splits)
next
  case DropAck
  then show ?thesis using assms by (auto simp: spec_inv_def split: list.splits)
qed

text \<open>
  As long as no head value is lost, the last one known or in transit is the current head.
\<close>

definition head_in_transit :: "ring_spec \<Rightarrow> bool" where
  "head_in_transit s \<longleftrightarrow> last (sp_known s # sp_acks s) = head_pos (sp_read s) (sp_held s)"

lemma head_in_transit_step:
  assumes "head_in_transit s" and "spec_step L M s e = Some s'" and "e \<noteq> DropAck"
  shows "head_in_transit s'"
  using assms by (cases e) (auto simp: head_in_transit_def Let_def split: list.splits if_splits)

lemma head_in_transit_run:
  "head_in_transit s \<Longrightarrow> spec_run L M s es = Some s' \<Longrightarrow> DropAck \<notin> set es \<Longrightarrow> head_in_transit s'"
proof (induction es arbitrary: s)
  case (Cons e es)
  then show ?case using head_in_transit_step [of s L M e] by (auto split: option.splits)
qed simp

lemma head_in_transit_start: "head_in_transit spec_start"
  by (simp add: head_in_transit_def spec_start_def)

lemma drained_window:
  assumes "head_in_transit s" and "spec_inv L s"
    and "sp_wire s = []" and "sp_held s = []" and "sp_acks s = []"
  shows "sp_known s = sp_written s"
  using assms by (simp add: head_in_transit_def spec_inv_def)

text \<open>
  What the specification guarantees: the bytes a new message takes lie above every region in
  transit or held, and within one buffer length of all of them.
\<close>

definition live_regions :: "ring_spec \<Rightarrow> (nat \<times> nat) list" where
  "live_regions s = sp_held s @ wire_regions (sp_read s) (sp_wire s)"

lemma live_region_bounds:
  assumes "spec_inv L s" and "x \<in> set (live_regions s)"
  shows "sp_known s \<le> fst x" "fst x + snd x \<le> sp_written s"
proof -
  have "head_pos (sp_read s) (sp_held s) \<le> fst x \<and> fst x + snd x \<le> sp_written s"
  proof (cases "x \<in> set (sp_held s)")
    case True
    then show ?thesis using assms(1) head_pos_member [of "sp_read s" "sp_held s" x]
      by (force simp: spec_inv_def held_ok_def)
  next
    case False
    with assms(2) have "x \<in> set (wire_regions (sp_read s) (sp_wire s))"
      by (simp add: live_regions_def)
    from wire_regions_bounds [OF this] show ?thesis
      using assms(1) spec_inv_window [OF assms(1)] by (simp add: spec_inv_def)
  qed
  then show "sp_known s \<le> fst x" "fst x + snd x \<le> sp_written s"
    using spec_inv_window [OF assms(1)] by auto
qed

lemma live_region_pos:
  assumes "spec_inv L s" and "x \<in> set (live_regions s)"
  shows "0 < snd x"
proof -
  have "x \<in> set (wire_regions R ns) \<Longrightarrow> \<forall>n \<in> set ns. 0 < n \<Longrightarrow> 0 < snd x" for R ns
    by (induction ns arbitrary: R) auto
  then show ?thesis using assms by (auto simp: live_regions_def spec_inv_def held_ok_def)
qed

section \<open>The contract of a RemoteBuffer\<close>

text \<open>
  \<open>srep s W S\<close>: the sender has reserved \<open>W\<close> bytes in all and knows that the head is at \<open>S\<close>.
  \<open>enc\<close> encodes a position as an offset on the wire, \<open>loc p n\<close> is the address of the message
  of \<open>n\<close> bytes at position \<open>p\<close>.
\<close>

locale remote_contract =
  fixes ro :: RemoteBuffer_ops and L :: nat
    and enc :: "nat \<Rightarrow> u32" and loc :: "nat \<Rightarrow> nat \<Rightarrow> u64"
    and srep :: "remote_buffer \<Rightarrow> nat \<Rightarrow> nat \<Rightarrow> bool"
  assumes srep_window: "srep s W S \<Longrightarrow> S \<le> W \<and> W < S + L"
    and write_room: "srep s W S \<Longrightarrow> 0 < unat len \<Longrightarrow> W + unat len < S + L \<Longrightarrow>
      \<exists>s'. r_Write ro len s = (Inr (loc W (unat len)), s') \<and> srep s' (W + unat len) S"
    and write_full: "srep s W S \<Longrightarrow> 0 < unat len \<Longrightarrow> unat len < L \<Longrightarrow> S + L \<le> W + unat len \<Longrightarrow>
      \<exists>e. r_Write ro len s = (Inl e, s)"
    and update_head: "srep s W S \<Longrightarrow> S \<le> H \<Longrightarrow> H \<le> W \<Longrightarrow> srep (r_UpdateHead ro (enc H) s) W H"
    and write_addr: "fst (r_Write ro len s) = r_GetWriteAddr ro len s"

section \<open>The contract of a Buffer\<close>

text \<open>
  \<open>rrep b R held\<close>: the receiver has read \<open>R\<close> bytes and holds the regions \<open>held\<close>. At most \<open>M\<close>
  regions are held at a time.
\<close>

locale buffer_contract =
  fixes bo :: Buffer_ops and L :: nat and M :: nat
    and enc :: "nat \<Rightarrow> u32" and loc :: "nat \<Rightarrow> nat \<Rightarrow> u64"
    and rrep :: "ring_buffer \<Rightarrow> nat \<Rightarrow> (nat \<times> nat) list \<Rightarrow> bool"
  assumes read_region: "rrep b R held \<Longrightarrow> held_ok R held \<Longrightarrow> length held < M \<Longrightarrow> 0 < unat len \<Longrightarrow>
      R + unat len < head_pos R held + L \<Longrightarrow>
      \<exists>b'. b_Read bo len b = (loc R (unat len), b') \<and>
           rrep b' (R + unat len) (held @ [(R, unat len)])"
    and free_region: "rrep b R held \<Longrightarrow> held_ok R held \<Longrightarrow> length held \<le> M \<Longrightarrow>
      R < head_pos R held + L \<Longrightarrow> i < length held \<Longrightarrow>
      \<exists>b'. b_Free bo (loc (fst (held ! i)) (snd (held ! i))) b =
             Some (enc (head_pos R (remove_nth i held)), b') \<and> rrep b' R (remove_nth i held)"

section \<open>A link over the two contracts\<close>

text \<open>
  \<open>cell\<close> is the physical byte of a position. Positions less than a buffer length apart have
  different cells, and a message covers the cells of its positions.
\<close>

locale ring_link = remote_contract ro L enc loc srep + buffer_contract bo L M enc loc rrep
  for ro bo L M enc loc srep rrep +
  fixes base :: u64 and cell :: "nat \<Rightarrow> nat"
  assumes cell_inj: "p < q + L \<Longrightarrow> q < p + L \<Longrightarrow> cell p = cell q \<Longrightarrow> p = q"
    and region_cells: "srep s W S \<Longrightarrow> 0 < unat n \<Longrightarrow> unat n < L \<Longrightarrow>
      region_bytes base L (loc p (unat n), n) = cell ` {p..<p + unat n}"
begin

definition place :: "nat \<times> nat \<Rightarrow> u64 \<times> u32" where
  "place x = (loc (fst x) (snd x), word_of_nat (snd x))"

definition link_rel :: "link \<Rightarrow> ring_spec \<Rightarrow> bool" where
  "link_rel l s \<longleftrightarrow>
     srep (l_snd l) (sp_written s) (sp_known s) \<and>
     rrep (l_rcv l) (sp_read s) (sp_held s) \<and> length (sp_held s) \<le> M \<and>
     (\<forall>x \<in> set (live_regions s). snd x < 4294967296) \<and>
     l_held l = map place (sp_held s) \<and>
     l_wire l = map place (wire_regions (sp_read s) (sp_wire s)) \<and>
     l_acks l = map enc (sp_acks s)"

lemma place_unat: "snd x < 4294967296 \<Longrightarrow> unat (snd (place x)) = snd x"
  by (simp add: place_def unat32_of_nat)

lemma place_word [simp]: "place (p, unat n) = (loc p (unat n), n)"
  by (simp add: place_def)

lemma link_send:
  assumes "link_rel l s" and "spec_inv L s" and "0 < unat len" and "unat len < L"
  shows "rel_option link_rel (link_step bo ro M l (Send len)) (spec_step L M s (Send len))"
proof (cases "sp_written s + unat len < sp_known s + L")
  case True
  from assms(1) have "srep (l_snd l) (sp_written s) (sp_known s)" by (simp add: link_rel_def)
  from write_room [OF this assms(3) True] obtain s' where
    "r_Write ro len (l_snd l) = (Inr (loc (sp_written s) (unat len)), s')"
    "srep s' (sp_written s + unat len) (sp_known s)" by blast
  moreover have "sp_written s = sp_read s + sum_list (sp_wire s)"
    using assms(2) by (simp add: spec_inv_def)
  ultimately show ?thesis
    using assms(1) True unat32_lt [of len] by (auto simp: link_rel_def live_regions_def)
next
  case False
  from assms(1) have "srep (l_snd l) (sp_written s) (sp_known s)" by (simp add: link_rel_def)
  from write_full [OF this assms(3,4)] False obtain e where
    "r_Write ro len (l_snd l) = (Inl e, l_snd l)" by (meson not_less)
  with False show ?thesis by simp
qed

lemma link_receive:
  assumes "link_rel l s" and "spec_inv L s"
  shows "rel_option link_rel (link_step bo ro M l Receive) (spec_step L M s Receive)"
proof (cases "sp_wire s")
  case Nil
  then show ?thesis using assms(1) by (simp add: link_rel_def)
next
  case (Cons n ns)
  let ?n = "word_of_nat n :: u32"
  from assms(1) Cons have lt: "n < 4294967296" by (auto simp: link_rel_def live_regions_def)
  then have n: "unat ?n = n" by (rule unat32_of_nat)
  from assms(2) Cons have pos: "0 < n" "held_ok (sp_read s) (sp_held s)"
    and win: "sp_read s + n < head_pos (sp_read s) (sp_held s) + L"
    using spec_inv_window [OF assms(2)] by (auto simp: spec_inv_def)
  show ?thesis
  proof (cases "length (sp_held s) < M")
    case True
    have "rrep (l_rcv l) (sp_read s) (sp_held s)" using assms(1) by (simp add: link_rel_def)
    from read_region [OF this pos(2) True, of ?n] obtain b' where
      "b_Read bo ?n (l_rcv l) = (loc (sp_read s) n, b')"
      "rrep b' (sp_read s + n) (sp_held s @ [(sp_read s, n)])"
      using pos win n by auto
    then show ?thesis using assms(1) Cons True lt
      by (auto simp: link_rel_def live_regions_def place_def)
  next
    case False
    then show ?thesis using assms(1) Cons by (simp add: link_rel_def place_def)
  qed
qed

lemma link_free:
  assumes "link_rel l s" and "spec_inv L s"
  shows "rel_option link_rel (link_step bo ro M l (FreeRegion i)) (spec_step L M s (FreeRegion i))"
proof (cases "i < length (sp_held s)")
  case True
  have r: "rrep (l_rcv l) (sp_read s) (sp_held s)" "length (sp_held s) \<le> M"
    using assms(1) by (simp_all add: link_rel_def)
  have h: "held_ok (sp_read s) (sp_held s)" using assms(2) by (simp add: spec_inv_def)
  have "sp_read s < head_pos (sp_read s) (sp_held s) + L"
    using spec_inv_window [OF assms(2)] by simp
  from free_region [OF r(1) h r(2) this True] obtain b' where
    "b_Free bo (loc (fst (sp_held s ! i)) (snd (sp_held s ! i))) (l_rcv l) =
       Some (enc (head_pos (sp_read s) (remove_nth i (sp_held s))), b')"
    "rrep b' (sp_read s) (remove_nth i (sp_held s))" by blast
  moreover have "length (remove_nth i (sp_held s)) \<le> M" using r(2) True by simp
  ultimately show ?thesis
    using assms(1) True set_remove_nth_subset [of i "sp_held s"]
    by (auto simp: link_rel_def place_def Let_def map_remove_nth live_regions_def)
next
  case False
  then show ?thesis using assms(1) by (simp add: link_rel_def)
qed

lemma link_ack:
  assumes "link_rel l s" and "spec_inv L s" and "e = Ack \<or> e = DropAck"
  shows "rel_option link_rel (link_step bo ro M l e) (spec_step L M s e)"
proof (cases "sp_acks s")
  case Nil
  then show ?thesis using assms(1,3) by (auto simp: link_rel_def)
next
  case (Cons h hs)
  with assms(2) have "sp_known s \<le> h" "h \<le> sp_written s"
    using spec_inv_window [OF assms(2)] by (auto simp: spec_inv_def)
  moreover have "srep (l_snd l) (sp_written s) (sp_known s)"
    using assms(1) by (simp add: link_rel_def)
  ultimately have "srep (r_UpdateHead ro (enc h) (l_snd l)) (sp_written s) h"
    by (blast intro: update_head)
  then show ?thesis using assms(1,3) Cons by (auto simp: link_rel_def live_regions_def)
qed

lemma link_refines:
  assumes "link_rel l s" and "spec_inv L s" and "proper_event L e"
  shows "rel_option link_rel (link_step bo ro M l e) (spec_step L M s e)"
proof (cases e)
  case (Send len)
  then show ?thesis using link_send [OF assms(1,2), of len] assms(3) by simp
next
  case Receive
  then show ?thesis using link_receive [OF assms(1,2)] by simp
next
  case (FreeRegion i)
  then show ?thesis using link_free [OF assms(1,2), of i] by simp
qed (simp_all only: link_ack [OF assms(1,2)] simp_thms)

lemma link_run_refines:
  assumes "link_rel l s" and "spec_inv L s" and "\<forall>e \<in> set es. proper_event L e"
  shows "rel_option (\<lambda>l s. link_rel l s \<and> spec_inv L s)
    (link_run bo ro M l es) (spec_run L M s es)"
  using assms
proof (induction es arbitrary: l s)
  case (Cons e es)
  have step: "rel_option link_rel (link_step bo ro M l e) (spec_step L M s e)"
    using Cons.prems by (intro link_refines) auto
  show ?case
  proof (cases "spec_step L M s e")
    case None
    then show ?thesis using step by simp
  next
    case (Some s1)
    with step obtain l1 where l1: "link_step bo ro M l e = Some l1" "link_rel l1 s1"
      by (auto simp: option_rel_Some2)
    have "spec_inv L s1" using Cons.prems(2,3) Some by (auto intro: spec_inv_step)
    then show ?thesis using Cons.IH [OF l1(2)] Cons.prems(3) Some l1(1) by simp
  qed
qed simp

lemma link_run_spec:
  assumes "link_rel l s" and "spec_inv L s" and "\<forall>e \<in> set es. proper_event L e"
    and "link_run bo ro M l es = Some l'"
  obtains s' where "spec_run L M s es = Some s'" "link_rel l' s'" "spec_inv L s'"
  using link_run_refines [OF assms(1-3)] assms(4) by (auto simp: option_rel_Some1)

text \<open>The bytes a new message takes are bytes of no region in transit or held.\<close>

lemma link_no_overwrite:
  assumes rel: "link_rel l s" and inv: "spec_inv L s" and len: "0 < unat len" "unat len < L"
    and wr: "r_Write ro len (l_snd l) = (Inr a, s')"
    and x: "x \<in> set (l_held l) \<union> set (l_wire l)"
  shows "region_bytes base L (a, len) \<inter> region_bytes base L x = {}"
proof -
  have sr: "srep (l_snd l) (sp_written s) (sp_known s)" using rel by (simp add: link_rel_def)
  have room: "sp_written s + unat len < sp_known s + L"
    using write_full [OF sr len] wr by (metis Inr_Inl_False Pair_inject not_less)
  with write_room [OF sr len(1)] wr have a: "a = loc (sp_written s) (unat len)" by auto
  from x rel obtain y where y: "x = place y" "y \<in> set (live_regions s)"
    by (auto simp: link_rel_def live_regions_def)
  note yb = live_region_bounds [OF inv y(2)]
  have ylt: "snd y < 4294967296" using rel y(2) by (auto simp: link_rel_def)
  have ypos: "0 < snd y" by (rule live_region_pos [OF inv y(2)])
  have yL: "snd y < L" using yb room by linarith
  have xy: "region_bytes base L x = cell ` {fst y..<fst y + snd y}"
    using region_cells [OF sr, of "word_of_nat (snd y)" "fst y"] ylt ypos yL
    by (simp add: y(1) place_def unat32_of_nat)
  have new: "region_bytes base L (a, len) = cell ` {sp_written s..<sp_written s + unat len}"
    unfolding a by (rule region_cells [OF sr len])
  have "cell q \<noteq> cell r" if "sp_written s \<le> q" "q < sp_written s + unat len"
    "fst y \<le> r" "r < fst y + snd y" for q r
    using that yb room cell_inj [of q r] by force
  then show ?thesis unfolding xy new by force
qed

text \<open>A received region is the region the sender wrote, in order.\<close>

lemma link_fifo:
  assumes "link_rel l s" and "spec_inv L s" and "link_step bo ro M l Receive = Some l'"
  shows "\<exists>x ws. l_wire l = x # ws \<and> l_wire l' = ws \<and> l_held l' = l_held l @ [x]"
proof -
  from link_receive [OF assms(1,2)] assms(3) obtain s' where
    s': "spec_step L M s Receive = Some s'" "link_rel l' s'" by (auto simp: option_rel_Some1)
  then show ?thesis using assms(1)
    by (auto simp: link_rel_def split: list.splits if_splits)
qed

text \<open>Freeing a held region is always defined.\<close>

lemma link_free_defined:
  assumes "link_rel l s" and "spec_inv L s" and "i < length (l_held l)"
  shows "link_step bo ro M l (FreeRegion i) \<noteq> None"
proof -
  have "i < length (sp_held s)" using assms(1,3) by (simp add: link_rel_def)
  then show ?thesis using link_free [OF assms(1,2), of i]
    by (auto simp: Let_def option_rel_Some2 simp del: link_step.simps)
qed

text \<open>With everything received, freed and acknowledged, a message has room.\<close>

lemma link_drained_accepts:
  assumes "link_rel l s" and "spec_inv L s" and "head_in_transit s"
    and "l_wire l = []" and "l_held l = []" and "l_acks l = []" and "0 < unat len" and "unat len < L"
  shows "\<exists>a s'. r_Write ro len (l_snd l) = (Inr a, s')"
proof -
  have "sp_wire s = []" using assms(1,4) by (cases "sp_wire s") (auto simp: link_rel_def)
  then have "sp_known s = sp_written s"
    using assms by (intro drained_window) (auto simp: link_rel_def)
  then show ?thesis
    using assms(1,7,8) write_room [of "l_snd l" "sp_written s" "sp_known s" len]
    by (auto simp: link_rel_def)
qed

end

end
