(* ===== verification/Magic_Link.thy ===== *)
theory Magic_Link
  imports Ring_Protocol
begin

text \<open>
  The magic ring buffer keeps the contracts of \<open>Buffer\<close> and \<open>RemoteBuffer\<close>: position \<open>p\<close> is the
  offset \<open>p mod length_\<close>, any number of received regions may be held and freed in any order.
  The properties of a link over it follow, and the two uses the code does not survive: a
  message of the whole buffer, and an empty one.
\<close>

section \<open>Positions and representation\<close>

definition magic_enc :: "u32 \<Rightarrow> nat \<Rightarrow> u32" where
  "magic_enc Lw p = word_of_nat (p mod unat Lw)"

definition magic_loc :: "u64 \<Rightarrow> u32 \<Rightarrow> nat \<Rightarrow> nat \<Rightarrow> u64" where
  "magic_loc base Lw p n = base + ucast (magic_enc Lw p)"

text \<open>
  Half of the range of \<open>uint32_t\<close> is the largest buffer: beyond it \<open>tail_ + len\<close> wraps.
\<close>

definition ring_size_ok :: "u32 \<Rightarrow> bool" where
  "ring_size_ok Lw \<longleftrightarrow> 0 < unat Lw \<and> unat Lw \<le> 2147483648"

definition magic_srep :: "u64 \<Rightarrow> u32 \<Rightarrow> remote_buffer \<Rightarrow> nat \<Rightarrow> nat \<Rightarrow> bool" where
  "magic_srep base Lw s W S \<longleftrightarrow> ring_size_ok Lw \<and> rm_addr s = base \<and> rm_length s = Lw \<and>
     rm_tail s = magic_enc Lw W \<and> rm_head s = magic_enc Lw S \<and> \<not> rm_full s \<and>
     S \<le> W \<and> W < S + unat Lw"

definition magic_rrep :: "u64 \<Rightarrow> u32 \<Rightarrow> ring_buffer \<Rightarrow> nat \<Rightarrow> (nat \<times> nat) list \<Rightarrow> bool" where
  "magic_rrep base Lw b R held \<longleftrightarrow> ring_size_ok Lw \<and> rb_addr b = base \<and> rb_length b = Lw \<and>
     rb_read_ptr b = magic_enc Lw R \<and> rb_outstanding b = map (\<lambda>x. magic_enc Lw (fst x)) held \<and>
     rb_head b = magic_enc Lw (head_pos R held)"

lemma unat_magic_enc: "ring_size_ok Lw \<Longrightarrow> unat (magic_enc Lw p) = p mod unat Lw"
  by (simp add: magic_enc_def ring_size_ok_def unat32_of_nat
      order_less_trans [OF mod_less_divisor unat32_lt])

lemma magic_enc_eq:
  "ring_size_ok Lw \<Longrightarrow> magic_enc Lw p = magic_enc Lw q \<longleftrightarrow> p mod unat Lw = q mod unat Lw"
  using unat_magic_enc by (metis magic_enc_def)

lemma magic_enc_inj:
  "ring_size_ok Lw \<Longrightarrow> p < q + unat Lw \<Longrightarrow> q < p + unat Lw \<Longrightarrow>
   magic_enc Lw p = magic_enc Lw q \<longleftrightarrow> p = q"
  using magic_enc_eq mod_window_inj' by blast

lemma magic_enc_add:
  assumes "ring_size_ok Lw" and "unat len \<le> unat Lw"
  shows "(magic_enc Lw p + len) mod Lw = magic_enc Lw (p + unat len)"
proof -
  have "p mod unat Lw < unat Lw" using assms by (simp add: ring_size_ok_def)
  then have "unat (magic_enc Lw p) + unat len < 4294967296"
    using assms by (simp add: unat_magic_enc ring_size_ok_def)
  then have "unat (magic_enc Lw p + len) = p mod unat Lw + unat len"
    using assms by (simp add: unat32_add unat_magic_enc)
  then have "unat ((magic_enc Lw p + len) mod Lw) = (p + unat len) mod unat Lw"
    by (simp add: unat_mod_distrib mod_add_left_eq)
  then show ?thesis using assms(1) by (simp add: word_unat_eq_iff unat_magic_enc)
qed

text \<open>The distance between two positions in a window, from their offsets.\<close>

lemma window_distance:
  fixes W S L :: nat
  assumes "S \<le> W" and "W < S + L"
  shows "W - S = (if S mod L \<le> W mod L then W mod L - S mod L else L - S mod L + W mod L)"
proof -
  obtain k where k: "W = S + k" "k < L" using assms by (metis le_add_diff_inverse less_diff_conv2 add.commute)
  have "S mod L < L" using k by simp
  then show ?thesis using k mod_add_wrap [OF k(2), of S] by auto
qed

lemma magic_write_addr_iff:
  assumes rep: "magic_srep base Lw s W S" and len: "0 < unat len" "unat len < unat Lw"
  shows "MagicRemoteBuffer_GetWriteAddr len s =
    (if W + unat len < S + unat Lw then Inr (magic_loc base Lw W (unat len))
     else Inl (Status Unknown ''not enough free space for message''))"
proof -
  note r = rep [unfolded magic_srep_def]
  let ?L = "unat Lw" and ?t = "W mod unat Lw" and ?h = "S mod unat Lw"
  have t: "unat (rm_tail s) = ?t" "unat (rm_head s) = ?h" "unat (rm_length s) = ?L"
    using r by (simp_all add: unat_magic_enc)
  have lt: "?t < ?L" "?h < ?L" using r by (simp_all add: ring_size_ok_def)
  have d: "W - S = (if ?h \<le> ?t then ?t - ?h else ?L - ?h + ?t)"
    using r by (intro window_distance) auto
  have L: "?L \<le> 2147483648" using r by (simp add: ring_size_ok_def)
  have f: "unat ((rm_length s - rm_tail s) + rm_head s) = ?L - ?t + ?h" if "?h < ?t"
    using that t lt L by (subst unat32_add) (simp_all add: unat_sub_le)
  have g: "unat (rm_head s - rm_tail s) = ?h - ?t" if "?t < ?h"
    using that t by (simp add: unat_sub_le)
  have eq: "rm_head s = rm_tail s \<longleftrightarrow> ?h = ?t" using t by (simp add: word_unat_eq_iff)
  have cmp: "rm_head s < rm_tail s \<longleftrightarrow> ?h < ?t" "rm_tail s < rm_head s \<longleftrightarrow> ?t < ?h"
    "rm_length s < len \<longleftrightarrow> ?L < unat len"
    using t by (simp_all add: word_less_nat_alt)
  consider "?h = ?t" | "?h < ?t" | "?t < ?h" by linarith
  then show ?thesis
  proof cases
    case 1
    then have "W = S" using d r by simp
    with 1 show ?thesis using r len eq cmp
      by (simp add: MagicRemoteBuffer_GetWriteAddr_def magic_loc_def)
  next
    case 2
    have "(rm_length s - rm_tail s) + rm_head s \<le> len \<longleftrightarrow> ?L - ?t + ?h \<le> unat len"
      using f [OF 2] by (simp add: word_le_nat_alt)
    moreover have "W - S = ?t - ?h" using 2 d by simp
    then have "?L - ?t + ?h \<le> unat len \<longleftrightarrow> \<not> W + unat len < S + ?L"
      using 2 r lt by linarith
    ultimately show ?thesis using 2 r eq cmp
      by (simp add: MagicRemoteBuffer_GetWriteAddr_def magic_loc_def)
  next
    case 3
    have "rm_head s - rm_tail s \<le> len \<longleftrightarrow> ?h - ?t \<le> unat len"
      using g [OF 3] by (simp add: word_le_nat_alt)
    moreover have "W - S = ?L - ?h + ?t" using 3 d by simp
    then have "?h - ?t \<le> unat len \<longleftrightarrow> \<not> W + unat len < S + ?L"
      using 3 r lt by linarith
    ultimately show ?thesis using 3 r eq cmp
      by (simp add: MagicRemoteBuffer_GetWriteAddr_def magic_loc_def)
  qed
qed

lemma magic_write_room:
  assumes rep: "magic_srep base Lw s W S" and len: "0 < unat len"
    and room: "W + unat len < S + unat Lw"
  shows "\<exists>s'. MagicRemoteBuffer_Write len s = (Inr (magic_loc base Lw W (unat len)), s') \<and>
              magic_srep base Lw s' (W + unat len) S"
proof -
  note r = rep [unfolded magic_srep_def]
  have lt: "unat len < unat Lw" using r room by simp
  have addr: "MagicRemoteBuffer_GetWriteAddr len s = Inr (magic_loc base Lw W (unat len))"
    using magic_write_addr_iff [OF rep len lt] room by simp
  have tail: "(rm_tail s + len) mod rm_length s = magic_enc Lw (W + unat len)"
    using r lt by (simp add: magic_enc_add)
  have "magic_enc Lw (W + unat len) \<noteq> magic_enc Lw S"
    using r room len magic_enc_inj [of Lw "W + unat len" S] by auto
  then show ?thesis
    using r room addr tail by (simp add: MagicRemoteBuffer_Write_def magic_srep_def)
qed

lemma magic_region:
  assumes "0 < unat Lw"
  shows "region_bytes base (unat Lw) (magic_loc base Lw p (unat n), n) =
         (\<lambda>q. q mod unat Lw) ` {p..<p + unat n}"
proof -
  have "p mod unat Lw < unat Lw" using assms by simp
  then have "p mod unat Lw < 4294967296" using unat32_lt [of Lw] by linarith
  then have "unat (magic_loc base Lw p (unat n) - base) = p mod unat Lw"
    by (simp add: magic_loc_def magic_enc_def unat32_of_nat)
  then have "region_bytes base (unat Lw) (magic_loc base Lw p (unat n), n) =
     (\<lambda>q. q mod unat Lw) ` ((\<lambda>i. p + i) ` {..<unat n})"
    by (simp add: region_bytes_def image_image mod_add_left_eq)
  then show ?thesis by (simp add: image_add_atLeastLessThan lessThan_atLeast0 add.commute)
qed

section \<open>The contracts\<close>

lemma magic_free:
  assumes rep: "magic_rrep base Lw b R held" and h: "held_ok R held"
    and win: "R < head_pos R held + unat Lw" and i: "i < length held"
  shows "\<exists>b'. MagicRingBuffer_Free (magic_loc base Lw (fst (held ! i)) n) b =
           Some (magic_enc Lw (head_pos R (remove_nth i held)), b') \<and>
         magic_rrep base Lw b' R (remove_nth i held)"
proof -
  note r = rep [unfolded magic_rrep_def]
  let ?e = "\<lambda>x :: nat \<times> nat. magic_enc Lw (fst x)"
  have dist: "distinct (map ?e held)"
    unfolding distinct_conv_nth
  proof (intro allI impI)
    fix j k assume jk: "j < length (map ?e held)" "k < length (map ?e held)" "j \<noteq> k"
    let ?p = "fst (held ! j)" and ?q = "fst (held ! k)"
    have b: "head_pos R held \<le> ?p" "?p < R" "head_pos R held \<le> ?q" "?q < R"
      using jk held_nth_bounds [OF h] by simp_all
    have "?p \<noteq> ?q"
      using jk held_nth_less [OF h, of j k] held_nth_less [OF h, of k j]
      by (cases "j < k") auto
    then show "map ?e held ! j \<noteq> map ?e held ! k"
      using jk b win r magic_enc_inj [of Lw ?p ?q] by simp
  qed
  have start: "(ucast (magic_loc base Lw (fst (held ! i)) n - rb_addr b) :: u32) = ?e (held ! i)"
    using r by (simp add: magic_loc_def)
  obtain f rest where fr: "held = f # rest" using i by (cases held) auto
  have rem: "removeAll (?e (held ! i)) (rb_outstanding b) = map ?e (remove_nth i held)"
    using removeAll_nth_distinct [OF dist, of i] i r by (simp add: map_remove_nth)
  have first: "?e (held ! i) = ?e f \<longleftrightarrow> i = 0"
    using distinct_nth_hd_iff [of "?e f" "map ?e rest" i] dist i fr by auto
  show ?thesis
  proof (cases i)
    case 0
    have "(case map ?e rest of [] \<Rightarrow> rb_read_ptr b | nxt # _ \<Rightarrow> nxt) = magic_enc Lw (head_pos R rest)"
      using r by (cases rest) auto
    then show ?thesis
      using r start rem 0 fr
      by (auto simp: MagicRingBuffer_Free_def magic_rrep_def Let_def simp del: map_eq_Cons_conv)
  next
    case (Suc j)
    then have hp: "head_pos R (remove_nth i held) = head_pos R held" using fr by (cases f) simp
    from Suc first have "?e (held ! i) \<noteq> ?e f" by simp
    then show ?thesis
      using r start rem fr hp
      by (auto simp: MagicRingBuffer_Free_def magic_rrep_def Let_def)
  qed
qed

interpretation magic: ring_link magic_remote magic_buffer "unat Lw" M "magic_enc Lw"
    "magic_loc base Lw" "magic_srep base Lw" "magic_rrep base Lw" base "\<lambda>p. p mod unat Lw"
  for base Lw M
proof (unfold_locales, goal_cases)
  case (1 s W S) then show ?case by (simp add: magic_srep_def)
next
  case (2 s W S len) then show ?case by (simp add: magic_write_room)
next
  case (3 s W S len) then show ?case
    using magic_write_addr_iff [of base Lw s W S len] by (simp add: MagicRemoteBuffer_Write_def)
next
  case (4 s W S H) then show ?case
    by (auto simp: magic_srep_def MagicRemoteBuffer_UpdateHead_def)
next
  case (5 len s) then show ?case by (simp add: MagicRemoteBuffer_Write_def Let_def split: sum.split)
next
  case (6 b R held len)
  then have "unat len \<le> unat Lw" using head_pos_le [of R held] by linarith
  with 6 show ?case
    by (auto simp: MagicRingBuffer_Read_def magic_rrep_def magic_loc_def magic_enc_add Let_def)
next
  case (7 b R held i) then show ?case using magic_free by simp
next
  case (8 p q) then show ?case using mod_window_inj' by blast
next
  case (9 s W S n p) then show ?case by (intro magic_region) linarith
qed

section \<open>A link from its start\<close>

text \<open>The length a registered region gives to the buffer: half of it, as a \<open>uint32_t\<close>.\<close>

definition ring_length :: "ibv_mr \<Rightarrow> u32" where
  "ring_length mr = ucast (mr_length mr div 2)"

lemma magic_link_start:
  assumes "ring_size_ok (ring_length mr)"
  shows "magic.link_rel M (ring_length mr) (mr_addr mr) (magic_link mr) spec_start"
  using assms
  by (simp add: magic.link_rel_def magic_link_def link_start_def spec_start_def live_regions_def
      magic_srep_def magic_rrep_def magic_buffer_def MagicRingBuffer_def MagicRemoteBuffer_def
      MagicRingBuffer_GetContext_def ring_length_def magic_enc_def ring_size_ok_def)

lemma magic_link_run:
  assumes "ring_size_ok (ring_length mr)"
    and "\<forall>e \<in> set es. proper_event (unat (ring_length mr)) e"
    and "link_run magic_buffer magic_remote M (magic_link mr) es = Some l"
  obtains s where "spec_run (unat (ring_length mr)) M spec_start es = Some s"
    "magic.link_rel M (ring_length mr) (mr_addr mr) l s" "spec_inv (unat (ring_length mr)) s"
  using magic.link_run_spec [OF magic_link_start [OF assms(1)] spec_inv_start assms(2,3)] assms(1)
  by (auto simp: ring_size_ok_def)

section \<open>Properties of the magic ring buffer\<close>

text \<open>
  C1: Whatever the sender and the receiver of a magic ring buffer did before (sends of messages
  shorter than the buffer, receives, frees in any order, heads delayed or lost), the bytes of
  the next message the sender may write are bytes of no message that is in transit or that the
  receiver still holds.
\<close>

theorem magic_no_overwrite:
  assumes "ring_size_ok (ring_length mr)"
    and "\<forall>e \<in> set es. proper_event (unat (ring_length mr)) e"
    and "link_run magic_buffer magic_remote M (magic_link mr) es = Some l"
    and "0 < unat len" and "unat len < unat (ring_length mr)"
    and "MagicRemoteBuffer_Write len (l_snd l) = (Inr a, s')"
    and "x \<in> set (l_held l) \<union> set (l_wire l)"
  shows "region_bytes (mr_addr mr) (unat (ring_length mr)) (a, len) \<inter>
         region_bytes (mr_addr mr) (unat (ring_length mr)) x = {}"
proof -
  from assms(1-3) obtain s where
    "magic.link_rel M (ring_length mr) (mr_addr mr) l s" "spec_inv (unat (ring_length mr)) s"
    by (rule magic_link_run)
  from magic.link_no_overwrite [OF this assms(4,5)] assms(6,7) show ?thesis by simp
qed

definition demo_mr :: ibv_mr where
  "demo_mr = \<lparr>mr_addr = 4096, mr_length = 128, mr_lkey = 7\<rparr>"

definition demo_events :: "link_event list" where
  "demo_events = [Send 40, Send 20, Receive, Receive, FreeRegion 0, Ack]"

lemma demo_ring: "ring_size_ok (ring_length demo_mr)" "unat (ring_length demo_mr) = 64"
  by (simp_all add: ring_size_ok_def ring_length_def demo_mr_def)

definition demo_link :: link where
  "demo_link = the (link_run magic_buffer magic_remote 2 (magic_link demo_mr) demo_events)"

lemma demo_run:
  "link_run magic_buffer magic_remote 2 (magic_link demo_mr) demo_events = Some demo_link"
  "MagicRemoteBuffer_Write 30 (l_snd demo_link) =
     (Inr 4156, (l_snd demo_link)\<lparr>rm_tail := 26, rm_full := False\<rparr>)"
  "l_held demo_link = [(4136, 20)]" "l_wire demo_link = []"
  by code_simp+

lemma demo_proper: "\<forall>e \<in> set demo_events. proper_event (unat (ring_length demo_mr)) e"
  by (simp add: demo_events_def demo_ring)

theorem magic_no_overwrite_witness:
  "region_bytes (mr_addr demo_mr) (unat (ring_length demo_mr)) (4156, 30) \<inter>
   region_bytes (mr_addr demo_mr) (unat (ring_length demo_mr)) (4136, 20) = {}"
  using magic_no_overwrite [OF demo_ring(1) demo_proper demo_run(1), of 30] demo_run(2,3,4)
  by (simp add: demo_ring(2))

text \<open>
  C3: A receive hands out exactly the region (address and length) of the oldest message the
  sender wrote and the receiver has not read: messages arrive in order, none is skipped.
\<close>

theorem magic_fifo:
  assumes "ring_size_ok (ring_length mr)"
    and "\<forall>e \<in> set es. proper_event (unat (ring_length mr)) e"
    and "link_run magic_buffer magic_remote M (magic_link mr) es = Some l"
    and "link_step magic_buffer magic_remote M l Receive = Some l'"
  shows "\<exists>x ws. l_wire l = x # ws \<and> l_wire l' = ws \<and> l_held l' = l_held l @ [x]"
proof -
  from assms(1-3) obtain s where
    "magic.link_rel M (ring_length mr) (mr_addr mr) l s" "spec_inv (unat (ring_length mr)) s"
    by (rule magic_link_run)
  from magic.link_fifo [OF this assms(4)] show ?thesis .
qed

theorem magic_fifo_witness:
  "\<exists>x ws. l_wire (the (link_run magic_buffer magic_remote 2 (magic_link demo_mr) [Send 40])) = x # ws"
proof -
  let ?l = "the (link_run magic_buffer magic_remote 2 (magic_link demo_mr) [Send 40])"
  have run: "link_run magic_buffer magic_remote 2 (magic_link demo_mr) [Send 40] = Some ?l"
    by code_simp
  have "link_step magic_buffer magic_remote 2 ?l Receive \<noteq> None" by code_simp
  then obtain l' where "link_step magic_buffer magic_remote 2 ?l Receive = Some l'" by blast
  from magic_fifo [OF demo_ring(1) _ run this] show ?thesis by (auto simp: demo_ring)
qed

text \<open>
  C2: The word arithmetic of the two classes accepts exactly what counting bytes with unbounded
  integers accepts: a sequence of events runs on the link if and only if it runs on the
  specification, in which a message of \<open>len\<close> bytes has room when the bytes written plus
  \<open>len\<close> stay below the known head plus the buffer length.
\<close>

theorem magic_refines_counting:
  assumes "ring_size_ok (ring_length mr)"
    and "\<forall>e \<in> set es. proper_event (unat (ring_length mr)) e"
  shows "link_run magic_buffer magic_remote M (magic_link mr) es = None \<longleftrightarrow>
         spec_run (unat (ring_length mr)) M spec_start es = None"
proof -
  have "spec_inv (unat (ring_length mr)) spec_start"
    using assms(1) by (simp add: spec_inv_start ring_size_ok_def)
  from magic.link_run_refines [OF magic_link_start [OF assms(1), of M] this assms(2)]
  show ?thesis
    by (cases "link_run magic_buffer magic_remote M (magic_link mr) es";
        cases "spec_run (unat (ring_length mr)) M spec_start es") auto
qed

theorem magic_refines_counting_witness:
  "spec_run (unat (ring_length demo_mr)) 2 spec_start demo_events \<noteq> None"
  using magic_refines_counting [OF demo_ring(1) demo_proper, of 2] demo_run(1) by simp

text \<open>
  Any region the receiver holds can be freed at any time; \<open>Free\<close> never touches the end of
  an empty \<open>outstanding_\<close> list.
\<close>

theorem magic_free_defined:
  assumes "ring_size_ok (ring_length mr)"
    and "\<forall>e \<in> set es. proper_event (unat (ring_length mr)) e"
    and "link_run magic_buffer magic_remote M (magic_link mr) es = Some l"
    and "(a, len) \<in> set (l_held l)"
  shows "MagicRingBuffer_Free a (l_rcv l) \<noteq> None"
proof -
  from assms(1-3) obtain s where
    rel: "magic.link_rel M (ring_length mr) (mr_addr mr) l s" "spec_inv (unat (ring_length mr)) s"
    by (rule magic_link_run)
  from assms(4) obtain i where i: "i < length (l_held l)" "l_held l ! i = (a, len)"
    by (auto simp: in_set_conv_nth)
  from magic.link_free_defined [OF rel i(1)] i show ?thesis by (auto split: option.splits)
qed

theorem magic_free_defined_witness: "MagicRingBuffer_Free 4136 (l_rcv demo_link) \<noteq> None"
  by (rule magic_free_defined [OF demo_ring(1) demo_proper demo_run(1), of _ 20])
     (simp add: demo_run(3))

text \<open>
  C24: No starvation: when no head value was lost and everything sent has been received, freed
  and acknowledged, the sender accepts every message shorter than the buffer.
\<close>

theorem magic_drained_accepts:
  assumes "ring_size_ok (ring_length mr)"
    and "\<forall>e \<in> set es. proper_event (unat (ring_length mr)) e" and "DropAck \<notin> set es"
    and "link_run magic_buffer magic_remote M (magic_link mr) es = Some l"
    and "l_wire l = []" and "l_held l = []" and "l_acks l = []"
    and "0 < unat len" and "unat len < unat (ring_length mr)"
  shows "\<exists>a. MagicRemoteBuffer_GetWriteAddr len (l_snd l) = Inr a"
proof -
  from assms(1,2,4) obtain s where
    rel: "spec_run (unat (ring_length mr)) M spec_start es = Some s"
    "magic.link_rel M (ring_length mr) (mr_addr mr) l s" "spec_inv (unat (ring_length mr)) s"
    by (rule magic_link_run)
  have "head_in_transit s"
    using head_in_transit_start rel(1) assms(3) by (rule head_in_transit_run)
  from magic.link_drained_accepts [OF rel(2,3) this assms(5-9)] obtain a s' where
    "MagicRemoteBuffer_Write len (l_snd l) = (Inr a, s')" by auto
  then show ?thesis using magic.write_addr [of len "l_snd l"] by (intro exI [of _ a]) simp
qed

theorem magic_drained_accepts_witness:
  "\<exists>a. MagicRemoteBuffer_GetWriteAddr 63 (l_snd (the (link_run magic_buffer magic_remote 1
     (magic_link demo_mr) [Send 40, Receive, FreeRegion 0, Ack]))) = Inr a"
proof -
  let ?es = "[Send 40, Receive, FreeRegion 0, Ack]"
  let ?l = "the (link_run magic_buffer magic_remote 1 (magic_link demo_mr) ?es)"
  have run: "link_run magic_buffer magic_remote 1 (magic_link demo_mr) ?es = Some ?l"
    "l_wire ?l = []" "l_held ?l = []" "l_acks ?l = []" by code_simp+
  from magic_drained_accepts [OF demo_ring(1) _ _ run, of 63] show ?thesis
    by (simp add: demo_ring)
qed

section \<open>Two uses the buffer does not survive\<close>

text \<open>
  A message that fills the whole buffer is accepted and marks the buffer full; but reading
  an unchanged head (the receiver has freed nothing) clears the mark, and the next message is
  given the address of the message that is still unread.
\<close>

theorem magic_full_message_overwritten:
  assumes "rm_head b = rm_tail b" and "\<not> rm_full b" and "len \<le> rm_length b"
    and "rm_length b \<noteq> 0" and "unat (rm_tail b) < unat (rm_length b)" and "ring_size_ok (rm_length b)"
  shows "\<exists>a b1. MagicRemoteBuffer_Write (rm_length b) b = (Inr a, b1) \<and>
     MagicRemoteBuffer_GetWriteAddr len b1 = Inl (Status Unknown ''buffer is full'') \<and>
     MagicRemoteBuffer_GetWriteAddr len (MagicRemoteBuffer_UpdateHead (rm_head b1) b1) = Inr a"
proof -
  have "unat (rm_tail b + rm_length b) = unat (rm_tail b) + unat (rm_length b)"
    using assms(5,6) by (intro unat32_add) (simp add: ring_size_ok_def)
  then have "unat ((rm_tail b + rm_length b) mod rm_length b) = unat (rm_tail b)"
    using assms(5) by (simp add: unat_mod_distrib)
  then have "(rm_tail b + rm_length b) mod rm_length b = rm_tail b"
    by (simp add: word_unat_eq_iff)
  then show ?thesis using assms(1-3)
    by (simp add: MagicRemoteBuffer_Write_def MagicRemoteBuffer_GetWriteAddr_def
        MagicRemoteBuffer_UpdateHead_def not_less)
qed

theorem magic_full_message_overwritten_witness:
  "\<exists>a b1. MagicRemoteBuffer_Write 64 (l_snd (magic_link demo_mr)) = (Inr a, b1) \<and>
     MagicRemoteBuffer_GetWriteAddr 10 (MagicRemoteBuffer_UpdateHead (rm_head b1) b1) = Inr a"
proof -
  let ?b = "l_snd (magic_link demo_mr)"
  have b: "rm_head ?b = 0" "rm_tail ?b = 0" "\<not> rm_full ?b" "rm_length ?b = 64"
    by code_simp+
  show ?thesis using magic_full_message_overwritten [of ?b 10] b
    by (fastforce simp: ring_size_ok_def)
qed

text \<open>
  A message of length 0 breaks the receiver: it shares its offset with the message read
  after it, freeing one removes both from \<open>outstanding_\<close>, and freeing the other dereferences
  the end of the empty list.
\<close>

theorem magic_empty_message_undefined:
  assumes "rb_outstanding b = []" and "unat (rb_read_ptr b) < unat (rb_length b)"
    and "MagicRingBuffer_Read 0 b = (a1, b1)" and "MagicRingBuffer_Read len b1 = (a2, b2)"
  shows "a2 = a1 \<and> (\<exists>h b3. MagicRingBuffer_Free a1 b2 = Some (h, b3) \<and>
           rb_outstanding b3 = [] \<and> MagicRingBuffer_Free a2 b3 = None)"
proof -
  have "rb_read_ptr b mod rb_length b = rb_read_ptr b"
    using assms(2) by (simp add: word_unat_eq_iff unat_mod_distrib)
  then show ?thesis using assms(1,3,4)
    by (auto simp: MagicRingBuffer_Read_def MagicRingBuffer_Free_def Let_def)
qed

theorem magic_empty_message_undefined_witness:
  "\<exists>b3. rb_outstanding b3 = [] \<and> MagicRingBuffer_Free 4096 b3 = None"
  using magic_empty_message_undefined [of "MagicRingBuffer demo_mr" 4096 _ 12 4096]
  by (fastforce simp: MagicRingBuffer_def demo_mr_def MagicRingBuffer_Read_def Let_def)

text \<open>
  The context the receiver publishes gives the sender the same base address, key and
  length, for every 64 bit address and both kinds of buffer.
\<close>

theorem context_roundtrip:
  "rm_addr (MagicRemoteBuffer (MagicRingBuffer_GetContext b)) = rb_addr b \<and>
   rm_key (MagicRemoteBuffer (MagicRingBuffer_GetContext b)) = rb_mr_lkey b \<and>
   rm_length (MagicRemoteBuffer (MagicRingBuffer_GetContext b)) = rb_length b \<and>
   ReverseRemoteBuffer (ReverseRingBuffer_GetContext b) = MagicRemoteBuffer (MagicRingBuffer_GetContext b)"
  by (simp add: MagicRemoteBuffer_def MagicRingBuffer_GetContext_def
      ReverseRemoteBuffer_def ReverseRingBuffer_GetContext_def)

end
