(* ===== verification/Reverse_Link.thy ===== *)
theory Reverse_Link
  imports Magic_Link
begin

text \<open>
  The reversed ring buffer keeps the contracts when the receiver frees each region before it
  reads the next one (\<open>M = 1\<close>), which is how the benchmarks use it. Position \<open>p\<close> is the offset
  \<open>length_ - p mod length_\<close>. With two regions held the head it reports is wrong; the last
  section shows what the sender then does.
\<close>

section \<open>Positions and representation\<close>

definition reverse_enc :: "u32 \<Rightarrow> nat \<Rightarrow> u32" where
  "reverse_enc Lw p = (if p = 0 then 0 else word_of_nat (unat Lw - p mod unat Lw))"

definition reverse_loc :: "u64 \<Rightarrow> u32 \<Rightarrow> nat \<Rightarrow> nat \<Rightarrow> u64" where
  "reverse_loc base Lw p n = base + ucast (reverse_enc Lw (p + n))"

definition reverse_srep :: "u64 \<Rightarrow> u32 \<Rightarrow> remote_buffer \<Rightarrow> nat \<Rightarrow> nat \<Rightarrow> bool" where
  "reverse_srep base Lw s W S \<longleftrightarrow> ring_size_ok Lw \<and> rm_addr s = base \<and> rm_length s = Lw \<and>
     rm_tail s = reverse_enc Lw W \<and> rm_head s = reverse_enc Lw S \<and> \<not> rm_full s \<and>
     S \<le> W \<and> W < S + unat Lw"

definition reverse_rrep :: "u64 \<Rightarrow> u32 \<Rightarrow> ring_buffer \<Rightarrow> nat \<Rightarrow> (nat \<times> nat) list \<Rightarrow> bool" where
  "reverse_rrep base Lw b R held \<longleftrightarrow> ring_size_ok Lw \<and> rb_addr b = base \<and> rb_length b = Lw \<and>
     rb_read_ptr b = reverse_enc Lw R \<and>
     rb_outstanding b = map (\<lambda>x. reverse_enc Lw (fst x + snd x)) held \<and>
     rb_head b = reverse_enc Lw (head_pos R held)"

lemma unat_reverse_enc:
  "unat (reverse_enc Lw p) = (if p = 0 then 0 else unat Lw - p mod unat Lw)"
proof -
  have "unat Lw - p mod unat Lw < 4294967296" using unat32_lt [of Lw] by linarith
  then show ?thesis by (simp add: reverse_enc_def unat32_of_nat)
qed

text \<open>Moving down by a message, as both sides compute it.\<close>

lemma reverse_move:
  assumes "ring_size_ok Lw" and "0 < unat len" and "unat len < unat Lw" and "t = reverse_enc Lw p"
  shows "(if t > len then t - len else t + Lw - len) = reverse_enc Lw (p + unat len)"
proof -
  let ?L = "unat Lw" and ?t = "unat t" and ?n = "unat len"
  have L: "0 < ?L" "?L \<le> 2147483648" using assms(1) by (simp_all add: ring_size_ok_def)
  have lt: "p mod ?L < ?L" using L by simp
  have t: "?t = (if p = 0 then 0 else ?L - p mod ?L)" using assms(4) by (simp add: unat_reverse_enc)
  have w: "(p + ?n) mod ?L = (if p mod ?L + ?n < ?L then p mod ?L + ?n else p mod ?L + ?n - ?L)"
    by (rule mod_add_wrap [OF assms(3)])
  have tgt: "unat (reverse_enc Lw (p + ?n)) = ?L - (p + ?n) mod ?L"
    using assms(2) by (simp add: unat_reverse_enc)
  show ?thesis
  proof (cases "t > len")
    case True
    then have "?n < ?t" by (simp add: word_less_nat_alt)
    then have "unat (t - len) = ?t - ?n" by (simp add: unat_sub_le)
    moreover have "?t - ?n = ?L - (p + ?n) mod ?L"
      using t w \<open>?n < ?t\<close> lt by (auto split: if_splits)
    ultimately show ?thesis using True tgt by (simp add: word_unat_eq_iff)
  next
    case False
    then have le: "?t \<le> ?n" by (simp add: word_less_nat_alt)
    then have "unat (t + Lw - len) = ?t + ?L - ?n"
      using assms(3) L by (subst unat32_add_sub) auto
    moreover have "?t + ?L - ?n = ?L - (p + ?n) mod ?L"
      using t w le lt assms(3) by (auto split: if_splits)
    ultimately show ?thesis using False tgt by (simp add: word_unat_eq_iff)
  qed
qed

lemma reverse_next_tail_iff:
  assumes rep: "reverse_srep base Lw s W S" and len: "0 < unat len" "unat len < unat Lw"
  shows "ReverseRemoteBuffer_GetNextTail len s =
    (if W + unat len < S + unat Lw then Inr (reverse_enc Lw (W + unat len))
     else Inl (Status Unknown ''not enough free space for message''))"
proof -
  note r = rep [unfolded reverse_srep_def]
  let ?L = "unat Lw" and ?t = "unat (rm_tail s)" and ?h = "unat (rm_head s)"
  have L: "0 < ?L" "?L \<le> 2147483648" using r by (simp_all add: ring_size_ok_def)
  have lt: "W mod ?L < ?L" "S mod ?L < ?L" using L by simp_all
  have t: "?t = (if W = 0 then 0 else ?L - W mod ?L)" "?h = (if S = 0 then 0 else ?L - S mod ?L)"
    using r by (simp_all add: unat_reverse_enc)
  have d: "W - S = (if S mod ?L \<le> W mod ?L then W mod ?L - S mod ?L else ?L - S mod ?L + W mod ?L)"
    using r by (intro window_distance) auto
  have small: "S = 0 \<Longrightarrow> W mod ?L = W" using r by simp
  have bounds: "?t \<le> ?L" "?h \<le> ?L" using t by (auto split: if_splits)
  have val: "(if rm_tail s > len then rm_tail s - len else rm_tail s + rm_length s - len) =
      reverse_enc Lw (W + unat len)"
    using r len by (intro reverse_move [THEN trans]) simp_all
  have cmp: "rm_head s = rm_tail s \<longleftrightarrow> ?h = ?t" "rm_tail s < rm_head s \<longleftrightarrow> ?t < ?h"
    "rm_head s < rm_tail s \<longleftrightarrow> ?h < ?t" "rm_length s < len \<longleftrightarrow> ?L < unat len"
    using r by (auto simp: word_less_nat_alt word_unat_eq_iff)
  have up: "(rm_length s - rm_head s) + rm_tail s \<le> len \<longleftrightarrow> ?L - ?h + ?t \<le> unat len" if "?t < ?h"
  proof -
    have "unat (rm_length s - rm_head s) = ?L - ?h" using bounds r by (simp add: unat_sub_le)
    then have "unat ((rm_length s - rm_head s) + rm_tail s) = ?L - ?h + ?t"
      using that bounds L by (subst unat32_add) auto
    then show ?thesis by (simp add: word_le_nat_alt)
  qed
  have down: "rm_tail s - rm_head s \<le> len \<longleftrightarrow> ?t - ?h \<le> unat len" if "?h < ?t"
    using that by (simp add: unat_sub_le word_le_nat_alt)
  consider "?h = ?t" | "?t < ?h" | "?h < ?t" by linarith
  then show ?thesis
  proof cases
    case 1
    have "W = S"
    proof (cases "S = 0")
      case True
      then show ?thesis using 1 t small lt by (auto split: if_splits)
    next
      case False
      then have "W \<noteq> 0" using r by simp
      with False 1 t lt have "S mod ?L = W mod ?L" by simp
      then show ?thesis using d r by simp
    qed
    then show ?thesis using 1 r len cmp val
      by (simp add: ReverseRemoteBuffer_GetNextTail_def)
  next
    case 2
    then have "?L - ?h + ?t \<le> unat len \<longleftrightarrow> \<not> W + unat len < S + ?L"
      using t d r lt by (auto split: if_splits)
    then show ?thesis using 2 r cmp val up
      by (simp add: ReverseRemoteBuffer_GetNextTail_def)
  next
    case 3
    then have "?t - ?h \<le> unat len \<longleftrightarrow> \<not> W + unat len < S + ?L"
      using t d r lt small by (auto split: if_splits)
    then show ?thesis using 3 r cmp val down
      by (simp add: ReverseRemoteBuffer_GetNextTail_def)
  qed
qed

lemma reverse_enc_inj:
  assumes "ring_size_ok Lw" and "p < q" and "q < p + unat Lw"
  shows "reverse_enc Lw p \<noteq> reverse_enc Lw q"
proof
  let ?L = "unat Lw"
  assume "reverse_enc Lw p = reverse_enc Lw q"
  then have eq: "unat (reverse_enc Lw p) = unat (reverse_enc Lw q)" by simp
  have lt: "p mod ?L < ?L" "q mod ?L < ?L" using assms by (simp_all add: ring_size_ok_def)
  show False
  proof (cases "p = 0")
    case True
    then show False using eq assms lt by (simp add: unat_reverse_enc)
  next
    case False
    then have "p mod ?L = q mod ?L" using eq lt assms(2) by (simp add: unat_reverse_enc)
    then show False using mod_window_inj [of p ?L q] assms by simp
  qed
qed

lemma reverse_write_room:
  assumes rep: "reverse_srep base Lw s W S" and len: "0 < unat len"
    and room: "W + unat len < S + unat Lw"
  shows "\<exists>s'. ReverseRemoteBuffer_Write len s = (Inr (reverse_loc base Lw W (unat len)), s') \<and>
              reverse_srep base Lw s' (W + unat len) S"
proof -
  note r = rep [unfolded reverse_srep_def]
  have lt: "unat len < unat Lw" using r room by simp
  have "reverse_enc Lw S \<noteq> reverse_enc Lw (W + unat len)"
    using r room len by (intro reverse_enc_inj) auto
  then show ?thesis
    using r room reverse_next_tail_iff [OF rep len lt]
    by (auto simp: ReverseRemoteBuffer_Write_def reverse_srep_def reverse_loc_def)
qed

text \<open>Byte \<open>i\<close> of a message lies in the cell of the position \<open>i\<close> from its end.\<close>

lemma reverse_cell:
  fixes L p n i :: nat
  assumes "0 < L" and "i < n"
  shows "(L - (p + n) mod L + i) mod L = L - 1 - (p + (n - 1 - i)) mod L"
proof -
  let ?q = "p + (n - 1 - i)" and ?x = "L - (p + n) mod L + i"
  have lt: "?q mod L < L" "(p + n) mod L < L" using assms(1) by simp_all
  have "?x + (?q + 1) = L - (p + n) mod L + (p + n)" using assms(2) by simp
  then have "(?x + (?q + 1)) mod L = (L - (p + n) mod L + (p + n) mod L) mod L"
    by (simp add: mod_add_right_eq)
  then have sum: "(?x + (?q + 1)) mod L = 0" using lt by simp
  have "(?x + (?q + 1)) mod L = (?x mod L + (?q mod L + 1)) mod L"
    by (metis mod_add_eq mod_add_left_eq)
  with sum have "L dvd ?x mod L + (?q mod L + 1)" by auto
  then obtain k where k: "?x mod L + (?q mod L + 1) = L * k" by (auto elim: dvdE)
  have xlt: "?x mod L < L" using assms(1) by simp
  have "0 < k" using k by (cases k) auto
  moreover have "k < 2"
  proof (rule ccontr)
    assume "\<not> k < 2"
    then have "L * 2 \<le> L * k" by simp
    then show False using k xlt lt by linarith
  qed
  ultimately have "k = 1" by simp
  with k have "?x mod L + (?q mod L + 1) = L" by (simp only: mult_1_right)
  then show ?thesis by linarith
qed

lemma reverse_region:
  assumes "0 < unat n" and "0 < unat Lw"
  shows "region_bytes base (unat Lw) (reverse_loc base Lw p (unat n), n) =
         (\<lambda>q. unat Lw - 1 - q mod unat Lw) ` {p..<p + unat n}"
proof -
  let ?L = "unat Lw" and ?n = "unat n"
  have start: "unat (reverse_loc base Lw p ?n - base) = ?L - (p + ?n) mod ?L"
    using assms(1) by (simp add: reverse_loc_def unat_reverse_enc)
  have "(\<lambda>i. (?L - (p + ?n) mod ?L + i) mod ?L) ` {..<?n} =
        (\<lambda>q. ?L - 1 - q mod ?L) ` ((\<lambda>i. p + (?n - 1 - i)) ` {..<?n})"
    unfolding image_image by (rule image_cong [OF refl]) (simp only: lessThan_iff reverse_cell [OF assms(2)])
  moreover have "(\<lambda>i. p + (?n - 1 - i)) ` {..<?n} = {p..<p + ?n}"
  proof (intro equalityI subsetI)
    fix q assume "q \<in> {p..<p + ?n}"
    then have "q = p + (?n - 1 - (?n - 1 - (q - p)))" "?n - 1 - (q - p) < ?n" by auto
    then show "q \<in> (\<lambda>i. p + (?n - 1 - i)) ` {..<?n}" by blast
  qed auto
  ultimately show ?thesis by (simp add: region_bytes_def start)
qed

section \<open>The contracts\<close>

lemma reverse_read:
  assumes "reverse_rrep base Lw b R held" and "0 < unat len" and "unat len < unat Lw"
  shows "\<exists>b'. ReverseRingBuffer_Read len b = (reverse_loc base Lw R (unat len), b') \<and>
              rb_addr b' = base \<and> rb_length b' = Lw \<and>
              rb_read_ptr b' = reverse_enc Lw (R + unat len) \<and> rb_head b' = rb_head b \<and>
              rb_outstanding b' = rb_outstanding b @ [reverse_enc Lw (R + unat len)]"
proof -
  note r = assms(1) [unfolded reverse_rrep_def]
  have "(if rb_read_ptr b > len then rb_read_ptr b - len else rb_length b + rb_read_ptr b - len) =
      reverse_enc Lw (R + unat len)"
    using r reverse_move [OF conjunct1 [OF r] assms(2,3) refl, of R]
    by (simp split: if_splits add: add.commute)
  then show ?thesis using r
    by (simp only: ReverseRingBuffer_Read_def Let_def reverse_loc_def) simp
qed

interpretation reverse: ring_link reverse_remote reverse_buffer "unat Lw" 1 "reverse_enc Lw"
    "reverse_loc base Lw" "reverse_srep base Lw" "reverse_rrep base Lw" base
    "\<lambda>p. unat Lw - 1 - p mod unat Lw"
  for base Lw
proof (unfold_locales, goal_cases)
  case (1 s W S) then show ?case by (simp add: reverse_srep_def)
next
  case (2 s W S len) then show ?case by (simp add: reverse_write_room)
next
  case (3 s W S len) then show ?case
    using reverse_next_tail_iff [of base Lw s W S len] by (simp add: ReverseRemoteBuffer_Write_def)
next
  case (4 s W S H) then show ?case
    by (auto simp: reverse_srep_def ReverseRemoteBuffer_UpdateHead_def)
next
  case (5 len s) then show ?case
    by (simp add: ReverseRemoteBuffer_Write_def ReverseRemoteBuffer_GetWriteAddr_def split: sum.split)
next
  case (6 b R held len)
  then have "held = []" "unat len < unat Lw" by simp_all
  with 6 show ?case using reverse_read [of base Lw b R held len]
    by (auto simp: reverse_rrep_def)
next
  case (7 b R held i)
  then obtain x where "held = [x]" "i = 0" by (cases held) auto
  with 7 show ?case
    by (auto simp: ReverseRingBuffer_Free_def reverse_rrep_def reverse_loc_def Let_def)
next
  case (8 p q)
  then have "p mod unat Lw < unat Lw" "q mod unat Lw < unat Lw" by simp_all
  with 8(3) have "p mod unat Lw = q mod unat Lw" by linarith
  with 8 show ?case using mod_window_inj' by blast
next
  case (9 s W S n p) then show ?case by (intro reverse_region) linarith+
qed

lemma reverse_link_start:
  assumes "ring_size_ok (ring_length mr)"
  shows "reverse.link_rel (ring_length mr) (mr_addr mr) (reverse_link mr) spec_start"
  using assms unfolding reverse.link_rel_def
  by (simp add: reverse_link_def link_start_def spec_start_def
      live_regions_def reverse_srep_def reverse_rrep_def reverse_buffer_def ReverseRingBuffer_def
      ReverseRemoteBuffer_def ReverseRingBuffer_GetContext_def ring_length_def reverse_enc_def
      ring_size_ok_def)

lemma reverse_link_run:
  assumes "ring_size_ok (ring_length mr)"
    and "\<forall>e \<in> set es. proper_event (unat (ring_length mr)) e"
    and "link_run reverse_buffer reverse_remote 1 (reverse_link mr) es = Some l"
  obtains s where "spec_run (unat (ring_length mr)) 1 spec_start es = Some s"
    "reverse.link_rel (ring_length mr) (mr_addr mr) l s" "spec_inv (unat (ring_length mr)) s"
  using reverse.link_run_spec [OF reverse_link_start [OF assms(1)] spec_inv_start assms(2,3)] assms(1)
  by (auto simp: ring_size_ok_def)

section \<open>Properties of the reversed ring buffer\<close>

text \<open>
  C5: A reversed ring buffer whose receiver frees each message before it reads the next never
  gives the sender bytes of a message in transit or held.
\<close>

theorem reverse_no_overwrite:
  assumes "ring_size_ok (ring_length mr)"
    and "\<forall>e \<in> set es. proper_event (unat (ring_length mr)) e"
    and "link_run reverse_buffer reverse_remote 1 (reverse_link mr) es = Some l"
    and "0 < unat len" and "unat len < unat (ring_length mr)"
    and "ReverseRemoteBuffer_Write len (l_snd l) = (Inr a, s')"
    and "x \<in> set (l_held l) \<union> set (l_wire l)"
  shows "region_bytes (mr_addr mr) (unat (ring_length mr)) (a, len) \<inter>
         region_bytes (mr_addr mr) (unat (ring_length mr)) x = {}"
proof -
  from assms(1-3) obtain s where
    "reverse.link_rel (ring_length mr) (mr_addr mr) l s" "spec_inv (unat (ring_length mr)) s"
    by (rule reverse_link_run)
  from reverse.link_no_overwrite [OF this assms(4,5)] assms(6,7) show ?thesis by simp
qed

definition demo_reverse :: link where
  "demo_reverse = the (link_run reverse_buffer reverse_remote 1 (reverse_link demo_mr)
     [Send 40, Receive, FreeRegion 0, Ack, Send 30])"

lemma demo_reverse_run:
  "link_run reverse_buffer reverse_remote 1 (reverse_link demo_mr)
     [Send 40, Receive, FreeRegion 0, Ack, Send 30] = Some demo_reverse"
  "ReverseRemoteBuffer_Write 20 (l_snd demo_reverse) =
     (Inr 4134, (l_snd demo_reverse)\<lparr>rm_tail := 38, rm_full := False\<rparr>)"
  "l_wire demo_reverse = [(4154, 30)]"
  by code_simp+

theorem reverse_no_overwrite_witness:
  "region_bytes (mr_addr demo_mr) (unat (ring_length demo_mr)) (4134, 20) \<inter>
   region_bytes (mr_addr demo_mr) (unat (ring_length demo_mr)) (4154, 30) = {}"
  using reverse_no_overwrite [OF demo_ring(1) _ demo_reverse_run(1), of 20] demo_reverse_run(2,3)
  by (simp add: demo_ring)

text \<open>
  C6: The reversed buffer accepts exactly what counting bytes accepts, when each message is
  freed before the next is read.
\<close>

theorem reverse_refines_counting:
  assumes "ring_size_ok (ring_length mr)"
    and "\<forall>e \<in> set es. proper_event (unat (ring_length mr)) e"
  shows "link_run reverse_buffer reverse_remote 1 (reverse_link mr) es = None \<longleftrightarrow>
         spec_run (unat (ring_length mr)) 1 spec_start es = None"
proof -
  have "spec_inv (unat (ring_length mr)) spec_start"
    using assms(1) by (simp add: spec_inv_start ring_size_ok_def)
  from reverse.link_run_refines [OF reverse_link_start [OF assms(1)] this assms(2)]
  show ?thesis
    by (cases "link_run reverse_buffer reverse_remote 1 (reverse_link mr) es";
        cases "spec_run (unat (ring_length mr)) 1 spec_start es") auto
qed

theorem reverse_refines_counting_witness:
  "spec_run (unat (ring_length demo_mr)) 1 spec_start
     [Send 40, Receive, FreeRegion 0, Ack, Send 30] \<noteq> None"
  using reverse_refines_counting [OF demo_ring(1), of "[Send 40, Receive, FreeRegion 0, Ack, Send 30]"]
    demo_reverse_run(1) by (simp add: demo_ring del: spec_run.simps link_run.simps)

text \<open>
  With two messages held the receiver reports a wrong head. It frees the first, the head
  becomes the offset at which the second one starts, which lies below its bytes, and the
  sender takes the whole buffer for free: a message longer than the rest of the buffer is
  accepted and its bytes overlap the held second message.
\<close>

theorem reverse_two_held_overwritten:
  assumes ok: "ring_size_ok (ring_length mr)"
    and n: "0 < unat n1" "0 < unat n2" "unat n1 + unat n2 < unat (ring_length mr)"
    and big: "unat (ring_length mr) < unat n2 + unat n3" "unat n3 < unat (ring_length mr)"
  shows "\<exists>l a s' x. link_run reverse_buffer reverse_remote 2 (reverse_link mr)
        [Send n1, Send n2, Receive, Receive, FreeRegion 0, Ack] = Some l \<and> l_held l = [x] \<and>
      ReverseRemoteBuffer_Write n3 (l_snd l) = (Inr a, s') \<and>
      region_bytes (mr_addr mr) (unat (ring_length mr)) (a, n3) \<inter>
      region_bytes (mr_addr mr) (unat (ring_length mr)) x \<noteq> {}"
proof -
  let ?Lw = "ring_length mr" and ?base = "mr_addr mr" and ?l = "reverse_link mr"
  let ?L = "unat ?Lw" and ?n = "unat n1 + unat n2"
  from reverse_link_start [OF ok] have s0: "reverse_srep ?base ?Lw (l_snd ?l) 0 0"
    and r0: "reverse_rrep ?base ?Lw (l_rcv ?l) 0 []"
    unfolding reverse.link_rel_def by (simp_all add: spec_start_def)
  have wire0: "l_wire ?l = []" "l_held ?l = []" "l_acks ?l = []"
    by (simp_all add: reverse_link_def link_start_def)
  note lens = ok n big
  from reverse_write_room [OF s0 n(1)] n obtain s1 where w1:
    "ReverseRemoteBuffer_Write n1 (l_snd ?l) = (Inr (reverse_loc ?base ?Lw 0 (unat n1)), s1)"
    "reverse_srep ?base ?Lw s1 (unat n1) 0" by auto
  from reverse_write_room [OF w1(2) n(2)] n obtain s2 where w2:
    "ReverseRemoteBuffer_Write n2 s1 = (Inr (reverse_loc ?base ?Lw (unat n1) (unat n2)), s2)"
    "reverse_srep ?base ?Lw s2 ?n 0" by auto
  from reverse_read [OF r0 n(1)] n r0 obtain b1 where rd1:
    "ReverseRingBuffer_Read n1 (l_rcv ?l) = (reverse_loc ?base ?Lw 0 (unat n1), b1)"
    "reverse_rrep ?base ?Lw b1 (unat n1) [(0, unat n1)]"
    by (auto simp: reverse_rrep_def)
  from reverse_read [OF rd1(2) n(2)] n rd1(2) obtain b2 where rd2:
    "ReverseRingBuffer_Read n2 b1 = (reverse_loc ?base ?Lw (unat n1) (unat n2), b2)"
    "reverse_rrep ?base ?Lw b2 ?n [(0, unat n1), (unat n1, unat n2)]"
    by (auto simp: reverse_rrep_def)
  have "reverse_enc ?Lw (unat n1) \<noteq> reverse_enc ?Lw ?n"
    using lens by (intro reverse_enc_inj) auto
  then obtain b3 where fr:
    "ReverseRingBuffer_Free (reverse_loc ?base ?Lw 0 (unat n1)) b2 = Some (reverse_enc ?Lw ?n, b3)"
    using rd2(2) by (auto simp: ReverseRingBuffer_Free_def reverse_rrep_def reverse_loc_def Let_def)
  have hd: "reverse_srep ?base ?Lw (ReverseRemoteBuffer_UpdateHead (reverse_enc ?Lw ?n) s2) ?n ?n"
    using w2(2) reverse.update_head [of ?base ?Lw s2 ?n 0 ?n] by simp
  have n3: "0 < unat n3" using lens by linarith
  from reverse_write_room [OF hd n3] big obtain s3 where w3:
    "ReverseRemoteBuffer_Write n3 (ReverseRemoteBuffer_UpdateHead (reverse_enc ?Lw ?n) s2) =
       (Inr (reverse_loc ?base ?Lw ?n (unat n3)), s3)" by auto
  let ?x = "(reverse_loc ?base ?Lw (unat n1) (unat n2), n2)"
  have L: "0 < ?L" using lens by linarith
  have "?L - 1 - unat n1 mod ?L \<in> region_bytes ?base ?L ?x"
    unfolding reverse_region [OF n(2) L] using n by auto
  moreover have "?L - 1 - (unat n1 + ?L) mod ?L \<in>
      region_bytes ?base ?L (reverse_loc ?base ?Lw ?n (unat n3), n3)"
    unfolding reverse_region [OF n3 L] using lens by (intro imageI) auto
  ultimately have "region_bytes ?base ?L (reverse_loc ?base ?Lw ?n (unat n3), n3) \<inter>
      region_bytes ?base ?L ?x \<noteq> {}" by auto
  then show ?thesis
    using wire0 w1(1) w2(1) rd1(1) rd2(1) fr w3 by (simp add: Let_def remove_nth_def)
qed

theorem reverse_two_held_overwritten_witness:
  "\<exists>l a s'. link_run reverse_buffer reverse_remote 2 (reverse_link demo_mr)
      [Send 20, Send 20, Receive, Receive, FreeRegion 0, Ack] = Some l \<and>
    ReverseRemoteBuffer_Write 50 (l_snd l) = (Inr a, s')"
  using reverse_two_held_overwritten [OF demo_ring(1), of 20 20 50]
  by (simp add: demo_ring del: link_run.simps) blast

end
