(* ===== verification/Endpoint.thy ===== *)
theory Endpoint
  imports Verbs
begin

text \<open>
  \<^verbatim>\<open>src/endpoint.{hpp,cpp}\<close>: a connected endpoint, its work requests and completion queues,
  and how endpoints and listeners are set up. An \<open>endpoint\<close> extends the environment it talks
  to, so an operation maps an endpoint to a result and the endpoint afterwards. \<open>None\<close> is a
  call that does not return: a loop that still polls, a failed \<open>assert\<close>, a null pointer that
  is dereferenced. The branch of the code under \<open>WITH_MANUAL_RDMACM\<close>, which no build file
  defines, is left out; so are \<open>printf\<close>, \<open>perror\<close> and the debug output.
\<close>

section \<open>Data\<close>

record Options =
  o_pd :: u64
  o_srq :: u64
  o_send_cq :: u64
  o_recv_cq :: u64
  o_max_send_wr :: u32
  o_max_recv_wr :: u32
  o_max_send_sge :: u32
  o_max_recv_sge :: u32
  o_max_inline_data :: u32
  o_use_srq :: bool
  o_private_data :: "u8 list"
  o_src :: "string option"
  o_responder_resources :: u8
  o_initiator_depth :: u8
  o_flow_control :: u8
  o_retry_count :: u8
  o_rnr_retry_count :: u8
  o_native_qp :: bool
  o_inline_recv :: u32

record endpoint = env +
  ep_id :: cm_id
  ep_private_data :: "u8 list"
  ep_current_rcv_wc :: int
  ep_polled_rcv_wc :: int
  ep_max_rcv_wc :: int
  ep_recv_wcs :: "ibv_wc list"
  ep_qp :: u64

definition rcv_wc :: int where
  "rcv_wc = 64"

definition zero_wc :: ibv_wc where
  "zero_wc = \<lparr>wc_wr_id = 0, wc_status = 0, wc_byte_len = 0, wc_imm = 0, wc_qp_num = 0\<rparr>"

text \<open>The constructor: the completion array is \<open>calloc\<close>ed.\<close>

definition Endpoint_new :: "cm_id \<Rightarrow> u8 list \<Rightarrow> env \<Rightarrow> endpoint" where
  "Endpoint_new i data e = env.extend e
     \<lparr>ep_id = i, ep_private_data = data, ep_current_rcv_wc = 0, ep_polled_rcv_wc = 0,
      ep_max_rcv_wc = rcv_wc, ep_recv_wcs = replicate (nat rcv_wc) zero_wc, ep_qp = 0\<rparr>"

definition Endpoint_SetQp :: "u64 \<Rightarrow> endpoint \<Rightarrow> endpoint" where
  "Endpoint_SetQp qp ep = ep\<lparr>ep_qp := qp, ep_id := (ep_id ep)\<lparr>id_qp := qp\<rparr>\<rparr>"

definition Endpoint_Close :: "endpoint \<Rightarrow> (status \<times> endpoint) option" where
  "Endpoint_Close ep = do {
     (ret, ep) \<leftarrow> sys Cm_disconnect ep;
     Some (if ret \<noteq> 0 then Status Internal ''error disconnecting endpoint'' else Status0, ep) }"

definition Endpoint_GetPd :: "endpoint \<Rightarrow> u64" where
  "Endpoint_GetPd ep = id_pd (ep_id ep)"

definition Endpoint_GetSRQ :: "endpoint \<Rightarrow> u64" where
  "Endpoint_GetSRQ ep = id_srq (ep_id ep)"

definition Endpoint_GetSendCQ :: "endpoint \<Rightarrow> u64" where
  "Endpoint_GetSendCQ ep = id_send_cq (ep_id ep)"

definition Endpoint_GetRecvCQ :: "endpoint \<Rightarrow> u64" where
  "Endpoint_GetRecvCQ ep = id_recv_cq (ep_id ep)"

definition Endpoint_GetQpNum :: "endpoint \<Rightarrow> u32" where
  "Endpoint_GetQpNum ep = qp_num_of ep (id_qp (ep_id ep))"

definition Endpoint_GetConnectionInfo :: "endpoint \<Rightarrow> u8 list" where
  "Endpoint_GetConnectionInfo ep = ep_private_data ep"

section \<open>Posting work requests\<close>

definition Endpoint_PostSendRaw :: "send_wr list \<Rightarrow> endpoint \<Rightarrow> (status \<times> endpoint) option" where
  "Endpoint_PostSendRaw wrs ep = do {
     (ret, ep) \<leftarrow> sys (Post_send wrs) ep;
     Some (if ret \<noteq> 0 then Status Internal (''error  '' @ to_string ret @ '' sending'')
           else Status0, ep) }"

text \<open>Sizes are \<open>size_t\<close> and become the 32 bit length of the scatter/gather element.\<close>

definition sge :: "u64 \<Rightarrow> u64 \<Rightarrow> u32 \<Rightarrow> ibv_sge" where
  "sge addr sz lkey = \<lparr>sge_addr = addr, sge_length = ucast sz, sge_lkey = lkey\<rparr>"

definition send_wr0 :: "u64 \<Rightarrow> ibv_sge \<Rightarrow> wr_opcode \<Rightarrow> send_flag list \<Rightarrow> send_wr" where
  "send_wr0 ctx s opc flags = \<lparr>swr_id = ctx, swr_sge = s, swr_opcode = opc, swr_flags = flags,
     swr_remote_addr = 0, swr_rkey = 0, swr_imm = 0, swr_add = 0,
     swr_inline = 0\<rparr>"

definition Endpoint_PostSend_signaled ::
    "u64 \<Rightarrow> u32 \<Rightarrow> u64 \<Rightarrow> u64 \<Rightarrow> bool \<Rightarrow> endpoint \<Rightarrow> (status \<times> endpoint) option" where
  "Endpoint_PostSend_signaled ctx lkey addr sz signal = Endpoint_PostSendRaw
     [send_wr0 ctx (sge addr sz lkey) WR_SEND (if signal then [SEND_SIGNALED] else [])]"

definition Endpoint_PostSend ::
    "u64 \<Rightarrow> u32 \<Rightarrow> u64 \<Rightarrow> u64 \<Rightarrow> endpoint \<Rightarrow> (status \<times> endpoint) option" where
  "Endpoint_PostSend ctx lkey addr sz = Endpoint_PostSend_signaled ctx lkey addr sz True"

definition Endpoint_PostInline ::
    "u64 \<Rightarrow> u64 \<Rightarrow> u64 \<Rightarrow> endpoint \<Rightarrow> (status \<times> endpoint) option" where
  "Endpoint_PostInline ctx addr sz = Endpoint_PostSendRaw
     [send_wr0 ctx (sge addr sz 0) WR_SEND [SEND_SIGNALED, SEND_INLINE]]"

text \<open>The element is empty, its address (of the parameter on the stack) is never read.\<close>

definition Endpoint_PostImmidate :: "u64 \<Rightarrow> u32 \<Rightarrow> endpoint \<Rightarrow> (status \<times> endpoint) option" where
  "Endpoint_PostImmidate ctx imm = Endpoint_PostSendRaw
     [(send_wr0 ctx (sge 0 0 0) WR_SEND_WITH_IMM [SEND_SIGNALED, SEND_INLINE])\<lparr>swr_imm := imm\<rparr>]"

definition Endpoint_PostRead ::
    "u64 \<Rightarrow> u32 \<Rightarrow> u64 \<Rightarrow> u64 \<Rightarrow> u64 \<Rightarrow> u32 \<Rightarrow> endpoint \<Rightarrow> (status \<times> endpoint) option" where
  "Endpoint_PostRead ctx lkey addr sz remote_addr rkey = Endpoint_PostSendRaw
     [(send_wr0 ctx (sge addr sz lkey) WR_RDMA_READ [SEND_SIGNALED])
        \<lparr>swr_remote_addr := remote_addr, swr_rkey := rkey\<rparr>]"

definition Endpoint_PostWrite ::
    "u64 \<Rightarrow> u32 \<Rightarrow> u64 \<Rightarrow> u64 \<Rightarrow> u64 \<Rightarrow> u32 \<Rightarrow> endpoint \<Rightarrow> (status \<times> endpoint) option" where
  "Endpoint_PostWrite ctx lkey addr sz remote_addr rkey = Endpoint_PostSendRaw
     [(send_wr0 ctx (sge addr sz lkey) WR_RDMA_WRITE [SEND_SIGNALED])
        \<lparr>swr_remote_addr := remote_addr, swr_rkey := rkey\<rparr>]"

definition Endpoint_PostWriteWithImmidate ::
    "u64 \<Rightarrow> u32 \<Rightarrow> u64 \<Rightarrow> u64 \<Rightarrow> u64 \<Rightarrow> u32 \<Rightarrow> u32 \<Rightarrow> endpoint \<Rightarrow> (status \<times> endpoint) option" where
  "Endpoint_PostWriteWithImmidate ctx lkey addr sz remote_addr rkey imm = Endpoint_PostSendRaw
     [(send_wr0 ctx (sge addr sz lkey) WR_RDMA_WRITE_WITH_IMM [SEND_SIGNALED])
        \<lparr>swr_remote_addr := remote_addr, swr_rkey := rkey, swr_imm := imm\<rparr>]"

definition Endpoint_PostWriteInline ::
    "u64 \<Rightarrow> u64 \<Rightarrow> u64 \<Rightarrow> u64 \<Rightarrow> u32 \<Rightarrow> endpoint \<Rightarrow> (status \<times> endpoint) option" where
  "Endpoint_PostWriteInline ctx addr sz remote_addr rkey = Endpoint_PostSendRaw
     [(send_wr0 ctx (sge addr sz 0) WR_RDMA_WRITE [SEND_SIGNALED, SEND_INLINE])
        \<lparr>swr_remote_addr := remote_addr, swr_rkey := rkey\<rparr>]"

definition Endpoint_PostFetchAndAdd ::
    "u64 \<Rightarrow> u64 \<Rightarrow> u32 \<Rightarrow> u64 \<Rightarrow> u64 \<Rightarrow> u32 \<Rightarrow> endpoint \<Rightarrow> (status \<times> endpoint) option" where
  "Endpoint_PostFetchAndAdd ctx add lkey addr remote_addr rkey = Endpoint_PostSendRaw
     [(send_wr0 ctx (sge addr 8 lkey) WR_ATOMIC_FETCH_AND_ADD [SEND_SIGNALED])
        \<lparr>swr_remote_addr := remote_addr, swr_rkey := rkey, swr_add := add\<rparr>]"

definition Endpoint_PostRecvRaw :: "recv_wr list \<Rightarrow> endpoint \<Rightarrow> (status \<times> endpoint) option" where
  "Endpoint_PostRecvRaw wrs ep = do {
     (ret, ep) \<leftarrow> sys (Post_recv wrs) ep;
     Some (if ret \<noteq> 0 then Status Internal ''error posting raw receive buffer'' else Status0, ep) }"

definition Endpoint_PostRecv ::
    "u64 \<Rightarrow> u32 \<Rightarrow> u64 \<Rightarrow> u64 \<Rightarrow> endpoint \<Rightarrow> (status \<times> endpoint) option" where
  "Endpoint_PostRecv ctx lkey addr sz ep = (
     let wr = \<lparr>rwr_id = ctx, rwr_sge = sge addr sz lkey\<rparr> in do {
     (ret, ep) \<leftarrow> (if id_srq (ep_id ep) \<noteq> 0 then sys (Post_srq_recv (id_srq (ep_id ep)) [wr]) ep
                   else sys (Post_recv [wr]) ep);
     Some (if ret \<noteq> 0 then Status Internal ''error posting receive buffer'' else Status0, ep) })"

section \<open>Polling completions\<close>

text \<open>The text of a failed send completion.\<close>

definition send_cq_error :: "ibv_wc \<Rightarrow> endpoint \<Rightarrow> status" where
  "send_cq_error wc ep = Status Internal (''error '' @ to_string (wc_status wc) @
     ''  polling send cq for wr '' @ to_string (uint (wc_wr_id wc)) @ '' '' @ [CHR 0x0A] @
     status_str ep (wc_status wc))"

text \<open>\<open>while (ibv_poll_cq(.., 1, &wc) == 0) {}\<close>: the first reply that is not 0.\<close>

fun poll_until :: "(int \<times> ibv_wc) list \<Rightarrow> (ibv_wc \<times> (int \<times> ibv_wc) list) option" where
  "poll_until [] = None"
| "poll_until ((ret, wc) # ps) = (if ret = 0 then poll_until ps else Some (wc, ps))"

text \<open>\<open>wc\<close> is inspected whatever the sign of the return value is.\<close>

definition Endpoint_PollSendCq :: "endpoint \<Rightarrow> (ibv_wc status_or \<times> endpoint) option" where
  "Endpoint_PollSendCq ep = do {
     (wc, ps) \<leftarrow> poll_until (send_polls ep);
     let ep = ep\<lparr>send_polls := ps\<rparr>;
     Some (if wc_status wc \<noteq> 0 then Inl (send_cq_error wc ep) else Inr wc, ep) }"

definition Endpoint_PollSendCqOnce :: "endpoint \<Rightarrow> (ibv_wc status_or \<times> endpoint) option" where
  "Endpoint_PollSendCqOnce ep = do {
     ((ret, wc), ep) \<leftarrow> poll_send ep;
     Some (if ret < 0 then Inl (send_cq_error wc ep)
           else if ret = 0 then Inl (Status NotFound ''nothing recieved in send cq'')
           else Inr wc, ep) }"

text \<open>\<open>ibv_poll_cq\<close> overwrites the front of the array it is given.\<close>

definition fill_wcs :: "ibv_wc list \<Rightarrow> ibv_wc list \<Rightarrow> ibv_wc list" where
  "fill_wcs new old = new @ drop (length new) old"

definition recv_cq_error :: "ibv_wc \<Rightarrow> endpoint \<Rightarrow> status" where
  "recv_cq_error wc ep = Status Internal (''error '' @ to_string (wc_status wc) @
     ''  polling recv cq'' @ [CHR 0x0A] @ status_str ep (wc_status wc))"

text \<open>\<open>recv_wcs_[current_rcv_wc_++]\<close>; an index outside the array is undefined.\<close>

definition next_recv_wc :: "endpoint \<Rightarrow> (ibv_wc status_or \<times> endpoint) option" where
  "next_recv_wc ep = (
     if ep_current_rcv_wc ep < 0 \<or> int (length (ep_recv_wcs ep)) \<le> ep_current_rcv_wc ep then None
     else (let wc = ep_recv_wcs ep ! nat (ep_current_rcv_wc ep);
               ep = ep\<lparr>ep_current_rcv_wc := ep_current_rcv_wc ep + 1\<rparr>
           in Some (if wc_status wc \<noteq> 0 then Inl (recv_cq_error wc ep) else Inr wc, ep)))"

text \<open>
  The loop runs over the replies: \<open>poll_recv_until\<close> stops with an error, with a batch, or (when
  no reply is left) not at all.
\<close>

fun poll_recv_until :: "(int \<times> ibv_wc list) list \<Rightarrow> endpoint \<Rightarrow> (bool \<times> endpoint) option" where
  "poll_recv_until ps ep =
     (if ep_current_rcv_wc ep \<noteq> ep_polled_rcv_wc ep then Some (True, ep\<lparr>recv_polls := ps\<rparr>)
      else (case ps of [] \<Rightarrow> None
        | (ret, wcs) # ps' \<Rightarrow>
            let ep = ep\<lparr>ep_recv_wcs := fill_wcs wcs (ep_recv_wcs ep)\<rparr> in
            if ret < 0 then Some (False, ep\<lparr>recv_polls := ps'\<rparr>)
            else poll_recv_until ps' (ep\<lparr>ep_polled_rcv_wc := ret, ep_current_rcv_wc := 0\<rparr>)))"

declare poll_recv_until.simps [simp del]

definition Endpoint_PollRecvCq :: "endpoint \<Rightarrow> (ibv_wc status_or \<times> endpoint) option" where
  "Endpoint_PollRecvCq ep = do {
     (got, ep) \<leftarrow> poll_recv_until (recv_polls ep) ep;
     if got then next_recv_wc ep
     else Some (Inl (Status Internal (''error polling recv cq'' @ [CHR 0x0A])), ep) }"

definition Endpoint_PollRecvCqOnce :: "endpoint \<Rightarrow> (ibv_wc status_or \<times> endpoint) option" where
  "Endpoint_PollRecvCqOnce ep = (
     if ep_current_rcv_wc ep = ep_polled_rcv_wc ep then do {
       ((ret, wcs), ep) \<leftarrow> poll_recv ep;
       let ep = ep\<lparr>ep_recv_wcs := fill_wcs wcs (ep_recv_wcs ep)\<rparr>;
       if ret < 0 then Some (Inl (Status Internal (''error polling recv cq'' @ [CHR 0x0A])), ep)
       else if ret = 0 then Some (Inl (Status NotFound ''nothing recieved in recv cq''), ep)
       else next_recv_wc (ep\<lparr>ep_polled_rcv_wc := ret, ep_current_rcv_wc := 0\<rparr>) }
     else next_recv_wc ep)"

section \<open>The receive queue hands out every completion once, in order\<close>

text \<open>
  What the library promises about a poll of the receive queue: a negative value and nothing
  written, or the number of entries written, at most as many as were asked for.
\<close>

definition recv_reply_ok :: "nat \<Rightarrow> int \<times> ibv_wc list \<Rightarrow> bool" where
  "recv_reply_ok n = (\<lambda>(ret, wcs). (ret < 0 \<and> wcs = []) \<or> (ret = int (length wcs) \<and> length wcs \<le> n))"

definition recv_ok :: "endpoint \<Rightarrow> bool" where
  "recv_ok ep \<longleftrightarrow> 0 \<le> ep_current_rcv_wc ep \<and> ep_current_rcv_wc ep \<le> ep_polled_rcv_wc ep \<and>
     ep_polled_rcv_wc ep \<le> int (length (ep_recv_wcs ep)) \<and>
     list_all (recv_reply_ok (length (ep_recv_wcs ep))) (recv_polls ep)"

definition recv_batch :: "endpoint \<Rightarrow> ibv_wc list" where
  "recv_batch ep = drop (nat (ep_current_rcv_wc ep)) (take (nat (ep_polled_rcv_wc ep)) (ep_recv_wcs ep))"

text \<open>The completions the library still owes: the rest of the batch and the replies to come.\<close>

definition recv_pending :: "endpoint \<Rightarrow> ibv_wc list" where
  "recv_pending ep = recv_batch ep @ concat (map snd (recv_polls ep))"

lemma next_recv_wc_batch:
  assumes "recv_ok ep" and "ep_current_rcv_wc ep \<noteq> ep_polled_rcv_wc ep"
  shows "\<exists>wc ep'. next_recv_wc ep =
           Some (if wc_status wc \<noteq> 0 then Inl (recv_cq_error wc ep') else Inr wc, ep') \<and>
         recv_ok ep' \<and> recv_pending ep = wc # recv_pending ep' \<and> recv_polls ep' = recv_polls ep"
proof -
  let ?c = "nat (ep_current_rcv_wc ep)" and ?p = "nat (ep_polled_rcv_wc ep)"
  note r = assms(1) [unfolded recv_ok_def]
  have lt: "?c < ?p" "?p \<le> length (ep_recv_wcs ep)" using r assms(2) by auto
  then have "?c < length (take ?p (ep_recv_wcs ep))" by simp
  from Cons_nth_drop_Suc [OF this] have "recv_batch ep =
      (ep_recv_wcs ep ! ?c) # drop (Suc ?c) (take ?p (ep_recv_wcs ep))"
    using lt by (simp add: recv_batch_def)
  moreover have "nat (ep_current_rcv_wc ep + 1) = Suc ?c" using r by auto
  ultimately show ?thesis using r assms(2) lt
    by (auto simp: next_recv_wc_def recv_pending_def recv_batch_def recv_ok_def Let_def)
qed

lemma poll_recv_until_batch:
  assumes "recv_ok (ep\<lparr>recv_polls := ps\<rparr>)"
  shows "case poll_recv_until ps ep of
      None \<Rightarrow> recv_pending (ep\<lparr>recv_polls := ps\<rparr>) = []
    | Some (got, ep') \<Rightarrow> recv_ok ep' \<and> recv_pending ep' = recv_pending (ep\<lparr>recv_polls := ps\<rparr>) \<and>
        (got \<longrightarrow> ep_current_rcv_wc ep' \<noteq> ep_polled_rcv_wc ep')"
  using assms
proof (induction ps arbitrary: ep)
  case Nil
  then show ?case
    by (subst poll_recv_until.simps) (auto simp: recv_pending_def recv_batch_def recv_ok_def)
next
  case (Cons p ps)
  obtain ret wcs where p: "p = (ret, wcs)" by (cases p)
  let ?ep = "ep\<lparr>ep_recv_wcs := fill_wcs wcs (ep_recv_wcs ep)\<rparr>"
  show ?case
  proof (cases "ep_current_rcv_wc ep = ep_polled_rcv_wc ep \<and> \<not> ret < 0")
    case True
    let ?ep2 = "?ep\<lparr>ep_polled_rcv_wc := ret, ep_current_rcv_wc := 0\<rparr>"
    have r: "ret = int (length wcs)" "length wcs \<le> length (ep_recv_wcs ep)"
      using Cons.prems True p by (auto simp: recv_ok_def recv_reply_ok_def)
    then have ok: "recv_ok (?ep2\<lparr>recv_polls := ps\<rparr>)"
      using Cons.prems by (auto simp: recv_ok_def fill_wcs_def)
    have "recv_pending (?ep2\<lparr>recv_polls := ps\<rparr>) = recv_pending (ep\<lparr>recv_polls := p # ps\<rparr>)"
      using r True p by (simp add: recv_pending_def recv_batch_def fill_wcs_def)
    moreover have "poll_recv_until (p # ps) ep = poll_recv_until ps ?ep2"
      using True by (subst poll_recv_until.simps) (simp add: p Let_def)
    ultimately show ?thesis using Cons.IH [OF ok] by (simp only:)
  next
    case False
    then show ?thesis using Cons.prems
      by (subst poll_recv_until.simps)
        (auto simp: p Let_def recv_ok_def recv_reply_ok_def recv_pending_def recv_batch_def fill_wcs_def)
  qed
qed

lemma next_recv_wc_calls: "next_recv_wc ep = Some (r, ep') \<Longrightarrow> calls ep' = calls ep \<and> replied ep' = replied ep"
  by (auto simp: next_recv_wc_def Let_def split: if_splits)

lemma poll_recv_until_calls: "poll_recv_until ps ep = Some (b, ep') \<Longrightarrow> calls ep' = calls ep \<and> replied ep' = replied ep"
proof (induction ps ep rule: poll_recv_until.induct)
  case (1 ps ep)
  note run = 1(2) [unfolded poll_recv_until.simps [of ps ep]]
  show ?case
  proof (cases "ep_current_rcv_wc ep = ep_polled_rcv_wc ep")
    case True
    then show ?thesis using 1(1) run
      by (cases ps) (auto simp: Let_def split: if_splits prod.splits)
  next
    case False
    then show ?thesis using run by auto
  qed
qed

lemma poll_recv_cq_calls: "Endpoint_PollRecvCq ep = Some (r, ep') \<Longrightarrow> calls ep' = calls ep \<and> replied ep' = replied ep"
  by (auto simp: Endpoint_PollRecvCq_def elim!: bindE split: if_splits
      dest!: poll_recv_until_calls next_recv_wc_calls)

lemma poll_recv_once_spec:
  assumes ok: "recv_ok ep" and run: "Endpoint_PollRecvCqOnce ep = Some (r, ep')"
  shows "recv_ok ep' \<and> calls ep' = calls ep \<and> replied ep' = replied ep \<and>
    (if so_ok r then \<exists>wc. recv_pending ep = wc # recv_pending ep' \<and> r = Inr wc
     else length (recv_pending ep') \<le> length (recv_pending ep) \<and>
       length (recv_pending ep) \<le> Suc (length (recv_pending ep')))"
proof -
  have next_ok: "?thesis" if "recv_ok ep1" "ep_current_rcv_wc ep1 \<noteq> ep_polled_rcv_wc ep1"
    "recv_pending ep1 = recv_pending ep" "calls ep1 = calls ep" "replied ep1 = replied ep"
    "next_recv_wc ep1 = Some (r, ep')" for ep1
    using next_recv_wc_batch [OF that(1,2)] that(3-6) next_recv_wc_calls [OF that(6)]
    by (auto simp: recv_cq_error_def split: if_splits)
  show ?thesis
  proof (cases "ep_current_rcv_wc ep = ep_polled_rcv_wc ep")
    case False
    then show ?thesis using next_ok [OF ok False] run by (simp add: Endpoint_PollRecvCqOnce_def)
  next
    case True
    then obtain ret wcs ps where ps: "recv_polls ep = (ret, wcs) # ps"
      using run by (auto simp: Endpoint_PollRecvCqOnce_def poll_recv_def split: list.splits)
    from ok have reply: "(ret < 0 \<and> wcs = []) \<or> (ret = int (length wcs) \<and> length wcs \<le> length (ep_recv_wcs ep))"
      by (simp add: recv_ok_def ps recv_reply_ok_def)
    show ?thesis
    proof (cases "ret \<le> 0")
      case False
      let ?ep1 = "ep\<lparr>recv_polls := ps, ep_recv_wcs := fill_wcs wcs (ep_recv_wcs ep),
        ep_polled_rcv_wc := ret, ep_current_rcv_wc := 0\<rparr>"
      have n: "next_recv_wc ?ep1 = Some (r, ep')"
        using run True False by (simp add: Endpoint_PollRecvCqOnce_def poll_recv_def ps Let_def)
      have "recv_ok ?ep1" "recv_pending ?ep1 = recv_pending ep"
        using ok reply False True
        by (auto simp: recv_ok_def ps fill_wcs_def recv_pending_def recv_batch_def)
      then show ?thesis using next_ok [of ?ep1] n False by simp
    next
      case le: True
      then have e: "r = (if ret < 0 then Inl (Status Internal (''error polling recv cq'' @ [CHR 0x0A]))
          else Inl (Status NotFound ''nothing recieved in recv cq''))"
        "ep' = ep\<lparr>recv_polls := ps, ep_recv_wcs := fill_wcs wcs (ep_recv_wcs ep)\<rparr>"
        using run True by (auto simp: Endpoint_PollRecvCqOnce_def poll_recv_def ps Let_def split: if_splits)
      have "wcs = []" using reply le by auto
      then show ?thesis using e ok True
        by (auto simp: recv_ok_def ps fill_wcs_def recv_pending_def recv_batch_def)
    qed
  qed
qed

lemma poll_recv_fifo_lemma:
  assumes "recv_ok ep"
  shows "case Endpoint_PollRecvCq ep of
      None \<Rightarrow> recv_pending ep = []
    | Some (r, ep') \<Rightarrow> recv_ok ep' \<and>
        ((\<exists>wc. recv_pending ep = wc # recv_pending ep' \<and>
           r = (if wc_status wc \<noteq> 0 then Inl (recv_cq_error wc ep') else Inr wc)) \<or>
         (recv_pending ep' = recv_pending ep \<and> \<not> so_ok r))"
proof -
  have same: "ep\<lparr>recv_polls := recv_polls ep\<rparr> = ep" by simp
  from assms have "recv_ok (ep\<lparr>recv_polls := recv_polls ep\<rparr>)" by simp
  note u = poll_recv_until_batch [OF this, unfolded same]
  show ?thesis
  proof (cases "poll_recv_until (recv_polls ep) ep")
    case None
    with u show ?thesis by (simp add: Endpoint_PollRecvCq_def)
  next
    case (Some x)
    obtain got ep1 where x: "x = (got, ep1)" by (cases x)
    with u Some have 1: "recv_ok ep1" "recv_pending ep1 = recv_pending ep"
      "got \<longrightarrow> ep_current_rcv_wc ep1 \<noteq> ep_polled_rcv_wc ep1" by simp_all
    show ?thesis
    proof (cases got)
      case True
      with next_recv_wc_batch [OF 1(1)] 1 show ?thesis
        by (auto simp: Endpoint_PollRecvCq_def Some x)
    next
      case False
      with 1 show ?thesis by (simp add: Endpoint_PollRecvCq_def Some x)
    qed
  qed
qed

text \<open>
  C8: \<open>PollRecvCq\<close> hands out the completions the library produced in order, each exactly once,
  over any batching and any number of empty polls: it takes the oldest one that is owed and
  returns it (or the error that its status says), or reports a failed poll and loses nothing.
  It keeps polling only while nothing is owed.
\<close>

theorem poll_recv_fifo:
  assumes "recv_ok ep"
  shows "case Endpoint_PollRecvCq ep of
      None \<Rightarrow> recv_pending ep = []
    | Some (r, ep') \<Rightarrow> recv_ok ep' \<and>
        ((\<exists>wc. recv_pending ep = wc # recv_pending ep' \<and>
           r = (if wc_status wc \<noteq> 0 then Inl (recv_cq_error wc ep') else Inr wc)) \<or>
         (recv_pending ep' = recv_pending ep \<and> \<not> so_ok r))"
  by (rule poll_recv_fifo_lemma [OF assms])

definition demo_env :: env where
  "demo_env = \<lparr>calls = [], replied = [], given = [], rets = [], addrs = [], mrs = [], cm_ids = [], send_polls = [],
     recv_polls = [], loads = [], blocks = [], errno = 0, status_str = (\<lambda>_. []), qp_num_of = (\<lambda>_. 0)\<rparr>"

definition demo_id :: cm_id where
  "demo_id = \<lparr>id_pd = 1, id_qp = 2, id_srq = 0, id_send_cq = 3, id_recv_cq = 4, id_event_data = [9]\<rparr>"

definition demo_wc :: "u64 \<Rightarrow> ibv_wc" where
  "demo_wc i = \<lparr>wc_wr_id = i, wc_status = 0, wc_byte_len = 8, wc_imm = 0, wc_qp_num = 0\<rparr>"

definition demo_ep :: "(int \<times> ibv_wc list) list \<Rightarrow> endpoint" where
  "demo_ep ps = Endpoint_new demo_id [] (demo_env\<lparr>recv_polls := ps\<rparr>)"

theorem poll_recv_fifo_witness:
  "case Endpoint_PollRecvCq (demo_ep [(0, []), (2, [demo_wc 5, demo_wc 6])]) of
      None \<Rightarrow> False | Some (r, ep') \<Rightarrow> recv_ok ep'"
proof -
  let ?ep = "demo_ep [(0, []), (2, [demo_wc 5, demo_wc 6])]"
  have ok: "recv_ok ?ep"
    by (simp add: recv_ok_def demo_ep_def Endpoint_new_def env.defs rcv_wc_def recv_reply_ok_def
        demo_env_def)
  have ne: "recv_pending ?ep \<noteq> []"
    by (simp add: recv_pending_def demo_ep_def Endpoint_new_def env.defs demo_env_def)
  from poll_recv_fifo [OF ok] ne show ?thesis by (auto split: option.splits)
qed

end
