(* ===== verification/Endpoint_Setup.thy ===== *)
theory Endpoint_Setup
  imports Endpoint
begin

text \<open>
  Setting endpoints up: \<open>get_rdma_addr\<close>, \<open>Create\<close>, \<open>Endpoint::Connect\<close>, \<open>Dial\<close>, \<open>Listen\<close>,
  \<open>Listener::Accept\<close> and \<open>Close\<close> of \<^verbatim>\<open>src/endpoint.cpp\<close>. Every reply of the connection
  manager comes from the environment, so the theorems hold for all of them. Addresses
  (\<open>rdma_addrinfo\<close>) only travel between two library calls and are not modelled; objects that an
  error path leaves behind show in the recorded calls.
\<close>

section \<open>Address lookup and creation\<close>

text \<open>
  With a source address the source is looked up first, passively. The result is that of the
  last lookup.
\<close>

definition get_rdma_addr :: "string option \<Rightarrow> string option \<Rightarrow> string \<Rightarrow> bool \<Rightarrow> env \<Rightarrow> (int \<times> env) option" where
  "get_rdma_addr src dst port passive e = (
     if passive then sys (Cm_getaddrinfo src (Some port) True) e
     else (case src of
        None \<Rightarrow> sys (Cm_getaddrinfo dst (Some port) False) e
      | Some s \<Rightarrow> do {
          (ret, e) \<leftarrow> sys (Cm_getaddrinfo (Some s) None True) e;
          if ret \<noteq> 0 then Some (ret, e)
          else do {
            (ret, e) \<leftarrow> sys (Cm_getaddrinfo dst (Some port) False) e;
            Some (ret, sys_void Cm_freeaddrinfo e) } }))"

text \<open>The ids the library returns are not null and have a protection domain (\<open>assert\<close>).\<close>

definition null_id :: cm_id where
  "null_id = \<lparr>id_pd = 0, id_qp = 0, id_srq = 0, id_send_cq = 0, id_recv_cq = 0, id_event_data = []\<rparr>"

definition create_ep :: "Options \<Rightarrow> env \<Rightarrow> (endpoint status_or \<times> env) option" where
  "create_ep opts e = do {
     ((ret, i), e) \<leftarrow> sys_id (Cm_create_ep (o_pd opts)) null_id e;
     if ret \<noteq> 0
     then Some (Inl (Status Internal (''Error '' @ to_string (errno e) @ '' creating endpoint'')), e)
     else if id_pd i = 0 then None
     else (let e = sys_void Cm_freeaddrinfo e in Some (Inr (Endpoint_new i [] e), e)) }"

definition Create :: "string \<Rightarrow> int \<Rightarrow> Options \<Rightarrow> env \<Rightarrow> (endpoint status_or \<times> env) option" where
  "Create ip port opts e = (
     if ip = [] then Some (Inl (Status InvalidArgument ''IP cannot be empty''), e)
     else do {
       (ret, e) \<leftarrow> get_rdma_addr (o_src opts) (Some ip) (to_string port) False e;
       if ret \<noteq> 0 then Some (Inl (Status Internal ''Error getting address info''), e)
       else create_ep opts e })"

section \<open>The life of a native queue pair\<close>

text \<open>One transition of a queue pair: fetch the attributes of the next state, then set them.\<close>

definition qp_move :: "string \<Rightarrow> u64 \<Rightarrow> qp_state \<Rightarrow> string \<Rightarrow> 'e env_scheme \<Rightarrow> (status \<times> 'e env_scheme) option" where
  "qp_move who qp st name e = do {
     (ret, e) \<leftarrow> sys (Init_qp_attr st) e;
     if ret \<noteq> 0
     then Some (Status Internal (who @ '': error '' @ to_string ret @ '' getting attr qp on '' @ name), e)
     else do {
       (ret, e) \<leftarrow> sys (Modify_qp qp st) e;
       if ret \<noteq> 0
       then Some (Status Internal (who @ '': error '' @ to_string ret @ '' setting attr qp to '' @ name), e)
       else Some (Status0, e) } }"

definition qp_to_rts :: "string \<Rightarrow> u64 \<Rightarrow> 'e env_scheme \<Rightarrow> (status \<times> 'e env_scheme) option" where
  "qp_to_rts who qp e = do {
     (st, e) \<leftarrow> qp_move who qp QPS_INIT ''INIT'' e;
     if \<not> status_ok st then Some (st, e)
     else do {
       (st, e) \<leftarrow> qp_move who qp QPS_RTR ''RTR'' e;
       if \<not> status_ok st then Some (st, e)
       else qp_move who qp QPS_RTS ''RTS'' e } }"

definition conn_param_of :: "Options \<Rightarrow> u32 \<Rightarrow> conn_param" where
  "conn_param_of opts qp_num = \<lparr>cp_responder_resources = o_responder_resources opts,
     cp_initiator_depth = o_initiator_depth opts, cp_flow_control = o_flow_control opts,
     cp_retry_count = o_retry_count opts, cp_rnr_retry_count = o_rnr_retry_count opts,
     cp_private_data = o_private_data opts, cp_qp_num = qp_num\<rparr>"

section \<open>Connecting\<close>

text \<open>
  The shared receive queue that \<open>Connect\<close> creates is a local variable and is not stored
  anywhere. The result of \<open>ibv_create_qp\<close> is dereferenced without a check.
\<close>

definition Connect_srq :: "Options \<Rightarrow> endpoint \<Rightarrow> (status \<times> endpoint) option" where
  "Connect_srq opts ep = (
     if o_use_srq opts \<and> o_srq opts = 0 then do {
       (srq, ep) \<leftarrow> sys_addr (Create_srq (id_pd (ep_id ep)) (o_max_recv_wr opts) (o_max_recv_sge opts)) ep;
       Some (if srq = 0 then Status Internal (''error '' @ to_string (errno ep) @ '' creating ibv_srq'')
             else Status0, ep) }
     else Some (Status0, ep))"

definition Connect_qp :: "Options \<Rightarrow> endpoint \<Rightarrow> (status \<times> endpoint) option" where
  "Connect_qp opts ep = (
     if o_native_qp opts then
       (if o_send_cq opts = 0 \<or> o_recv_cq opts = 0 \<or> id_pd (ep_id ep) = 0 then None
        else do {
          (qp, ep) \<leftarrow> sys_addr (Create_qp (id_pd (ep_id ep)) (o_srq opts)) ep;
          if qp = 0 then None
          else (let ep = Endpoint_SetQp qp ep in
                Some (Status0, ep\<lparr>ep_id := (ep_id ep)\<lparr>id_qp := 0\<rparr>\<rparr>)) })
     else do {
       ((ret, i), ep) \<leftarrow> sys_id (Cm_create_qp (o_srq opts)) (ep_id ep) ep;
       if ret \<noteq> 0 then Some (Status Internal ''dial: error creating qp'', ep\<lparr>ep_id := i\<rparr>)
       else Some (Status0, ep\<lparr>ep_id := i\<lparr>id_srq := o_srq opts\<rparr>\<rparr>) })"

definition Connect_native_finish :: "endpoint \<Rightarrow> (status \<times> endpoint) option" where
  "Connect_native_finish ep = do {
     (st, ep) \<leftarrow> qp_to_rts ''connect'' (ep_qp ep) ep;
     if \<not> status_ok st then Some (st, ep)
     else do {
       (ret, ep) \<leftarrow> sys Cm_establish ep;
       if ret \<noteq> 0 then Some (Status Internal (''Error '' @ to_string ret @
           '' connecting to remote using rdma_establish''), ep)
       else Some (Status0, ep\<lparr>ep_id := (ep_id ep)\<lparr>id_qp := ep_qp ep\<rparr>\<rparr>) } }"

definition Endpoint_Connect :: "Options \<Rightarrow> endpoint \<Rightarrow> (status \<times> endpoint) option" where
  "Endpoint_Connect opts ep = do {
     (st, ep) \<leftarrow> Connect_srq opts ep;
     if \<not> status_ok st then Some (st, ep)
     else do {
       (st, ep) \<leftarrow> Connect_qp opts ep;
       if \<not> status_ok st then Some (st, ep)
       else do {
         let qp_num = (if o_native_qp opts then qp_num_of ep (ep_qp ep) else 0);
         ((ret, i), ep) \<leftarrow> sys_id (Cm_connect (conn_param_of opts qp_num)) (ep_id ep) ep;
         if ret \<noteq> 0 then Some (Status Internal (''Error '' @ to_string ret @
             '' connecting to remote in rdma_connect''), ep)
         else (let ep = ep\<lparr>ep_id := (ep_id ep)\<lparr>id_event_data := id_event_data i\<rparr>,
                           ep_private_data := id_event_data i\<rparr> in
           if o_native_qp opts then Connect_native_finish ep else Some (Status0, ep)) } } }"

definition Dial :: "string \<Rightarrow> int \<Rightarrow> Options \<Rightarrow> env \<Rightarrow> (endpoint status_or \<times> env) option" where
  "Dial ip port opts e = do {
     (r, e) \<leftarrow> Create ip port opts e;
     (case r of
        Inl s \<Rightarrow> Some (Inl (Wrap ''error setting up endpoint'' s), e)
      | Inr ep \<Rightarrow> do {
          (st, ep) \<leftarrow> Endpoint_Connect opts ep;
          if \<not> status_ok st then Some (Inl (Wrap ''error connecting endpoint'' st), env.truncate ep)
          else Some (Inr ep, env.truncate ep) }) }"

section \<open>Listening and accepting\<close>

definition Listen :: "string \<Rightarrow> int \<Rightarrow> env \<Rightarrow> (cm_id status_or \<times> env) option" where
  "Listen ip port e = do {
     (ret, e) \<leftarrow> get_rdma_addr (Some ip) None (to_string port) True e;
     if ret \<noteq> 0 then Some (Inl (Status Internal ''Error getting address info''), e)
     else do {
       ((ret, i), e) \<leftarrow> sys_id (Cm_create_ep 0) null_id e;
       if ret \<noteq> 0 then Some (Inl (Status Internal (''Error '' @ to_string (errno e) @
           '' creating listening endpoint'')), e)
       else do {
         (ret, e) \<leftarrow> sys (Cm_listen 20) (sys_void Cm_freeaddrinfo e);
         if ret \<noteq> 0 then Some (Inl (Status Internal ''listening failed''), e)
         else if id_pd i = 0 then None
         else Some (Inr i, e) } } }"

definition Listener_Close :: "env \<Rightarrow> (status \<times> env) option" where
  "Listener_Close e = do {
     (ret, e) \<leftarrow> sys Cm_destroy_id e;
     Some (if ret \<noteq> 0 then Status Internal ''error destroying listener'' else Status0, e) }"

text \<open>The domain of a listener; it was asserted not to be null when the listener was made.\<close>

definition Listener_GetPd :: "cm_id \<Rightarrow> u64 option" where
  "Listener_GetPd lid = (if id_pd lid = 0 then None else Some (id_pd lid))"

text \<open>Here the created queue goes into the (copied) options, and from there into the id.\<close>

definition Accept_srq :: "Options \<Rightarrow> cm_id \<Rightarrow> env \<Rightarrow> ((status + Options) \<times> env) option" where
  "Accept_srq opts i e = (
     if o_use_srq opts \<and> o_srq opts = 0 then do {
       (srq, e) \<leftarrow> sys_addr (Create_srq (id_pd i) (o_max_recv_wr opts) (o_max_recv_sge opts)) e;
       Some (if srq = 0
             then Inl (Status Internal (''error '' @ to_string (errno e) @ '' creating ibv_srq''))
             else Inr (opts\<lparr>o_srq := srq\<rparr>), e) }
     else Some (Inr opts, e))"

text \<open>
  With \<open>inline_recv\<close> the call that would create the queue pair is commented out, so the queue
  pair stays null. The pair is created in the domain of the listening id.
\<close>

definition Accept_qp :: "Options \<Rightarrow> cm_id \<Rightarrow> cm_id \<Rightarrow> env \<Rightarrow> ((status + cm_id \<times> u64) \<times> env) option" where
  "Accept_qp opts lid i e = (
     if o_native_qp opts then
       (if o_send_cq opts = 0 \<or> o_recv_cq opts = 0 \<or> id_pd lid = 0 then None
        else do {
          (qp, e) \<leftarrow> (if o_inline_recv opts \<noteq> 0 then Some (0, e)
                     else sys_addr (Create_qp (id_pd lid) (o_srq opts)) e);
          if qp = 0
          then Some (Inl (Status Internal (''accept: error '' @ to_string 0 @ '' creating native qp'')), e)
          else do {
            (st, e) \<leftarrow> qp_to_rts ''accept'' qp e;
            Some (if \<not> status_ok st then Inl st else Inr (i, qp), e) } })
     else do {
       ((ret, i), e) \<leftarrow> sys_id (Cm_create_qp (o_srq opts)) i e;
       Some (if ret \<noteq> 0
             then Inl (Status Internal (''accept: error '' @ to_string ret @ '' getting creating qp''))
             else Inr (i, 0), e) })"

definition Accept_finish ::
    "Options \<Rightarrow> u8 list \<Rightarrow> cm_id \<Rightarrow> u64 \<Rightarrow> env \<Rightarrow> (endpoint status_or \<times> env) option" where
  "Accept_finish opts data i qp e = do {
     let qp_num = (if o_native_qp opts then qp_num_of e qp else 0);
     (ret, e) \<leftarrow> sys (Cm_accept (conn_param_of opts qp_num)) e;
     if ret \<noteq> 0
     then Some (Inl (Status Internal (''accept: error '' @ to_string ret @ '' accepting connection'')), e)
     else (let i = i\<lparr>id_srq := o_srq opts, id_recv_cq := o_recv_cq opts\<rparr>;
               ep = Endpoint_new i data e;
               ep = (if qp \<noteq> 0 then Endpoint_SetQp qp ep else ep)
           in Some (Inr ep, e)) }"

definition Listener_Accept :: "Options \<Rightarrow> cm_id \<Rightarrow> env \<Rightarrow> (endpoint status_or \<times> env) option" where
  "Listener_Accept opts lid e = do {
     ((ret, i), e) \<leftarrow> sys_id Cm_get_request null_id e;
     if ret \<noteq> 0 then Some (Inl (Status Internal ''accept: error getting connection id''), e)
     else do {
       (r, e) \<leftarrow> Accept_srq opts i e;
       (case r of Inl s \<Rightarrow> Some (Inl s, e)
        | Inr opts' \<Rightarrow> do {
            (r, e) \<leftarrow> Accept_qp opts' lid i e;
            (case r of Inl s \<Rightarrow> Some (Inl s, e)
             | Inr (i', qp) \<Rightarrow> Accept_finish opts' (id_event_data i) i' qp e) }) } }"

section \<open>A native queue pair is ready exactly after its three transitions\<close>

definition rts_calls :: "u64 \<Rightarrow> call list" where
  "rts_calls qp = [Init_qp_attr QPS_INIT, Modify_qp qp QPS_INIT, Init_qp_attr QPS_RTR,
     Modify_qp qp QPS_RTR, Init_qp_attr QPS_RTS, Modify_qp qp QPS_RTS]"

text \<open>
  The calls an operation makes are appended to the ones recorded before; each part of a \<open>do\<close>
  block that succeeded is taken apart by \<open>bindE\<close>.
\<close>

lemma qp_move_calls:
  assumes "qp_move who qp st name e = Some (s, e')" and "status_ok s"
  shows "calls e' = calls e @ [Init_qp_attr st, Modify_qp qp st]"
  using assms by (auto simp: qp_move_def elim!: bindE dest!: sys_calls split: if_splits)

lemma qp_to_rts_calls:
  assumes "qp_to_rts who qp e = Some (s, e')" and "status_ok s"
  shows "calls e' = calls e @ rts_calls qp"
proof -
  from assms obtain s1 e1 where 1: "qp_move who qp QPS_INIT ''INIT'' e = Some (s1, e1)" "status_ok s1"
    "(do { (st, e) \<leftarrow> qp_move who qp QPS_RTR ''RTR'' e1;
       if \<not> status_ok st then Some (st, e) else qp_move who qp QPS_RTS ''RTS'' e }) = Some (s, e')"
    unfolding qp_to_rts_def by (auto elim!: bindE split: if_splits)
  from 1(3) assms(2) obtain s2 e2 where 2: "qp_move who qp QPS_RTR ''RTR'' e1 = Some (s2, e2)"
    "status_ok s2" "qp_move who qp QPS_RTS ''RTS'' e2 = Some (s, e')"
    by (auto elim!: bindE split: if_splits)
  show ?thesis
    using qp_move_calls [OF 1(1,2)] qp_move_calls [OF 2(1,2)] qp_move_calls [OF 2(3) assms(2)]
    by (simp add: rts_calls_def)
qed

lemma Connect_qp_native:
  assumes "Connect_qp opts ep = Some (s, ep')" and "o_native_qp opts"
  obtains qp where "qp \<noteq> 0" "ep_qp ep' = qp" "cm_ids ep' = cm_ids ep" "qp_num_of ep' = qp_num_of ep"
    "given ep' = given ep @ [(Create_qp (id_pd (ep_id ep)) (o_srq opts), qp)]"
  using assms by (auto simp: Connect_qp_def Endpoint_SetQp_def Let_def sys_addr_def elim!: bindE split: if_splits list.splits)

lemma Connect_srq_frame:
  assumes "Connect_srq opts ep = Some (s, ep')"
  shows "ep_id ep' = ep_id ep \<and> cm_ids ep' = cm_ids ep \<and> qp_num_of ep' = qp_num_of ep"
  using assms by (auto simp: Connect_srq_def sys_addr_def elim!: bindE split: if_splits list.splits)

lemma qp_move_frame:
  assumes "qp_move who qp st name ep = Some (s, ep')"
  shows "ep_qp ep' = ep_qp ep \<and> ep_id ep' = ep_id ep \<and> ep_private_data ep' = ep_private_data ep \<and> given ep' = given ep"
  using assms by (auto simp: qp_move_def sys_def elim!: bindE split: if_splits list.splits)

lemma qp_to_rts_frame:
  assumes "qp_to_rts who qp ep = Some (s, ep')"
  shows "ep_qp ep' = ep_qp ep \<and> ep_id ep' = ep_id ep \<and> ep_private_data ep' = ep_private_data ep \<and> given ep' = given ep"
  using assms unfolding qp_to_rts_def
  by (auto elim!: bindE split: if_splits dest!: qp_move_frame)

lemma Connect_native_finish_calls:
  assumes "Connect_native_finish ep = Some (s, ep')" and "status_ok s"
  shows "calls ep' = calls ep @ rts_calls (ep_qp ep) @ [Cm_establish] \<and> ep_id ep' = (ep_id ep)\<lparr>id_qp := ep_qp ep\<rparr> \<and>
    ep_private_data ep' = ep_private_data ep \<and> given ep' = given ep"
proof -
  from assms obtain s1 ep1 where 1: "qp_to_rts ''connect'' (ep_qp ep) ep = Some (s1, ep1)" "status_ok s1"
    "(do { (ret, ep) \<leftarrow> sys Cm_establish ep1;
       if ret \<noteq> 0 then Some (Status Internal (''Error '' @ to_string ret @
           '' connecting to remote using rdma_establish''), ep)
       else Some (Status0, ep\<lparr>ep_id := (ep_id ep)\<lparr>id_qp := ep_qp ep\<rparr>\<rparr>) }) = Some (s, ep')"
    unfolding Connect_native_finish_def by (auto elim!: bindE split: if_splits)
  show ?thesis
    using 1(3) assms(2) qp_to_rts_calls [OF 1(1,2)] qp_to_rts_frame [OF 1(1)]
    by (auto simp: sys_def elim!: bindE split: if_splits list.splits)
qed

text \<open>The steps of a \<open>Connect\<close> that reports success.\<close>

definition connected_ep :: "cm_id \<Rightarrow> endpoint \<Rightarrow> endpoint" where
  "connected_ep i ep = ep\<lparr>ep_id := (ep_id ep)\<lparr>id_event_data := id_event_data i\<rparr>,
     ep_private_data := id_event_data i\<rparr>"

lemma Endpoint_Connect_ok:
  assumes "Endpoint_Connect opts ep = Some (s, ep')" and "status_ok s"
  obtains s1 ep1 s2 ep2 i ep3 where
    "Connect_srq opts ep = Some (s1, ep1)" "status_ok s1"
    "Connect_qp opts ep1 = Some (s2, ep2)" "status_ok s2"
    "sys_id (Cm_connect (conn_param_of opts (if o_native_qp opts then qp_num_of ep2 (ep_qp ep2) else 0)))
       (ep_id ep2) ep2 = Some ((0, i), ep3)"
    "(if o_native_qp opts then Connect_native_finish (connected_ep i ep3)
      else Some (Status0, connected_ep i ep3)) = Some (s, ep')"
  using assms unfolding Endpoint_Connect_def Let_def connected_ep_def
  by (elim bindE) (auto elim!: bindE split: if_splits)

lemma sys_id_reply:
  assumes "sys_id c i ep = Some ((0, j), ep')"
  shows "j = hd (cm_ids ep) \<and> calls ep' = calls ep @ [c] \<and> given ep' = given ep \<and> ep_qp ep' = ep_qp ep"
  using assms by (auto simp: sys_id_def sys_def split: list.splits if_splits)

text \<open>
  C23: A native connection that reports success created a queue pair, sent its own private data
  and the number of that queue pair to the other side, then moved that queue pair through INIT,
  RTR and RTS, fetching the attributes of each state before setting it, and established the
  connection, in this order. The endpoint then posts to the queue pair that was created, and
  holds the private data that the connection manager delivered with the answer of the other side.
\<close>

theorem connect_native_ready:
  assumes "Endpoint_Connect opts ep = Some (s, ep')" and "status_ok s" and "o_native_qp opts"
  shows "\<exists>pre qp p gs. qp \<noteq> 0 \<and> given ep' = gs @ [(Create_qp (id_pd (ep_id ep)) (o_srq opts), qp)] \<and>
    calls ep' = pre @ [Cm_connect p] @ rts_calls qp @ [Cm_establish] \<and>
    cp_private_data p = o_private_data opts \<and> cp_qp_num p = qp_num_of ep qp \<and> id_qp (ep_id ep') = qp \<and>
    Endpoint_GetConnectionInfo ep' = id_event_data (hd (cm_ids ep))"
proof -
  from assms obtain s1 ep1 s2 ep2 i ep3 where
    r: "Connect_srq opts ep = Some (s1, ep1)" and q: "Connect_qp opts ep1 = Some (s2, ep2)" and
    c: "sys_id (Cm_connect (conn_param_of opts (qp_num_of ep2 (ep_qp ep2)))) (ep_id ep2) ep2 = Some ((0, i), ep3)" and
    f: "Connect_native_finish (connected_ep i ep3) = Some (s, ep')"
    by (auto elim!: Endpoint_Connect_ok)
  obtain qp where qp: "qp \<noteq> 0" "ep_qp ep2 = qp" "cm_ids ep2 = cm_ids ep1" "qp_num_of ep2 = qp_num_of ep1"
    "given ep2 = given ep1 @ [(Create_qp (id_pd (ep_id ep1)) (o_srq opts), qp)]"
    by (rule Connect_qp_native [OF q assms(3)])
  show ?thesis
    using qp sys_id_reply [OF c] Connect_srq_frame [OF r] Connect_native_finish_calls [OF f assms(2)]
    by (simp add: conn_param_of_def connected_ep_def Endpoint_GetConnectionInfo_def)
qed

definition demo_opts :: Options where
  "demo_opts = \<lparr>o_pd = 1, o_srq = 0, o_send_cq = 3, o_recv_cq = 4, o_max_send_wr = 8,
     o_max_recv_wr = 8, o_max_send_sge = 1, o_max_recv_sge = 1, o_max_inline_data = 0,
     o_use_srq = False, o_private_data = [7], o_src = None, o_responder_resources = 1,
     o_initiator_depth = 1, o_flow_control = 0, o_retry_count = 7, o_rnr_retry_count = 7,
     o_native_qp = True, o_inline_recv = 0\<rparr>"

definition demo_connect_ep :: "u64 list \<Rightarrow> endpoint" where
  "demo_connect_ep as = Endpoint_new demo_id []
     (demo_env\<lparr>rets := replicate 8 0, addrs := as, cm_ids := [demo_id]\<rparr>)"

theorem connect_native_ready_witness:
  "\<exists>s ep' pre p. Endpoint_Connect demo_opts (demo_connect_ep [5]) = Some (s, ep') \<and>
     calls ep' = pre @ [Cm_connect p] @ rts_calls 5 @ [Cm_establish] \<and> cp_private_data p = [7] \<and>
     id_qp (ep_id ep') = 5 \<and> Endpoint_GetConnectionInfo ep' = [9]"
proof -
  have "map_option (\<lambda>(s, ep'). status_ok s \<and> map prod.snd (given ep') = [5])
      (Endpoint_Connect demo_opts (demo_connect_ep [5])) = Some True" by code_simp
  then obtain s ep' where run: "Endpoint_Connect demo_opts (demo_connect_ep [5]) = Some (s, ep')"
    and ok: "status_ok s \<and> map prod.snd (given ep') = [5]" by (rule run_test)
  have nat: "o_native_qp demo_opts" by (simp add: demo_opts_def)
  from connect_native_ready [OF run _ nat] ok obtain pre qp p gs where
    c: "given ep' = gs @ [(Create_qp (id_pd (ep_id (demo_connect_ep [5]))) (o_srq demo_opts), qp)]"
      "calls ep' = pre @ [Cm_connect p] @ rts_calls qp @ [Cm_establish]"
      "cp_private_data p = o_private_data demo_opts" "id_qp (ep_id ep') = qp"
      "Endpoint_GetConnectionInfo ep' = id_event_data (hd (cm_ids (demo_connect_ep [5])))" by blast
  from c(1) ok have "qp = 5" by simp
  with c run show ?thesis by (auto simp: demo_opts_def demo_connect_ep_def Endpoint_new_def env.defs demo_env_def demo_id_def)
qed

section \<open>The shared receive queue\<close>

text \<open>
  An accepted connection that was asked for a shared receive queue and given none ends up
  with the created one: receive buffers go to it.
\<close>

theorem accept_srq_kept:
  assumes "Listener_Accept opts lid e = Some (Inr ep, e')" and "o_use_srq opts"
  shows "id_srq (ep_id ep) \<noteq> 0"
proof -
  obtain ret i1 e1 where req: "sys_id Cm_get_request null_id e = Some ((ret, i1), e1)"
    using assms(1) by (cases "sys_id Cm_get_request null_id e") (auto simp: Listener_Accept_def)
  then have "ret = 0" using assms(1) by (simp add: Listener_Accept_def split: if_splits)
  with assms(1) req obtain r2 e2 where srq: "Accept_srq opts i1 e1 = Some (r2, e2)"
    by (cases "Accept_srq opts i1 e1") (auto simp: Listener_Accept_def)
  have rest: "(case r2 of Inl s \<Rightarrow> Some (Inl s, e2)
        | Inr opts' \<Rightarrow> do {
            (r, e) \<leftarrow> Accept_qp opts' lid i1 e2;
            (case r of Inl s \<Rightarrow> Some (Inl s, e)
             | Inr (i', qp) \<Rightarrow> Accept_finish opts' (id_event_data i1) i' qp e) }) = Some (Inr ep, e')"
    using assms(1) by (simp add: Listener_Accept_def req srq \<open>ret = 0\<close>)
  from rest obtain o2 where r2: "r2 = Inr o2" by (cases r2) auto
  with rest obtain i2 qp e3 where fin: "Accept_finish o2 (id_event_data i1) i2 qp e3 = Some (Inr ep, e')"
    by (fastforce elim!: bindE split: sum.splits)
  note srq = srq [unfolded r2]
  from fin have fin: "id_srq (ep_id ep) = o_srq o2"
    by (auto simp: Accept_finish_def Let_def Endpoint_new_def Endpoint_SetQp_def env.defs
        elim!: bindE split: if_splits)
  from srq assms(2) have "o_srq o2 \<noteq> 0"
    by (auto simp: Accept_srq_def elim!: bindE split: if_splits)
  with fin show ?thesis by simp
qed

theorem accept_srq_kept_witness:
  "\<exists>ep e'. Listener_Accept (demo_opts\<lparr>o_use_srq := True\<rparr>) demo_id
       (demo_env\<lparr>rets := replicate 8 0, addrs := [11, 5], cm_ids := [demo_id]\<rparr>) = Some (Inr ep, e') \<and>
     id_srq (ep_id ep) \<noteq> 0"
proof -
  let ?r = "Listener_Accept (demo_opts\<lparr>o_use_srq := True\<rparr>) demo_id
       (demo_env\<lparr>rets := replicate 8 0, addrs := [11, 5], cm_ids := [demo_id]\<rparr>)"
  have "map_option (\<lambda>(r, _). \<not> isl r \<and> True) ?r = Some True" by code_simp
  then obtain ep e' where run: "?r = Some (Inr ep, e')" by (rule run_value)
  have srq: "o_use_srq (demo_opts\<lparr>o_use_srq := True\<rparr>)" by simp
  have "id_srq (ep_id ep) \<noteq> 0" by (rule accept_srq_kept [OF run srq])
  with run show ?thesis by blast
qed

lemma Connect_srq_calls:
  assumes "Connect_srq opts ep = Some (s, ep')" and "status_ok s"
    and "o_use_srq opts" and "o_srq opts = 0"
  shows "calls ep' = calls ep @ [Create_srq (id_pd (ep_id ep)) (o_max_recv_wr opts) (o_max_recv_sge opts)]"
  using assms by (auto simp: Connect_srq_def sys_addr_def elim!: bindE split: list.splits if_splits)

lemma Connect_qp_srq:
  assumes "Connect_qp opts ep = Some (s, ep')" and "\<not> o_native_qp opts" and "status_ok s"
  shows "id_srq (ep_id ep') = o_srq opts"
  using assms by (auto simp: Connect_qp_def elim!: bindE split: if_splits)

lemma sys_id_srq:
  assumes "sys_id c i ep = Some ((r, j), ep')"
  shows "ep_id ep' = ep_id ep \<and> ep_private_data ep' = ep_private_data ep"
  using assms by (auto simp: sys_id_def sys_def split: list.splits if_splits)

text \<open>
  A dialed connection that was asked for a shared receive queue and given none creates one
  and forgets it: after a successful \<open>Connect\<close> the id has no shared queue, and a posted
  receive buffer goes to the queue pair.
\<close>

theorem connect_srq_lost:
  assumes "Endpoint_Connect opts ep = Some (s, ep')" and "status_ok s"
    and "o_use_srq opts" and "o_srq opts = 0" and "\<not> o_native_qp opts"
  shows "id_srq (ep_id ep') = 0 \<and>
    Endpoint_PostRecv ctx lkey addr len ep' =
      map_option (\<lambda>(ret, ep). (if ret \<noteq> 0 then Status Internal ''error posting receive buffer''
                                 else Status0, ep))
        (sys (Post_recv [\<lparr>rwr_id = ctx, rwr_sge = sge addr len lkey\<rparr>]) ep')"
proof -
  from assms(1,2) obtain s1 ep1 s2 ep2 i ep3 where
    q: "Connect_qp opts ep1 = Some (s2, ep2)" "status_ok s2" and
    c: "sys_id (Cm_connect (conn_param_of opts (if o_native_qp opts then qp_num_of ep2 (ep_qp ep2) else 0)))
       (ep_id ep2) ep2 = Some ((0, i), ep3)" and
    f: "(if o_native_qp opts then Connect_native_finish (connected_ep i ep3)
      else Some (Status0, connected_ep i ep3)) = Some (s, ep')"
    by (rule Endpoint_Connect_ok)
  from f assms(5) have f: "ep_id ep' = (ep_id ep3)\<lparr>id_event_data := id_event_data i\<rparr>"
    by (auto simp: connected_ep_def)
  have "id_srq (ep_id ep') = 0"
    using f sys_id_srq [OF c] Connect_qp_srq [OF q(1) assms(5) q(2)] assms(4) by simp
  then show ?thesis
    by (simp add: Endpoint_PostRecv_def Let_def map_option_case bind_split)
       (auto split: option.splits Option.bind_split)
qed

theorem connect_srq_lost_witness:
  "\<exists>s ep'. Endpoint_Connect (demo_opts\<lparr>o_use_srq := True, o_native_qp := False\<rparr>)
       ((demo_connect_ep [11])\<lparr>cm_ids := [demo_id, demo_id]\<rparr>) = Some (s, ep') \<and>
     id_srq (ep_id ep') = 0 \<and> hd (calls ep') = Create_srq 1 8 1"
proof -
  let ?r = "Endpoint_Connect (demo_opts\<lparr>o_use_srq := True, o_native_qp := False\<rparr>)
       ((demo_connect_ep [11])\<lparr>cm_ids := [demo_id, demo_id]\<rparr>)"
  have "map_option (\<lambda>(s, ep). status_ok s \<and> hd (calls ep) = Create_srq 1 8 1) ?r = Some True"
    by code_simp
  then obtain s ep' where run: "?r = Some (s, ep')" "status_ok s \<and> hd (calls ep') = Create_srq 1 8 1"
    by (rule run_test)
  have "id_srq (ep_id ep') = 0"
    by (rule connect_srq_lost [OF run(1), THEN conjunct1]) (use run(2) in \<open>simp_all add: demo_opts_def\<close>)
  with run show ?thesis by blast
qed

end
