(* ===== verification/Magic_Buffer.thy ===== *)
theory Magic_Buffer
  imports Endpoint Magic_Link
begin

text \<open>
  \<^verbatim>\<open>src/ring_buffer/magic_buffer.cpp\<close>: a buffer that is mapped twice, one mapping right
  behind the other, and the functions that make and close the ring buffers over it. This is
  what lets the ring buffers hand out regions that run over the end of the buffer.
\<close>

section \<open>Mapping a segment twice\<close>

definition MAP_FAILED :: u64 where
  "MAP_FAILED = -1"

definition GetMagicBuffer :: "u64 \<Rightarrow> 'e env_scheme \<Rightarrow> (u64 status_or \<times> 'e env_scheme) option" where
  "GetMagicBuffer buf_size e = do {
     (buf_addr, e) \<leftarrow> sys_addr (Mmap (2 * buf_size)) e;
     if buf_addr = MAP_FAILED then Some (Inl (Status Unknown ''error resevering space''), e)
     else do {
       (shm_id, e) \<leftarrow> sys (Shmget buf_size) e;
       let e = sys_void (Munmap buf_addr (2 * buf_size)) e;
       if shm_id < 0
       then Some (Inl (Status Unknown (''error '' @ to_string shm_id @
           '' allocating Sytem V shared memory segment'')), e)
       else do {
         (first, e) \<leftarrow> sys_addr (Shmat shm_id buf_addr) e;
         if first \<noteq> buf_addr
         then Some (Inl (Status Unknown (''error '' @ to_string (errno e) @
             '' mapping shared memory to first half of buffer'')), sys_void (Shmctl_rmid shm_id) e)
         else do {
           let sec_addr = buf_addr + buf_size;
           (second, e) \<leftarrow> sys_addr (Shmat shm_id sec_addr) e;
           if second \<noteq> sec_addr
           then Some (Inl (Status Unknown (''error '' @ to_string (errno e) @
               '' mapping shared memory to second half of buffer'')),
               sys_void (Shmctl_rmid shm_id) (sys_void (Shmdt buf_addr) e))
           else do {
             (ret, e) \<leftarrow> sys (Shmctl_rmid shm_id) e;
             if ret < 0
             then Some (Inl (Status Unknown (''error '' @ to_string (errno e) @
                 '' marking segement to be destroy. Possible shared memory leak!'')),
                 sys_void (Shmdt (buf_addr + buf_size)) (sys_void (Shmdt buf_addr) e))
             else Some (Inr buf_addr, e) } } } } }"

definition FreeMagicBuffer :: "u64 \<Rightarrow> u64 \<Rightarrow> 'e env_scheme \<Rightarrow> (status \<times> 'e env_scheme) option" where
  "FreeMagicBuffer buf_addr buf_size e = do {
     (ret, e) \<leftarrow> sys (Shmdt buf_addr) e;
     if ret \<noteq> 0
     then Some (Status Internal (''error '' @ to_string (errno e) @ '' umapping first half of buffer''), e)
     else do {
       (ret, e) \<leftarrow> sys (Shmdt (buf_addr + buf_size)) e;
       if ret \<noteq> 0
       then Some (Status Internal (''error '' @ to_string (errno e) @ '' umapping second half of buffer''), e)
       else Some (Status0, e) } }"

section \<open>Ring buffers over it\<close>

text \<open>
  \<open>2*size\<close> is computed in \<open>uint32_t\<close>. The result of \<open>FreeMagicBuffer\<close> is ignored when the
  region cannot be registered.
\<close>

definition new_ring_buffer ::
    "(ibv_mr \<Rightarrow> ring_buffer) \<Rightarrow> u32 \<Rightarrow> 'e env_scheme \<Rightarrow> (ring_buffer status_or \<times> 'e env_scheme) option" where
  "new_ring_buffer mk len e = do {
     (buf_s, e) \<leftarrow> GetMagicBuffer (ucast len) e;
     (case buf_s of
        Inl s \<Rightarrow> Some (Inl (Wrap ''error allocating magic buffer'' s), e)
      | Inr buf \<Rightarrow> do {
          (mr, e) \<leftarrow> sys_mr (Reg_mr buf (ucast (2 * len))) (sys_void (Memset buf (ucast len)) e);
          (case mr of
             None \<Rightarrow> do {
               (_, e) \<leftarrow> FreeMagicBuffer buf (ucast len) e;
               Some (Inl (Status Internal ''error registering mr''), e) }
           | Some m \<Rightarrow> Some (Inr (mk m), e)) }) }"

definition NewMagicRingBuffer ::
    "u32 \<Rightarrow> 'e env_scheme \<Rightarrow> (ring_buffer status_or \<times> 'e env_scheme) option" where
  "NewMagicRingBuffer = new_ring_buffer MagicRingBuffer"

definition NewReverseRingBuffer ::
    "u32 \<Rightarrow> 'e env_scheme \<Rightarrow> (ring_buffer status_or \<times> 'e env_scheme) option" where
  "NewReverseRingBuffer = new_ring_buffer ReverseRingBuffer"

text \<open>A region is deregistered by its address.\<close>

definition MagicRingBuffer_Close :: "ring_buffer \<Rightarrow> 'e env_scheme \<Rightarrow> (status \<times> 'e env_scheme) option" where
  "MagicRingBuffer_Close b e = do {
     (ret, e) \<leftarrow> sys (Dereg_mr (rb_addr b)) e;
     if ret \<noteq> 0
     then Some (Status Internal (''Error '' @ to_string ret @ '' deregistering mr''), e)
     else FreeMagicBuffer (rb_addr b) (ucast (rb_length b)) e }"

definition ReverseRingBuffer_Close :: "ring_buffer \<Rightarrow> 'e env_scheme \<Rightarrow> (status \<times> 'e env_scheme) option" where
  "ReverseRingBuffer_Close b e = do {
     (ret, e) \<leftarrow> sys (Dereg_mr (rb_addr b)) e;
     if ret \<noteq> 0
     then Some (Status Internal (''Error '' @ to_string ret @ '' deregistering mr''), e)
     else FreeMagicBuffer (rb_addr b) (ucast (rb_length b)) e }"

text \<open>\<open>BasicRingBuffer::Close\<close> builds an error status and drops it.\<close>

definition BasicRingBuffer_Close :: "ring_buffer \<Rightarrow> 'e env_scheme \<Rightarrow> (status \<times> 'e env_scheme) option" where
  "BasicRingBuffer_Close b e = do {
     (ret, e) \<leftarrow> sys (Dereg_mr (rb_addr b)) e;
     Some (Status0, e) }"

section \<open>What is mapped and what is left behind\<close>

text \<open>
  The segments that were attached, each with the address that \<open>shmat\<close> returned, and the addresses
  that \<open>shmdt\<close> detached with success.
\<close>

definition attached :: "(call \<times> u64) list \<Rightarrow> (int \<times> u64) list" where
  "attached gs = concat (map (\<lambda>(c, r). case c of Shmat i a \<Rightarrow> [(i, r)] | _ \<Rightarrow> []) gs)"

definition detached :: "(call \<times> int) list \<Rightarrow> u64 list" where
  "detached rs = concat (map (\<lambda>(c, r). case c of Shmdt a \<Rightarrow> if r = 0 then [a] else [] | _ \<Rightarrow> []) rs)"

lemma attached_simps [simp]:
  "attached [] = []" "attached (xs @ ys) = attached xs @ attached ys"
  "attached ((c, r) # gs) = (case c of Shmat i a \<Rightarrow> (i, r) # attached gs | _ \<Rightarrow> attached gs)"
  by (simp_all add: attached_def split: call.split)

lemma detached_simps [simp]:
  "detached [] = []" "detached (xs @ ys) = detached xs @ detached ys"
  "detached ((c, r) # rs) = (case c of Shmdt a \<Rightarrow> if r = 0 then a # detached rs else detached rs | _ \<Rightarrow> detached rs)"
  by (simp_all add: detached_def split: call.split)

lemma sys_some: "sys c e = Some (r, e') \<Longrightarrow>
  calls e' = calls e @ [c] \<and> replied e' = replied e @ [(c, r)] \<and> given e' = given e"
  by (auto simp: sys_def split: list.splits)

lemma sys_addr_some: "sys_addr c e = Some (r, e') \<Longrightarrow>
  calls e' = calls e @ [c] \<and> replied e' = replied e \<and> given e' = given e @ [(c, r)]"
  by (auto simp: sys_addr_def split: list.splits)

lemma sys_mr_some: "sys_mr c e = Some (r, e') \<Longrightarrow>
  calls e' = calls e @ [c] \<and> replied e' = replied e \<and> given e' = given e"
  by (auto simp: sys_mr_def split: list.splits)

lemma sys_void_calls [simp]: "calls (sys_void c e) = calls e @ [c]"
  "replied (sys_void c e) = replied e" "given (sys_void c e) = given e"
  by (simp_all add: sys_void_def)

lemmas call_traces = sys_some sys_addr_some sys_mr_some

text \<open>The segment is the one that \<open>shmget\<close> made; it is marked to go with its last mapping.\<close>

definition one_segment :: "u64 \<Rightarrow> u64 \<Rightarrow> 'e env_scheme \<Rightarrow> 'e env_scheme \<Rightarrow> bool" where
  "one_segment n a e e' \<longleftrightarrow> (\<exists>i \<ge> 0. \<exists>r \<ge> 0. replied e' = replied e @ [(Shmget n, i), (Shmctl_rmid i, r)] \<and>
     attached (given e') = attached (given e) @ [(i, a), (i, a + n)])"

lemma GetMagicBuffer_ok:
  assumes "GetMagicBuffer n e = Some (Inr a, e')"
  shows "one_segment n a e e'"
  using assms
  by (auto simp: one_segment_def GetMagicBuffer_def Let_def elim!: bindE split: if_splits dest!: call_traces)


lemma GetMagicBuffer_addr:
  assumes "GetMagicBuffer n e = Some (Inr a, e')"
  shows "a = hd (addrs e) \<and> mrs e' = mrs e"
  using assms
  by (auto simp: GetMagicBuffer_def Let_def sys_defs elim!: bindE split: if_splits list.splits)

lemma new_ring_buffer_ok:
  assumes "new_ring_buffer mk len e = Some (Inr b, e')" and "mrs e = Some m # ms"
  shows "b = mk m \<and> one_segment (ucast len) (hd (addrs e)) e e'"
proof -
  from assms(1) obtain a e1 where g: "GetMagicBuffer (ucast len) e = Some (Inr a, e1)"
    and r: "(do { (mr, e) \<leftarrow> sys_mr (Reg_mr a (ucast (2 * len))) (sys_void (Memset a (ucast len)) e1);
      (case mr of
         None \<Rightarrow> do {
           (_, e) \<leftarrow> FreeMagicBuffer a (ucast len) e;
           Some (Inl (Status Internal ''error registering mr''), e) }
       | Some m \<Rightarrow> Some (Inr (mk m), e)) }) = Some (Inr b, e')"
    unfolding new_ring_buffer_def by (auto elim!: bindE split: sum.splits)
  have m: "mrs (sys_void (Memset a (ucast len)) e1) = Some m # ms"
    using GetMagicBuffer_addr [OF g] assms(2) by (simp add: sys_void_def)
  then have "b = mk m \<and> replied e' = replied e1 \<and> given e' = given e1"
    using r by (auto simp: sys_mr_def sys_void_def)
  with GetMagicBuffer_ok [OF g] GetMagicBuffer_addr [OF g] show ?thesis by (simp add: one_segment_def)
qed

text \<open>
  C26: A magic ring buffer of less than 2 GiB is one shared memory segment of the length asked for,
  attached twice, one copy right behind the other, and marked for removal; the buffer has that
  address and that length. A successful \<open>Close\<close> detaches both copies with success and attaches
  nothing. The library is only relied on to return the region it was asked to register.
\<close>

theorem ring_buffer_lifecycle:
  assumes "NewMagicRingBuffer len e = Some (Inr b, e1)" and "MagicRingBuffer_Close b e1 = Some (s, e2)"
    and "status_ok s" and "unat len < 2147483648"
    and "mrs e = Some m # ms" and "mr_addr m = hd (addrs e)" and "mr_length m = ucast (2 * len)"
  shows "rb_addr b = hd (addrs e) \<and> rb_length b = len \<and>
    (\<exists>i \<ge> 0. \<exists>r \<ge> 0. replied e1 = replied e @ [(Shmget (ucast len), i), (Shmctl_rmid i, r)] \<and>
      attached (given e1) = attached (given e) @ [(i, rb_addr b), (i, rb_addr b + ucast len)]) \<and>
    attached (given e2) = attached (given e1) \<and>
    detached (replied e2) = detached (replied e) @ [rb_addr b, rb_addr b + ucast len]"
proof -
  from assms(1) have n: "new_ring_buffer MagicRingBuffer len e = Some (Inr b, e1)"
    by (simp add: NewMagicRingBuffer_def)
  note r = new_ring_buffer_ok [OF n assms(5)]
  have "unat (2 * len) = 2 * unat len"
    using assms(4) by (simp add: unat_word_ariths)
  then have half: "unat (mr_length m div 2) = unat len"
    using assms(7) by (simp add: unat_div_distrib)
  have "ucast (mr_length m div 2) = len"
    by (rule word_unat_eq_iff [THEN iffD2])
      (use half unat32_lt [of len] in \<open>simp add: unsigned_ucast_eq take_bit_eq_mod\<close>)
  then have b: "rb_addr b = hd (addrs e)" "rb_length b = len"
    using r assms(6) by (simp_all add: MagicRingBuffer_def)
  have "replied e2 = replied e1 @ [(Dereg_mr (rb_addr b), 0), (Shmdt (rb_addr b), 0), (Shmdt (rb_addr b + ucast len), 0)]"
    "given e2 = given e1"
    using assms(2,3) b
    by (auto simp: MagicRingBuffer_Close_def FreeMagicBuffer_def elim!: bindE split: if_splits dest!: call_traces)
  with r b show ?thesis by (auto simp: one_segment_def)
qed

definition demo_buffer_env :: env where
  "demo_buffer_env = demo_env\<lparr>addrs := [8192, 8192, 12288], rets := [3, 0, 0, 0, 0],
     mrs := [Some \<lparr>mr_addr = 8192, mr_length = 8192, mr_lkey = 7\<rparr>]\<rparr>"

theorem ring_buffer_lifecycle_witness:
  "\<exists>b e1 s e2. NewMagicRingBuffer 4096 demo_buffer_env = Some (Inr b, e1) \<and>
     MagicRingBuffer_Close b e1 = Some (s, e2) \<and>
     (\<exists>i. attached (given e1) = [(i, 8192), (i, 12288)]) \<and> detached (replied e2) = [8192, 12288]"
proof -
  have "map_option (\<lambda>(r, e). \<not> isl r \<and>
      map_option (\<lambda>(s, _). status_ok s) (MagicRingBuffer_Close (projr r) e) = Some True)
      (NewMagicRingBuffer 4096 demo_buffer_env) = Some True" by code_simp
  then obtain b e1 where n: "NewMagicRingBuffer 4096 demo_buffer_env = Some (Inr b, e1)"
    and "map_option (\<lambda>(s, _). status_ok s) (MagicRingBuffer_Close b e1) = Some True"
    by (rule run_value)
  then obtain s e2 where c: "MagicRingBuffer_Close b e1 = Some (s, e2)" "status_ok s"
    by (auto elim: run_test)
  have "(\<exists>i. attached (given e1) = [(i, 8192), (i, 12288)]) \<and> detached (replied e2) = [8192, 12288]"
    using ring_buffer_lifecycle [OF n c, of "\<lparr>mr_addr = 8192, mr_length = 8192, mr_lkey = 7\<rparr>" "[]"]
    by (auto simp: demo_buffer_env_def demo_env_def)
  with n c show ?thesis by blast
qed



text \<open>
  The registered length \<open>2*size\<close> is computed in 32 bits: for a size of 2 GiB or more the
  buffer works with a ring that is 2 GiB shorter than the one asked for.
\<close>

theorem ring_buffer_size_wraps:
  assumes "NewMagicRingBuffer len e = Some (Inr b, e1)" and "2147483648 \<le> unat len"
    and "mrs e = Some m # ms" and "mr_length m = ucast (2 * len)"
  shows "unat (rb_length b) = unat len - 2147483648"
proof -
  have n: "new_ring_buffer MagicRingBuffer len e = Some (Inr b, e1)"
    using assms(1) by (simp add: NewMagicRingBuffer_def)
  have "2 * unat len - 4294967296 < 4294967296" using unat32_lt [of len] by linarith
  moreover have "(2 * unat len) mod 4294967296 = (2 * unat len - 4294967296) mod 4294967296"
    using assms(2) by (intro le_mod_geq) simp
  ultimately have "unat (2 * len) = 2 * unat len - 4294967296"
    by (simp add: unat_word_ariths)
  then have "unat (mr_length m div 2) = unat len - 2147483648"
    using assms(4) by (simp add: unat_div_distrib)
  then show ?thesis
    using new_ring_buffer_ok [OF n assms(3)] unat32_lt [of len]
    by (simp add: MagicRingBuffer_def unsigned_ucast_eq take_bit_eq_mod)
qed

theorem ring_buffer_size_wraps_witness:
  "\<exists>b e1. NewMagicRingBuffer 2147483648 (demo_env\<lparr>addrs := [8192, 8192, 2147491840],
       rets := [3, 0], mrs := [Some \<lparr>mr_addr = 8192, mr_length = 0, mr_lkey = 7\<rparr>]\<rparr>) =
     Some (Inr b, e1) \<and> rb_length b = 0"
proof -
  let ?e = "demo_env\<lparr>addrs := [8192, 8192, 2147491840],
       rets := [3, 0], mrs := [Some \<lparr>mr_addr = 8192, mr_length = 0, mr_lkey = 7\<rparr>]\<rparr>"
  have "map_option (\<lambda>(r, _). \<not> isl r \<and> True) (NewMagicRingBuffer 2147483648 ?e) = Some True"
    by code_simp
  then obtain b e1 where run: "NewMagicRingBuffer 2147483648 ?e = Some (Inr b, e1)"
    by (rule run_value)
  have "unat (rb_length b) = 0"
    using ring_buffer_size_wraps [OF run, of "\<lparr>mr_addr = 8192, mr_length = 0, mr_lkey = 7\<rparr>" "[]"]
    by simp
  with run show ?thesis by (auto simp: unat_eq_zero)
qed

end
