(* ===== verification/Receive_Queue.thy ===== *)
theory Receive_Queue
  imports Endpoint "HOL-Library.Multiset"
begin

text \<open>
  \<^verbatim>\<open>src/receive_queue.{hpp,cpp}\<close> and \<^verbatim>\<open>src/shared_receive_queue.{hpp,cpp}\<close>: the buffers a
  receiver lends to the network card. A buffer is named by its \<open>wr_id\<close>; buffers given back are
  collected and posted again in batches of 64. \<open>ReceiveQueue\<close> and \<open>SharedReceiveQueue\<close> have the
  same private fields and share a record; a stub of the shared queue passes ids through a
  single producer queue of the moodycamel library (a list here; whether an enqueue succeeds
  comes from the environment).
\<close>

section \<open>Data\<close>

record buffer_mr =
  bm_addr :: u64
  bm_length :: u64

record receive_queue =
  rq_mr :: ibv_mr
  rq_transfer_size :: u64
  rq_current_rcv_mr :: int
  rq_max_rcv_mr :: int
  rq_wrs :: "recv_wr list"
  rq_srq :: u64

definition ContextToAddr :: "receive_queue \<Rightarrow> u32 \<Rightarrow> u64" where
  "ContextToAddr q wr_id = mr_addr (rq_mr q) + ucast wr_id * rq_transfer_size q"

text \<open>The posted request of buffer \<open>i\<close>, as the array element is set up and then filled in.\<close>

definition slot_wr :: "ibv_mr \<Rightarrow> u64 \<Rightarrow> u64 \<Rightarrow> u64 \<Rightarrow> recv_wr" where
  "slot_wr mr transfer_size i addr = \<lparr>rwr_id = i, rwr_sge = sge addr transfer_size (mr_lkey mr)\<rparr>"

definition batch_size :: int where
  "batch_size = 64"

definition batch_wrs :: "ibv_mr \<Rightarrow> u64 \<Rightarrow> recv_wr list" where
  "batch_wrs mr transfer_size =
     map (\<lambda>i. slot_wr mr transfer_size (word_of_nat i) 0) [0..<nat batch_size]"

definition ReceiveQueue_new :: "u64 \<Rightarrow> ibv_mr \<Rightarrow> u64 \<Rightarrow> receive_queue" where
  "ReceiveQueue_new srq mr transfer_size = \<lparr>rq_mr = mr, rq_transfer_size = transfer_size,
     rq_current_rcv_mr = batch_size, rq_max_rcv_mr = batch_size,
     rq_wrs = batch_wrs mr transfer_size, rq_srq = srq\<rparr>"

section \<open>ReceiveQueue\<close>

text \<open>
  \<open>free(this->mr_->addr)\<close> reads the region after \<open>ibv_dereg_mr\<close> destroyed it; the model frees
  the address it had before.
\<close>

definition ReceiveQueue_Close :: "receive_queue \<Rightarrow> endpoint \<Rightarrow> (status \<times> endpoint) option" where
  "ReceiveQueue_Close q ep = do {
     (ret, ep) \<leftarrow> sys (Dereg_mr (mr_addr (rq_mr q))) ep;
     if ret \<noteq> 0
     then Some (Status Internal (''error  '' @ to_string ret @ '' deregistering mr''), ep)
     else Some (Status0, sys_void (Free_mem (mr_addr (rq_mr q))) ep) }"

definition ReceiveQueue_GetMR :: "receive_queue \<Rightarrow> u32 \<Rightarrow> buffer_mr" where
  "ReceiveQueue_GetMR q wr_id =
     \<lparr>bm_addr = mr_addr (rq_mr q) + ucast wr_id * rq_transfer_size q, bm_length = rq_transfer_size q\<rparr>"

text \<open>\<open>int i = --current_rcv_mr_\<close>, then element \<open>i\<close> of both arrays is filled in.\<close>

definition fill_slot :: "u32 \<Rightarrow> receive_queue \<Rightarrow> receive_queue" where
  "fill_slot wr_id q =
     (let addr = mr_addr (rq_mr q) + ucast wr_id * rq_transfer_size q;
          i = rq_current_rcv_mr q - 1; w = rq_wrs q ! nat i
      in q\<lparr>rq_current_rcv_mr := i,
           rq_wrs := (rq_wrs q)[nat i := w\<lparr>rwr_id := ucast wr_id,
             rwr_sge := (rwr_sge w)\<lparr>sge_addr := addr\<rparr>\<rparr>]\<rparr>)"

definition ReceiveQueue_PostMR ::
    "u32 \<Rightarrow> receive_queue \<Rightarrow> endpoint \<Rightarrow> (status \<times> receive_queue \<times> endpoint) option" where
  "ReceiveQueue_PostMR wr_id q ep =
     (let q = fill_slot wr_id q in
      if rq_current_rcv_mr q = 0
      then (let q = q\<lparr>rq_current_rcv_mr := rq_max_rcv_mr q\<rparr> in do {
        (st, ep) \<leftarrow> Endpoint_PostRecvRaw (rq_wrs q) ep;
        Some (st, q, ep) })
      else Some (Status0, q, ep))"

text \<open>The first posting: buffers \<open>0 .. inflight - 1\<close>, in order, up to the first error.\<close>

fun post_initial :: "nat list \<Rightarrow> ibv_mr \<Rightarrow> u64 \<Rightarrow> endpoint \<Rightarrow> (status \<times> endpoint) option" where
  "post_initial [] mr transfer_size ep = Some (Status0, ep)"
| "post_initial (i # is) mr transfer_size ep = do {
     (st, ep) \<leftarrow> Endpoint_PostRecv (word_of_nat i) (mr_lkey mr)
                  (mr_addr mr + word_of_nat i * transfer_size) transfer_size ep;
     if \<not> status_ok st then Some (st, ep) else post_initial is mr transfer_size ep }"

definition GetReceiveQueue ::
    "u64 \<Rightarrow> u64 \<Rightarrow> endpoint \<Rightarrow> (receive_queue status_or \<times> endpoint) option" where
  "GetReceiveQueue transfer_size inflight ep = do {
     (buf, ep) \<leftarrow> sys_addr (Malloc (inflight * transfer_size)) ep;
     (mr, ep) \<leftarrow> sys_mr (Reg_mr buf (transfer_size * inflight)) ep;
     (case mr of
        None \<Rightarrow> None
      | Some mr \<Rightarrow> do {
          (st, ep) \<leftarrow> post_initial [0..<unat inflight] mr transfer_size ep;
          if \<not> status_ok st then do {
            (_, ep) \<leftarrow> sys (Dereg_mr (mr_addr mr)) ep;
            Some (Inl (Wrap ''error setting up receive queue'' st), sys_void (Free_mem buf) ep) }
          else Some (Inr (ReceiveQueue_new 0 mr transfer_size), ep) }) }"

section \<open>SharedReceiveQueue and its stubs\<close>

record shared_receive_queue =
  sq_rq :: receive_queue
  sq_running :: bool
  sq_queues :: "u32 list list"

definition SharedReceiveQueue_GetMR :: "shared_receive_queue \<Rightarrow> u32 \<Rightarrow> buffer_mr" where
  "SharedReceiveQueue_GetMR s wr_id =
     \<lparr>bm_addr = ContextToAddr (sq_rq s) wr_id, bm_length = rq_transfer_size (sq_rq s)\<rparr>"

definition srq_post ::
    "u32 \<Rightarrow> receive_queue \<Rightarrow> 'e env_scheme \<Rightarrow> (status \<times> receive_queue \<times> 'e env_scheme) option" where
  "srq_post wr_id q e =
     (let q = fill_slot wr_id q in
      if rq_current_rcv_mr q = 0
      then (let q = q\<lparr>rq_current_rcv_mr := rq_max_rcv_mr q\<rparr> in do {
        (ret, e) \<leftarrow> sys (Post_srq_recv (rq_srq q) (rq_wrs q)) e;
        Some (if ret \<noteq> 0 then Status Internal (''error  '' @ to_string ret @
                '' reposting buffer to SharedReceiveQueue'') else Status0, q, e) })
      else Some (Status0, q, e))"

definition SharedReceiveQueue_PostMR ::
    "u32 \<Rightarrow> shared_receive_queue \<Rightarrow> 'e env_scheme \<Rightarrow>
     (status \<times> shared_receive_queue \<times> 'e env_scheme) option" where
  "SharedReceiveQueue_PostMR wr_id s e = do {
     (st, q, e) \<leftarrow> srq_post wr_id (sq_rq s) e;
     Some (st, s\<lparr>sq_rq := q\<rparr>, e) }"

text \<open>A new stub is the index of its queue.\<close>

definition SharedReceiveQueue_NewReceiver :: "shared_receive_queue \<Rightarrow> nat \<times> shared_receive_queue" where
  "SharedReceiveQueue_NewReceiver s = (length (sq_queues s), s\<lparr>sq_queues := sq_queues s @ [[]]\<rparr>)"

text \<open>One turn of the loop over the queues: one id is taken from each that is not empty.\<close>

fun run_queues ::
    "u32 list list \<Rightarrow> receive_queue \<Rightarrow> 'e env_scheme \<Rightarrow>
     (status \<times> u32 list list \<times> receive_queue \<times> 'e env_scheme) option" where
  "run_queues [] q e = Some (Status0, [], q, e)"
| "run_queues ([] # qs) q e = do {
     (st, qs, q, e) \<leftarrow> run_queues qs q e;
     Some (st, [] # qs, q, e) }"
| "run_queues ((i # is) # qs) q e = do {
     (st, q, e) \<leftarrow> srq_post i q e;
     if \<not> status_ok st then Some (st, is # qs, q, e)
     else do {
       (st, qs, q, e) \<leftarrow> run_queues qs q e;
       Some (st, is # qs, q, e) } }"

definition SharedReceiveQueueStub_PostMR ::
    "nat \<Rightarrow> u32 \<Rightarrow> shared_receive_queue \<Rightarrow> bool \<Rightarrow> status \<times> shared_receive_queue" where
  "SharedReceiveQueueStub_PostMR k wr_id s succeded =
     (if \<not> succeded then (Status RateLimit ''inter process queue overrun'', s)
      else (Status0, s\<lparr>sq_queues := (sq_queues s)[k := sq_queues s ! k @ [wr_id]]\<rparr>))"

text \<open>
  \<open>Run\<close> loops while \<open>running\<close> holds, and the stubs go on passing ids meanwhile. Before each turn
  the environment says which stubs gave back which ids since the turn before and whether the
  enqueue succeeded (an id that arrives while a turn is under way is found when its queue is
  looked at next), then what is read from \<open>running\<close>. The turns not taken are returned.
\<close>

definition stub_posts :: "(nat \<times> u32 \<times> bool) list \<Rightarrow> shared_receive_queue \<Rightarrow> shared_receive_queue" where
  "stub_posts ps s = fold (\<lambda>(k, i, ok) s. snd (SharedReceiveQueueStub_PostMR k i s ok)) ps s"

type_synonym srq_turn = "(nat \<times> u32 \<times> bool) list \<times> bool"

fun SharedReceiveQueue_Run ::
    "srq_turn list \<Rightarrow> shared_receive_queue \<Rightarrow> 'e env_scheme \<Rightarrow>
     (status \<times> shared_receive_queue \<times> srq_turn list \<times> 'e env_scheme) option" where
  "SharedReceiveQueue_Run [] s e = None"
| "SharedReceiveQueue_Run ((ps, running) # ts) s e = (
     let s = stub_posts ps s in
     if \<not> running then Some (Status0, s, ts, e)
     else do {
       (st, qs, q, e) \<leftarrow> run_queues (sq_queues s) (sq_rq s) e;
       let s = s\<lparr>sq_queues := qs, sq_rq := q\<rparr>;
       if \<not> status_ok st then Some (st, s, ts, e) else SharedReceiveQueue_Run ts s e })"

definition SharedReceiveQueueStub_GetMR :: "shared_receive_queue \<Rightarrow> u32 \<Rightarrow> buffer_mr" where
  "SharedReceiveQueueStub_GetMR s wr_id =
     \<lparr>bm_addr = ContextToAddr (sq_rq s) wr_id, bm_length = rq_transfer_size (sq_rq s)\<rparr>"

definition SharedReceiveQueueStub_Close :: "'e env_scheme \<Rightarrow> (status \<times> 'e env_scheme) option" where
  "SharedReceiveQueueStub_Close e = Some (Status0, e)"

definition SharedReceiveQueue_GetSRQ :: "shared_receive_queue \<Rightarrow> u64" where
  "SharedReceiveQueue_GetSRQ s = rq_srq (sq_rq s)"

definition SharedReceiveQueue_Close ::
    "shared_receive_queue \<Rightarrow> 'e env_scheme \<Rightarrow> (status \<times> shared_receive_queue \<times> 'e env_scheme) option" where
  "SharedReceiveQueue_Close s e =
     (let s = s\<lparr>sq_running := False\<rparr> in do {
      (ret, e) \<leftarrow> sys (Dereg_mr (mr_addr (rq_mr (sq_rq s)))) e;
      if ret \<noteq> 0
      then Some (Status Internal (''error  '' @ to_string ret @ '' deregistering mr''), s, e)
      else do {
        (ret, e) \<leftarrow> sys (Destroy_srq (rq_srq (sq_rq s))) (sys_void (Free_mem (mr_addr (rq_mr (sq_rq s)))) e);
        Some (if ret \<noteq> 0 then Status Internal (''error  '' @ to_string ret @ '' destroying srq'')
              else Status0, s, e) } })"

fun post_initial_srq ::
    "nat list \<Rightarrow> u64 \<Rightarrow> ibv_mr \<Rightarrow> u64 \<Rightarrow> 'e env_scheme \<Rightarrow> (int \<times> 'e env_scheme) option" where
  "post_initial_srq [] srq mr transfer_size e = Some (0, e)"
| "post_initial_srq (i # is) srq mr transfer_size e = do {
     (ret, e) \<leftarrow> sys (Post_srq_recv srq [slot_wr mr transfer_size (word_of_nat i)
                        (mr_addr mr + word_of_nat i * transfer_size)]) e;
     if ret \<noteq> 0 then Some (ret, e) else post_initial_srq is srq mr transfer_size e }"

definition GetSharedReceiveQueue ::
    "u64 \<Rightarrow> u64 \<Rightarrow> u64 \<Rightarrow> 'e env_scheme \<Rightarrow> (shared_receive_queue status_or \<times> 'e env_scheme) option" where
  "GetSharedReceiveQueue pd transfer_size inflight e = do {
     (srq, e) \<leftarrow> sys_addr (Create_srq pd (ucast inflight) 1) e;
     if srq = 0
     then Some (Inl (Status Internal (''error '' @ to_string (errno e) @ '' creating ibv_srq'')), e)
     else do {
       (buf, e) \<leftarrow> sys_addr (Malloc (inflight * transfer_size)) e;
       (mr, e) \<leftarrow> sys_mr (Reg_mr buf (transfer_size * inflight)) e;
       (case mr of
          None \<Rightarrow> None
        | Some mr \<Rightarrow> do {
            (ret, e) \<leftarrow> post_initial_srq [0..<unat inflight] srq mr transfer_size e;
            if ret \<noteq> 0 then do {
              (_, e) \<leftarrow> sys (Dereg_mr (mr_addr mr)) e;
              Some (Inl (Status Internal (''error  '' @ to_string ret @
                '' registering buffer for SharedReceiveQueue'')), sys_void (Free_mem buf) e) }
            else Some (Inr \<lparr>sq_rq = ReceiveQueue_new srq mr transfer_size, sq_running = True,
                            sq_queues = []\<rparr>, e) }) } }"

section \<open>The contract of giving buffers back\<close>

text \<open>
  The receive requests of the recorded calls that returned 0 and were taken, and of those that
  reported an error. (An error leaves open how many of the list were taken; the code does not
  look.)
\<close>

fun call_wrs :: "call \<Rightarrow> recv_wr list" where
  "call_wrs (Post_recv ws) = ws"
| "call_wrs (Post_srq_recv s ws) = ws"
| "call_wrs _ = []"

definition accepted_wrs :: "(call \<times> int) list \<Rightarrow> recv_wr list" where
  "accepted_wrs rs = concat (map (\<lambda>(c, r). if r = 0 then call_wrs c else []) rs)"

definition refused_wrs :: "(call \<times> int) list \<Rightarrow> recv_wr list" where
  "refused_wrs rs = concat (map (\<lambda>(c, r). if r \<noteq> 0 then call_wrs c else []) rs)"

lemma replied_wrs_simps [simp]:
  "accepted_wrs [] = []" "accepted_wrs ((c, r) # rs) = (if r = 0 then call_wrs c else []) @ accepted_wrs rs"
  "accepted_wrs (xs @ ys) = accepted_wrs xs @ accepted_wrs ys"
  "refused_wrs [] = []" "refused_wrs ((c, r) # rs) = (if r \<noteq> 0 then call_wrs c else []) @ refused_wrs rs"
  "refused_wrs (xs @ ys) = refused_wrs xs @ refused_wrs ys"
  by (simp_all add: accepted_wrs_def refused_wrs_def)

text \<open>Giving back a list of buffers; the client goes on after an error. The statuses it saw.\<close>

fun post_all ::
    "(u32 \<Rightarrow> 'q \<Rightarrow> 'w \<Rightarrow> (status \<times> 'q \<times> 'w) option) \<Rightarrow> u32 list \<Rightarrow> 'q \<Rightarrow> 'w \<Rightarrow>
     (status list \<times> 'q \<times> 'w) option" where
  "post_all post [] q w = Some ([], q, w)"
| "post_all post (i # is) q w = do {
     (st, q, w) \<leftarrow> post i q w;
     (sts, q, w) \<leftarrow> post_all post is q w;
     Some (st # sts, q, w) }"

lemma post_all_statuses: "post_all post is q w = Some (sts, q', w') \<Longrightarrow> length sts = length is"
  by (induction "is" arbitrary: q w sts) (auto elim!: bindE)

definition failures :: "status list \<Rightarrow> nat" where
  "failures sts = length (filter (\<lambda>st. \<not> status_ok st) sts)"

lemma failures_simps [simp]:
  "failures [] = 0" "failures (st # sts) = (if status_ok st then 0 else 1) + failures sts"
  by (simp_all add: failures_def)

text \<open>
  \<open>wr q i\<close> is the request that lends buffer \<open>i\<close>; \<open>pend\<close> the requests collected and not posted.
  Giving buffer \<open>i\<close> back adds its request, once, to what is taken by the card, refused by it or
  collected, and a batch of 64 is refused exactly when the status says so.
\<close>

locale repost_contract =
  fixes post :: "u32 \<Rightarrow> 'q \<Rightarrow> 'w \<Rightarrow> (status \<times> 'q \<times> 'w) option"
    and trace :: "'w \<Rightarrow> (call \<times> int) list" and ok :: "'q \<Rightarrow> bool"
    and pend :: "'q \<Rightarrow> recv_wr list" and wr :: "'q \<Rightarrow> u32 \<Rightarrow> recv_wr"
  assumes pend_bound: "ok q \<Longrightarrow> length (pend q) < 64"
    and post_once: "ok q \<Longrightarrow> post i q w = Some (st, q', w') \<Longrightarrow> ok q' \<and> wr q' = wr q \<and>
      mset (accepted_wrs (trace w')) + mset (refused_wrs (trace w')) + mset (pend q') =
      mset (accepted_wrs (trace w)) + mset (refused_wrs (trace w)) + mset (pend q) + {#wr q i#} \<and>
      length (refused_wrs (trace w')) = length (refused_wrs (trace w)) + 64 * failures [st]"
begin

lemma post_all_conserves:
  "ok q \<Longrightarrow> post_all post is q w = Some (sts, q', w') \<Longrightarrow> ok q' \<and> wr q' = wr q \<and>
     mset (accepted_wrs (trace w')) + mset (refused_wrs (trace w')) + mset (pend q') =
     mset (accepted_wrs (trace w)) + mset (refused_wrs (trace w)) + mset (pend q) +
       image_mset (wr q) (mset is) \<and>
     length (refused_wrs (trace w')) = length (refused_wrs (trace w)) + 64 * failures sts"
proof (induction "is" arbitrary: q w sts)
  case (Cons i js)
  then obtain st q1 w1 sts1 where 1: "post i q w = Some (st, q1, w1)"
    "post_all post js q1 w1 = Some (sts1, q', w')" "sts = st # sts1" by (auto elim!: bindE)
  note p = post_once [OF Cons.prems(1) 1(1)]
  from Cons.IH [OF _ 1(2)] p 1(3) show ?case by simp
qed simp

end

section \<open>Both queues keep it\<close>

definition rq_ok :: "receive_queue \<Rightarrow> bool" where
  "rq_ok q \<longleftrightarrow> rq_max_rcv_mr q = 64 \<and> length (rq_wrs q) = 64 \<and>
     0 < rq_current_rcv_mr q \<and> rq_current_rcv_mr q \<le> 64 \<and>
     list_all (\<lambda>w. sge_length (rwr_sge w) = ucast (rq_transfer_size q) \<and>
       sge_lkey (rwr_sge w) = mr_lkey (rq_mr q)) (rq_wrs q)"

definition rq_pending :: "receive_queue \<Rightarrow> recv_wr list" where
  "rq_pending q = drop (nat (rq_current_rcv_mr q)) (rq_wrs q)"

definition rq_wr :: "receive_queue \<Rightarrow> u32 \<Rightarrow> recv_wr" where
  "rq_wr q i = slot_wr (rq_mr q) (rq_transfer_size q) (ucast i) (ContextToAddr q i)"

lemma rq_ok_new: "rq_ok (ReceiveQueue_new srq mr n)" "rq_pending (ReceiveQueue_new srq mr n) = []"
  by (simp_all add: rq_ok_def rq_pending_def ReceiveQueue_new_def batch_size_def batch_wrs_def
      list_all_iff slot_wr_def sge_def)

lemma fill_slot_pending:
  assumes "rq_ok q"
  shows "drop (nat (rq_current_rcv_mr (fill_slot i q))) (rq_wrs (fill_slot i q)) = rq_wr q i # rq_pending q"
    and "length (rq_wrs (fill_slot i q)) = 64"
    and "list_all (\<lambda>w. sge_length (rwr_sge w) = ucast (rq_transfer_size q) \<and>
       sge_lkey (rwr_sge w) = mr_lkey (rq_mr q)) (rq_wrs (fill_slot i q))"
    and "rq_current_rcv_mr (fill_slot i q) = rq_current_rcv_mr q - 1"
    and "rq_mr (fill_slot i q) = rq_mr q" "rq_transfer_size (fill_slot i q) = rq_transfer_size q"
      "rq_max_rcv_mr (fill_slot i q) = rq_max_rcv_mr q" "rq_srq (fill_slot i q) = rq_srq q"
proof -
  note r = assms [unfolded rq_ok_def]
  let ?k = "nat (rq_current_rcv_mr q - 1)" and ?w = "rq_wrs q ! nat (rq_current_rcv_mr q - 1)"
  have k: "?k < 64" "nat (rq_current_rcv_mr q) = Suc ?k" using r by auto
  have "?w \<in> set (rq_wrs q)" using k r by simp
  then have g: "sge_length (rwr_sge ?w) = ucast (rq_transfer_size q)"
    "sge_lkey (rwr_sge ?w) = mr_lkey (rq_mr q)" using r by (simp_all add: list_all_iff)
  have new: "?w\<lparr>rwr_id := ucast i, rwr_sge := (rwr_sge ?w)\<lparr>sge_addr := ContextToAddr q i\<rparr>\<rparr> = rq_wr q i"
    using g by (simp add: rq_wr_def slot_wr_def sge_def)
  then have wrs: "rq_wrs (fill_slot i q) = (rq_wrs q)[?k := rq_wr q i]"
    by (simp add: fill_slot_def Let_def ContextToAddr_def)
  have gi: "sge_length (rwr_sge (rq_wr q i)) = ucast (rq_transfer_size q)"
    "sge_lkey (rwr_sge (rq_wr q i)) = mr_lkey (rq_mr q)"
    by (simp_all add: rq_wr_def slot_wr_def sge_def)
  show cur: "rq_current_rcv_mr (fill_slot i q) = rq_current_rcv_mr q - 1"
    by (simp add: fill_slot_def Let_def)
  show "drop (nat (rq_current_rcv_mr (fill_slot i q))) (rq_wrs (fill_slot i q)) = rq_wr q i # rq_pending q"
    using k r by (simp add: cur wrs rq_pending_def drop_update_swap flip: Cons_nth_drop_Suc)
  show "length (rq_wrs (fill_slot i q)) = 64" using r by (simp add: wrs)
  show "list_all (\<lambda>w. sge_length (rwr_sge w) = ucast (rq_transfer_size q) \<and>
       sge_lkey (rwr_sge w) = mr_lkey (rq_mr q)) (rq_wrs (fill_slot i q))"
    using r gi unfolding wrs list_all_iff by (auto dest!: set_update_subset_insert [THEN subsetD])
qed (simp_all add: fill_slot_def Let_def)

text \<open>The slot is filled; the batch goes out when it was the last one.\<close>

lemma fill_slot_last:
  assumes "rq_ok q" and "rq_current_rcv_mr (fill_slot i q) = 0"
  shows "rq_ok ((fill_slot i q)\<lparr>rq_current_rcv_mr := rq_max_rcv_mr q\<rparr>)"
    "rq_pending ((fill_slot i q)\<lparr>rq_current_rcv_mr := rq_max_rcv_mr q\<rparr>) = []"
    "rq_wrs (fill_slot i q) = rq_wr q i # rq_pending q" "length (rq_pending q) = 63"
  using assms fill_slot_pending [OF assms(1), of i]
  by (simp_all add: rq_ok_def rq_pending_def)

lemma fill_slot_more:
  assumes "rq_ok q" and "rq_current_rcv_mr (fill_slot i q) \<noteq> 0"
  shows "rq_ok (fill_slot i q)" "rq_pending (fill_slot i q) = rq_wr q i # rq_pending q"
  using assms fill_slot_pending [OF assms(1), of i]
  by (simp_all add: rq_ok_def rq_pending_def)

lemma rq_wr_fill [simp]: "rq_wr (fill_slot i q) = rq_wr q"
  "rq_wr (q\<lparr>rq_current_rcv_mr := n\<rparr>) = rq_wr q"
  by (simp_all add: rq_wr_def ContextToAddr_def fill_slot_def Let_def fun_eq_iff)

lemma rq_pending_bound: "rq_ok q \<Longrightarrow> length (rq_pending q) < 64"
  by (auto simp: rq_ok_def rq_pending_def)

lemma rq_post_once:
  assumes "rq_ok q" and "ReceiveQueue_PostMR i q ep = Some (st, q', ep')"
  shows "rq_ok q' \<and> rq_wr q' = rq_wr q \<and>
    mset (accepted_wrs (replied ep')) + mset (refused_wrs (replied ep')) + mset (rq_pending q') =
    mset (accepted_wrs (replied ep)) + mset (refused_wrs (replied ep)) + mset (rq_pending q) + {#rq_wr q i#} \<and>
    length (refused_wrs (replied ep')) = length (refused_wrs (replied ep)) + 64 * failures [st]"
proof (cases "rq_current_rcv_mr (fill_slot i q) = 0")
  case True
  then show ?thesis using assms(2) fill_slot_last [OF assms(1) True] fill_slot_pending(7) [OF assms(1), of i]
    by (auto simp: ReceiveQueue_PostMR_def Endpoint_PostRecvRaw_def Let_def elim!: bindE dest!: sys_calls split: if_splits)
next
  case False
  then show ?thesis using assms(2) fill_slot_more [OF assms(1) False]
    by (auto simp: ReceiveQueue_PostMR_def Let_def)
qed

lemma srq_post_once:
  assumes "rq_ok q" and "srq_post i q e = Some (st, q', e')"
  shows "rq_ok q' \<and> rq_wr q' = rq_wr q \<and>
    mset (accepted_wrs (replied e')) + mset (refused_wrs (replied e')) + mset (rq_pending q') =
    mset (accepted_wrs (replied e)) + mset (refused_wrs (replied e)) + mset (rq_pending q) + {#rq_wr q i#} \<and>
    length (refused_wrs (replied e')) = length (refused_wrs (replied e)) + 64 * failures [st]"
proof (cases "rq_current_rcv_mr (fill_slot i q) = 0")
  case True
  then show ?thesis using assms(2) fill_slot_last [OF assms(1) True] fill_slot_pending(7) [OF assms(1), of i]
    by (auto simp: srq_post_def Let_def elim!: bindE dest!: sys_calls split: if_splits)
next
  case False
  then show ?thesis using assms(2) fill_slot_more [OF assms(1) False]
    by (auto simp: srq_post_def Let_def)
qed

interpretation rq: repost_contract ReceiveQueue_PostMR replied rq_ok rq_pending rq_wr
  by unfold_locales (blast dest: rq_pending_bound rq_post_once)+

interpretation sq: repost_contract srq_post replied rq_ok rq_pending rq_wr
  by unfold_locales (blast dest: rq_pending_bound srq_post_once)+

section \<open>Setting a queue up\<close>

lemma PostRecv_calls:
  assumes "Endpoint_PostRecv ctx lkey addr n ep = Some (st, ep')"
  shows "accepted_wrs (replied ep') = accepted_wrs (replied ep) @
      (if status_ok st then [\<lparr>rwr_id = ctx, rwr_sge = sge addr n lkey\<rparr>] else [])"
    "status_ok st \<Longrightarrow> refused_wrs (replied ep') = refused_wrs (replied ep)"
  using assms by (auto simp: Endpoint_PostRecv_def Let_def elim!: bindE split: if_splits dest!: sys_calls)

lemma post_initial_wrs:
  "post_initial is mr n ep = Some (st, ep') \<Longrightarrow> status_ok st \<Longrightarrow>
   accepted_wrs (replied ep') = accepted_wrs (replied ep) @
     map (\<lambda>i. slot_wr mr n (word_of_nat i) (mr_addr mr + word_of_nat i * n)) is \<and>
   refused_wrs (replied ep') = refused_wrs (replied ep)"
proof (induction "is" arbitrary: ep)
  case (Cons i js)
  from Cons.prems obtain st1 ep1 where 1: "Endpoint_PostRecv (word_of_nat i) (mr_lkey mr)
      (mr_addr mr + word_of_nat i * n) n ep = Some (st1, ep1)" "status_ok st1"
    "post_initial js mr n ep1 = Some (st, ep')"
    by (auto elim!: bindE split: if_splits)
  from Cons.IH [OF 1(3) Cons.prems(2)] PostRecv_calls [OF 1(1)] 1(2) show ?case
    by (simp add: slot_wr_def)
qed simp

lemma ucast_word_of_nat_32: "i < 4294967296 \<Longrightarrow> ucast (word_of_nat i :: u32) = (word_of_nat i :: u64)"
  by (rule word_unat_eq_iff [THEN iffD2]) (simp add: unat32_of_nat unat64_of_nat)

lemma GetReceiveQueue_ok:
  assumes "GetReceiveQueue n inflight ep = Some (Inr q, ep')" and "unat inflight \<le> 4294967296"
  shows "rq_ok q \<and> rq_pending q = [] \<and>
    accepted_wrs (replied ep') = accepted_wrs (replied ep) @ map (\<lambda>i. rq_wr q (word_of_nat i)) [0..<unat inflight] \<and>
    refused_wrs (replied ep') = refused_wrs (replied ep)"
proof -
  from assms(1) obtain buf ep1 mr ep2 st where
    1: "sys_addr (Malloc (inflight * n)) ep = Some (buf, ep1)"
      "sys_mr (Reg_mr buf (n * inflight)) ep1 = Some (Some mr, ep2)"
      "post_initial [0..<unat inflight] mr n ep2 = Some (st, ep')" "status_ok st"
      "q = ReceiveQueue_new 0 mr n"
    unfolding GetReceiveQueue_def by (auto elim!: bindE split: option.splits if_splits)
  have "replied ep2 = replied ep"
    using 1(1,2) by (auto simp: sys_addr_def sys_mr_def split: list.splits)
  with post_initial_wrs [OF 1(3,4)] assms(2) show ?thesis
    by (simp add: 1(5) rq_ok_new)
      (simp add: rq_wr_def ContextToAddr_def ReceiveQueue_new_def ucast_word_of_nat_32)
qed

section \<open>Properties\<close>

text \<open>
  C4: Every receive buffer is accounted for. After a receive queue was set up (for at most 2^32
  buffers) and any buffers were given back, the requests the card took, those of the batches it
  refused and the (fewer than 64) collected ones are, counted with multiplicity, the initial request
  of every buffer plus one request for every buffer given back, each with the address that \<open>GetMR\<close>
  reports. Every give back that reports an error stands for one refused batch of 64 requests: its
  buffers are lost, the queue does not lend them again. While all report success nothing is refused
  and no buffer is lost.
\<close>

theorem receive_queue_conservation:
  assumes "GetReceiveQueue n inflight ep = Some (Inr q, ep1)" and "unat inflight \<le> 4294967296"
    and "post_all ReceiveQueue_PostMR ids q ep1 = Some (sts, q', ep2)" and "replied ep = []"
  shows "mset (accepted_wrs (replied ep2)) + mset (refused_wrs (replied ep2)) + mset (rq_pending q') =
      image_mset (rq_wr q) (mset (map word_of_nat [0..<unat inflight] @ ids)) \<and>
    length (refused_wrs (replied ep2)) = 64 * length (filter (\<lambda>st. \<not> status_ok st) sts) \<and>
    length sts = length ids \<and> length (rq_pending q') < 64 \<and>
    (\<forall>i. rwr_sge (rq_wr q i) = sge (bm_addr (ReceiveQueue_GetMR q i))
       (bm_length (ReceiveQueue_GetMR q i)) (mr_lkey (rq_mr q)))"
proof -
  note g = GetReceiveQueue_ok [OF assms(1,2), unfolded assms(4)]
  note c = rq.post_all_conserves [OF conjunct1 [OF g] assms(3)]
  have "mset (accepted_wrs (replied ep2)) + mset (refused_wrs (replied ep2)) + mset (rq_pending q') =
      image_mset (rq_wr q) (mset (map word_of_nat [0..<unat inflight] @ ids))"
    using c g by (simp add: image_mset.compositionality comp_def)
  moreover have "length (rq_pending q') < 64" using c rq.pend_bound by simp
  moreover have "length (refused_wrs (replied ep2)) = 64 * length (filter (\<lambda>st. \<not> status_ok st) sts)"
    using c g by (simp add: failures_def)
  ultimately show ?thesis using post_all_statuses [OF assms(3)]
    by (simp add: rq_wr_def slot_wr_def ReceiveQueue_GetMR_def ContextToAddr_def)
qed

definition demo_rq_ep :: endpoint where
  "demo_rq_ep = Endpoint_new demo_id [] (demo_env\<lparr>addrs := [65536], rets := [0, 0, 0],
     mrs := [Some \<lparr>mr_addr = 65536, mr_length = 24, mr_lkey = 9\<rparr>]\<rparr>)"

lemma demo_rq_run:
  obtains q ep1 sts q' ep2 where "GetReceiveQueue 8 3 demo_rq_ep = Some (Inr q, ep1)"
    "post_all ReceiveQueue_PostMR [1, 0] q ep1 = Some (sts, q', ep2)"
proof -
  have "map_option (\<lambda>(r, e). \<not> isl r \<and> post_all ReceiveQueue_PostMR [1, 0] (projr r) e \<noteq> None)
      (GetReceiveQueue 8 3 demo_rq_ep) = Some True" by code_simp
  then obtain q ep1 where "GetReceiveQueue 8 3 demo_rq_ep = Some (Inr q, ep1)"
    "post_all ReceiveQueue_PostMR [1, 0] q ep1 \<noteq> None" by (rule run_value)
  then show thesis using that by auto
qed

theorem receive_queue_conservation_witness:
  "\<exists>q ep1 sts q' ep2. GetReceiveQueue 8 3 demo_rq_ep = Some (Inr q, ep1) \<and>
     post_all ReceiveQueue_PostMR [1, 0] q ep1 = Some (sts, q', ep2) \<and> length (rq_pending q') < 64"
proof -
  obtain q ep1 sts q' ep2 where run: "GetReceiveQueue 8 3 demo_rq_ep = Some (Inr q, ep1)"
    "post_all ReceiveQueue_PostMR [1, 0] q ep1 = Some (sts, q', ep2)" by (rule demo_rq_run)
  have "length (rq_pending q') < 64"
    using receive_queue_conservation [OF run(1) _ run(2)]
    by (simp add: demo_rq_ep_def Endpoint_new_def env.defs demo_env_def)
  with run show ?thesis by blast
qed

text \<open>
  A receive queue with fewer than 64 buffers never reposts any of them: even when every
  buffer was given back, nothing was handed to the card after the set-up, and no receive can
  complete any more.
\<close>

theorem small_queue_never_reposts:
  assumes "GetReceiveQueue n inflight ep = Some (Inr q, ep1)" and "unat inflight < 64"
    and "length ids \<le> unat inflight"
    and "post_all ReceiveQueue_PostMR ids q ep1 = Some (sts, q', ep2)"
  shows "replied ep2 = replied ep1"
proof -
  have g: "rq_ok q" "rq_pending q = []"
    using GetReceiveQueue_ok [OF assms(1)] assms(2) by simp_all
  have "post_all ReceiveQueue_PostMR ids q ep1 = Some (sts, q', ep2) \<Longrightarrow> rq_ok q \<Longrightarrow>
      length (rq_pending q) + length ids < 64 \<Longrightarrow> replied ep2 = replied ep1"
    for ids sts q ep1
  proof (induction ids arbitrary: sts q ep1)
    case (Cons i js)
    then obtain st q1 e1 sts1 where 1: "ReceiveQueue_PostMR i q ep1 = Some (st, q1, e1)"
      "post_all ReceiveQueue_PostMR js q1 e1 = Some (sts1, q', ep2)" by (auto elim!: bindE)
    have "length (rq_pending q) = 64 - nat (rq_current_rcv_mr q)"
      using Cons.prems(2) by (simp add: rq_pending_def rq_ok_def)
    then have more: "rq_current_rcv_mr (fill_slot i q) \<noteq> 0"
      using Cons.prems(2,3) fill_slot_pending(4) [OF Cons.prems(2), of i] by (auto simp: rq_ok_def)
    have "q1 = fill_slot i q" "e1 = ep1"
      using 1(1) more by (auto simp: ReceiveQueue_PostMR_def Let_def)
    with Cons.IH [OF 1(2)] Cons.prems(3) fill_slot_more [OF Cons.prems(2) more] show ?case by simp
  qed simp
  from this [OF assms(4) g(1)] g(2) assms(2,3) show ?thesis by simp
qed

theorem small_queue_never_reposts_witness:
  "\<exists>q ep1 sts q' ep2. GetReceiveQueue 8 3 demo_rq_ep = Some (Inr q, ep1) \<and>
     post_all ReceiveQueue_PostMR [1, 0] q ep1 = Some (sts, q', ep2) \<and>
     replied ep2 = replied ep1"
proof -
  obtain q ep1 sts q' ep2 where run: "GetReceiveQueue 8 3 demo_rq_ep = Some (Inr q, ep1)"
    "post_all ReceiveQueue_PostMR [1, 0] q ep1 = Some (sts, q', ep2)" by (rule demo_rq_run)
  have "replied ep2 = replied ep1"
    by (rule small_queue_never_reposts [OF run(1) _ _ run(2)]) simp_all
  with run show ?thesis by blast
qed

text \<open>The ids in the stubs' queues count as buffers that are still to be given back.\<close>

lemma run_queues_conserves:
  "run_queues qs q e = Some (st, qs', q', e') \<Longrightarrow> rq_ok q \<Longrightarrow> rq_ok q' \<and> rq_wr q' = rq_wr q \<and>
     length qs' = length qs \<and>
     mset (accepted_wrs (replied e')) + mset (refused_wrs (replied e')) + mset (rq_pending q') +
       image_mset (rq_wr q) (mset (concat qs')) =
     mset (accepted_wrs (replied e)) + mset (refused_wrs (replied e)) + mset (rq_pending q) +
       image_mset (rq_wr q) (mset (concat qs)) \<and>
     length (refused_wrs (replied e')) = length (refused_wrs (replied e)) + 64 * failures [st]"
proof (induction qs q e arbitrary: st qs' q' e' rule: run_queues.induct)
  case (2 qs q e)
  from 2(2) obtain qs1 where "run_queues qs q e = Some (st, qs1, q', e')" "qs' = [] # qs1"
    by (auto elim!: bindE)
  with 2(1) [OF this(1) 2(3)] show ?case by simp
next
  case (3 i js qs q e)
  from 3(2) obtain st1 q1 e1 where 1: "srq_post i q e = Some (st1, q1, e1)"
    "(if \<not> status_ok st1 then Some (st1, js # qs, q1, e1)
      else do { (st, qs, q, e) \<leftarrow> run_queues qs q1 e1; Some (st, js # qs, q, e) }) =
        Some (st, qs', q', e')"
    by (auto elim!: bindE)
  note p = sq.post_once [OF 3(3) 1(1)]
  show ?case
  proof (cases "status_ok st1")
    case True
    with 1(2) obtain qs1 where 2: "run_queues qs q1 e1 = Some (st, qs1, q', e')" "qs' = js # qs1"
      by (auto elim!: bindE)
    have "\<not> \<not> status_ok st1" using True by simp
    from 3(1) [OF 1(1) refl refl this 2(1)] p 2(2) True show ?thesis by (simp add: ac_simps)
  next
    case False
    with 1(2) p show ?thesis by (auto simp: ac_simps)
  qed
qed auto

text \<open>The ids the stubs passed on in some turns: those whose enqueue succeeded.\<close>

definition posted_ids :: "(nat \<times> u32 \<times> bool) list \<Rightarrow> u32 list" where
  "posted_ids ps = map (\<lambda>(k, i, ok). i) (filter (\<lambda>(k, i, ok). ok) ps)"

definition passed_on :: "srq_turn list \<Rightarrow> u32 list" where
  "passed_on ts = concat (map (\<lambda>(ps, running). posted_ids ps) ts)"

text \<open>Every post comes from a stub that the queue made.\<close>

definition stubs_known :: "srq_turn list \<Rightarrow> nat \<Rightarrow> bool" where
  "stubs_known ts n \<longleftrightarrow> list_all (\<lambda>(ps, running). list_all (\<lambda>(k, i, ok). k < n) ps) ts"

text \<open>Appending to one of several lists adds to what they hold together.\<close>

lemma mset_concat_append:
  "k < length xss \<Longrightarrow> mset (concat (xss[k := xss ! k @ ys])) = mset (concat xss) + mset ys"
proof (induction xss arbitrary: k)
  case (Cons xs xss)
  then show ?case by (cases k) (auto simp: ac_simps)
qed simp

lemma stub_posts_rq: "sq_rq (stub_posts ps s) = sq_rq s"
  by (induction ps arbitrary: s) (auto simp: stub_posts_def SharedReceiveQueueStub_PostMR_def)

lemma stub_posts_conserves:
  "list_all (\<lambda>(k, i, ok). k < length (sq_queues s)) ps \<Longrightarrow>
   sq_rq (stub_posts ps s) = sq_rq s \<and> length (sq_queues (stub_posts ps s)) = length (sq_queues s) \<and>
   mset (concat (sq_queues (stub_posts ps s))) = mset (concat (sq_queues s)) + mset (posted_ids ps)"
proof (induction ps arbitrary: s)
  case (Cons p ps)
  obtain k i ok where p: "p = (k, i, ok)" by (cases p)
  let ?s = "snd (SharedReceiveQueueStub_PostMR k i s ok)"
  have k: "k < length (sq_queues s)" using Cons.prems p by simp
  have "mset (concat (sq_queues ?s)) = mset (concat (sq_queues s)) + mset (posted_ids [p])"
    using mset_concat_append [OF k]
    by (simp add: SharedReceiveQueueStub_PostMR_def posted_ids_def p)
  moreover have "length (sq_queues ?s) = length (sq_queues s)" "sq_rq ?s = sq_rq s"
    by (simp_all add: SharedReceiveQueueStub_PostMR_def)
  moreover have "stub_posts (p # ps) s = stub_posts ps ?s" by (simp add: stub_posts_def p)
  ultimately show ?case using Cons.IH [of ?s] Cons.prems by (simp add: posted_ids_def p)
qed (simp add: stub_posts_def posted_ids_def)

lemma shared_run_conserves:
  "SharedReceiveQueue_Run ts s e = Some (st, s', ts', e') \<Longrightarrow> rq_ok (sq_rq s) \<Longrightarrow>
    stubs_known ts (length (sq_queues s)) \<Longrightarrow>
    \<exists>us. ts = us @ ts' \<and> rq_ok (sq_rq s') \<and> rq_wr (sq_rq s') = rq_wr (sq_rq s) \<and>
    mset (accepted_wrs (replied e')) + mset (refused_wrs (replied e')) + mset (rq_pending (sq_rq s')) +
      image_mset (rq_wr (sq_rq s)) (mset (concat (sq_queues s'))) =
    mset (accepted_wrs (replied e)) + mset (refused_wrs (replied e)) + mset (rq_pending (sq_rq s)) +
      image_mset (rq_wr (sq_rq s)) (mset (concat (sq_queues s) @ passed_on us)) \<and>
    length (refused_wrs (replied e')) = length (refused_wrs (replied e)) + 64 * failures [st]"
proof (induction ts s e rule: SharedReceiveQueue_Run.induct)
  case (2 ps running ts s e)
  let ?s = "stub_posts ps s"
  have a: "sq_rq ?s = sq_rq s" "length (sq_queues ?s) = length (sq_queues s)"
    "mset (concat (sq_queues ?s)) = mset (concat (sq_queues s)) + mset (posted_ids ps)"
    using stub_posts_conserves [of s ps] 2(4) by (simp_all add: stubs_known_def)
  show ?case
  proof (cases running)
    case False
    with 2(2) a 2(3) show ?thesis by (intro exI [of _ "[(ps, running)]"]) (auto simp: passed_on_def)
  next
    case True
    with 2(2) obtain st1 qs1 q1 e1 where 1: "run_queues (sq_queues ?s) (sq_rq ?s) e = Some (st1, qs1, q1, e1)"
      "(if \<not> status_ok st1 then Some (st1, ?s\<lparr>sq_queues := qs1, sq_rq := q1\<rparr>, ts, e1)
        else SharedReceiveQueue_Run ts (?s\<lparr>sq_queues := qs1, sq_rq := q1\<rparr>) e1) = Some (st, s', ts', e')"
      by (auto elim!: bindE simp: Let_def)
    have ok: "rq_ok (sq_rq ?s)" using 2(3) a by simp
    note p = run_queues_conserves [OF 1(1) ok]
    show ?thesis
    proof (cases "status_ok st1")
      case ok1: True
      then have n: "\<not> \<not> status_ok st1" by simp
      have k: "stubs_known ts (length qs1)" using 2(4) p a by (simp add: stubs_known_def)
      from 2(1) [OF refl _ 1(1) refl refl refl refl n] 1(2) True ok1 p k obtain us where
        "ts = us @ ts'" "rq_ok (sq_rq s')" "rq_wr (sq_rq s') = rq_wr q1"
        "mset (accepted_wrs (replied e')) + mset (refused_wrs (replied e')) + mset (rq_pending (sq_rq s')) +
          image_mset (rq_wr q1) (mset (concat (sq_queues s'))) =
         mset (accepted_wrs (replied e1)) + mset (refused_wrs (replied e1)) + mset (rq_pending q1) +
          image_mset (rq_wr q1) (mset (concat qs1 @ passed_on us))"
        "length (refused_wrs (replied e')) = length (refused_wrs (replied e1)) + 64 * failures [st]"
        by auto
      with p a ok1 show ?thesis
        by (intro exI [of _ "(ps, running) # us"]) (simp add: passed_on_def ac_simps)
    next
      case False
      with 1(2) p a True show ?thesis
        by (intro exI [of _ "[(ps, running)]"]) (auto simp: passed_on_def ac_simps)
    qed
  qed
qed auto

text \<open>The shared queue stays well formed, whoever passes ids on.\<close>

lemma shared_run_ok:
  "SharedReceiveQueue_Run ts s e = Some (st, s', ts', e') \<Longrightarrow> rq_ok (sq_rq s) \<Longrightarrow> rq_ok (sq_rq s')"
proof (induction ts s e rule: SharedReceiveQueue_Run.induct)
  case (2 ps running ts s e)
  have ok: "rq_ok (sq_rq (stub_posts ps s))"
    using 2(3) stub_posts_rq [of ps s] by simp
  show ?case
  proof (cases running)
    case False
    with 2(2) ok show ?thesis by auto
  next
    case True
    with 2(2) obtain st1 qs1 q1 e1 where 1:
      "run_queues (sq_queues (stub_posts ps s)) (sq_rq (stub_posts ps s)) e = Some (st1, qs1, q1, e1)"
      "(if \<not> status_ok st1 then Some (st1, (stub_posts ps s)\<lparr>sq_queues := qs1, sq_rq := q1\<rparr>, ts, e1)
        else SharedReceiveQueue_Run ts ((stub_posts ps s)\<lparr>sq_queues := qs1, sq_rq := q1\<rparr>) e1) =
         Some (st, s', ts', e')"
      by (auto elim!: bindE simp: Let_def)
    note p = run_queues_conserves [OF 1(1) ok]
    show ?thesis
    proof (cases "status_ok st1")
      case ok1: True
      then have n: "\<not> \<not> status_ok st1" by simp
      from 2(1) [OF refl _ 1(1) refl refl refl refl n] 1(2) True ok1 p show ?thesis by auto
    next
      case False
      with 1(2) p show ?thesis by auto
    qed
  qed
qed auto

text \<open>
  C25: However many turns the shared queue's \<open>Run\<close> makes before it is stopped or fails, and
  whatever the stubs pass on meanwhile: every buffer that was in a stub's queue or was passed on
  during the run is, with its multiplicity, in one place: still in a stub's queue, collected,
  taken by the card, or in the batch of 64 that the card refused. There is such a batch exactly
  when \<open>Run\<close> returns an error, and its buffers are not lent again.
\<close>

theorem shared_run_conservation:
  assumes "SharedReceiveQueue_Run ts s e = Some (st, s', ts', e')" and "rq_ok (sq_rq s)"
    and "stubs_known ts (length (sq_queues s))"
  shows "\<exists>us. ts = us @ ts' \<and> rq_ok (sq_rq s') \<and>
    mset (accepted_wrs (replied e')) + mset (refused_wrs (replied e')) + mset (rq_pending (sq_rq s')) +
      image_mset (rq_wr (sq_rq s)) (mset (concat (sq_queues s'))) =
    mset (accepted_wrs (replied e)) + mset (refused_wrs (replied e)) + mset (rq_pending (sq_rq s)) +
      image_mset (rq_wr (sq_rq s)) (mset (concat (sq_queues s) @ passed_on us)) \<and>
    length (refused_wrs (replied e')) =
      length (refused_wrs (replied e)) + (if status_ok st then 0 else 64)"
  using shared_run_conserves [OF assms] by auto

theorem shared_run_conservation_witness:
  "\<exists>st s' e'. SharedReceiveQueue_Run [([(1, 3, True), (0, 9, False)], True), ([], True), ([(0, 4, True)], False)]
     \<lparr>sq_rq = ReceiveQueue_new 5 \<lparr>mr_addr = 65536, mr_length = 24, mr_lkey = 9\<rparr> 8,
      sq_running = True, sq_queues = [[1, 2], [0]]\<rparr> demo_env = Some (st, s', [], e') \<and> rq_ok (sq_rq s')"
proof -
  let ?q = "ReceiveQueue_new 5 \<lparr>mr_addr = 65536, mr_length = 24, mr_lkey = 9\<rparr> 8"
  let ?r = "SharedReceiveQueue_Run [([(1, 3, True), (0, 9, False)], True), ([], True), ([(0, 4, True)], False)]
     \<lparr>sq_rq = ?q, sq_running = True, sq_queues = [[1, 2], [0]]\<rparr> demo_env"
  have "map_option (\<lambda>(st, s, ts, e). ts = []) ?r = Some True" by code_simp
  then obtain st s' e' where run: "?r = Some (st, s', [], e')"
    by (cases ?r) auto
  have "rq_ok (sq_rq s')"
    using shared_run_conservation [OF run] by (auto simp: rq_ok_new stubs_known_def)
  with run show ?thesis by blast
qed

end
