(* ===== verification/Acknowledge.thy ===== *)
theory Acknowledge
  imports Receive_Queue
begin

text \<open>
  \<^verbatim>\<open>tests/write/acknowledge.{hpp,cpp}\<close>: how the head of a ring buffer travels back to the
  sender. A \<open>SendAcknowledger\<close> sends it, a \<open>ReadAcknowledger\<close> leaves it in memory that the
  other side reads. The classes behind the interfaces \<open>Acknowledger\<close> and \<open>AckReceiver\<close> are the
  constructors of two datatypes, and a virtual call is a \<open>case\<close>.
\<close>

section \<open>Data\<close>

record AcknowledgerContext =
  ac_data0 :: u32
  ac_data1 :: u32
  ac_data2 :: u32
  ac_data3 :: u32

text \<open>
  A \<open>SendAcknowledger\<close> has the address and the value of its \<open>curr_offset_\<close>; the
  \<open>ReadAcknowledger\<close> and the two receivers have a registered word, and the receiver that reads
  has the remote address and key.
\<close>

datatype Acknowledger =
    SendAcknowledger u64 u32
  | ReadAcknowledger ibv_mr

datatype AckReceiver =
    SendAckReceiver receive_queue
  | ReadAckReceiver ibv_mr u32 u64

section \<open>Acknowledging\<close>

fun Acknowledger_Ack :: "u32 \<Rightarrow> Acknowledger \<Rightarrow> 'e env_scheme \<Rightarrow> Acknowledger \<times> 'e env_scheme" where
  "Acknowledger_Ack off (SendAcknowledger a _) e =
     (SendAcknowledger a off, sys_void (Store a (ucast off) 4) e)"
| "Acknowledger_Ack off (ReadAcknowledger mr) e =
     (ReadAcknowledger mr, sys_void (Store (mr_addr mr) (ucast off) 4) e)"

definition SendAcknowledger_Flush :: "u64 \<Rightarrow> endpoint \<Rightarrow> (status \<times> endpoint) option" where
  "SendAcknowledger_Flush a ep = do {
     (st, ep) \<leftarrow> Endpoint_PostInline 0 a 4 ep;
     if \<not> status_ok st then Some (st, ep)
     else do {
       (wc_s, ep) \<leftarrow> Endpoint_PollSendCq ep;
       Some (if \<not> so_ok wc_s then so_status wc_s else Status0, ep) } }"

fun Acknowledger_Flush :: "Acknowledger \<Rightarrow> endpoint \<Rightarrow> (status \<times> endpoint) option" where
  "Acknowledger_Flush (SendAcknowledger a _) ep = SendAcknowledger_Flush a ep"
| "Acknowledger_Flush (ReadAcknowledger mr) ep = Some (Status0, ep)"

fun Acknowledger_GetContext :: "Acknowledger \<Rightarrow> AcknowledgerContext" where
  "Acknowledger_GetContext (SendAcknowledger _ _) =
     \<lparr>ac_data0 = 0, ac_data1 = 0, ac_data2 = 0, ac_data3 = 0\<rparr>"
| "Acknowledger_GetContext (ReadAcknowledger mr) =
     \<lparr>ac_data0 = lo32 (mr_addr mr), ac_data1 = hi32 (mr_addr mr), ac_data2 = mr_lkey mr, ac_data3 = 0\<rparr>"

definition close_registered_word :: "ibv_mr \<Rightarrow> endpoint \<Rightarrow> (status \<times> endpoint) option" where
  "close_registered_word mr ep = do {
     (ret, ep) \<leftarrow> sys (Dereg_mr (mr_addr mr)) ep;
     if ret \<noteq> 0 then Some (Status Internal (''Error deregistering mr '' @ to_string ret), ep)
     else Some (Status0, sys_void (Free_mem (mr_addr mr)) ep) }"

fun Acknowledger_Close :: "Acknowledger \<Rightarrow> endpoint \<Rightarrow> (status \<times> endpoint) option" where
  "Acknowledger_Close (SendAcknowledger _ _) ep = Some (Status0, ep)"
| "Acknowledger_Close (ReadAcknowledger mr) ep = close_registered_word mr ep"

text \<open>
  The null checks build an error status and go on: a region that could not be registered is
  dereferenced by the constructor. Eight bytes are registered of the four allocated ones.
\<close>

definition new_registered_word :: "'e env_scheme \<Rightarrow> (ibv_mr \<times> 'e env_scheme) option" where
  "new_registered_word e = do {
     (offset, e) \<leftarrow> sys_addr (Malloc 4) e;
     (mr, e) \<leftarrow> sys_mr (Reg_mr offset 8) e;
     (case mr of None \<Rightarrow> None | Some m \<Rightarrow> Some (m, e)) }"

definition GetSendAcknowledger :: "u64 \<Rightarrow> Acknowledger" where
  "GetSendAcknowledger a = SendAcknowledger a 0"

definition GetReadAcknowledger :: "'e env_scheme \<Rightarrow> (Acknowledger \<times> 'e env_scheme) option" where
  "GetReadAcknowledger e = do { (mr, e) \<leftarrow> new_registered_word e; Some (ReadAcknowledger mr, e) }"

section \<open>Receiving acknowledgements\<close>

definition GetSendAckReceiver :: "endpoint \<Rightarrow> (AckReceiver status_or \<times> endpoint) option" where
  "GetSendAckReceiver ep = do {
     (rq_s, ep) \<leftarrow> GetReceiveQueue 4 100 ep;
     Some (case rq_s of Inl s \<Rightarrow> Inl (Wrap ''Error setting up receive queue'' s)
                      | Inr q \<Rightarrow> Inr (SendAckReceiver q), ep) }"

definition GetReadAckReceiver :: "AcknowledgerContext \<Rightarrow> endpoint \<Rightarrow> (AckReceiver \<times> endpoint) option" where
  "GetReadAckReceiver ctx ep = do {
     (mr, ep) \<leftarrow> new_registered_word ep;
     Some (ReadAckReceiver mr (ac_data2 ctx) (addr_of_halves (ac_data0 ctx) (ac_data1 ctx)), ep) }"

text \<open>
  The loop at the end of \<open>SendAckReceiver::Get\<close>, which is meant to drain further
  acknowledgements. It polls into \<open>wc_s\<close> but goes on with \<open>wcStatus\<close>, the first completion:
  \<open>wr_id\<close> is that of the first one in every turn.
\<close>

partial_function (option) drain_acks ::
    "u64 \<Rightarrow> u32 \<Rightarrow> receive_queue \<Rightarrow> endpoint \<Rightarrow> (u32 status_or \<times> receive_queue \<times> endpoint) option" where
  "drain_acks wr_id offset q ep = do {
     (wc_s, ep) \<leftarrow> Endpoint_PollRecvCqOnce ep;
     if \<not> so_ok wc_s then Some (Inr offset, q, ep)
     else do {
       (v, ep) \<leftarrow> sys_load (bm_addr (ReceiveQueue_GetMR q (ucast wr_id))) ep;
       (st, q, ep) \<leftarrow> ReceiveQueue_PostMR (ucast wr_id) q ep;
       if \<not> status_ok st then Some (Inl st, q, ep) else drain_acks wr_id (ucast v) q ep } }"

definition SendAckReceiver_Get ::
    "receive_queue \<Rightarrow> endpoint \<Rightarrow> (u32 status_or \<times> receive_queue \<times> endpoint) option" where
  "SendAckReceiver_Get q ep = do {
     (wcStatus, ep) \<leftarrow> Endpoint_PollRecvCq ep;
     (case wcStatus of
        Inl s \<Rightarrow> Some (Inl (Wrap ''error while polling recieve queue for receive'' s), q, ep)
      | Inr wc \<Rightarrow> do {
          (v, ep) \<leftarrow> sys_load (bm_addr (ReceiveQueue_GetMR q (ucast (wc_wr_id wc)))) ep;
          (st, q, ep) \<leftarrow> ReceiveQueue_PostMR (ucast (wc_wr_id wc)) q ep;
          if \<not> status_ok st then Some (Inl st, q, ep)
          else drain_acks (wc_wr_id wc) (ucast v) q ep }) }"

text \<open>
  \<open>ReadAckReceiver::Get\<close> waits until a completion has the id 0, read into an \<open>int\<close>: only the low
  32 bits of \<open>wr_id\<close> count. Every other completion it meets is dropped.
\<close>

partial_function (option) await_read :: "endpoint \<Rightarrow> (status \<times> endpoint) option" where
  "await_read ep = do {
     (wc_s, ep) \<leftarrow> Endpoint_PollSendCq ep;
     (case wc_s of
        Inl s \<Rightarrow> Some (s, ep)
      | Inr wc \<Rightarrow> if (ucast (wc_wr_id wc) :: u32) \<noteq> 0 then await_read ep else Some (Status0, ep)) }"

definition ReadAckReceiver_Get ::
    "ibv_mr \<Rightarrow> u32 \<Rightarrow> u64 \<Rightarrow> endpoint \<Rightarrow> (u32 status_or \<times> endpoint) option" where
  "ReadAckReceiver_Get mr key addr ep = do {
     (st, ep) \<leftarrow> Endpoint_PostRead 0 (mr_lkey mr) (mr_addr mr) 4 addr key ep;
     if \<not> status_ok st then Some (Inl st, ep)
     else do {
       (st, ep) \<leftarrow> await_read ep;
       if \<not> status_ok st then Some (Inl st, ep)
       else do {
         (v, ep) \<leftarrow> sys_load (mr_addr mr) ep;
         Some (Inr (ucast v), ep) } } }"

fun AckReceiver_Get :: "AckReceiver \<Rightarrow> endpoint \<Rightarrow> (u32 status_or \<times> AckReceiver \<times> endpoint) option" where
  "AckReceiver_Get (SendAckReceiver q) ep = do {
     (r, q, ep) \<leftarrow> SendAckReceiver_Get q ep;
     Some (r, SendAckReceiver q, ep) }"
| "AckReceiver_Get (ReadAckReceiver mr key addr) ep = do {
     (r, ep) \<leftarrow> ReadAckReceiver_Get mr key addr ep;
     Some (r, ReadAckReceiver mr key addr, ep) }"

fun AckReceiver_Close :: "AckReceiver \<Rightarrow> endpoint \<Rightarrow> (status \<times> endpoint) option" where
  "AckReceiver_Close (SendAckReceiver q) ep = ReceiveQueue_Close q ep"
| "AckReceiver_Close (ReadAckReceiver mr key addr) ep = do {
     (st, ep) \<leftarrow> close_registered_word mr ep;
     if \<not> status_ok st then Some (st, ep) else Endpoint_Close ep }"

lemmas [code] = drain_acks.simps await_read.simps

section \<open>Draining acknowledgements\<close>

lemma repeat_wr: "rq_wr q' = rq_wr q \<Longrightarrow>
   A + mset xs = B + mset ys + {#rq_wr q i#} \<Longrightarrow>
   C + mset zs = A + mset xs + replicate_mset n (rq_wr q' i) \<Longrightarrow>
   C + mset zs = B + mset ys + replicate_mset (Suc n) (rq_wr q i)"
  by simp

lemma sys_load_frame: "sys_load a ep = Some (v, ep') \<Longrightarrow>
   replied ep' = replied ep \<and> recv_pending ep' = recv_pending ep \<and>
   (recv_ok ep' \<longleftrightarrow> recv_ok ep)"
  by (auto simp: sys_load_def recv_pending_def recv_batch_def recv_ok_def split: list.splits)

lemma PostMR_recv_frame: "ReceiveQueue_PostMR i q ep = Some (st, q', ep') \<Longrightarrow>
   recv_pending ep' = recv_pending ep \<and> (recv_ok ep' \<longleftrightarrow> recv_ok ep)"
  by (auto simp: ReceiveQueue_PostMR_def Endpoint_PostRecvRaw_def sys_def Let_def recv_pending_def
      recv_batch_def recv_ok_def elim!: bindE split: if_splits list.splits)

lemma drain_acks_reposts:
  assumes "drain_acks i off q ep = Some (Inr v, q', ep')" and "rq_ok q" and "recv_ok ep"
  shows "\<exists>n. mset (accepted_wrs (replied ep')) + mset (refused_wrs (replied ep')) + mset (rq_pending q') =
      mset (accepted_wrs (replied ep)) + mset (refused_wrs (replied ep)) + mset (rq_pending q) + replicate_mset n (rq_wr q (ucast i)) \<and>
    n + length (recv_pending ep') \<le> length (recv_pending ep) \<and>
    length (recv_pending ep) \<le> Suc (n + length (recv_pending ep'))"
proof -
  define P where "P = (\<lambda>(i::u64) (off::u32) q ep (r :: u32 status_or \<times> receive_queue \<times> endpoint).
    rq_ok q \<longrightarrow> recv_ok ep \<longrightarrow> fst r = Inr v \<longrightarrow>
    (\<exists>n. mset (accepted_wrs (replied (snd (snd r)))) + mset (refused_wrs (replied (snd (snd r)))) + mset (rq_pending (fst (snd r))) =
      mset (accepted_wrs (replied ep)) + mset (refused_wrs (replied ep)) + mset (rq_pending q) + replicate_mset n (rq_wr q (ucast i)) \<and>
    n + length (recv_pending (snd (snd r))) \<le> length (recv_pending ep) \<and>
    length (recv_pending ep) \<le> Suc (n + length (recv_pending (snd (snd r))))))"
  have "P i off q ep (Inr v, q', ep')"
  proof (rule drain_acks.raw_induct [where P = P, OF _ assms(1)])
    fix drain i off q ep r
    assume IH: "\<And>i off q ep r. drain i off q ep = Some r \<Longrightarrow> P i off q ep r"
      and step: "Endpoint_PollRecvCqOnce ep \<bind> (\<lambda>(wc_s, ep).
         if \<not> so_ok wc_s then Some (Inr off, q, ep)
         else sys_load (bm_addr (ReceiveQueue_GetMR q (ucast i))) ep \<bind>
              (\<lambda>(v, ep). ReceiveQueue_PostMR (ucast i) q ep \<bind>
                  (\<lambda>(st, q, ep). if \<not> status_ok st then Some (Inl st, q, ep)
                      else drain i (ucast v) q ep))) = Some r"
    show "P i off q ep r"
      unfolding P_def
    proof (intro impI)
      assume ok: "rq_ok q" "recv_ok ep" and r: "fst r = Inr v"
      from step obtain wc_s ep1 where p: "Endpoint_PollRecvCqOnce ep = Some (wc_s, ep1)"
        and rest: "(if \<not> so_ok wc_s then Some (Inr off, q, ep1)
          else do {
            (v, ep) \<leftarrow> sys_load (bm_addr (ReceiveQueue_GetMR q (ucast i))) ep1;
            (st, q, ep) \<leftarrow> ReceiveQueue_PostMR (ucast i) q ep;
            if \<not> status_ok st then Some (Inl st, q, ep) else drain i (ucast v) q ep }) = Some r"
        by (auto elim!: bindE)
      note ps = poll_recv_once_spec [OF ok(2) p]
      show "\<exists>n. mset (accepted_wrs (replied (snd (snd r)))) + mset (refused_wrs (replied (snd (snd r)))) + mset (rq_pending (fst (snd r))) =
          mset (accepted_wrs (replied ep)) + mset (refused_wrs (replied ep)) + mset (rq_pending q) + replicate_mset n (rq_wr q (ucast i)) \<and>
        n + length (recv_pending (snd (snd r))) \<le> length (recv_pending ep) \<and>
        length (recv_pending ep) \<le> Suc (n + length (recv_pending (snd (snd r))))"
      proof (cases "so_ok wc_s")
        case False
        with rest ps show ?thesis by (intro exI [of _ 0]) auto
      next
        case True
        with rest obtain u ep2 st q3 ep3 where s:
          "sys_load (bm_addr (ReceiveQueue_GetMR q (ucast i))) ep1 = Some (u, ep2)"
          "ReceiveQueue_PostMR (ucast i) q ep2 = Some (st, q3, ep3)"
          "(if \<not> status_ok st then Some (Inl st, q3, ep3) else drain i (ucast u) q3 ep3) = Some r"
          by (auto elim!: bindE)
        note l = sys_load_frame [OF s(1)] and post = rq.post_once [OF ok(1) s(2)]
          and fr = PostMR_recv_frame [OF s(2)]
        from s(3) r have "drain i (ucast u) q3 ep3 = Some r" by (auto split: if_splits)
        from IH [OF this] post ps l fr r obtain n where
          "mset (accepted_wrs (replied (snd (snd r)))) + mset (refused_wrs (replied (snd (snd r)))) + mset (rq_pending (fst (snd r))) =
            mset (accepted_wrs (replied ep3)) + mset (refused_wrs (replied ep3)) + mset (rq_pending q3) + replicate_mset n (rq_wr q3 (ucast i))"
          "n + length (recv_pending (snd (snd r))) \<le> length (recv_pending ep3)"
          "length (recv_pending ep3) \<le> Suc (n + length (recv_pending (snd (snd r))))"
          by (auto simp: P_def)
        with post ps l fr True show ?thesis by (intro exI [of _ "Suc n"]) auto
      qed
    qed
  qed
  with assms(2,3) show ?thesis by (simp add: P_def)
qed

text \<open>
  Acknowledgements that arrive together exhaust the sender's receive queue. \<open>Get\<close> drains
  all waiting completions but gives the buffer of the first one back once for each of them;
  the buffers of the others are never given back.
\<close>

theorem ack_drain_reposts_first:
  assumes "SendAckReceiver_Get q ep = Some (Inr off, q', ep')" and "rq_ok q" and "recv_ok ep"
  shows "\<exists>wc n. hd (recv_pending ep) = wc \<and> 0 < n \<and>
    mset (accepted_wrs (replied ep')) + mset (refused_wrs (replied ep')) + mset (rq_pending q') =
      mset (accepted_wrs (replied ep)) + mset (refused_wrs (replied ep)) + mset (rq_pending q) +
      replicate_mset n (rq_wr q (ucast (wc_wr_id wc))) \<and>
    n + length (recv_pending ep') \<le> length (recv_pending ep) \<and>
    length (recv_pending ep) \<le> Suc (n + length (recv_pending ep'))"
proof -
  from assms(1) obtain wc ep1 v ep2 st q3 ep3 where
    p: "Endpoint_PollRecvCq ep = Some (Inr wc, ep1)" and
    l: "sys_load (bm_addr (ReceiveQueue_GetMR q (ucast (wc_wr_id wc)))) ep1 = Some (v, ep2)" and
    post: "ReceiveQueue_PostMR (ucast (wc_wr_id wc)) q ep2 = Some (st, q3, ep3)" and
    dr: "drain_acks (wc_wr_id wc) (ucast v) q3 ep3 = Some (Inr off, q', ep')"
    unfolding SendAckReceiver_Get_def by (auto elim!: bindE split: sum.splits if_splits)
  have pend: "recv_ok ep1" "recv_pending ep = wc # recv_pending ep1"
    using poll_recv_fifo_lemma [OF assms(3)] p by (auto split: if_splits)
  note po = rq.post_once [OF assms(2) post] and fr = PostMR_recv_frame [OF post]
    and lf = sys_load_frame [OF l] and c = poll_recv_cq_calls [OF p]
  from drain_acks_reposts [OF dr] po fr lf pend obtain n where
    "mset (accepted_wrs (replied ep')) + mset (refused_wrs (replied ep')) + mset (rq_pending q') =
      mset (accepted_wrs (replied ep3)) + mset (refused_wrs (replied ep3)) + mset (rq_pending q3) +
      replicate_mset n (rq_wr q3 (ucast (wc_wr_id wc)))"
    "n + length (recv_pending ep') \<le> length (recv_pending ep3)"
    "length (recv_pending ep3) \<le> Suc (n + length (recv_pending ep'))" by auto
  with po fr lf pend c show ?thesis by (intro exI [of _ wc] exI [of _ "Suc n"]) auto
qed

definition demo_ack_ep :: endpoint where
  "demo_ack_ep = (demo_ep [(2, [demo_wc 5, demo_wc 6]), (0, [])])\<lparr>loads := [64, 128]\<rparr>"

definition demo_ack_rq :: receive_queue where
  "demo_ack_rq = ReceiveQueue_new 0 \<lparr>mr_addr = 65536, mr_length = 400, mr_lkey = 9\<rparr> 4"

theorem ack_drain_reposts_first_witness:
  "\<exists>off q' ep' n. SendAckReceiver_Get demo_ack_rq demo_ack_ep = Some (Inr off, q', ep') \<and> 0 < n \<and>
    mset (accepted_wrs (replied ep')) + mset (refused_wrs (replied ep')) + mset (rq_pending q') = replicate_mset n (rq_wr demo_ack_rq 5)"
proof -
  have "map_option (\<lambda>(r, _). \<not> isl r \<and> True) (SendAckReceiver_Get demo_ack_rq demo_ack_ep) = Some True"
    by code_simp
  then obtain off x where "SendAckReceiver_Get demo_ack_rq demo_ack_ep = Some (Inr off, x)"
    by (rule run_value)
  then obtain q' ep' where run: "SendAckReceiver_Get demo_ack_rq demo_ack_ep = Some (Inr off, q', ep')"
    by (cases x) auto
  have "recv_ok demo_ack_ep"
    by (simp add: recv_ok_def demo_ack_ep_def demo_ep_def Endpoint_new_def env.defs rcv_wc_def
        recv_reply_ok_def demo_env_def)
  moreover have "recv_pending demo_ack_ep = [demo_wc 5, demo_wc 6]" "replied demo_ack_ep = []"
    by (simp_all add: recv_pending_def recv_batch_def demo_ack_ep_def demo_ep_def Endpoint_new_def env.defs demo_env_def)
  moreover have "rq_ok demo_ack_rq" "rq_pending demo_ack_rq = []"
    by (simp_all add: demo_ack_rq_def rq_ok_new)
  ultimately show ?thesis using ack_drain_reposts_first [OF run] run
    by (auto simp: demo_wc_def)
qed

end
