(* ===== verification/Conn.thy ===== *)
theory Conn
  imports Acknowledge
begin

text \<open>
  The regions of \<^verbatim>\<open>src/conn.hpp\<close>, the memory interface of \<^verbatim>\<open>src/mm.hpp\<close> and the allocator of
  \<^verbatim>\<open>src/mm/dumb_allocator.cpp\<close>. A registered region is identified by its address, which stands
  for the pointer to its \<open>ibv_mr\<close> kept in \<open>context\<close>.
\<close>

record Region =
  reg_context :: u64
  reg_addr :: u64
  reg_length :: u32
  reg_lkey :: u32

type_synonym SendRegion = Region
type_synonym ReceiveRegion = Region

definition DumbAllocator_Alloc :: "u64 \<Rightarrow> 'e env_scheme \<Rightarrow> (Region status_or \<times> 'e env_scheme) option" where
  "DumbAllocator_Alloc sz e = do {
     (buf, e) \<leftarrow> sys_addr (Malloc sz) e;
     (mr, e) \<leftarrow> sys_mr (Reg_mr buf sz) e;
     (case mr of
        None \<Rightarrow> None
      | Some m \<Rightarrow> Some (Inr \<lparr>reg_context = mr_addr m, reg_addr = buf, reg_length = ucast sz,
                           reg_lkey = mr_lkey m\<rparr>, e)) }"

definition DumbAllocator_Free :: "Region \<Rightarrow> 'e env_scheme \<Rightarrow> (status \<times> 'e env_scheme) option" where
  "DumbAllocator_Free r e = do {
     (ret, e) \<leftarrow> sys (Dereg_mr (reg_context r)) e;
     if ret \<noteq> 0 then Some (Status Unknown ''free: error deregistering mr'', e)
     else Some (Status0, sys_void (Free_mem (reg_addr r)) e) }"

text \<open>What the library says about a call, as a hypothesis: it registers what it was asked to.\<close>

lemma DumbAllocator_Alloc_ok:
  assumes "DumbAllocator_Alloc sz e = Some (Inr r, e')"
  shows "calls e' = calls e @ [Malloc sz, Reg_mr (reg_addr r) sz] \<and> reg_length r = ucast sz"
  using assms
  by (auto simp: DumbAllocator_Alloc_def sys_addr_def sys_mr_def elim!: bindE split: list.splits option.splits)

lemma DumbAllocator_Free_ok:
  assumes "DumbAllocator_Free r e = Some (s, e')" and "status_ok s"
  shows "calls e' = calls e @ [Dereg_mr (reg_context r), Free_mem (reg_addr r)]"
  using assms
  by (auto simp: DumbAllocator_Free_def sys_void_def elim!: bindE split: if_splits dest!: sys_calls)

end
