(* ===== verification/Write_Sender.thy ===== *)
theory Write_Sender
  imports Conn Reverse_Link
begin

text \<open>
  The senders of \<^verbatim>\<open>tests/write/write.cpp\<close> and \<^verbatim>\<open>tests/write/reverse.cpp\<close>: \<open>WriteSender\<close>,
  \<open>WriteOffsetSender\<close>, \<open>WriteImmSender\<close> and \<open>WriteReverseSender\<close>. They reserve space in the
  remote ring buffer, fetching a new head while there is none, and post writes to it. The
  derived classes have the fields of \<open>WriteSender\<close>, the offset sender the address and key of
  the receiver's tail in addition. The remote buffer is a table of operations and its state.
  \<open>crc\<close> is the checksum of the boost library over a list of bytes.
\<close>

record write_sender =
  ws_owns_ep :: bool
  ws_rops :: RemoteBuffer_ops
  ws_rbuf :: remote_buffer
  ws_ack :: AckReceiver
  ws_ackd_id :: u64
  ws_next_id :: u64
  ws_tail_addr :: u64
  ws_tail_key :: u32

definition WriteSender_new ::
    "bool \<Rightarrow> RemoteBuffer_ops \<Rightarrow> remote_buffer \<Rightarrow> AckReceiver \<Rightarrow> u64 \<Rightarrow> u32 \<Rightarrow> write_sender" where
  "WriteSender_new owns_ep ro rb ack tail_addr tail_key = \<lparr>ws_owns_ep = owns_ep, ws_rops = ro,
     ws_rbuf = rb, ws_ack = ack, ws_ackd_id = 0, ws_next_id = 1,
     ws_tail_addr = tail_addr, ws_tail_key = tail_key\<rparr>"

section \<open>Space in the remote buffer\<close>

text \<open>
  \<open>while (!addr_s.ok())\<close>: a new head is fetched until the message fits. \<open>err\<close> makes the error
  from the status of the address and of the head.
\<close>

partial_function (option) await_space ::
    "(status \<Rightarrow> status \<Rightarrow> status) \<Rightarrow> RemoteBuffer_ops \<Rightarrow> u32 \<Rightarrow> remote_buffer \<Rightarrow> AckReceiver \<Rightarrow> endpoint \<Rightarrow>
     (u64 status_or \<times> remote_buffer \<times> AckReceiver \<times> endpoint) option" where
  "await_space err ro len rb ack ep = (case r_GetWriteAddr ro len rb of
       Inr a \<Rightarrow> Some (Inr a, rb, ack, ep)
     | Inl s \<Rightarrow> do {
         (head_s, ack, ep) \<leftarrow> AckReceiver_Get ack ep;
         (case head_s of
            Inl hs \<Rightarrow> Some (Inl (err s hs), rb, ack, ep)
          | Inr h \<Rightarrow> await_space err ro len (r_UpdateHead ro h rb) ack ep) })"

lemmas [code] = await_space.simps

definition first_then_await ::
    "(status \<Rightarrow> status \<Rightarrow> status) \<Rightarrow> RemoteBuffer_ops \<Rightarrow> u32 \<Rightarrow> remote_buffer \<Rightarrow> AckReceiver \<Rightarrow> endpoint \<Rightarrow>
     (u64 status_or \<times> remote_buffer \<times> AckReceiver \<times> endpoint) option" where
  "first_then_await err ro len rb ack ep = (case r_GetWriteAddr ro len rb of
       Inr a \<Rightarrow> Some (Inr a, rb, ack, ep)
     | Inl s \<Rightarrow> do {
         (head_s, ack, ep) \<leftarrow> AckReceiver_Get ack ep;
         (case head_s of
            Inl hs \<Rightarrow> Some (Inl (Wrap ''error getting new head'' hs), rb, ack, ep)
          | Inr h \<Rightarrow> await_space err ro len (r_UpdateHead ro h rb) ack ep) })"

definition wrap_head :: "status \<Rightarrow> status \<Rightarrow> status" where
  "wrap_head s hs = Wrap (message hs) s"

definition get_write_addr_or_die ::
    "RemoteBuffer_ops \<Rightarrow> u32 \<Rightarrow> remote_buffer \<Rightarrow> AckReceiver \<Rightarrow> endpoint \<Rightarrow>
     (u64 status_or \<times> remote_buffer \<times> AckReceiver \<times> endpoint) option" where
  "get_write_addr_or_die = first_then_await wrap_head"

section \<open>WriteSender\<close>

text \<open>A message starts with two words: its length, header included, and the checksum.\<close>

definition WriteSender_GetMemoryRegion ::
    "u64 \<Rightarrow> endpoint \<Rightarrow> (SendRegion status_or \<times> endpoint) option" where
  "WriteSender_GetMemoryRegion sz ep = do {
     (buf_s, ep) \<leftarrow> DumbAllocator_Alloc (sz + 8) ep;
     Some (case buf_s of
         Inl s \<Rightarrow> (Inl s, ep)
       | Inr buf \<Rightarrow> (Inr (buf\<lparr>reg_addr := reg_addr buf + 8, reg_length := ucast sz\<rparr>),
                    sys_void (Store (reg_addr buf) (ucast (reg_length buf)) 4) ep)) }"

definition WriteSender_Free :: "SendRegion \<Rightarrow> endpoint \<Rightarrow> (status \<times> endpoint) option" where
  "WriteSender_Free reg =
     DumbAllocator_Free (reg\<lparr>reg_addr := reg_addr reg - 8, reg_length := reg_length reg + 8\<rparr>)"

text \<open>The checksum of the length word and the payload is stored in the second word.\<close>

definition store_checksum :: "(u8 list \<Rightarrow> u32) \<Rightarrow> SendRegion \<Rightarrow> endpoint \<Rightarrow> endpoint option" where
  "store_checksum crc reg ep = do {
     (hdr, ep) \<leftarrow> sys_load (reg_addr reg - 8) ep;
     (payload, ep) \<leftarrow> sys_block (reg_addr reg) (reg_length reg) ep;
     Some (sys_void (Store (reg_addr reg - 4) (ucast (crc (le32 (ucast hdr) @ payload))) 4) ep) }"

text \<open>The second half of a send: the space at \<open>addr\<close> is there, it is reserved after the post.\<close>

definition WriteSender_write ::
    "(u8 list \<Rightarrow> u32) \<Rightarrow> SendRegion \<Rightarrow> u64 \<Rightarrow> u64 \<Rightarrow> write_sender \<Rightarrow> endpoint \<Rightarrow>
     (u64 status_or \<times> write_sender \<times> endpoint) option" where
  "WriteSender_write crc reg wid addr s ep = (
     let len = reg_length reg + 8; ro = ws_rops s in do {
     ep \<leftarrow> store_checksum crc reg ep;
     (st, ep) \<leftarrow> Endpoint_PostWrite wid (reg_lkey reg) (reg_addr reg - 8) (ucast len) addr (r_GetKey ro (ws_rbuf s)) ep;
     Some (if \<not> status_ok st then (Inl st, s, ep)
           else (Inr wid, s\<lparr>ws_rbuf := snd (r_Write ro len (ws_rbuf s))\<rparr>, ep)) })"

definition WriteSender_SendAsync ::
    "(u8 list \<Rightarrow> u32) \<Rightarrow> SendRegion \<Rightarrow> write_sender \<Rightarrow> endpoint \<Rightarrow>
     (u64 status_or \<times> write_sender \<times> endpoint) option" where
  "WriteSender_SendAsync crc reg s ep = (
     let wid = ws_next_id s; s = s\<lparr>ws_next_id := wid + 1\<rparr> in do {
     (addr_s, rb, ack, ep) \<leftarrow> await_space wrap_head (ws_rops s) (reg_length reg + 8) (ws_rbuf s) (ws_ack s) ep;
     let s = s\<lparr>ws_rbuf := rb, ws_ack := ack\<rparr>;
     (case addr_s of
        Inl e \<Rightarrow> Some (Inl e, s, ep)
      | Inr addr \<Rightarrow> WriteSender_write crc reg wid addr s ep) })"

text \<open>
  The requests of a batch: all have the id of the batch, only the last one is signaled.
  \<open>hdr\<close> is the number of bytes in front of the region that belong to the message.
\<close>

definition batch_wr :: "u64 \<Rightarrow> u64 \<Rightarrow> wr_opcode \<Rightarrow> bool \<Rightarrow> SendRegion \<Rightarrow> u32 \<Rightarrow> u64 \<Rightarrow> u32 \<Rightarrow> u32 \<Rightarrow> send_wr" where
  "batch_wr wid hdr opc is_last reg len addr key imm =
     (send_wr0 wid \<lparr>sge_addr = reg_addr reg - hdr, sge_length = len, sge_lkey = reg_lkey reg\<rparr> opc
        (if is_last then [SEND_SIGNALED] else []))
     \<lparr>swr_remote_addr := addr, swr_rkey := key, swr_imm := imm\<rparr>"

fun WriteSender_batch ::
    "(u8 list \<Rightarrow> u32) \<Rightarrow> u64 \<Rightarrow> SendRegion list \<Rightarrow> write_sender \<Rightarrow> endpoint \<Rightarrow>
     (send_wr list status_or \<times> write_sender \<times> endpoint) option" where
  "WriteSender_batch crc wid [] s ep = Some (Inr [], s, ep)"
| "WriteSender_batch crc wid (reg # regs) s ep = (
     let len = reg_length reg + 8; ro = ws_rops s in do {
     (addr_s, rb, ack, ep) \<leftarrow> get_write_addr_or_die ro len (ws_rbuf s) (ws_ack s) ep;
     (case addr_s of
        Inl e \<Rightarrow> Some (Inl (Wrap ''error sending batch. Might be in inconsistent state'' e),
                       s\<lparr>ws_rbuf := rb, ws_ack := ack\<rparr>, ep)
      | Inr addr \<Rightarrow> do {
          let s = s\<lparr>ws_rbuf := snd (r_Write ro len rb), ws_ack := ack\<rparr>;
          ep \<leftarrow> store_checksum crc reg ep;
          let wr = batch_wr wid 8 WR_RDMA_WRITE (regs = []) reg len addr (r_GetKey ro (ws_rbuf s)) 0;
          (r, s, ep) \<leftarrow> WriteSender_batch crc wid regs s ep;
          Some (case r of Inl e \<Rightarrow> Inl e | Inr wrs \<Rightarrow> Inr (wr # wrs), s, ep) }) })"

text \<open>An empty batch posts an array without elements, which is undefined.\<close>

definition post_batch :: "u64 \<Rightarrow> send_wr list status_or \<times> write_sender \<times> endpoint \<Rightarrow>
    (u64 status_or \<times> write_sender \<times> endpoint) option" where
  "post_batch wid = (\<lambda>(r, s, ep). case r of
       Inl e \<Rightarrow> Some (Inl e, s, ep)
     | Inr [] \<Rightarrow> None
     | Inr wrs \<Rightarrow> do {
         (st, ep) \<leftarrow> Endpoint_PostSendRaw wrs ep;
         Some (if \<not> status_ok st then Inl st else Inr wid, s, ep) })"

definition WriteSender_SendAsync_batch ::
    "(u8 list \<Rightarrow> u32) \<Rightarrow> SendRegion list \<Rightarrow> write_sender \<Rightarrow> endpoint \<Rightarrow>
     (u64 status_or \<times> write_sender \<times> endpoint) option" where
  "WriteSender_SendAsync_batch crc regs s ep = (
     let wid = ws_next_id s; s = s\<lparr>ws_next_id := wid + 1\<rparr> in
     Option.bind (WriteSender_batch crc wid regs s ep) (post_batch wid))"

text \<open>
  \<open>Wait\<close> polls until \<open>ackd_id_\<close> reaches the id; \<open>upd\<close> is how a completion changes it.
\<close>

partial_function (option) wait_loop ::
    "(u64 \<Rightarrow> u64 \<Rightarrow> u64) \<Rightarrow> u64 \<Rightarrow> u64 \<Rightarrow> endpoint \<Rightarrow> (status \<times> u64 \<times> endpoint) option" where
  "wait_loop upd wid ackd ep = (
     if ackd < wid then do {
       (wc_s, ep) \<leftarrow> Endpoint_PollSendCq ep;
       (case wc_s of
          Inl s \<Rightarrow> Some (s, ackd, ep)
        | Inr wc \<Rightarrow> wait_loop upd wid (upd ackd (wc_wr_id wc)) ep) }
     else Some (Status0, ackd, ep))"

lemmas [code] = wait_loop.simps

definition keep_max :: "u64 \<Rightarrow> u64 \<Rightarrow> u64" where
  "keep_max ackd i = (if i > ackd then i else ackd)"

definition keep_last :: "u64 \<Rightarrow> u64 \<Rightarrow> u64" where
  "keep_last ackd i = i"

definition WriteSender_Wait :: "u64 \<Rightarrow> write_sender \<Rightarrow> endpoint \<Rightarrow> (status \<times> write_sender \<times> endpoint) option" where
  "WriteSender_Wait wid s ep = do {
     (st, ackd, ep) \<leftarrow> wait_loop keep_max wid (ws_ackd_id s) ep;
     Some (st, s\<lparr>ws_ackd_id := ackd\<rparr>, ep) }"

text \<open>A synchronous send: the asynchronous one, then \<open>Wait\<close> for its id.\<close>

definition send_and_wait ::
    "(write_sender \<Rightarrow> endpoint \<Rightarrow> (u64 status_or \<times> write_sender \<times> endpoint) option) \<Rightarrow>
     (u64 \<Rightarrow> write_sender \<Rightarrow> endpoint \<Rightarrow> (status \<times> write_sender \<times> endpoint) option) \<Rightarrow>
     write_sender \<Rightarrow> endpoint \<Rightarrow> (status \<times> write_sender \<times> endpoint) option" where
  "send_and_wait async wait s ep = do {
     (id_stat, s, ep) \<leftarrow> async s ep;
     (case id_stat of Inl e \<Rightarrow> Some (e, s, ep) | Inr wid \<Rightarrow> wait wid s ep) }"

definition WriteSender_Send where
  "WriteSender_Send crc reg = send_and_wait (WriteSender_SendAsync crc reg) WriteSender_Wait"

definition WriteSender_Send_batch where
  "WriteSender_Send_batch crc regs = send_and_wait (WriteSender_SendAsync_batch crc regs) WriteSender_Wait"

definition WriteSender_Close :: "write_sender \<Rightarrow> endpoint \<Rightarrow> (status \<times> endpoint) option" where
  "WriteSender_Close s ep = do {
     (st, ep) \<leftarrow> AckReceiver_Close (ws_ack s) ep;
     if \<not> status_ok st then Some (Wrap ''Error closing acknowledger'' st, ep)
     else if ws_owns_ep s then Endpoint_Close ep
     else Some (Status0, ep) }"

end
