(* ===== verification/Write_Variants.thy ===== *)
theory Write_Variants
  imports Write_Sender
begin

text \<open>
  The other senders of \<^verbatim>\<open>tests/write/write.cpp\<close> and \<^verbatim>\<open>tests/write/reverse.cpp\<close>:
  \<open>WriteOffsetSender\<close> writes the message and then the new tail, \<open>WriteImmSender\<close> carries the
  length as immediate data, \<open>WriteReverseSender\<close> writes downwards with an indicator byte at
  the end of each message.
\<close>

section \<open>WriteOffsetSender\<close>

definition WriteOffsetSender_GetMemoryRegion ::
    "u64 \<Rightarrow> endpoint \<Rightarrow> (SendRegion status_or \<times> endpoint) option" where
  "WriteOffsetSender_GetMemoryRegion sz ep = do {
     (buf_s, ep) \<leftarrow> DumbAllocator_Alloc (sz + 4) ep;
     Some (case buf_s of
         Inl s \<Rightarrow> (Inl s, ep)
       | Inr buf \<Rightarrow> (Inr (buf\<lparr>reg_addr := reg_addr buf + 4, reg_length := ucast sz\<rparr>),
                    sys_void (Store (reg_addr buf) (ucast (reg_length buf)) 4) ep)) }"

definition WriteOffsetSender_Free :: "SendRegion \<Rightarrow> endpoint \<Rightarrow> (status \<times> endpoint) option" where
  "WriteOffsetSender_Free reg =
     DumbAllocator_Free (reg\<lparr>reg_addr := reg_addr reg - 4, reg_length := reg_length reg + 4\<rparr>)"

text \<open>The second request of a send: the new tail, inline from a local variable.\<close>

definition tail_wr :: "u64 \<Rightarrow> u32 \<Rightarrow> write_sender \<Rightarrow> send_wr" where
  "tail_wr wid tail s = (send_wr0 wid \<lparr>sge_addr = 0, sge_length = 4, sge_lkey = 0\<rparr> WR_RDMA_WRITE
     [SEND_SIGNALED, SEND_INLINE])
     \<lparr>swr_remote_addr := ws_tail_addr s, swr_rkey := ws_tail_key s, swr_inline := tail\<rparr>"

definition WriteOffsetSender_SendAsync ::
    "SendRegion \<Rightarrow> write_sender \<Rightarrow> endpoint \<Rightarrow> (u64 status_or \<times> write_sender \<times> endpoint) option" where
  "WriteOffsetSender_SendAsync reg s ep = (
     let wid = ws_next_id s; s = s\<lparr>ws_next_id := wid + 1\<rparr>; len = reg_length reg + 4; ro = ws_rops s in do {
     (addr_s, rb, ack, ep) \<leftarrow> get_write_addr_or_die ro len (ws_rbuf s) (ws_ack s) ep;
     let s = s\<lparr>ws_rbuf := rb, ws_ack := ack\<rparr>;
     (case addr_s of
        Inl e \<Rightarrow> Some (Inl e, s, ep)
      | Inr addr \<Rightarrow>
         (case r_GetNextTail ro len rb of
            Inl e \<Rightarrow> Some (Inl e, s, ep)
          | Inr tail \<Rightarrow> do {
              let wr_data = batch_wr wid 4 WR_RDMA_WRITE False reg len addr (r_GetKey ro rb) 0;
              (st, ep) \<leftarrow> Endpoint_PostSendRaw [wr_data, tail_wr wid tail s] ep;
              if \<not> status_ok st then Some (Inl st, s, ep)
              else Some (Inr wid, s\<lparr>ws_rbuf := snd (r_Write ro len rb)\<rparr>, ep) })) })"

text \<open>The data requests of a batch have ids \<open>101, 102, ..\<close> and are not signaled.\<close>

fun WriteOffsetSender_batch ::
    "u64 \<Rightarrow> SendRegion list \<Rightarrow> write_sender \<Rightarrow> endpoint \<Rightarrow>
     (send_wr list status_or \<times> write_sender \<times> endpoint) option" where
  "WriteOffsetSender_batch i [] s ep = Some (Inr [], s, ep)"
| "WriteOffsetSender_batch i (reg # regs) s ep = (
     let len = reg_length reg + 4; ro = ws_rops s in do {
     (addr_s, rb, ack, ep) \<leftarrow> get_write_addr_or_die ro len (ws_rbuf s) (ws_ack s) ep;
     (case addr_s of
        Inl e \<Rightarrow> Some (Inl (Wrap ''error sending batch. Might be in inconsistent state'' e),
                       s\<lparr>ws_rbuf := rb, ws_ack := ack\<rparr>, ep)
      | Inr addr \<Rightarrow> do {
          let s = s\<lparr>ws_rbuf := snd (r_Write ro len rb), ws_ack := ack\<rparr>;
          let wr = batch_wr (i + 1 + 100) 4 WR_RDMA_WRITE False reg len addr (r_GetKey ro (ws_rbuf s)) 0;
          (r, s, ep) \<leftarrow> WriteOffsetSender_batch (i + 1) regs s ep;
          Some (case r of Inl e \<Rightarrow> Inl e | Inr wrs \<Rightarrow> Inr (wr # wrs), s, ep) }) })"

definition WriteOffsetSender_SendAsync_batch ::
    "SendRegion list \<Rightarrow> write_sender \<Rightarrow> endpoint \<Rightarrow> (u64 status_or \<times> write_sender \<times> endpoint) option" where
  "WriteOffsetSender_SendAsync_batch regs s ep = (
     let wid = ws_next_id s; s = s\<lparr>ws_next_id := wid + 1\<rparr> in do {
     (r, s, ep) \<leftarrow> WriteOffsetSender_batch 0 regs s ep;
     post_batch wid
       (case r of Inl e \<Rightarrow> Inl e
        | Inr wrs \<Rightarrow> Inr (wrs @ [tail_wr wid (r_GetTail (ws_rops s) (ws_rbuf s)) s]), s, ep) })"

definition WriteOffsetSender_Wait :: "u64 \<Rightarrow> write_sender \<Rightarrow> endpoint \<Rightarrow> (status \<times> write_sender \<times> endpoint) option" where
  "WriteOffsetSender_Wait wid s ep = do {
     (st, ackd, ep) \<leftarrow> wait_loop keep_max wid (ws_ackd_id s) ep;
     Some (st, s\<lparr>ws_ackd_id := ackd\<rparr>, ep) }"

definition WriteOffsetSender_Send where
  "WriteOffsetSender_Send reg = send_and_wait (WriteOffsetSender_SendAsync reg) WriteOffsetSender_Wait"

definition WriteOffsetSender_Send_batch where
  "WriteOffsetSender_Send_batch regs =
     send_and_wait (WriteOffsetSender_SendAsync_batch regs) WriteOffsetSender_Wait"

section \<open>WriteImmSender\<close>

definition WriteImmSender_GetMemoryRegion ::
    "u64 \<Rightarrow> endpoint \<Rightarrow> (SendRegion status_or \<times> endpoint) option" where
  "WriteImmSender_GetMemoryRegion sz ep = do {
     (buf_s, ep) \<leftarrow> DumbAllocator_Alloc sz ep;
     Some (case buf_s of
         Inl s \<Rightarrow> (Inl s, ep)
       | Inr buf \<Rightarrow> (Inr (buf\<lparr>reg_length := ucast sz\<rparr>), ep)) }"

definition WriteImmSender_Free :: "SendRegion \<Rightarrow> endpoint \<Rightarrow> (status \<times> endpoint) option" where
  "WriteImmSender_Free reg = DumbAllocator_Free reg"

definition WriteImmSender_SendAsync ::
    "SendRegion \<Rightarrow> write_sender \<Rightarrow> endpoint \<Rightarrow> (u64 status_or \<times> write_sender \<times> endpoint) option" where
  "WriteImmSender_SendAsync reg s ep = (
     let wid = ws_next_id s; s = s\<lparr>ws_next_id := wid + 1\<rparr>; len = reg_length reg; ro = ws_rops s in do {
     (addr_s, rb, ack, ep) \<leftarrow> get_write_addr_or_die ro len (ws_rbuf s) (ws_ack s) ep;
     let s = s\<lparr>ws_rbuf := rb, ws_ack := ack\<rparr>;
     (case addr_s of
        Inl e \<Rightarrow> Some (Inl e, s, ep)
      | Inr addr \<Rightarrow> do {
          (st, ep) \<leftarrow> Endpoint_PostWriteWithImmidate wid (reg_lkey reg) (reg_addr reg) (ucast len) addr
                       (r_GetKey ro rb) len ep;
          if \<not> status_ok st then Some (Inl st, s, ep)
          else Some (Inr wid, s\<lparr>ws_rbuf := snd (r_Write ro len rb)\<rparr>, ep) }) })"

fun WriteImmSender_batch ::
    "u64 \<Rightarrow> SendRegion list \<Rightarrow> write_sender \<Rightarrow> endpoint \<Rightarrow>
     (send_wr list status_or \<times> write_sender \<times> endpoint) option" where
  "WriteImmSender_batch wid [] s ep = Some (Inr [], s, ep)"
| "WriteImmSender_batch wid (reg # regs) s ep = (
     let len = reg_length reg; ro = ws_rops s in do {
     (addr_s, rb, ack, ep) \<leftarrow> get_write_addr_or_die ro len (ws_rbuf s) (ws_ack s) ep;
     (case addr_s of
        Inl e \<Rightarrow> Some (Inl (Wrap ''error sending batch. Might be in inconsistent state'' e),
                       s\<lparr>ws_rbuf := rb, ws_ack := ack\<rparr>, ep)
      | Inr addr \<Rightarrow> do {
          let s = s\<lparr>ws_rbuf := snd (r_Write ro len rb), ws_ack := ack\<rparr>;
          let wr = batch_wr wid 0 WR_RDMA_WRITE_WITH_IMM (regs = []) reg len addr
                     (r_GetKey ro (ws_rbuf s)) len;
          (r, s, ep) \<leftarrow> WriteImmSender_batch wid regs s ep;
          Some (case r of Inl e \<Rightarrow> Inl e | Inr wrs \<Rightarrow> Inr (wr # wrs), s, ep) }) })"

definition WriteImmSender_SendAsync_batch ::
    "SendRegion list \<Rightarrow> write_sender \<Rightarrow> endpoint \<Rightarrow> (u64 status_or \<times> write_sender \<times> endpoint) option" where
  "WriteImmSender_SendAsync_batch regs s ep = (
     let wid = ws_next_id s; s = s\<lparr>ws_next_id := wid + 1\<rparr> in
     Option.bind (WriteImmSender_batch wid regs s ep) (post_batch wid))"

text \<open>This \<open>Wait\<close> keeps the last id it saw, not the largest.\<close>

definition WriteImmSender_Wait :: "u64 \<Rightarrow> write_sender \<Rightarrow> endpoint \<Rightarrow> (status \<times> write_sender \<times> endpoint) option" where
  "WriteImmSender_Wait wid s ep = do {
     (st, ackd, ep) \<leftarrow> wait_loop keep_last wid (ws_ackd_id s) ep;
     Some (st, s\<lparr>ws_ackd_id := ackd\<rparr>, ep) }"

definition WriteImmSender_Send where
  "WriteImmSender_Send reg = send_and_wait (WriteImmSender_SendAsync reg) WriteImmSender_Wait"

definition WriteImmSender_Send_batch where
  "WriteImmSender_Send_batch regs =
     send_and_wait (WriteImmSender_SendAsync_batch regs) WriteImmSender_Wait"

section \<open>WriteReverseSender\<close>

text \<open>
  A buffer is one byte that clears the indicator of the next message, the payload, the length
  word and the indicator byte 1. The first byte is not part of the message.
\<close>

definition WriteReverseSender_GetMemoryRegion ::
    "u64 \<Rightarrow> endpoint \<Rightarrow> (SendRegion status_or \<times> endpoint) option" where
  "WriteReverseSender_GetMemoryRegion sz ep = do {
     (buf_s, ep) \<leftarrow> DumbAllocator_Alloc (sz + 6) ep;
     Some (case buf_s of
         Inl s \<Rightarrow> (Inl s, ep)
       | Inr buf \<Rightarrow>
           (let e = sys_void (Store (reg_addr buf) 0 1) ep;
                e = sys_void (Store (reg_addr buf + ucast (reg_length buf) - 1) 1 1) e;
                e = sys_void (Store (reg_addr buf + ucast (reg_length buf) - 1 - 4) (ucast (ucast (sz + 5) :: u32)) 4) e
            in (Inr (buf\<lparr>reg_addr := reg_addr buf + 1, reg_length := ucast sz\<rparr>), e))) }"

definition WriteReverseSender_Free :: "SendRegion \<Rightarrow> endpoint \<Rightarrow> (status \<times> endpoint) option" where
  "WriteReverseSender_Free reg =
     DumbAllocator_Free (reg\<lparr>reg_addr := reg_addr reg - 1, reg_length := reg_length reg + 6\<rparr>)"

definition rnr_error :: "status \<Rightarrow> status \<Rightarrow> status" where
  "rnr_error s hs = Wrap ''error getting head in RNR'' s"

definition WriteReverseSender_SendAsync ::
    "SendRegion \<Rightarrow> write_sender \<Rightarrow> endpoint \<Rightarrow> (u64 status_or \<times> write_sender \<times> endpoint) option" where
  "WriteReverseSender_SendAsync reg s ep = (
     let wid = ws_next_id s; s = s\<lparr>ws_next_id := wid + 1\<rparr>; len = reg_length reg + 6; ro = ws_rops s in do {
     (addr_s, rb, ack, ep) \<leftarrow> first_then_await rnr_error ro len (ws_rbuf s) (ws_ack s) ep;
     let s = s\<lparr>ws_rbuf := rb, ws_ack := ack\<rparr>;
     (case addr_s of
        Inl e \<Rightarrow> Some (Inl e, s, ep)
      | Inr addr \<Rightarrow> do {
          (st, ep) \<leftarrow> Endpoint_PostWrite wid (reg_lkey reg) (reg_addr reg - 1) (ucast len) addr (r_GetKey ro rb) ep;
          if \<not> status_ok st then Some (Inl st, s, ep)
          else Some (Inr wid, s\<lparr>ws_rbuf := snd (r_Write ro (len - 1) rb)\<rparr>, ep) }) })"

definition WriteReverseSender_SendAsync_batch ::
    "SendRegion list \<Rightarrow> write_sender \<Rightarrow> endpoint \<Rightarrow> (u64 status_or \<times> write_sender \<times> endpoint) option" where
  "WriteReverseSender_SendAsync_batch regs s ep = Some (Inl (Status NotImplemented []), s, ep)"

definition WriteReverseSender_Wait :: "u64 \<Rightarrow> write_sender \<Rightarrow> endpoint \<Rightarrow> (status \<times> write_sender \<times> endpoint) option" where
  "WriteReverseSender_Wait wid s ep = do {
     (st, ackd, ep) \<leftarrow> wait_loop keep_max wid (ws_ackd_id s) ep;
     Some (st, s\<lparr>ws_ackd_id := ackd\<rparr>, ep) }"

definition WriteReverseSender_Send where
  "WriteReverseSender_Send reg = send_and_wait (WriteReverseSender_SendAsync reg) WriteReverseSender_Wait"

definition WriteReverseSender_Send_batch where
  "WriteReverseSender_Send_batch regs =
     send_and_wait (WriteReverseSender_SendAsync_batch regs) WriteReverseSender_Wait"

end
