(* ===== verification/Write_Receiver.thy ===== *)
theory Write_Receiver
  imports Write_Variants
begin

text \<open>
  The receivers of \<^verbatim>\<open>tests/write/write.cpp\<close> and \<^verbatim>\<open>tests/write/reverse.cpp\<close>. Memory that the
  sender writes is read through the loads of the environment. \<open>None\<close> is a receiver that still
  polls, or a free of a region that is not outstanding.
\<close>

definition write_buf_size :: u32 where
  "write_buf_size = 16 * 1024 * 1024"

record write_receiver =
  wr_owns_ep :: bool
  wr_bops :: Buffer_ops
  wr_rbuf :: ring_buffer
  wr_ack :: Acknowledger
  wr_acked :: u32
  wr_length :: u32
  wr_max_unacked :: u32
  wr_tail_mr :: ibv_mr
  wr_rq :: receive_queue

definition null_mr :: ibv_mr where
  "null_mr = \<lparr>mr_addr = 0, mr_length = 0, mr_lkey = 0\<rparr>"

definition null_rq :: receive_queue where
  "null_rq = \<lparr>rq_mr = null_mr, rq_transfer_size = 0, rq_current_rcv_mr = 0, rq_max_rcv_mr = 0,
     rq_wrs = [], rq_srq = 0\<rparr>"

definition WriteReceiver_new ::
    "bool \<Rightarrow> Buffer_ops \<Rightarrow> ring_buffer \<Rightarrow> Acknowledger \<Rightarrow> ibv_mr \<Rightarrow> receive_queue \<Rightarrow> write_receiver" where
  "WriteReceiver_new owns_ep bo rb ack tail_mr rq = \<lparr>wr_owns_ep = owns_ep, wr_bops = bo,
     wr_rbuf = rb, wr_ack = ack, wr_acked = 0, wr_length = write_buf_size,
     wr_max_unacked = write_buf_size div 2, wr_tail_mr = tail_mr, wr_rq = rq\<rparr>"

section \<open>Polling memory\<close>

text \<open>\<open>while (*p == v) {}\<close>: the first load that gives another value; the low bits count.\<close>

partial_function (option) poll_word :: "(u64 \<Rightarrow> bool) \<Rightarrow> u64 \<Rightarrow> endpoint \<Rightarrow> endpoint option" where
  "poll_word stay a ep = do {
     (v, ep) \<leftarrow> sys_load a ep;
     if stay v then poll_word stay a ep else Some ep }"

text \<open>
  The checksum loop: \<open>last_sum\<close> is the checksum computed last, at first that of no bytes.
\<close>

partial_function (option) check_loop ::
    "(u8 list \<Rightarrow> u32) \<Rightarrow> u32 \<Rightarrow> u64 \<Rightarrow> u64 \<Rightarrow> u32 \<Rightarrow> endpoint \<Rightarrow> endpoint option" where
  "check_loop crc last_sum head addr len ep = do {
     (v, ep) \<leftarrow> sys_load (addr - 4) ep;
     if (ucast v :: u32) = last_sum then Some ep
     else do {
       (hdr, ep) \<leftarrow> sys_load head ep;
       (payload, ep) \<leftarrow> sys_block addr len ep;
       check_loop crc (crc (le32 (ucast hdr) @ payload)) head addr len ep } }"

lemmas [code] = poll_word.simps check_loop.simps

section \<open>WriteReceiver\<close>

definition WriteReceiver_Receive ::
    "(u8 list \<Rightarrow> u32) \<Rightarrow> write_receiver \<Rightarrow> endpoint \<Rightarrow> (ReceiveRegion status_or \<times> write_receiver \<times> endpoint) option" where
  "WriteReceiver_Receive crc r ep = do {
     let head = b_GetReadPtr (wr_bops r) (wr_rbuf r);
     ep \<leftarrow> poll_word (\<lambda>v. (ucast v :: u32) = 0) head ep;
     (v, ep) \<leftarrow> sys_load head ep;
     let len = (ucast v :: u32);
     let reg = \<lparr>reg_context = 0, reg_addr = head + 8, reg_length = len - 8, reg_lkey = 0\<rparr>;
     ep \<leftarrow> check_loop crc (crc []) head (reg_addr reg) (reg_length reg) ep;
     Some (Inr reg, r\<lparr>wr_rbuf := snd (b_Read (wr_bops r) len (wr_rbuf r))\<rparr>, ep) }"

text \<open>
  The new head is sent when it is more than half a buffer past the one sent last. Offsets of
  the magic buffer grow, \<open>flush_due\<close>; those of the reversed buffer fall, \<open>flush_due_reverse\<close>.
\<close>

definition flush_due :: "u32 \<Rightarrow> write_receiver \<Rightarrow> bool" where
  "flush_due head r \<longleftrightarrow>
     (head > wr_acked r \<and> head - wr_acked r > wr_max_unacked r) \<or>
     (head < wr_acked r \<and> head + (wr_length r - wr_acked r) > wr_max_unacked r)"

definition flush_due_reverse :: "u32 \<Rightarrow> write_receiver \<Rightarrow> bool" where
  "flush_due_reverse head r \<longleftrightarrow>
     (head < wr_acked r \<and> wr_acked r - head > wr_max_unacked r) \<or>
     (head > wr_acked r \<and> wr_acked r + (wr_length r - head) > wr_max_unacked r)"

definition ack_head ::
    "(u32 \<Rightarrow> write_receiver \<Rightarrow> bool) \<Rightarrow> u32 \<Rightarrow> write_receiver \<Rightarrow> endpoint \<Rightarrow>
     (status \<times> write_receiver \<times> endpoint) option" where
  "ack_head due head r ep = (
     case Acknowledger_Ack head (wr_ack r) ep of (ack, ep) \<Rightarrow>
     (let r = r\<lparr>wr_ack := ack\<rparr> in
      if due head r then do {
        (st, ep) \<leftarrow> Acknowledger_Flush (wr_ack r) ep;
        if \<not> status_ok st then Some (st, r, ep)
        else Some (Status0, r\<lparr>wr_acked := head\<rparr>, ep) }
      else Some (Status0, r, ep)))"

definition WriteReceiver_Free ::
    "ReceiveRegion \<Rightarrow> write_receiver \<Rightarrow> endpoint \<Rightarrow> (status \<times> write_receiver \<times> endpoint) option" where
  "WriteReceiver_Free reg r ep = do {
     (head, rb) \<leftarrow> b_Free (wr_bops r) (reg_addr reg - 8) (wr_rbuf r);
     let ep = sys_void (Memset (reg_addr reg - 8) (ucast (reg_length reg) + 8)) ep;
     ack_head flush_due head (r\<lparr>wr_rbuf := rb\<rparr>) ep }"

definition WriteReceiver_Close ::
    "(ring_buffer \<Rightarrow> endpoint \<Rightarrow> (status \<times> endpoint) option) \<Rightarrow>
     write_receiver \<Rightarrow> endpoint \<Rightarrow> (status \<times> endpoint) option" where
  "WriteReceiver_Close close_buffer r ep = do {
     (st, ep) \<leftarrow> close_buffer (wr_rbuf r) ep;
     if \<not> status_ok st then Some (Wrap ''Error closing ringbuffer'' st, ep)
     else do {
       (st, ep) \<leftarrow> Acknowledger_Close (wr_ack r) ep;
       if \<not> status_ok st then Some (Wrap ''Error closing acknowledger'' st, ep)
       else if wr_owns_ep r then Endpoint_Close ep
       else Some (Status0, ep) } }"

section \<open>WriteOffsetReceiver\<close>

definition WriteOffsetReceiver_Receive ::
    "write_receiver \<Rightarrow> endpoint \<Rightarrow> (ReceiveRegion status_or \<times> write_receiver \<times> endpoint) option" where
  "WriteOffsetReceiver_Receive r ep = do {
     let head_off = b_GetReadOff (wr_bops r) (wr_rbuf r);
     ep \<leftarrow> poll_word (\<lambda>v. (ucast v :: u32) = head_off) (mr_addr (wr_tail_mr r)) ep;
     let head = b_GetReadPtr (wr_bops r) (wr_rbuf r);
     (v, ep) \<leftarrow> sys_load head ep;
     let len = (ucast v :: u32);
     Some (Inr \<lparr>reg_context = 0, reg_addr = head + 4, reg_length = len - 4, reg_lkey = 0\<rparr>,
           r\<lparr>wr_rbuf := snd (b_Read (wr_bops r) len (wr_rbuf r))\<rparr>, ep) }"

definition WriteOffsetReceiver_Free ::
    "ReceiveRegion \<Rightarrow> write_receiver \<Rightarrow> endpoint \<Rightarrow> (status \<times> write_receiver \<times> endpoint) option" where
  "WriteOffsetReceiver_Free reg r ep = do {
     (head, rb) \<leftarrow> b_Free (wr_bops r) (reg_addr reg - 4) (wr_rbuf r);
     ack_head flush_due head (r\<lparr>wr_rbuf := rb\<rparr>) ep }"

definition WriteOffsetReceiver_Close ::
    "(ring_buffer \<Rightarrow> endpoint \<Rightarrow> (status \<times> endpoint) option) \<Rightarrow>
     write_receiver \<Rightarrow> endpoint \<Rightarrow> (status \<times> endpoint) option" where
  "WriteOffsetReceiver_Close close_buffer r ep = do {
     (st, ep) \<leftarrow> WriteReceiver_Close close_buffer r ep;
     if \<not> status_ok st then Some (st, ep)
     else do {
       (ret, ep) \<leftarrow> sys (Dereg_mr (mr_addr (wr_tail_mr r))) ep;
       if ret \<noteq> 0 then Some (Status Internal ''error deregistering tail MR'', ep)
       else Some (Status0, sys_void (Free_mem (mr_addr (wr_tail_mr r))) ep) } }"

section \<open>WriteImmReceiver\<close>

definition WriteImmReceiver_Receive ::
    "write_receiver \<Rightarrow> endpoint \<Rightarrow> (ReceiveRegion status_or \<times> write_receiver \<times> endpoint) option" where
  "WriteImmReceiver_Receive r ep = do {
     (wcStatus, ep) \<leftarrow> Endpoint_PollRecvCq ep;
     (case wcStatus of
        Inl s \<Rightarrow> Some (Inl (Wrap ''error polling receive cq'' s), r, ep)
      | Inr wc \<Rightarrow> do {
          (st, rq, ep) \<leftarrow> ReceiveQueue_PostMR (ucast (wc_wr_id wc)) (wr_rq r) ep;
          let r = r\<lparr>wr_rq := rq\<rparr>;
          if \<not> status_ok st then Some (Inl (Wrap ''error reposting mr'' st), r, ep)
          else (case b_Read (wr_bops r) (wc_imm wc) (wr_rbuf r) of (addr, rb) \<Rightarrow>
            Some (Inr \<lparr>reg_context = 0, reg_addr = addr, reg_length = wc_imm wc, reg_lkey = 0\<rparr>,
                  r\<lparr>wr_rbuf := rb\<rparr>, ep)) }) }"

definition WriteImmReceiver_Free ::
    "ReceiveRegion \<Rightarrow> write_receiver \<Rightarrow> endpoint \<Rightarrow> (status \<times> write_receiver \<times> endpoint) option" where
  "WriteImmReceiver_Free reg r ep = do {
     (head, rb) \<leftarrow> b_Free (wr_bops r) (reg_addr reg) (wr_rbuf r);
     ack_head flush_due head (r\<lparr>wr_rbuf := rb\<rparr>) ep }"

definition WriteImmReceiver_Close ::
    "(ring_buffer \<Rightarrow> endpoint \<Rightarrow> (status \<times> endpoint) option) \<Rightarrow>
     write_receiver \<Rightarrow> endpoint \<Rightarrow> (status \<times> endpoint) option" where
  "WriteImmReceiver_Close close_buffer r ep = do {
     (st, ep) \<leftarrow> WriteReceiver_Close close_buffer r ep;
     if \<not> status_ok st then Some (st, ep) else ReceiveQueue_Close (wr_rq r) ep }"

section \<open>WriteReverseReceiver\<close>

text \<open>
  The indicator byte and the length word are read in the second mapping, one buffer length
  above the read pointer.
\<close>

definition WriteReverseReceiver_Receive ::
    "write_receiver \<Rightarrow> endpoint \<Rightarrow> (ReceiveRegion status_or \<times> write_receiver \<times> endpoint) option" where
  "WriteReverseReceiver_Receive r ep = do {
     let nxt = b_GetReadPtr (wr_bops r) (wr_rbuf r) + ucast (wr_length r);
     ep \<leftarrow> poll_word (\<lambda>v. (ucast v :: u8) = 0) nxt ep;
     (v, ep) \<leftarrow> sys_load (nxt - 4) ep;
     let msg_len = (ucast v :: u32);
     (case b_Read (wr_bops r) msg_len (wr_rbuf r) of (addr, rb) \<Rightarrow>
        Some (Inr \<lparr>reg_context = 0, reg_addr = addr, reg_length = msg_len - 1 - 4, reg_lkey = 0\<rparr>,
              r\<lparr>wr_rbuf := rb\<rparr>, ep)) }"

definition WriteReverseReceiver_Free ::
    "ReceiveRegion \<Rightarrow> write_receiver \<Rightarrow> endpoint \<Rightarrow> (status \<times> write_receiver \<times> endpoint) option" where
  "WriteReverseReceiver_Free reg r ep = do {
     (head, rb) \<leftarrow> b_Free (wr_bops r) (reg_addr reg) (wr_rbuf r);
     ack_head flush_due_reverse head (r\<lparr>wr_rbuf := rb\<rparr>) ep }"

end
