(* ===== verification/Write_Waiting.thy ===== *)
theory Write_Waiting
  imports Write_Receiver
begin

text \<open>
  When the senders' \<open>Wait\<close> returns, what a \<open>Flush\<close> on the same endpoint does to it, and that
  regions are given back as they were allocated.
\<close>

section \<open>Waiting for a completion\<close>

text \<open>The completions that polls of the send queue will find.\<close>

definition completions :: "(int \<times> ibv_wc) list \<Rightarrow> ibv_wc list" where
  "completions ps = map snd (filter (\<lambda>p. fst p \<noteq> 0) ps)"

definition all_successful :: "(int \<times> ibv_wc) list \<Rightarrow> bool" where
  "all_successful ps \<longleftrightarrow> list_all (\<lambda>wc. wc_status wc = 0) (completions ps)"

lemma completions_simps [simp]:
  "completions [] = []"
  "completions ((ret, wc) # ps) = (if ret = 0 then completions ps else wc # completions ps)"
  by (simp_all add: completions_def)

lemma poll_until_cases:
  "(poll_until ps = None \<and> completions ps = []) \<or>
   (\<exists>wc ps'. poll_until ps = Some (wc, ps') \<and> completions ps = wc # completions ps' \<and> length ps' < length ps)"
  by (induction ps rule: poll_until.induct) auto

lemma PollSendCq_cases:
  assumes "all_successful (send_polls ep)"
  shows "(Endpoint_PollSendCq ep = None \<and> completions (send_polls ep) = []) \<or>
    (\<exists>wc ps. Endpoint_PollSendCq ep = Some (Inr wc, ep\<lparr>send_polls := ps\<rparr>) \<and>
       completions (send_polls ep) = wc # completions ps \<and> all_successful ps \<and>
       length ps < length (send_polls ep))"
  using poll_until_cases [of "send_polls ep"] assms
  by (auto simp: Endpoint_PollSendCq_def all_successful_def)

text \<open>
  The loop ends with the first completion whose id is large enough, whether the last or the
  largest id is kept.
\<close>

lemma wait_loop_iff:
  assumes "all_successful (send_polls ep)"
    and cond: "\<And>a i. a < wid \<Longrightarrow> wid \<le> upd a i \<longleftrightarrow> wid \<le> i"
  shows "if wid \<le> ackd \<or> (\<exists>wc \<in> set (completions (send_polls ep)). wid \<le> wc_wr_id wc)
    then \<exists>ackd' ps. wait_loop upd wid ackd ep = Some (Status0, ackd', ep\<lparr>send_polls := ps\<rparr>) \<and> wid \<le> ackd'
    else wait_loop upd wid ackd ep = None"
  using assms(1)
proof (induction "length (send_polls ep)" arbitrary: ep ackd rule: less_induct)
  case less
  show ?case
  proof (cases "ackd < wid")
    case False
    then have "wait_loop upd wid ackd ep = Some (Status0, ackd, ep\<lparr>send_polls := send_polls ep\<rparr>)"
      by (simp add: wait_loop.simps [of upd wid ackd ep])
    then have "\<exists>ps. wait_loop upd wid ackd ep = Some (Status0, ackd, ep\<lparr>send_polls := ps\<rparr>)" ..
    with False show ?thesis by (auto simp: not_less)
  next
    case True
    from PollSendCq_cases [OF less.prems] show ?thesis
    proof (elim disjE exE conjE)
      assume "Endpoint_PollSendCq ep = None" "completions (send_polls ep) = []"
      then show ?thesis using True by (simp add: wait_loop.simps [of upd wid ackd ep] not_le)
    next
      fix wc ps
      assume p: "Endpoint_PollSendCq ep = Some (Inr wc, ep\<lparr>send_polls := ps\<rparr>)"
        "completions (send_polls ep) = wc # completions ps" "all_successful ps"
        "length ps < length (send_polls ep)"
      let ?ep = "ep\<lparr>send_polls := ps\<rparr>" and ?a = "upd ackd (wc_wr_id wc)"
      have step: "wait_loop upd wid ackd ep = wait_loop upd wid ?a ?ep"
        using True p(1) by (simp add: wait_loop.simps [of upd wid ackd ep])
      have reached: "wid \<le> ?a \<longleftrightarrow> wid \<le> wc_wr_id wc" by (rule cond [OF True])
      have again: "?ep\<lparr>send_polls := x\<rparr> = ep\<lparr>send_polls := x\<rparr>" for x by simp
      have sp: "send_polls ?ep = ps" by simp
      have "length (send_polls ?ep) < length (send_polls ep)" "all_successful (send_polls ?ep)"
        using p(3,4) by simp_all
      note ih = less.hyps [OF this, of ?a, unfolded again sp]
      from ih show ?thesis unfolding step reached p(2) using True by (auto simp: not_le split: if_splits)
    qed
  qed
qed

lemma wait_loop_max:
  assumes "all_successful (send_polls ep)"
  shows "if wid \<le> ackd \<or> (\<exists>wc \<in> set (completions (send_polls ep)). wid \<le> wc_wr_id wc)
    then \<exists>ackd' ps. wait_loop keep_max wid ackd ep = Some (Status0, ackd', ep\<lparr>send_polls := ps\<rparr>) \<and> wid \<le> ackd'
    else wait_loop keep_max wid ackd ep = None"
  by (rule wait_loop_iff [OF assms]) (auto simp: keep_max_def)

lemma wait_loop_last:
  assumes "all_successful (send_polls ep)"
  shows "if wid \<le> ackd \<or> (\<exists>wc \<in> set (completions (send_polls ep)). wid \<le> wc_wr_id wc)
    then \<exists>ackd' ps. wait_loop keep_last wid ackd ep = Some (Status0, ackd', ep\<lparr>send_polls := ps\<rparr>) \<and> wid \<le> ackd'
    else wait_loop keep_last wid ackd ep = None"
  by (rule wait_loop_iff [OF assms]) (auto simp: keep_last_def)

text \<open>
  C29: When every completion still to come is a successful one, \<open>Wait(id)\<close> returns exactly when
  \<open>id\<close> was acknowledged before or some completion that is still to come has an id of at least
  \<open>id\<close>; then it reports success and remembers an id of at least \<open>id\<close>. Otherwise it polls for ever.
  (On a failed completion \<open>Wait\<close> may return an error; such runs are outside this property.)
\<close>

theorem wait_returns_iff:
  assumes "all_successful (send_polls ep)"
  shows "if wid \<le> ws_ackd_id s \<or> (\<exists>wc \<in> set (completions (send_polls ep)). wid \<le> wc_wr_id wc)
    then \<exists>s' ep'. WriteSender_Wait wid s ep = Some (Status0, s', ep') \<and> wid \<le> ws_ackd_id s'
    else WriteSender_Wait wid s ep = None"
  using wait_loop_max [OF assms, of wid "ws_ackd_id s"]
  by (auto simp: WriteSender_Wait_def split: if_splits)

definition demo_rbuf :: remote_buffer where
  "demo_rbuf = \<lparr>rm_addr = 4096, rm_length = 64, rm_key = 7, rm_head = 0, rm_tail = 0, rm_full = False\<rparr>"

definition demo_ws :: write_sender where
  "demo_ws = WriteSender_new True magic_remote demo_rbuf
     (ReadAckReceiver \<lparr>mr_addr = 512, mr_length = 8, mr_lkey = 3\<rparr> 5 1024) 0 0"

definition demo_send_ep :: "(int \<times> ibv_wc) list \<Rightarrow> endpoint" where
  "demo_send_ep ps = Endpoint_new demo_id [] (demo_env\<lparr>send_polls := ps, rets := replicate 4 0\<rparr>)"

lemma demo_send_ep_simps [simp]:
  "send_polls (demo_send_ep ps) = ps" "rets (demo_send_ep ps) = [0, 0, 0, 0]"
  "calls (demo_send_ep ps) = []"
  by (simp_all add: demo_send_ep_def Endpoint_new_def env.defs demo_env_def numeral_eq_Suc)

theorem wait_returns_iff_witness:
  "\<exists>s' ep'. WriteSender_Wait 2 demo_ws (demo_send_ep [(0, demo_wc 0), (1, demo_wc 1), (1, demo_wc 3)]) =
     Some (Status0, s', ep')"
  using wait_returns_iff [of "demo_send_ep [(0, demo_wc 0), (1, demo_wc 1), (1, demo_wc 3)]" 2 demo_ws]
  by (auto simp: all_successful_def demo_wc_def split: if_splits)

section \<open>A flush takes the completion of a send\<close>

lemma Flush_takes_completion:
  assumes "rets ep = 0 # rs" and "completions (send_polls ep) = wc # wcs" and "all_successful (send_polls ep)"
  shows "\<exists>ep'. SendAcknowledger_Flush a ep = Some (Status0, ep') \<and>
    completions (send_polls ep') = wcs \<and> all_successful (send_polls ep')"
proof -
  let ?w = "[send_wr0 0 (sge a 4 0) WR_SEND [SEND_SIGNALED, SEND_INLINE]]"
  let ?ep = "ep\<lparr>calls := calls ep @ [Post_send ?w], replied := replied ep @ [(Post_send ?w, 0)], rets := rs\<rparr>"
  have "all_successful (send_polls ?ep)" using assms(3) by simp
  from PollSendCq_cases [OF this] assms(2) obtain ps where
    "Endpoint_PollSendCq ?ep = Some (Inr wc, ?ep\<lparr>send_polls := ps\<rparr>)" "completions ps = wcs" "all_successful ps"
    by auto
  then show ?thesis
    by (simp add: SendAcknowledger_Flush_def Endpoint_PostInline_def Endpoint_PostSendRaw_def
        sys_reply [OF assms(1)])
qed

text \<open>
  On a duplex connection with send acknowledgements the two directions share the send
  queue. When the completion of a send is the next one, a \<open>Flush\<close> of the receiving side takes
  it for its own: it reports success, and a later \<open>Wait\<close> for that send polls for ever unless
  a later send completes.
\<close>

theorem flush_takes_send_completion:
  assumes "rets ep = 0 # rs" and "all_successful (send_polls ep)"
    and "completions (send_polls ep) = wc # wcs" and "wc_wr_id wc = wid"
    and "ws_ackd_id s < wid" and "\<forall>w \<in> set wcs. wc_wr_id w < wid"
  shows "\<exists>ep'. Acknowledger_Flush (SendAcknowledger a off) ep = Some (Status0, ep') \<and>
    WriteSender_Wait wid s ep' = None \<and> WriteSender_Wait wid s ep \<noteq> None"
proof -
  from Flush_takes_completion [OF assms(1,3,2), of a] obtain ep' where f:
    "SendAcknowledger_Flush a ep = Some (Status0, ep')"
    "completions (send_polls ep') = wcs" "all_successful (send_polls ep')" by blast
  from wait_loop_max [OF f(3), of wid "ws_ackd_id s"] f(2) assms(5,6)
  have "WriteSender_Wait wid s ep' = None"
    by (auto simp: WriteSender_Wait_def not_less split: if_splits)
  moreover from wait_loop_max [OF assms(2), of wid "ws_ackd_id s"] assms(3,4)
  have "WriteSender_Wait wid s ep \<noteq> None"
    by (auto simp: WriteSender_Wait_def split: if_splits)
  ultimately show ?thesis using f(1) by simp
qed

theorem flush_takes_send_completion_witness:
  "\<exists>ep'. Acknowledger_Flush (SendAcknowledger 256 12) (demo_send_ep [(1, demo_wc 1), (1, demo_wc 0)]) =
      Some (Status0, ep') \<and> WriteSender_Wait 1 demo_ws ep' = None"
  using flush_takes_send_completion [of "demo_send_ep [(1, demo_wc 1), (1, demo_wc 0)]" "[0, 0, 0]"
      "demo_wc 1" "[demo_wc 0]" 1 demo_ws 256 12]
  by (auto simp: all_successful_def demo_wc_def demo_ws_def WriteSender_new_def)

section \<open>Regions go back as they came\<close>

definition deregistered :: "call list \<Rightarrow> u64 list" where
  "deregistered cs = [a. Dereg_mr a \<leftarrow> cs]"

definition freed :: "call list \<Rightarrow> u64 list" where
  "freed cs = [a. Free_mem a \<leftarrow> cs]"

lemma freed_simps [simp]:
  "freed [] = []" "freed (xs @ ys) = freed xs @ freed ys"
  "freed (c # cs) = (case c of Free_mem a \<Rightarrow> a # freed cs | _ \<Rightarrow> freed cs)"
  "deregistered [] = []" "deregistered (xs @ ys) = deregistered xs @ deregistered ys"
  "deregistered (c # cs) = (case c of Dereg_mr a \<Rightarrow> a # deregistered cs | _ \<Rightarrow> deregistered cs)"
  by (simp_all add: freed_def deregistered_def split: call.split)

definition region_cycle ::
    "(u64 \<Rightarrow> endpoint \<Rightarrow> (SendRegion status_or \<times> endpoint) option) \<Rightarrow>
     (SendRegion \<Rightarrow> endpoint \<Rightarrow> (status \<times> endpoint) option) \<Rightarrow> u64 \<Rightarrow> endpoint \<Rightarrow>
     ((status \<times> SendRegion option) \<times> endpoint) option" where
  "region_cycle get give n ep = do {
     (r, ep) \<leftarrow> get n ep;
     (case r of Inl s \<Rightarrow> Some ((s, None), ep)
      | Inr reg \<Rightarrow> do { (st, ep) \<leftarrow> give reg ep; Some ((st, Some reg), ep) }) }"

definition write_regions where
  "write_regions =
     [(WriteSender_GetMemoryRegion, WriteSender_Free),
      (WriteOffsetSender_GetMemoryRegion, WriteOffsetSender_Free),
      (WriteImmSender_GetMemoryRegion, WriteImmSender_Free),
      (WriteReverseSender_GetMemoryRegion, WriteReverseSender_Free)]"

lemmas region_defs = WriteSender_GetMemoryRegion_def WriteOffsetSender_GetMemoryRegion_def
  WriteImmSender_GetMemoryRegion_def WriteReverseSender_GetMemoryRegion_def WriteSender_Free_def
  WriteOffsetSender_Free_def WriteImmSender_Free_def WriteReverseSender_Free_def
  DumbAllocator_Alloc_def DumbAllocator_Free_def

text \<open>
  Whatever the sender, a region it hands out has the requested length, lies inside the
  memory it allocated, and freeing it deregisters and frees exactly that memory, header and
  indicator bytes included.
\<close>

theorem send_region_roundtrip:
  assumes "(get, give) \<in> set write_regions"
    and "addrs ep = a # as" and "mrs ep = Some m # ms" and "rets ep = 0 # rs"
  shows "\<exists>reg ep'. region_cycle get give n ep = Some ((Status0, Some reg), ep') \<and>
    reg_length reg = ucast n \<and> reg_lkey reg = mr_lkey m \<and>
    deregistered (calls ep') = deregistered (calls ep) @ [mr_addr m] \<and>
    freed (calls ep') = freed (calls ep) @ [a]"
  using assms unfolding write_regions_def
  by (auto simp: region_cycle_def region_defs sys_defs Let_def)

theorem send_region_roundtrip_witness:
  "\<exists>reg ep'. region_cycle WriteReverseSender_GetMemoryRegion WriteReverseSender_Free 100
      (Endpoint_new demo_id [] (demo_env\<lparr>addrs := [512], rets := [0],
         mrs := [Some \<lparr>mr_addr = 512, mr_length = 106, mr_lkey = 3\<rparr>]\<rparr>)) = Some ((Status0, Some reg), ep')"
  using send_region_roundtrip [of WriteReverseSender_GetMemoryRegion WriteReverseSender_Free
      "Endpoint_new demo_id [] (demo_env\<lparr>addrs := [512], rets := [0],
         mrs := [Some \<lparr>mr_addr = 512, mr_length = 106, mr_lkey = 3\<rparr>]\<rparr>)" 512 "[]"
      "\<lparr>mr_addr = 512, mr_length = 106, mr_lkey = 3\<rparr>" "[]" "[]" 100]
  by (simp add: write_regions_def Endpoint_new_def env.defs demo_env_def) blast

end
