(* ===== verification/Write_Safety.thy ===== *)
theory Write_Safety
  imports Write_Waiting "HOL-Library.Sublist"
begin

text \<open>
  What the write senders post and what the receivers accept: the address written is the
  address reserved, a batch has one completion, the head is sent back in time, and the uses
  for which the protocol blocks or accepts an unchecked message.
\<close>

section \<open>The space a sender waits for\<close>

definition apply_heads :: "RemoteBuffer_ops \<Rightarrow> u32 list \<Rightarrow> remote_buffer \<Rightarrow> remote_buffer" where
  "apply_heads ro hs rb = foldl (\<lambda>b h. r_UpdateHead ro h b) rb hs"

lemma apply_heads_simps [simp]:
  "apply_heads ro [] rb = rb"
  "apply_heads ro (h # hs) rb = apply_heads ro hs (r_UpdateHead ro h rb)"
  by (simp_all add: apply_heads_def)

text \<open>The heads that successive calls of \<open>Get\<close> of an acknowledgement receiver return.\<close>

inductive heads_fetched :: "AckReceiver \<Rightarrow> endpoint \<Rightarrow> u32 list \<Rightarrow> AckReceiver \<Rightarrow> endpoint \<Rightarrow> bool" where
  none: "heads_fetched ack ep [] ack ep"
| more: "AckReceiver_Get ack ep = Some (Inr h, ack1, ep1) \<Longrightarrow> heads_fetched ack1 ep1 hs ack2 ep2 \<Longrightarrow>
    heads_fetched ack ep (h # hs) ack2 ep2"

text \<open>Space was found after the heads \<open>hs\<close> were fetched and applied, and before the last of them not.\<close>

definition space_after ::
    "RemoteBuffer_ops \<Rightarrow> u32 \<Rightarrow> remote_buffer \<Rightarrow> AckReceiver \<Rightarrow> endpoint \<Rightarrow> u32 list \<Rightarrow>
     remote_buffer \<Rightarrow> AckReceiver \<Rightarrow> endpoint \<Rightarrow> bool" where
  "space_after ro len rb ack ep hs rb' ack' ep' \<longleftrightarrow>
     heads_fetched ack ep hs ack' ep' \<and> rb' = apply_heads ro hs rb \<and>
     (\<forall>k < length hs. isl (r_GetWriteAddr ro len (apply_heads ro (take k hs) rb)))"

lemma space_after_Cons:
  assumes "AckReceiver_Get ack ep = Some (Inr h, ack1, ep1)" and "r_GetWriteAddr ro len rb = Inl s"
    and "space_after ro len (r_UpdateHead ro h rb) ack1 ep1 hs rb' ack' ep'"
  shows "space_after ro len rb ack ep (h # hs) rb' ack' ep'"
proof -
  have "isl (r_GetWriteAddr ro len (apply_heads ro (take k (h # hs)) rb))" if "k < Suc (length hs)" for k
    using assms(2,3) that by (cases k) (simp_all add: space_after_def)
  with assms show ?thesis by (simp add: space_after_def heads_fetched.more)
qed

lemma await_space_found:
  assumes "await_space err ro len rb ack ep = Some (Inr a, rb', ack', ep')"
  shows "r_GetWriteAddr ro len rb' = Inr a \<and> (\<exists>hs. space_after ro len rb ack ep hs rb' ack' ep')"
proof -
  define P where "P = (\<lambda>(err :: status \<Rightarrow> status \<Rightarrow> status) ro len rb (ack :: AckReceiver) (ep :: endpoint)
    (r :: u64 status_or \<times> remote_buffer \<times> AckReceiver \<times> endpoint).
    fst r = Inr a \<longrightarrow> r_GetWriteAddr ro len (fst (snd r)) = Inr a \<and>
      (\<exists>hs. space_after ro len rb ack ep hs (fst (snd r)) (fst (snd (snd r))) (snd (snd (snd r)))))"
  have "P err ro len rb ack ep (Inr a, rb', ack', ep')"
  proof (rule await_space.raw_induct [where P = P, OF _ assms])
    fix f err ro len rb ack ep r
    assume IH: "\<And>err ro len rb ack ep r. f err ro len rb ack ep = Some r \<Longrightarrow> P err ro len rb ack ep r"
      and step: "(case r_GetWriteAddr ro len rb of
         Inl s \<Rightarrow> AckReceiver_Get ack ep \<bind> (\<lambda>(head_s, ack, ep). case head_s of
            Inl hs \<Rightarrow> Some (Inl (err s hs), rb, ack, ep)
          | Inr h \<Rightarrow> f err ro len (r_UpdateHead ro h rb) ack ep)
       | Inr a \<Rightarrow> Some (Inr a, rb, ack, ep)) = Some r"
    show "P err ro len rb ack ep r"
    proof (cases "r_GetWriteAddr ro len rb")
      case (Inr b)
      then have "r = (Inr b, rb, ack, ep)" using step by simp
      then show ?thesis using Inr
        by (auto simp: P_def space_after_def intro!: exI [of _ "[]"] heads_fetched.none)
    next
      case (Inl s)
      with step obtain head_s ack1 ep1 where
        g: "AckReceiver_Get ack ep = Some (head_s, ack1, ep1)" and
        r: "(case head_s of Inl hs \<Rightarrow> Some (Inl (err s hs), rb, ack1, ep1)
          | Inr h \<Rightarrow> f err ro len (r_UpdateHead ro h rb) ack1 ep1) = Some r"
        by (auto elim!: bindE)
      show ?thesis
      proof (cases head_s)
        case (Inl hs)
        with r show ?thesis by (auto simp: P_def)
      next
        case (Inr h)
        with r have "f err ro len (r_UpdateHead ro h rb) ack1 ep1 = Some r" by simp
        from IH [OF this] show ?thesis
          using space_after_Cons [OF g [unfolded Inr] Inl] unfolding P_def by blast
      qed
    qed
  qed
  then show ?thesis by (simp add: P_def)
qed

lemma write_addr_known:
  assumes "ro = magic_remote \<or> ro = reverse_remote" and "r_GetWriteAddr ro len rb = Inr a"
  shows "r_Write ro len rb = (Inr a, snd (r_Write ro len rb))"
  using assms magic.write_addr [of len rb] reverse.write_addr [of len rb]
  by (auto intro!: prod_eqI)

section \<open>What is written was reserved\<close>

lemma PostSendRaw_frames:
  assumes "Endpoint_PostSendRaw wrs ep = Some (st, ep')"
  shows "calls ep' = calls ep @ [Post_send wrs] \<and> loads ep' = loads ep \<and> blocks ep' = blocks ep"
  using assms by (auto simp: Endpoint_PostSendRaw_def sys_def elim!: bindE split: list.splits)

lemma PostSendRaw_ok:
  "Endpoint_PostSendRaw wrs ep = Some (st, ep') \<Longrightarrow> calls ep' = calls ep @ [Post_send wrs]"
  by (simp add: PostSendRaw_frames)

text \<open>The remote writes that recorded calls posted.\<close>

fun call_writes :: "call \<Rightarrow> send_wr list" where
  "call_writes (Post_send ws) = filter (\<lambda>w. swr_opcode w = WR_RDMA_WRITE) ws"
| "call_writes _ = []"

definition posted_writes :: "call list \<Rightarrow> send_wr list" where
  "posted_writes cs = concat (map call_writes cs)"

lemma posted_writes_simps [simp]:
  "posted_writes [] = []" "posted_writes (c # cs) = call_writes c @ posted_writes cs"
  "posted_writes (xs @ ys) = posted_writes xs @ posted_writes ys"
  by (simp_all add: posted_writes_def)

text \<open>Fetching heads posts receives and reads, no writes.\<close>

lemma PostMR_no_write:
  "ReceiveQueue_PostMR i q ep = Some (st, q', ep') \<Longrightarrow> posted_writes (calls ep') = posted_writes (calls ep)"
  by (auto simp: ReceiveQueue_PostMR_def Endpoint_PostRecvRaw_def Let_def elim!: bindE split: if_splits
      dest!: sys_calls)

lemma sys_load_no_write:
  "sys_load a ep = Some (v, ep') \<Longrightarrow> posted_writes (calls ep') = posted_writes (calls ep)"
  by (auto simp: sys_load_def split: list.splits)

lemma next_recv_once_calls: "Endpoint_PollRecvCqOnce ep = Some (r, ep') \<Longrightarrow> calls ep' = calls ep"
  by (auto simp: Endpoint_PollRecvCqOnce_def poll_recv_def Let_def elim!: bindE
      split: if_splits list.splits dest!: next_recv_wc_calls)

lemma drain_no_write:
  assumes "drain_acks i off q ep = Some (r, q', ep')"
  shows "posted_writes (calls ep') = posted_writes (calls ep)"
proof -
  define P where "P = (\<lambda>(i :: u64) (off :: u32) (q :: receive_queue) (ep :: endpoint)
    (r :: u32 status_or \<times> receive_queue \<times> endpoint). posted_writes (calls (snd (snd r))) = posted_writes (calls ep))"
  have "P i off q ep (r, q', ep')"
  proof (rule drain_acks.raw_induct [where P = P, OF _ assms])
    fix f i off q ep r
    assume IH: "\<And>i off q ep r. f i off q ep = Some r \<Longrightarrow> P i off q ep r"
      and step: "Endpoint_PollRecvCqOnce ep \<bind> (\<lambda>(wc_s, ep).
         if \<not> so_ok wc_s then Some (Inr off, q, ep)
         else sys_load (bm_addr (ReceiveQueue_GetMR q (ucast i))) ep \<bind>
              (\<lambda>(v, ep). ReceiveQueue_PostMR (ucast i) q ep \<bind>
                  (\<lambda>(st, q, ep). if \<not> status_ok st then Some (Inl st, q, ep)
                      else f i (ucast v) q ep))) = Some r"
    show "P i off q ep r"
      using step
      by (auto simp: P_def elim!: bindE split: if_splits
          dest!: next_recv_once_calls sys_load_no_write PostMR_no_write IH)
  qed
  then show ?thesis by (simp add: P_def)
qed

lemma await_read_calls:
  assumes "await_read ep = Some (st, ep')"
  shows "calls ep' = calls ep"
proof -
  define P where "P = (\<lambda>(ep :: endpoint) (r :: status \<times> endpoint). calls (snd r) = calls ep)"
  have "P ep (st, ep')"
  proof (rule await_read.raw_induct [where P = P, OF _ assms])
    fix f ep r
    assume IH: "\<And>ep r. f ep = Some r \<Longrightarrow> P ep r"
      and step: "Endpoint_PollSendCq ep \<bind> (\<lambda>(wc_s, ep). case wc_s of
          Inl s \<Rightarrow> Some (s, ep)
        | Inr wc \<Rightarrow> if (ucast (wc_wr_id wc) :: u32) \<noteq> 0 then f ep else Some (Status0, ep)) = Some r"
    have c: "calls ep1 = calls ep" if "Endpoint_PollSendCq ep = Some (x, ep1)" for x ep1
      using that by (auto simp: Endpoint_PollSendCq_def Let_def elim!: bindE)
    show "P ep r"
      using step by (auto simp: P_def elim!: bindE split: sum.splits if_splits dest!: c IH)
  qed
  then show ?thesis by (simp add: P_def)
qed

lemma AckReceiver_Get_no_write:
  assumes "AckReceiver_Get ack ep = Some (r, ack', ep')"
  shows "posted_writes (calls ep') = posted_writes (calls ep)"
proof (cases ack)
  case (SendAckReceiver q)
  then show ?thesis using assms
    by (auto simp: SendAckReceiver_Get_def elim!: bindE split: sum.splits if_splits
        dest!: poll_recv_cq_calls sys_load_no_write PostMR_no_write drain_no_write)
next
  case (ReadAckReceiver mr key addr)
  then show ?thesis using assms
    by (auto simp: ReadAckReceiver_Get_def Endpoint_PostRead_def send_wr0_def elim!: bindE split: if_splits
        dest!: PostSendRaw_ok await_read_calls sys_load_no_write)
qed

lemma heads_fetched_no_write:
  "heads_fetched ack ep hs ack' ep' \<Longrightarrow> posted_writes (calls ep') = posted_writes (calls ep)"
  by (induction rule: heads_fetched.induct) (auto dest: AckReceiver_Get_no_write)

lemma store_checksum_calls:
  assumes "store_checksum crc reg ep = Some ep'"
  shows "\<exists>hdr payload. loads ep = hdr # loads ep' \<and> blocks ep = payload # blocks ep' \<and>
    calls ep' = calls ep @ [Load (reg_addr reg - 8), Load_block (reg_addr reg) (reg_length reg),
      Store (reg_addr reg - 4) (ucast (crc (le32 (ucast hdr) @ payload))) 4]"
  using assms
  by (auto simp: store_checksum_def sys_load_def sys_block_def sys_void_def elim!: bindE split: list.splits)

text \<open>
  C28: A successful asynchronous send fetches a new head exactly as long as the message does not
  fit, applies each head it fetched, then stores the checksum of the length word and the message in
  the second word of the header and posts one remote write, the only one of the call: signaled, of
  the whole message (header included), to the address that the remote buffer reserves for it in the
  same step; its id is the next one.
\<close>

theorem send_writes_reserved:
  assumes "WriteSender_SendAsync crc reg s ep = Some (Inr wid, s', ep')"
    and "ws_rops s = magic_remote \<or> ws_rops s = reverse_remote"
  shows "\<exists>hs rb ep1 hdr payload a w.
    heads_fetched (ws_ack s) ep hs (ws_ack s') ep1 \<and> rb = apply_heads (ws_rops s) hs (ws_rbuf s) \<and>
    (\<forall>k < length hs. isl (r_GetWriteAddr (ws_rops s) (reg_length reg + 8)
       (apply_heads (ws_rops s) (take k hs) (ws_rbuf s)))) \<and>
    r_Write (ws_rops s) (reg_length reg + 8) rb = (Inr a, ws_rbuf s') \<and>
    loads ep1 = hdr # loads ep' \<and> blocks ep1 = payload # blocks ep' \<and>
    calls ep' = calls ep1 @ [Load (reg_addr reg - 8), Load_block (reg_addr reg) (reg_length reg),
      Store (reg_addr reg - 4) (ucast (crc (le32 (ucast hdr) @ payload))) 4, Post_send [w]] \<and>
    posted_writes (calls ep') = posted_writes (calls ep) @ [w] \<and>
    swr_opcode w = WR_RDMA_WRITE \<and> signaled w \<and>
    swr_remote_addr w = a \<and> swr_rkey w = r_GetKey (ws_rops s) rb \<and>
    swr_sge w = \<lparr>sge_addr = reg_addr reg - 8, sge_length = reg_length reg + 8, sge_lkey = reg_lkey reg\<rparr> \<and>
    swr_id w = wid \<and> wid = ws_next_id s \<and> ws_next_id s' = wid + 1"
proof -
  let ?len = "reg_length reg + 8" and ?ro = "ws_rops s"
  from assms(1) obtain a rb ack ep1 where
    sp: "await_space wrap_head ?ro ?len (ws_rbuf s) (ws_ack s) ep = Some (Inr a, rb, ack, ep1)" and
    wr: "WriteSender_write crc reg (ws_next_id s) a
       (s\<lparr>ws_next_id := ws_next_id s + 1, ws_rbuf := rb, ws_ack := ack\<rparr>) ep1 = Some (Inr wid, s', ep')"
    unfolding WriteSender_SendAsync_def Let_def by (auto elim!: bindE split: sum.splits)
  obtain ep2 where sc: "store_checksum crc reg ep1 = Some ep2"
    using wr by (cases "store_checksum crc reg ep1") (simp_all add: WriteSender_write_def)
  obtain st ep3 where post: "Endpoint_PostWrite (ws_next_id s) (reg_lkey reg) (reg_addr reg - 8)
      (ucast ?len) a (r_GetKey ?ro rb) ep2 = Some (st, ep3)"
    using wr sc by (cases "Endpoint_PostWrite (ws_next_id s) (reg_lkey reg) (reg_addr reg - 8)
      (ucast ?len) a (r_GetKey ?ro rb) ep2") (auto simp add: WriteSender_write_def Let_def)
  have s': "wid = ws_next_id s" "ws_rbuf s' = snd (r_Write ?ro ?len rb)" "ws_ack s' = ack"
    "ws_next_id s' = ws_next_id s + 1" "ep3 = ep'"
    using wr by (simp_all add: WriteSender_write_def Let_def sc post split: if_splits) auto
  let ?w = "(send_wr0 (ws_next_id s) (sge (reg_addr reg - 8) (ucast ?len) (reg_lkey reg)) WR_RDMA_WRITE
    [SEND_SIGNALED])\<lparr>swr_remote_addr := a, swr_rkey := r_GetKey ?ro rb\<rparr>"
  have w: "swr_opcode ?w = WR_RDMA_WRITE" "signaled ?w" "swr_remote_addr ?w = a" "swr_rkey ?w = r_GetKey ?ro rb"
    "swr_id ?w = ws_next_id s"
    "swr_sge ?w = \<lparr>sge_addr = reg_addr reg - 8, sge_length = ?len, sge_lkey = reg_lkey reg\<rparr>"
    by (simp_all add: send_wr0_def sge_def signaled_def)
  obtain hs where f: "r_GetWriteAddr ?ro ?len rb = Inr a" "heads_fetched (ws_ack s) ep hs ack ep1"
    "rb = apply_heads ?ro hs (ws_rbuf s)"
    "\<forall>k < length hs. isl (r_GetWriteAddr ?ro ?len (apply_heads ?ro (take k hs) (ws_rbuf s)))"
    using await_space_found [OF sp] by (auto simp: space_after_def)
  obtain hdr payload where k: "loads ep1 = hdr # loads ep2" "blocks ep1 = payload # blocks ep2"
    "calls ep2 = calls ep1 @ [Load (reg_addr reg - 8), Load_block (reg_addr reg) (reg_length reg),
      Store (reg_addr reg - 4) (ucast (crc (le32 (ucast hdr) @ payload))) 4]"
    using store_checksum_calls [OF sc] by blast
  have p: "calls ep' = calls ep2 @ [Post_send [?w]]" "loads ep' = loads ep2" "blocks ep' = blocks ep2"
    using PostSendRaw_frames [OF post [unfolded Endpoint_PostWrite_def]] s'(5) by simp_all
  have rw: "r_Write ?ro ?len rb = (Inr a, snd (r_Write ?ro ?len rb))"
    by (rule write_addr_known [OF assms(2) f(1)])
  have pw: "posted_writes (calls ep') = posted_writes (calls ep) @ [?w]"
    using heads_fetched_no_write [OF f(2)] by (simp add: p(1) k(3) w(1))
  show ?thesis
    using f(2-4) k p rw pw w s'
    by (intro exI [of _ hs] exI [of _ rb] exI [of _ ep1] exI [of _ hdr] exI [of _ payload] exI [of _ a] exI [of _ ?w]
        conjI) simp_all
qed

definition demo_reg :: Region where
  "demo_reg = \<lparr>reg_context = 0, reg_addr = 520, reg_length = 12, reg_lkey = 3\<rparr>"

definition demo_crc :: "u8 list \<Rightarrow> u32" where
  "demo_crc bs = sum_list (map ucast bs)"

definition demo_sending :: endpoint where
  "demo_sending = (demo_send_ep [])\<lparr>loads := [20], blocks := [replicate 12 1]\<rparr>"

theorem send_writes_reserved_witness:
  "\<exists>s' ep' w. WriteSender_SendAsync demo_crc demo_reg demo_ws demo_sending = Some (Inr 1, s', ep') \<and>
     posted_writes (calls ep') = [w] \<and> signaled w"
proof -
  have "map_option (\<lambda>(r, _). \<not> isl r \<and> projr r = 1)
      (WriteSender_SendAsync demo_crc demo_reg demo_ws demo_sending) = Some True" by code_simp
  then obtain i x where "WriteSender_SendAsync demo_crc demo_reg demo_ws demo_sending = Some (Inr i, x)" "i = 1"
    by (rule run_value)
  then obtain s' ep' where
    run: "WriteSender_SendAsync demo_crc demo_reg demo_ws demo_sending = Some (Inr 1, s', ep')"
    by (cases x) auto
  have "calls demo_sending = []" by (simp add: demo_sending_def)
  with send_writes_reserved [OF run] run show ?thesis by (auto simp: demo_ws_def WriteSender_new_def)
qed

section \<open>One completion per batch\<close>

text \<open>Only the last request is signaled, and it has the id of the batch.\<close>

definition one_completion :: "u64 \<Rightarrow> send_wr list \<Rightarrow> bool" where
  "one_completion wid wrs \<longleftrightarrow> wrs \<noteq> [] \<and> list_all (\<lambda>w. \<not> signaled w) (butlast wrs) \<and>
     signaled (last wrs) \<and> swr_id (last wrs) = wid"

lemma one_completion_Cons:
  "one_completion wid (w # ws) \<longleftrightarrow>
     (if ws = [] then signaled w \<and> swr_id w = wid else \<not> signaled w \<and> one_completion wid ws)"
  by (auto simp: one_completion_def)

lemma batch_wr_simps [simp]:
  "signaled (batch_wr wid hdr opc is_last reg len addr key imm) \<longleftrightarrow> is_last"
  "swr_id (batch_wr wid hdr opc is_last reg len addr key imm) = wid"
  by (simp_all add: batch_wr_def send_wr0_def signaled_def)

lemma tail_wr_simps [simp]: "signaled (tail_wr wid tail s)" "swr_id (tail_wr wid tail s) = wid"
  by (simp_all add: tail_wr_def send_wr0_def signaled_def)

lemma WriteSender_batch_shape:
  "WriteSender_batch crc wid regs s ep = Some (Inr wrs, s', ep') \<Longrightarrow>
   length wrs = length regs \<and> (regs \<noteq> [] \<longrightarrow> one_completion wid wrs)"
proof (induction regs arbitrary: s ep wrs)
  case (Cons reg regs)
  from Cons.prems obtain s1 ep1 addr ws where
    1: "WriteSender_batch crc wid regs s1 ep1 = Some (Inr ws, s', ep')"
    "wrs = batch_wr wid 8 WR_RDMA_WRITE (regs = []) reg (reg_length reg + 8) addr
       (r_GetKey (ws_rops s1) (ws_rbuf s1)) 0 # ws"
    by (auto simp: Let_def elim!: bindE split: sum.splits)
  from Cons.IH [OF 1(1)] 1(2) show ?case by (auto simp: one_completion_Cons)
qed simp

lemma WriteImmSender_batch_shape:
  "WriteImmSender_batch wid regs s ep = Some (Inr wrs, s', ep') \<Longrightarrow>
   length wrs = length regs \<and> (regs \<noteq> [] \<longrightarrow> one_completion wid wrs)"
proof (induction regs arbitrary: s ep wrs)
  case (Cons reg regs)
  from Cons.prems obtain s1 ep1 addr ws where
    1: "WriteImmSender_batch wid regs s1 ep1 = Some (Inr ws, s', ep')"
    "wrs = batch_wr wid 0 WR_RDMA_WRITE_WITH_IMM (regs = []) reg (reg_length reg) addr
       (r_GetKey (ws_rops s1) (ws_rbuf s1)) (reg_length reg) # ws"
    by (auto simp: Let_def elim!: bindE split: sum.splits)
  from Cons.IH [OF 1(1)] 1(2) show ?case by (auto simp: one_completion_Cons)
qed simp

lemma WriteOffsetSender_batch_shape:
  "WriteOffsetSender_batch i regs s ep = Some (Inr wrs, s', ep') \<Longrightarrow>
   length wrs = length regs \<and> list_all (\<lambda>w. \<not> signaled w) wrs"
proof (induction regs arbitrary: i s ep wrs)
  case (Cons reg regs)
  from Cons.prems obtain s1 ep1 addr ws where
    1: "WriteOffsetSender_batch (i + 1) regs s1 ep1 = Some (Inr ws, s', ep')"
    "wrs = batch_wr (i + 1 + 100) 4 WR_RDMA_WRITE False reg (reg_length reg + 4) addr
       (r_GetKey (ws_rops s1) (ws_rbuf s1)) 0 # ws"
    by (auto simp: Let_def elim!: bindE split: sum.splits)
  from Cons.IH [OF 1(1)] 1(2) show ?case by auto
qed simp

lemma post_batch_ok:
  assumes "post_batch wid (r, s, ep) = Some (Inr w, s', ep')"
  obtains wrs where "r = Inr wrs" "wrs \<noteq> []" "w = wid" "last (calls ep') = Post_send wrs"
  using assms by (auto simp: post_batch_def Endpoint_PostSendRaw_def
      split: sum.splits list.splits if_splits elim!: bindE dest!: sys_calls)

text \<open>
  An asynchronous send of several regions posts one list of requests with one request for
  each region (and one for the tail in the case of \<open>WriteOffsetSender\<close>), of which only the
  last is signaled and has the returned id: the batch has exactly one completion.
\<close>

theorem batch_one_completion:
  assumes "async \<in> {WriteSender_SendAsync_batch crc, WriteImmSender_SendAsync_batch,
      WriteOffsetSender_SendAsync_batch}"
    and "async regs s ep = Some (Inr wid, s', ep')" and "regs \<noteq> []"
  shows "\<exists>wrs. last (calls ep') = Post_send wrs \<and> one_completion wid wrs \<and> wid = ws_next_id s \<and>
    length wrs \<in> {length regs, length regs + 1}"
proof -
  consider "async = WriteSender_SendAsync_batch crc" | "async = WriteImmSender_SendAsync_batch" |
    "async = WriteOffsetSender_SendAsync_batch" using assms(1) by blast
  then show ?thesis
  proof cases
    case 1
    with assms(2) obtain r s1 ep1 where
      b: "WriteSender_batch crc (ws_next_id s) regs (s\<lparr>ws_next_id := ws_next_id s + 1\<rparr>) ep = Some (r, s1, ep1)"
      "post_batch (ws_next_id s) (r, s1, ep1) = Some (Inr wid, s', ep')"
      by (auto simp: WriteSender_SendAsync_batch_def Let_def elim!: bindE)
    from post_batch_ok [OF b(2)] obtain wrs where "r = Inr wrs" "wid = ws_next_id s"
      "last (calls ep') = Post_send wrs" by metis
    with WriteSender_batch_shape [of crc _ regs _ ep wrs] b(1) assms(3) show ?thesis by auto
  next
    case 2
    with assms(2) obtain r s1 ep1 where
      b: "WriteImmSender_batch (ws_next_id s) regs (s\<lparr>ws_next_id := ws_next_id s + 1\<rparr>) ep = Some (r, s1, ep1)"
      "post_batch (ws_next_id s) (r, s1, ep1) = Some (Inr wid, s', ep')"
      by (auto simp: WriteImmSender_SendAsync_batch_def Let_def elim!: bindE)
    from post_batch_ok [OF b(2)] obtain wrs where "r = Inr wrs" "wid = ws_next_id s"
      "last (calls ep') = Post_send wrs" by metis
    with WriteImmSender_batch_shape [of _ regs _ ep wrs] b(1) assms(3) show ?thesis by auto
  next
    case 3
    with assms(2) obtain r s1 ep1 where
      b: "WriteOffsetSender_batch 0 regs (s\<lparr>ws_next_id := ws_next_id s + 1\<rparr>) ep = Some (r, s1, ep1)"
      "post_batch (ws_next_id s) (case r of Inl e \<Rightarrow> Inl e | Inr wrs \<Rightarrow> Inr (wrs @
         [tail_wr (ws_next_id s) (r_GetTail (ws_rops s1) (ws_rbuf s1)) s1]), s1, ep1) = Some (Inr wid, s', ep')"
      by (auto simp: WriteOffsetSender_SendAsync_batch_def Let_def elim!: bindE)
    obtain ws where r: "r = Inr ws" using b(2) by (cases r) (simp_all add: post_batch_def)
    from post_batch_ok [OF b(2) [unfolded r sum.case]] obtain
      "last (calls ep') = Post_send (ws @ [tail_wr (ws_next_id s) (r_GetTail (ws_rops s1) (ws_rbuf s1)) s1])"
      "wid = ws_next_id s" by (metis sum.inject(2))
    note w = r this
    with WriteOffsetSender_batch_shape [of 0 regs _ ep ws] b(1) w(1) show ?thesis
      by (auto simp: one_completion_def)
  qed
qed

theorem batch_one_completion_witness:
  "\<exists>s' ep' wrs. WriteImmSender_SendAsync_batch [demo_reg, demo_reg] demo_ws demo_sending = Some (Inr 1, s', ep') \<and>
     last (calls ep') = Post_send wrs \<and> one_completion 1 wrs"
proof -
  have "map_option (\<lambda>(r, _). \<not> isl r \<and> projr r = 1)
      (WriteImmSender_SendAsync_batch [demo_reg, demo_reg] demo_ws demo_sending) = Some True" by code_simp
  then obtain i x where "WriteImmSender_SendAsync_batch [demo_reg, demo_reg] demo_ws demo_sending = Some (Inr i, x)"
    "i = 1" by (rule run_value)
  then obtain s' ep' where
    run: "WriteImmSender_SendAsync_batch [demo_reg, demo_reg] demo_ws demo_sending = Some (Inr 1, s', ep')"
    by (cases x) auto
  from batch_one_completion [of WriteImmSender_SendAsync_batch demo_crc, OF _ run] run show ?thesis by auto
qed

section \<open>The head is sent back in time\<close>

text \<open>
  How far the head that was last sent lies behind the current one, for offsets that grow.
\<close>

definition head_lag :: "u32 \<Rightarrow> write_receiver \<Rightarrow> nat" where
  "head_lag head r = (unat head + unat (wr_length r) - unat (wr_acked r)) mod unat (wr_length r)"

definition receiver_ok :: "write_receiver \<Rightarrow> bool" where
  "receiver_ok r \<longleftrightarrow> wr_length r = write_buf_size \<and> wr_max_unacked r = write_buf_size div 2 \<and>
     wr_acked r < write_buf_size"

lemma buf_size_nat: "unat write_buf_size = 16777216" "unat (write_buf_size div 2) = 8388608"
  by (simp_all add: write_buf_size_def)

lemma flush_due_lag:
  assumes "receiver_ok r" and "head < write_buf_size"
  shows "flush_due head r \<longleftrightarrow> 8388608 < head_lag head r"
proof -
  let ?h = "unat head" and ?a = "unat (wr_acked r)" and ?L = "16777216::nat"
  have L: "unat (wr_length r) = ?L" "unat (wr_max_unacked r) = 8388608"
    using assms(1) by (simp_all add: receiver_ok_def buf_size_nat)
  have lt: "?a < ?L" "?h < ?L"
    using assms by (simp_all add: receiver_ok_def word_less_nat_alt buf_size_nat)
  have up: "head - wr_acked r > wr_max_unacked r \<longleftrightarrow> 8388608 < ?h - ?a" if "?a < ?h"
    using that L by (simp add: word_less_nat_alt unat_sub_le)
  have "unat (wr_length r - wr_acked r) = ?L - ?a" using lt L by (simp add: unat_sub_le)
  then have "unat (head + (wr_length r - wr_acked r)) = ?h + (?L - ?a)" if "?h < ?a"
    using that lt by (subst unat32_add) auto
  then have down: "head + (wr_length r - wr_acked r) > wr_max_unacked r \<longleftrightarrow> 8388608 < ?h + (?L - ?a)"
    if "?h < ?a" using that L by (simp add: word_less_nat_alt)
  have c: "head > wr_acked r \<longleftrightarrow> ?a < ?h" "head < wr_acked r \<longleftrightarrow> ?h < ?a"
    by (simp_all add: word_less_nat_alt)
  have "head_lag head r = (if ?a \<le> ?h then ?h - ?a else ?h + (?L - ?a))"
  proof (cases "?a \<le> ?h")
    case True
    then have "?h + ?L - ?a = (?h - ?a) + ?L" by simp
    then have "(?h + ?L - ?a) mod ?L = (?h - ?a) mod ?L" by (metis mod_add_self2)
    then show ?thesis using True lt L by (simp add: head_lag_def)
  next
    case False
    then have "?h + ?L - ?a = ?h + (?L - ?a)" "?h + (?L - ?a) < ?L" using lt by linarith+
    then show ?thesis using False L by (simp add: head_lag_def)
  qed
  then show ?thesis
    using up down c lt by (cases "?h = ?a") (auto simp: flush_due_def)
qed

text \<open>
  What a \<open>SendAcknowledger\<close> at address \<open>a\<close>, whose word holds \<open>v\<close> at first, told the other side in a
  list of calls: the word as it is when it is sent inline. What a \<open>ReadAcknowledger\<close> told it is
  every value it stored, for the other side reads the word itself.
\<close>

definition sends_word :: "u64 \<Rightarrow> send_wr \<Rightarrow> bool" where
  "sends_word a w \<longleftrightarrow> swr_opcode w = WR_SEND \<and> SEND_INLINE \<in> set (swr_flags w) \<and>
     sge_addr (swr_sge w) = a \<and> sge_length (swr_sge w) = 4"

fun sent_heads :: "u64 \<Rightarrow> u32 \<Rightarrow> call list \<Rightarrow> u32 list" where
  "sent_heads a v [] = []"
| "sent_heads a v (Store b x n # cs) = sent_heads a (if b = a then ucast x else v) cs"
| "sent_heads a v (Post_send ws # cs) = map (\<lambda>_. v) (filter (sends_word a) ws) @ sent_heads a v cs"
| "sent_heads a v (_ # cs) = sent_heads a v cs"

fun stored_heads :: "u64 \<Rightarrow> call list \<Rightarrow> u32 list" where
  "stored_heads a [] = []"
| "stored_heads a (Store b x n # cs) = (if b = a then [ucast x] else []) @ stored_heads a cs"
| "stored_heads a (_ # cs) = stored_heads a cs"

fun told :: "Acknowledger \<Rightarrow> call list \<Rightarrow> u32 list" where
  "told (SendAcknowledger a v) cs = sent_heads a v cs"
| "told (ReadAcknowledger mr) cs = stored_heads (mr_addr mr) cs"

text \<open>
  A run of a receiver: it receives, and every free succeeds. The list is of the heads that the ring
  buffer reported for the frees, in order.
\<close>

inductive receiver_run ::
    "(u8 list \<Rightarrow> u32) \<Rightarrow> write_receiver \<Rightarrow> endpoint \<Rightarrow> u32 list \<Rightarrow> write_receiver \<Rightarrow> endpoint \<Rightarrow> bool" for crc where
  stop: "receiver_run crc r ep [] r ep"
| receive: "WriteReceiver_Receive crc r ep = Some (Inr reg, r1, ep1) \<Longrightarrow> receiver_run crc r1 ep1 hs r2 ep2 \<Longrightarrow>
    receiver_run crc r ep hs r2 ep2"
| free: "WriteReceiver_Free reg r ep = Some (Status0, r1, ep1) \<Longrightarrow>
    b_Free (wr_bops r) (reg_addr reg - 8) (wr_rbuf r) = Some (h, rb) \<Longrightarrow>
    receiver_run crc r1 ep1 hs r2 ep2 \<Longrightarrow> receiver_run crc r ep (h # hs) r2 ep2"

text \<open>Receiving only loads.\<close>

definition quiet :: "call \<Rightarrow> bool" where
  "quiet c \<longleftrightarrow> (case c of Load a \<Rightarrow> True | Load_block a n \<Rightarrow> True | _ \<Rightarrow> False)"

definition quiet_from :: "endpoint \<Rightarrow> endpoint \<Rightarrow> bool" where
  "quiet_from ep ep' \<longleftrightarrow> (\<exists>cs. calls ep' = calls ep @ cs \<and> list_all quiet cs)"

lemma quiet_told: "list_all quiet cs \<Longrightarrow> told ack (cs @ ds) = told ack ds"
proof (induction cs)
  case (Cons c cs)
  then have "told ack (c # (cs @ ds)) = told ack (cs @ ds)"
    by (cases ack; cases c) (simp_all add: quiet_def)
  with Cons show ?case by simp
qed simp

lemma quiet_trans [trans]: "quiet_from a b \<Longrightarrow> quiet_from b c \<Longrightarrow> quiet_from a c"
  by (fastforce simp: quiet_from_def)

lemma quiet_refl [simp]: "quiet_from a a"
  by (auto simp: quiet_from_def)

lemma quiet_loads:
  "sys_load a ep = Some (v, ep') \<Longrightarrow> quiet_from ep ep'"
  "sys_block a n ep = Some (bs, ep') \<Longrightarrow> quiet_from ep ep'"
  by (auto simp: sys_load_def sys_block_def quiet_from_def quiet_def split: list.splits)

lemma quiet_poll:
  assumes "poll_word stay a ep = Some ep'"
  shows "quiet_from ep ep'"
proof -
  define P where "P = (\<lambda>(stay :: u64 \<Rightarrow> bool) (a :: u64) ep ep'. quiet_from ep ep')"
  have "P stay a ep ep'"
  proof (rule poll_word.raw_induct [where P = P, OF _ assms])
    fix f stay a ep r
    assume IH: "\<And>stay a ep r. f stay a ep = Some r \<Longrightarrow> P stay a ep r"
      and step: "sys_load a ep \<bind> (\<lambda>(v, ep). if stay v then f stay a ep else Some ep) = Some r"
    then obtain v ep1 where l: "sys_load a ep = Some (v, ep1)" and k: "(if stay v then f stay a ep1 else Some ep1) = Some r"
      by (auto elim!: bindE)
    have "quiet_from ep1 r" using k IH [of stay a ep1 r] by (auto simp: P_def split: if_splits)
    with quiet_loads(1) [OF l] show "P stay a ep r" unfolding P_def by (rule quiet_trans)
  qed
  then show ?thesis by (simp add: P_def)
qed

lemma quiet_check:
  assumes "check_loop crc ls head addr len ep = Some ep'"
  shows "quiet_from ep ep'"
proof -
  define P where "P = (\<lambda>(crc :: u8 list \<Rightarrow> u32) (ls :: u32) (head :: u64) (addr :: u64) (len :: u32) ep ep'. quiet_from ep ep')"
  have "P crc ls head addr len ep ep'"
  proof (rule check_loop.raw_induct [where P = P, OF _ assms])
    fix f crc ls head addr len ep r
    assume IH: "\<And>crc ls head addr len ep r. f crc ls head addr len ep = Some r \<Longrightarrow> P crc ls head addr len ep r"
      and step: "sys_load (addr - 4) ep \<bind> (\<lambda>(v, ep). if (ucast v :: u32) = ls then Some ep
         else sys_load head ep \<bind> (\<lambda>(hdr, ep). sys_block addr len ep \<bind> (\<lambda>(payload, ep).
           f crc (crc (le32 (ucast hdr) @ payload)) head addr len ep))) = Some r"
    obtain v ep1 where l: "sys_load (addr - 4) ep = Some (v, ep1)" and k: "(if (ucast v :: u32) = ls then Some ep1
         else sys_load head ep1 \<bind> (\<lambda>(hdr, ep). sys_block addr len ep \<bind> (\<lambda>(payload, ep).
           f crc (crc (le32 (ucast hdr) @ payload)) head addr len ep))) = Some r"
      using step by (rule bindE) (simp only: split_paired_all prod.case)
    have "quiet_from ep1 r"
    proof (cases "(ucast v :: u32) = ls")
      case True
      then show ?thesis using k by simp
    next
      case False
      with k obtain hdr ep2 payload ep3 where 1: "sys_load head ep1 = Some (hdr, ep2)"
        "sys_block addr len ep2 = Some (payload, ep3)" "f crc (crc (le32 (ucast hdr) @ payload)) head addr len ep3 = Some r"
        by (auto elim!: bindE)
      from quiet_loads(1) [OF 1(1)] quiet_loads(2) [OF 1(2)] have "quiet_from ep1 ep3" by (rule quiet_trans)
      also have "quiet_from ep3 r" using IH [OF 1(3)] by (simp add: P_def)
      finally show ?thesis .
    qed
    with quiet_loads(1) [OF l] show "P crc ls head addr len ep r" unfolding P_def by (rule quiet_trans)
  qed
  then show ?thesis by (simp add: P_def)
qed

lemma receive_quiet:
  assumes "WriteReceiver_Receive crc r ep = Some (Inr reg, r', ep')"
  shows "quiet_from ep ep'" and "wr_ack r' = wr_ack r" "wr_acked r' = wr_acked r" "receiver_ok r' = receiver_ok r"
proof -
  from assms obtain ep1 v ep2 len where
    1: "poll_word (\<lambda>v. (ucast v :: u32) = 0) (b_GetReadPtr (wr_bops r) (wr_rbuf r)) ep = Some ep1"
      "sys_load (b_GetReadPtr (wr_bops r) (wr_rbuf r)) ep1 = Some (v, ep2)"
      "\<exists>a b. check_loop crc (crc []) (b_GetReadPtr (wr_bops r) (wr_rbuf r)) a b ep2 = Some ep'"
    and r': "r' = r\<lparr>wr_rbuf := snd (b_Read (wr_bops r) len (wr_rbuf r))\<rparr>"
    by (auto simp: WriteReceiver_Receive_def Let_def elim!: bindE) blast
  from quiet_poll [OF 1(1)] quiet_loads(1) [OF 1(2)] have "quiet_from ep ep2" by (rule quiet_trans)
  also have "quiet_from ep2 ep'" using 1(3) quiet_check by blast
  finally show "quiet_from ep ep'" .
  show "wr_ack r' = wr_ack r" "wr_acked r' = wr_acked r" "receiver_ok r' = receiver_ok r"
    by (simp_all add: r' receiver_ok_def)
qed

definition lag :: "u32 \<Rightarrow> u32 \<Rightarrow> nat" where
  "lag head acked = (unat head + 16777216 - unat acked) mod 16777216"

lemma lag_self: "lag h h = 0"
  by (simp add: lag_def)

lemma lag_head: "receiver_ok r \<Longrightarrow> head_lag head r = lag head (wr_acked r)"
  by (simp add: head_lag_def lag_def receiver_ok_def buf_size_nat)

text \<open>One free of a receiver that sends its heads: the head is stored, and sent when it is due.\<close>

lemma free_sends:
  assumes "WriteReceiver_Free reg r ep = Some (Status0, r', ep')"
    and "b_Free (wr_bops r) (reg_addr reg - 8) (wr_rbuf r) = Some (h, rb)"
    and "wr_ack r = SendAcknowledger a v" and "receiver_ok r" and "h < write_buf_size"
  obtains cs where "calls ep' = calls ep @ cs" "wr_ack r' = SendAcknowledger a h" "receiver_ok r'"
    "lag h (wr_acked r') \<le> 8388608"
    "\<And>ds. sent_heads a v (cs @ ds) = (if wr_acked r' = h \<and> flush_due h r then [h] else []) @ sent_heads a h ds"
    "wr_acked r' = (if flush_due h r then h else wr_acked r)"
proof -
  let ?r = "r\<lparr>wr_rbuf := rb, wr_ack := SendAcknowledger a h\<rparr>"
  let ?ep = "sys_void (Store a (ucast h) 4) (sys_void (Memset (reg_addr reg - 8) (ucast (reg_length reg) + 8)) ep)"
  have due: "flush_due h ?r = flush_due h r" by (simp add: flush_due_def)
  have ok: "receiver_ok ?r" using assms(4) by (simp add: receiver_ok_def)
  have s: "calls ?ep = calls ep @ [Memset (reg_addr reg - 8) (ucast (reg_length reg) + 8), Store a (ucast h) 4]"
    by (simp add: sys_void_def)
  show thesis
  proof (cases "flush_due h r")
    case True
    let ?w = "send_wr0 0 (sge a 4 0) WR_SEND [SEND_SIGNALED, SEND_INLINE]"
    from assms(1) True due obtain st ep1 where f: "SendAcknowledger_Flush a ?ep = Some (st, ep1)"
      and k: "r' = ?r\<lparr>wr_acked := h\<rparr>" "ep' = ep1"
      by (auto simp: WriteReceiver_Free_def assms(2,3) ack_head_def Let_def elim!: bindE split: if_splits)
    have "calls ep1 = calls ?ep @ [Post_send [?w]]"
      using f by (auto simp: SendAcknowledger_Flush_def Endpoint_PostInline_def Endpoint_PollSendCq_def Let_def
          elim!: bindE split: if_splits dest!: PostSendRaw_ok)
    then have c: "calls ep' = calls ep @ [Memset (reg_addr reg - 8) (ucast (reg_length reg) + 8), Store a (ucast h) 4,
        Post_send [?w]]" using s k(2) by simp
    have "sends_word a ?w" by (simp add: sends_word_def send_wr0_def sge_def)
    then have "sent_heads a v ([Memset (reg_addr reg - 8) (ucast (reg_length reg) + 8), Store a (ucast h) 4,
        Post_send [?w]] @ ds) = h # sent_heads a h ds" for ds
      by (simp add: ucast_up_ucast_id)
    with k True ok assms(5) show thesis
      by (intro that [OF c]) (simp_all add: receiver_ok_def lag_def del: sent_heads.simps)
  next
    case False
    then have k: "r' = ?r" "ep' = ?ep"
      using assms(1) due by (auto simp: WriteReceiver_Free_def assms(2,3) ack_head_def Let_def elim!: bindE split: if_splits)
    have "head_lag h r \<le> 8388608" using False flush_due_lag [OF assms(4,5)] by simp
    then have "lag h (wr_acked r) \<le> 8388608" by (simp add: lag_head [OF assms(4)])
    with k False ok show thesis
      by (intro that [OF s [folded k(2)]]) (simp_all add: ucast_up_ucast_id)
  qed
qed

lemma run_sends:
  "receiver_run crc r ep hs r' ep' \<Longrightarrow> wr_ack r = SendAcknowledger a v \<Longrightarrow> receiver_ok r \<Longrightarrow>
   \<forall>h\<in>set hs. h < write_buf_size \<Longrightarrow>
   \<exists>cs. calls ep' = calls ep @ cs \<and> subseq (sent_heads a v cs) hs \<and>
     (hs \<noteq> [] \<longrightarrow> lag (last hs) (last (wr_acked r # sent_heads a v cs)) \<le> 8388608)"
proof (induction arbitrary: v rule: receiver_run.induct)
  case (stop r ep)
  then show ?case by simp
next
  case (receive r ep reg r1 ep1 hs r2 ep2)
  note q = receive_quiet [OF receive(1)]
  obtain cs where cs: "calls ep1 = calls ep @ cs" "list_all quiet cs" using q(1) by (auto simp: quiet_from_def)
  obtain ds where "calls ep2 = calls ep1 @ ds" "subseq (sent_heads a v ds) hs"
    "hs \<noteq> [] \<longrightarrow> lag (last hs) (last (wr_acked r1 # sent_heads a v ds)) \<le> 8388608"
    using receive(3) [of v] receive(4-6) q by auto
  moreover have "sent_heads a v (cs @ ds) = sent_heads a v ds"
    using quiet_told [OF cs(2), of "SendAcknowledger a v"] by simp
  ultimately show ?case using cs(1) q(3) by (intro exI [of _ "cs @ ds"]) simp
next
  case (free reg r ep r1 ep1 h rb hs r2 ep2)
  obtain cs where cs: "calls ep1 = calls ep @ cs" "wr_ack r1 = SendAcknowledger a h" "receiver_ok r1"
    "lag h (wr_acked r1) \<le> 8388608"
    "\<And>ds. sent_heads a v (cs @ ds) = (if wr_acked r1 = h \<and> flush_due h r then [h] else []) @ sent_heads a h ds"
    "wr_acked r1 = (if flush_due h r then h else wr_acked r)"
    by (rule free_sends [OF free(1,2,5,6)]) (use free(7) in simp_all)
  obtain ds where ds: "calls ep2 = calls ep1 @ ds" "subseq (sent_heads a h ds) hs"
    "hs \<noteq> [] \<longrightarrow> lag (last hs) (last (wr_acked r1 # sent_heads a h ds)) \<le> 8388608"
    using free(4) [OF cs(2,3)] free(7) by auto
  have "sent_heads a h ds = []" if "hs = []" using ds(2) that by simp
  then show ?case using cs ds by (intro exI [of _ "cs @ ds"]) (auto simp: cs(5))
qed

lemma free_stores:
  assumes "WriteReceiver_Free reg r ep = Some (Status0, r', ep')"
    and "b_Free (wr_bops r) (reg_addr reg - 8) (wr_rbuf r) = Some (h, rb)" and "wr_ack r = ReadAcknowledger mr"
  shows "calls ep' = calls ep @ [Memset (reg_addr reg - 8) (ucast (reg_length reg) + 8),
      Store (mr_addr mr) (ucast h) 4] \<and> wr_ack r' = ReadAcknowledger mr"
  using assms by (auto simp: WriteReceiver_Free_def ack_head_def Let_def sys_void_def elim!: bindE split: if_splits)

lemma run_stores:
  "receiver_run crc r ep hs r' ep' \<Longrightarrow> wr_ack r = ReadAcknowledger mr \<Longrightarrow>
   \<exists>cs. calls ep' = calls ep @ cs \<and> stored_heads (mr_addr mr) cs = hs"
proof (induction rule: receiver_run.induct)
  case (receive r ep reg r1 ep1 hs r2 ep2)
  note q = receive_quiet [OF receive(1)]
  obtain cs where cs: "calls ep1 = calls ep @ cs" "list_all quiet cs" using q(1) by (auto simp: quiet_from_def)
  obtain ds where "calls ep2 = calls ep1 @ ds" "stored_heads (mr_addr mr) ds = hs"
    using receive(3,4) q by auto
  then show ?case using cs quiet_told [OF cs(2), of "ReadAcknowledger mr"] by (intro exI [of _ "cs @ ds"]) simp
next
  case (free reg r ep r1 ep1 h rb hs r2 ep2)
  note f = free_stores [OF free(1,2,5)]
  obtain ds where "calls ep2 = calls ep1 @ ds" "stored_heads (mr_addr mr) ds = hs"
    using free(4) f by auto
  then show ?case using f by simp
qed simp

text \<open>
  C30: However a receiver receives and frees, from its start on and as long as every free succeeds:
  the heads it told the sender (sent as a message or left in the word the sender reads) are heads its
  ring buffer reported, in order, and the last of them (0 before the first) lies at most half the
  buffer behind the head of the last free. This is for heads inside the buffer of 16 MiB and the
  growing offsets of the magic buffer.
\<close>

theorem head_lag_bounded:
  assumes "receiver_run crc r ep hs r' ep'" and "receiver_ok r" and "wr_acked r = 0"
    and "\<forall>h\<in>set hs. h < write_buf_size"
  shows "\<exists>cs. calls ep' = calls ep @ cs \<and> subseq (told (wr_ack r) cs) hs \<and>
    (hs \<noteq> [] \<longrightarrow> (unat (last hs) + 16777216 - unat (last (0 # told (wr_ack r) cs))) mod 16777216 \<le> 8388608)"
proof (cases "wr_ack r")
  case (SendAcknowledger a v)
  from run_sends [OF assms(1) this assms(2,4)] show ?thesis
    by (simp only: SendAcknowledger assms(3) lag_def told.simps)
next
  case (ReadAcknowledger mr)
  from run_stores [OF assms(1) this] obtain cs where "calls ep' = calls ep @ cs" "stored_heads (mr_addr mr) cs = hs"
    by blast
  moreover have "hs \<noteq> [] \<longrightarrow> lag (last hs) (last (0 # hs)) \<le> 8388608" by (simp add: lag_self)
  ultimately show ?thesis unfolding lag_def [symmetric] ReadAcknowledger told.simps by blast
qed

definition demo_wr :: write_receiver where
  "demo_wr = WriteReceiver_new True magic_buffer (MagicRingBuffer demo_mr)
     (SendAcknowledger 256 0) null_mr null_rq"

text \<open>A receiver with one message of 9000000 bytes outstanding frees it: the head is sent.\<close>

definition demo_freeing :: write_receiver where
  "demo_freeing = demo_wr\<lparr>wr_rbuf := (wr_rbuf demo_wr)\<lparr>rb_outstanding := [0], rb_read_ptr := 9000000\<rparr>\<rparr>"

theorem head_lag_bounded_witness:
  "\<exists>r' ep' cs. receiver_run demo_crc demo_freeing (demo_send_ep [(1, demo_wc 0)]) [9000000] r' ep' \<and>
     calls ep' = cs \<and> subseq (told (wr_ack demo_freeing) cs) [9000000]"
proof -
  let ?reg = "\<lparr>reg_context = 0, reg_addr = rb_addr (wr_rbuf demo_wr) + 8, reg_length = 8999992, reg_lkey = 0\<rparr> :: ReceiveRegion"
  let ?r = "WriteReceiver_Free ?reg demo_freeing (demo_send_ep [(1, demo_wc 0)])"
  have "map_option (\<lambda>(s, _). code s = Ok \<and> message s = []) ?r = Some True" by code_simp
  then obtain s x where "?r = Some (s, x)" "code s = Ok \<and> message s = []" by (rule run_test)
  then obtain r' ep' where run: "?r = Some (Status0, r', ep')"
    by (cases x) (auto simp: Status0_def)
  have "map_option fst (b_Free (wr_bops demo_freeing) (reg_addr ?reg - 8) (wr_rbuf demo_freeing)) = Some 9000000"
    by code_simp
  then obtain rb where "b_Free (wr_bops demo_freeing) (reg_addr ?reg - 8) (wr_rbuf demo_freeing) = Some (9000000, rb)"
    by (cases "b_Free (wr_bops demo_freeing) (reg_addr ?reg - 8) (wr_rbuf demo_freeing)") auto
  then have rr: "receiver_run demo_crc demo_freeing (demo_send_ep [(1, demo_wc 0)]) [9000000] r' ep'"
    by (rule receiver_run.free [OF run _ receiver_run.stop])
  have "receiver_ok demo_freeing" "wr_acked demo_freeing = 0"
    by (simp_all add: receiver_ok_def demo_freeing_def demo_wr_def WriteReceiver_new_def write_buf_size_def)
  from head_lag_bounded [OF rr this] rr show ?thesis by (auto simp: write_buf_size_def)
qed

text \<open>
  With send acknowledgements half a buffer is too late. After one message of at most half
  the buffer was received and freed no head is sent, yet the sender has no room for a second
  one that together with the first fills the buffer: it waits for an acknowledgement that the
  receiver, which waits for the message, never sends.
\<close>

theorem half_buffer_deadlock:
  assumes "wr_acked r = 0" and "receiver_ok r" and "magic_srep base write_buf_size rb 0 0"
    and "0 < unat n1" and "unat n1 \<le> 8388608"
    and "unat n2 < 16777216" and "16777216 \<le> unat n1 + unat n2"
  shows "\<exists>a rb'. MagicRemoteBuffer_Write n1 rb = (Inr a, rb') \<and>
    \<not> flush_due (magic_enc write_buf_size (unat n1)) r \<and>
    MagicRemoteBuffer_GetWriteAddr n2 rb' = Inl (Status Unknown ''not enough free space for message'')"
proof -
  have lt: "unat n1 < unat write_buf_size" using assms(5) by (simp add: buf_size_nat)
  from magic_write_room [OF assms(3,4)] lt obtain rb' where w:
    "MagicRemoteBuffer_Write n1 rb = (Inr (magic_loc base write_buf_size 0 (unat n1)), rb')"
    "magic_srep base write_buf_size rb' (unat n1) 0" by auto
  have full: "MagicRemoteBuffer_GetWriteAddr n2 rb' = Inl (Status Unknown ''not enough free space for message'')"
    using magic_write_addr_iff [OF w(2), of n2] assms(4-7) by (simp add: buf_size_nat)
  have sz: "ring_size_ok write_buf_size" using assms(3) by (simp add: magic_srep_def)
  let ?h = "magic_enc write_buf_size (unat n1)"
  have h: "unat ?h = unat n1" using lt by (simp add: unat_magic_enc [OF sz])
  then have "?h < write_buf_size" using lt by (simp add: word_less_nat_alt)
  moreover have "head_lag ?h r \<le> 8388608"
    using assms(1,2,5) h by (simp add: head_lag_def receiver_ok_def buf_size_nat)
  ultimately have "\<not> flush_due ?h r" using flush_due_lag [OF assms(2)] by simp
  with w(1) full show ?thesis by blast
qed

definition demo_big_rbuf :: remote_buffer where
  "demo_big_rbuf = \<lparr>rm_addr = 4096, rm_length = write_buf_size, rm_key = 7, rm_head = 0, rm_tail = 0,
     rm_full = False\<rparr>"

theorem half_buffer_deadlock_witness:
  "\<exists>a rb'. MagicRemoteBuffer_Write 8388608 demo_big_rbuf = (Inr a, rb') \<and>
    \<not> flush_due (magic_enc write_buf_size 8388608) demo_wr \<and>
    MagicRemoteBuffer_GetWriteAddr 8388608 rb' = Inl (Status Unknown ''not enough free space for message'')"
proof -
  have "receiver_ok demo_wr" "wr_acked demo_wr = 0"
    by (simp_all add: receiver_ok_def demo_wr_def WriteReceiver_new_def write_buf_size_def)
  moreover have "magic_srep 4096 write_buf_size demo_big_rbuf 0 0"
    by (simp add: magic_srep_def demo_big_rbuf_def ring_size_ok_def buf_size_nat magic_enc_def)
  ultimately show ?thesis
    using half_buffer_deadlock [of demo_wr 4096 demo_big_rbuf 8388608 8388608] by simp
qed

end
