(* ===== verification/Write_Limits.thy ===== *)
theory Write_Limits
  imports Write_Safety
begin

text \<open>
  What a receiver accepts: the frame that the senders write, and a message whose checksum it
  never looked at. What a sender never sends: a message larger than the buffer.
\<close>

section \<open>Frames\<close>

lemma sys_load_Cons: "loads ep = v # vs \<Longrightarrow>
   sys_load a ep = Some (v, ep\<lparr>calls := calls ep @ [Load a], loads := vs\<rparr>)"
  by (simp add: sys_load_def)

text \<open>
  The checksum is not checked when its word is still 0. The loop starts with the checksum
  of no bytes, which is 0, so a message of which only the length word has arrived is accepted
  without reading a byte of it.
\<close>

theorem receive_without_check:
  assumes "crc [] = 0" and "loads ep = v1 # v2 # v3 # vs"
    and "(ucast v1 :: u32) \<noteq> 0" and "(ucast v3 :: u32) = 0"
  shows "\<exists>reg r' ep'. WriteReceiver_Receive crc r ep = Some (Inr reg, r', ep') \<and>
    reg_length reg = ucast v2 - 8 \<and> blocks ep' = blocks ep \<and> loads ep' = vs"
proof -
  let ?a = "b_GetReadPtr (wr_bops r) (wr_rbuf r)"
  let ?ep1 = "ep\<lparr>calls := calls ep @ [Load ?a], loads := v2 # v3 # vs\<rparr>"
  have poll: "poll_word (\<lambda>v. (ucast v :: u32) = 0) ?a ep = Some ?ep1"
    using assms(2,3) by (simp add: poll_word.simps [of _ ?a ep] sys_load_Cons)
  have check: "check_loop crc (crc []) h addr len ep2 =
      Some (ep2\<lparr>calls := calls ep2 @ [Load (addr - 4)], loads := vs\<rparr>)"
    if "loads ep2 = v3 # vs" for h addr len ep2
    using assms(1,4) that by (simp add: check_loop.simps [of crc _ h addr len ep2] sys_load_Cons)
  show ?thesis
    by (simp add: WriteReceiver_Receive_def poll sys_load_Cons check Let_def)
qed

theorem receive_without_check_witness:
  "\<exists>reg r' ep'. WriteReceiver_Receive demo_crc demo_wr ((demo_send_ep [])\<lparr>loads := [20, 20, 0]\<rparr>) =
     Some (Inr reg, r', ep') \<and> reg_length reg = 12"
  using receive_without_check [of demo_crc "(demo_send_ep [])\<lparr>loads := [20, 20, 0]\<rparr>" 20 20 0 "[]" demo_wr]
  by (fastforce simp: demo_crc_def)

text \<open>
  C31: The receiver takes a message for what the sender made it: when the length word it polls
  is the one that \<open>GetMemoryRegion\<close> stored, the received region has the length of the sent one
  and the ring buffer moves on by exactly the bytes the sender reserved.
\<close>

theorem frame_agreement:
  assumes "WriteSender_GetMemoryRegion n ep = Some (Inr reg, ep1)"
    and "last (calls ep1) = Store (reg_addr reg - 8) v 4"
    and "loads ep2 = v # v # vs" and "(ucast v :: u32) \<noteq> 0"
    and "WriteReceiver_Receive crc r ep2 = Some (Inr rreg, r', ep3)"
  shows "reg_length rreg = reg_length reg \<and> reg_length reg = ucast n \<and>
    wr_rbuf r' = snd (b_Read (wr_bops r) (reg_length reg + 8) (wr_rbuf r)) \<and>
    reg_addr rreg = b_GetReadPtr (wr_bops r) (wr_rbuf r) + 8"
proof -
  from assms(1) obtain buf ep0 where al: "DumbAllocator_Alloc (n + 8) ep = Some (Inr buf, ep0)"
    and reg: "reg_length reg = ucast n" "reg_addr reg = reg_addr buf + 8"
    and ep1: "ep1 = sys_void (Store (reg_addr buf) (ucast (reg_length buf)) 4) ep0"
    unfolding WriteSender_GetMemoryRegion_def by (auto elim!: bindE split: sum.splits)
  from DumbAllocator_Alloc_ok [OF al] have "reg_length buf = ucast (n + 8)" by simp
  then have v: "(ucast v :: u32) = ucast n + 8"
    using assms(2) ep1 reg by (auto simp: sys_void_def ucast_add_32)
  let ?a = "b_GetReadPtr (wr_bops r) (wr_rbuf r)"
  let ?ep = "ep2\<lparr>calls := calls ep2 @ [Load ?a], loads := v # vs\<rparr>"
  have poll: "poll_word (\<lambda>v. (ucast v :: u32) = 0) ?a ep2 = Some ?ep"
    using assms(3,4) by (simp add: poll_word.simps [of _ ?a ep2] sys_load_Cons)
  from assms(5) show ?thesis
    by (auto simp: WriteReceiver_Receive_def poll sys_load_Cons v reg(1) Let_def elim!: bindE)
qed

theorem frame_agreement_witness:
  "\<exists>reg ep1 rreg r' ep3. WriteSender_GetMemoryRegion 12 (Endpoint_new demo_id []
      (demo_env\<lparr>addrs := [512], mrs := [Some \<lparr>mr_addr = 512, mr_length = 20, mr_lkey = 3\<rparr>]\<rparr>)) = Some (Inr reg, ep1) \<and>
     WriteReceiver_Receive demo_crc demo_wr ((demo_send_ep [])\<lparr>loads := [20, 20, 32, 20, 32],
       blocks := [replicate 12 1]\<rparr>) = Some (Inr rreg, r', ep3) \<and>
     reg_length rreg = reg_length reg"
proof -
  let ?g = "WriteSender_GetMemoryRegion 12 (Endpoint_new demo_id []
      (demo_env\<lparr>addrs := [512], mrs := [Some \<lparr>mr_addr = 512, mr_length = 20, mr_lkey = 3\<rparr>]\<rparr>))"
  let ?r = "WriteReceiver_Receive demo_crc demo_wr ((demo_send_ep [])\<lparr>loads := [20, 20, 32, 20, 32],
       blocks := [replicate 12 1]\<rparr>)"
  have "map_option (\<lambda>(r, e). \<not> isl r \<and> last (calls e) = Store (reg_addr (projr r) - 8) 20 4) ?g = Some True"
    by code_simp
  then obtain reg ep1 where g: "?g = Some (Inr reg, ep1)" "last (calls ep1) = Store (reg_addr reg - 8) 20 4"
    by (rule run_value)
  have "map_option (\<lambda>(r, _). \<not> isl r \<and> True) ?r = Some True" by code_simp
  then obtain rreg x where "?r = Some (Inr rreg, x)" by (rule run_value)
  then obtain r' ep3 where r: "?r = Some (Inr rreg, r', ep3)" by (cases x) auto
  have "reg_length rreg = reg_length reg"
    using frame_agreement [OF g _ _ r, of "[32, 20, 32]"] by simp
  with g r show ?thesis by blast
qed

section \<open>Messages that never fit\<close>

lemma await_read_loads: "await_read ep = Some (st, ep') \<Longrightarrow> loads ep' = loads ep"
proof -
  define P where "P = (\<lambda>(ep :: endpoint) (r :: status \<times> endpoint). loads (snd r) = loads ep)"
  assume run: "await_read ep = Some (st, ep')"
  have "P ep (st, ep')"
  proof (rule await_read.raw_induct [where P = P, OF _ run])
    fix f ep r
    assume IH: "\<And>ep r. f ep = Some r \<Longrightarrow> P ep r"
      and step: "Endpoint_PollSendCq ep \<bind> (\<lambda>(wc_s, ep). case wc_s of
         Inl s \<Rightarrow> Some (s, ep)
       | Inr wc \<Rightarrow> if (ucast (wc_wr_id wc) :: u32) \<noteq> 0 then f ep else Some (Status0, ep)) = Some r"
    from step obtain wc_s ep1 where p: "Endpoint_PollSendCq ep = Some (wc_s, ep1)" by (auto elim!: bindE)
    then have "loads ep1 = loads ep" by (auto simp: Endpoint_PollSendCq_def Let_def elim!: bindE)
    then show "P ep r" using step p IH [of ep1 r] by (auto simp: P_def split: sum.splits if_splits)
  qed
  then show ?thesis by (simp add: P_def)
qed

lemma ReadAckReceiver_Get_loads:
  assumes "ReadAckReceiver_Get mr key addr ep = Some (r, ep')"
  shows "set (loads ep') \<subseteq> set (loads ep) \<and> (\<forall>h. r = Inr h \<longrightarrow> (\<exists>v \<in> set (loads ep). h = ucast v))"
proof -
  obtain st ep1 where p: "Endpoint_PostRead 0 (mr_lkey mr) (mr_addr mr) 4 addr key ep = Some (st, ep1)"
    using assms by (cases "Endpoint_PostRead 0 (mr_lkey mr) (mr_addr mr) 4 addr key ep")
      (auto simp: ReadAckReceiver_Get_def)
  then have l1: "loads ep1 = loads ep"
    by (auto simp: Endpoint_PostRead_def Endpoint_PostSendRaw_def sys_def elim!: bindE split: list.splits)
  show ?thesis
  proof (cases "status_ok st")
    case False
    then show ?thesis using assms p l1 by (auto simp: ReadAckReceiver_Get_def)
  next
    case True
    then obtain st2 ep2 where a: "await_read ep1 = Some (st2, ep2)"
      using assms p by (cases "await_read ep1") (auto simp: ReadAckReceiver_Get_def)
    have "loads ep2 = loads ep" using await_read_loads [OF a] l1 by simp
    then show ?thesis using assms p a True
      by (auto simp: ReadAckReceiver_Get_def sys_load_def split: if_splits list.splits)
  qed
qed

lemma magic_never_fits:
  assumes "rm_length rb < len" and "rm_head rb < rm_length rb" and "rm_tail rb < rm_length rb"
  shows "\<exists>s. MagicRemoteBuffer_GetWriteAddr len rb = Inl s"
proof -
  have lt: "unat (rm_length rb) < unat len" "unat (rm_head rb) < unat (rm_length rb)"
    "unat (rm_tail rb) < unat (rm_length rb)" using assms by (simp_all add: word_less_nat_alt)
  consider "rm_head rb = rm_tail rb" | "rm_head rb < rm_tail rb" | "rm_tail rb < rm_head rb"
    using less_linear by blast
  then show ?thesis
  proof cases
    case 1
    then show ?thesis using assms(1) by (simp add: MagicRemoteBuffer_GetWriteAddr_def)
  next
    case 2
    then have h: "unat (rm_head rb) < unat (rm_tail rb)" by (simp add: word_less_nat_alt)
    have "unat (rm_length rb - rm_tail rb) = unat (rm_length rb) - unat (rm_tail rb)"
      using lt by (simp add: unat_sub_le)
    then have "unat (rm_length rb - rm_tail rb + rm_head rb) =
        unat (rm_length rb) - unat (rm_tail rb) + unat (rm_head rb)"
      using lt h unat32_lt [of len] by (subst unat32_add) auto
    then have "rm_length rb - rm_tail rb + rm_head rb \<le> len"
      using lt h by (simp add: word_le_nat_alt)
    then show ?thesis using 2 by (simp add: MagicRemoteBuffer_GetWriteAddr_def)
  next
    case 3
    then have h: "unat (rm_tail rb) < unat (rm_head rb)" by (simp add: word_less_nat_alt)
    then have "rm_head rb - rm_tail rb \<le> len"
      using lt by (simp add: word_le_nat_alt unat_sub_le)
    then show ?thesis using 3 by (simp add: MagicRemoteBuffer_GetWriteAddr_def)
  qed
qed

lemma await_space_never:
  assumes "await_space err ro len rb ack ep = Some r"
  shows "ro = magic_remote \<longrightarrow> (\<exists>mr key addr. ack = ReadAckReceiver mr key addr) \<longrightarrow>
    rm_length rb < len \<longrightarrow> rm_head rb < rm_length rb \<longrightarrow> rm_tail rb < rm_length rb \<longrightarrow>
    (\<forall>v \<in> set (loads ep). ucast v < rm_length rb) \<longrightarrow> isl (fst r)"
proof -
  define P where "P = (\<lambda>(err :: status \<Rightarrow> status \<Rightarrow> status) ro len (rb :: remote_buffer) ack (ep :: endpoint)
    (r :: u64 status_or \<times> remote_buffer \<times> AckReceiver \<times> endpoint).
    ro = magic_remote \<longrightarrow> (\<exists>mr key addr. ack = ReadAckReceiver mr key addr) \<longrightarrow>
    rm_length rb < len \<longrightarrow> rm_head rb < rm_length rb \<longrightarrow> rm_tail rb < rm_length rb \<longrightarrow>
    (\<forall>v \<in> set (loads ep). ucast v < rm_length rb) \<longrightarrow> isl (fst r))"
  have "P err ro len rb ack ep r"
  proof (rule await_space.raw_induct [where P = P, OF _ assms])
    fix f err ro len rb ack ep r
    assume IH: "\<And>err ro len rb ack ep r. f err ro len rb ack ep = Some r \<Longrightarrow> P err ro len rb ack ep r"
      and step: "(case r_GetWriteAddr ro len rb of
         Inl s \<Rightarrow> AckReceiver_Get ack ep \<bind> (\<lambda>(head_s, ack, ep). case head_s of
            Inl hs \<Rightarrow> Some (Inl (err s hs), rb, ack, ep)
          | Inr h \<Rightarrow> f err ro len (r_UpdateHead ro h rb) ack ep)
       | Inr a \<Rightarrow> Some (Inr a, rb, ack, ep)) = Some r"
    show "P err ro len rb ack ep r"
      unfolding P_def
    proof (intro impI)
      assume ro: "ro = magic_remote" and ack: "\<exists>mr key addr. ack = ReadAckReceiver mr key addr"
        and big: "rm_length rb < len" and h: "rm_head rb < rm_length rb" and t: "rm_tail rb < rm_length rb"
        and l: "\<forall>v \<in> set (loads ep). ucast v < rm_length rb"
      from magic_never_fits [OF big h t] ro obtain s where "r_GetWriteAddr ro len rb = Inl s" by auto
      with step ack obtain mr key addr r1 ep1 where
        g: "ReadAckReceiver_Get mr key addr ep = Some (r1, ep1)" and
        r: "(case r1 of Inl hs \<Rightarrow> Some (Inl (err s hs), rb, ReadAckReceiver mr key addr, ep1)
          | Inr h \<Rightarrow> f err ro len (r_UpdateHead ro h rb) (ReadAckReceiver mr key addr) ep1) = Some r"
        by (auto elim!: bindE)
      note gl = ReadAckReceiver_Get_loads [OF g]
      show "isl (fst r)"
      proof (cases r1)
        case (Inl hs)
        with r show ?thesis by auto
      next
        case (Inr hd)
        with r have "f err ro len (r_UpdateHead ro hd rb) (ReadAckReceiver mr key addr) ep1 = Some r"
          by simp
        from IH [OF this] gl l big t ro Inr show ?thesis
          by (auto simp: P_def MagicRemoteBuffer_UpdateHead_def)
      qed
    qed
  qed
  then show ?thesis by (simp add: P_def)
qed

text \<open>
  A message that, header included, is larger than the ring buffer is never sent and never
  refused: whatever heads the sender reads, \<open>SendAsync\<close> does not return an id; as long as
  reading the head works it goes on asking for it for ever.
\<close>

theorem oversized_never_sent:
  assumes "ws_rops s = magic_remote" and "ws_ack s = ReadAckReceiver mr key addr"
    and "rm_length (ws_rbuf s) < reg_length reg + 8"
    and "rm_head (ws_rbuf s) < rm_length (ws_rbuf s)" and "rm_tail (ws_rbuf s) < rm_length (ws_rbuf s)"
    and "\<forall>v \<in> set (loads ep). ucast v < rm_length (ws_rbuf s)"
  shows "WriteSender_SendAsync crc reg s ep \<noteq> Some (Inr wid, s', ep')"
proof
  assume "WriteSender_SendAsync crc reg s ep = Some (Inr wid, s', ep')"
  then obtain a rb ack ep1 where
    "await_space wrap_head (ws_rops s) (reg_length reg + 8) (ws_rbuf s) (ws_ack s) ep = Some (Inr a, rb, ack, ep1)"
    unfolding WriteSender_SendAsync_def Let_def by (auto elim!: bindE split: sum.splits)
  from await_space_never [OF this] assms show False by auto
qed

theorem oversized_never_sent_witness:
  "WriteSender_SendAsync demo_crc (demo_reg\<lparr>reg_length := 100\<rparr>) demo_ws
     ((demo_send_ep [(1, demo_wc 0)])\<lparr>loads := [40]\<rparr>) \<noteq> Some (Inr 1, demo_ws, demo_sending)"
  by (rule oversized_never_sent [of demo_ws "\<lparr>mr_addr = 512, mr_length = 8, mr_lkey = 3\<rparr>" 5 1024])
     (simp_all add: demo_ws_def WriteSender_new_def demo_rbuf_def demo_reg_def)

end
