(* ===== verification/Write_Setup.thy ===== *)
theory Write_Setup
  imports Write_Limits Endpoint_Setup Magic_Buffer
begin

text \<open>
  Setting up write connections: the second half of \<^verbatim>\<open>tests/write/write.cpp\<close>. Both sides fill in
  a \<open>conn_details\<close> structure, exchange it as private data of the connection, compare the
  options and build their sender and receiver from what the other side sent.
\<close>

section \<open>Options\<close>

text \<open>The bit fields of \<open>WriteOpts\<close>, three bits each from the least significant one.\<close>

type_synonym WriteOpts = u16

definition opt_allocator :: "WriteOpts \<Rightarrow> u16" where
  "opt_allocator opts = opts AND 7"

definition opt_acknowledger :: "WriteOpts \<Rightarrow> u16" where
  "opt_acknowledger opts = drop_bit 3 opts AND 7"

definition opt_sender :: "WriteOpts \<Rightarrow> u16" where
  "opt_sender opts = drop_bit 6 opts AND 7"

definition opt_buffer :: "WriteOpts \<Rightarrow> u16" where
  "opt_buffer opts = drop_bit 9 opts AND 7"

definition make_opts :: "u16 \<Rightarrow> u16 \<Rightarrow> u16 \<Rightarrow> u16 \<Rightarrow> WriteOpts" where
  "make_opts alloc ack sender buffer =
     alloc OR push_bit 3 ack OR push_bit 6 sender OR push_bit 9 buffer"

definition kAllocatorDumb :: u16 where "kAllocatorDumb = 0"
definition kAcknowledgerSend :: u16 where "kAcknowledgerSend = 0"
definition kAcknowledgerRead :: u16 where "kAcknowledgerRead = 1"
definition kSenderWrite :: u16 where "kSenderWrite = 0"
definition kSenderWriteImm :: u16 where "kSenderWriteImm = 1"
definition kSenderWriteOffset :: u16 where "kSenderWriteOffset = 2"
definition kSenderWriteReverse :: u16 where "kSenderWriteReverse = 4"
definition kBufferBasic :: u16 where "kBufferBasic = 0"
definition kBufferMagic :: u16 where "kBufferMagic = 1"
definition kBufferReverse :: u16 where "kBufferReverse = 2"

lemmas option_defs = kAllocatorDumb_def kAcknowledgerSend_def kAcknowledgerRead_def
  kSenderWrite_def kSenderWriteImm_def kSenderWriteOffset_def kSenderWriteReverse_def
  kBufferBasic_def kBufferMagic_def kBufferReverse_def

datatype write_kind = KWrite | KImm | KReverse | KOffset

text \<open>The switch over \<open>opts.sender\<close>.\<close>

definition sender_kind :: "WriteOpts \<Rightarrow> write_kind option" where
  "sender_kind opts =
     (if opt_sender opts = kSenderWrite then Some KWrite
      else if opt_sender opts = kSenderWriteReverse then Some KReverse
      else if opt_sender opts = kSenderWriteImm then Some KImm
      else if opt_sender opts = kSenderWriteOffset then Some KOffset
      else None)"

definition write_connection_opts :: Options where
  "write_connection_opts = \<lparr>o_pd = 0, o_srq = 0, o_send_cq = 0, o_recv_cq = 0,
     o_max_send_wr = 400, o_max_recv_wr = 400, o_max_send_sge = 1, o_max_recv_sge = 1,
     o_max_inline_data = 8, o_use_srq = False, o_private_data = [], o_src = None,
     o_responder_resources = 16, o_initiator_depth = 16, o_flow_control = 0,
     o_retry_count = 100, o_rnr_retry_count = 0, o_native_qp = False, o_inline_recv = 0\<rparr>"

section \<open>The exchanged structure\<close>

record conn_details =
  cd_opts :: WriteOpts
  cd_buffer_ctx :: BufferContext
  cd_ack_ctx :: AcknowledgerContext
  cd_snd0 :: u32
  cd_snd1 :: u32
  cd_snd2 :: u32
  cd_snd3 :: u32

definition empty_details :: "WriteOpts \<Rightarrow> conn_details" where
  "empty_details opts = \<lparr>cd_opts = opts,
     cd_buffer_ctx = \<lparr>data0 = 0, data1 = 0, data2 = 0, data3 = 0\<rparr>,
     cd_ack_ctx = \<lparr>ac_data0 = 0, ac_data1 = 0, ac_data2 = 0, ac_data3 = 0\<rparr>,
     cd_snd0 = 0, cd_snd1 = 0, cd_snd2 = 0, cd_snd3 = 0\<rparr>"

text \<open>
  Its 52 bytes: the options take four (the union contains an \<open>unsigned\<close> bit field), then twelve
  words. Fields that are not set are 0 here.
\<close>

definition details_words :: "conn_details \<Rightarrow> u32 list" where
  "details_words d = [ucast (cd_opts d), data0 (cd_buffer_ctx d), data1 (cd_buffer_ctx d),
     data2 (cd_buffer_ctx d), data3 (cd_buffer_ctx d), ac_data0 (cd_ack_ctx d),
     ac_data1 (cd_ack_ctx d), ac_data2 (cd_ack_ctx d), ac_data3 (cd_ack_ctx d),
     cd_snd0 d, cd_snd1 d, cd_snd2 d, cd_snd3 d]"

definition details_bytes :: "conn_details \<Rightarrow> u8 list" where
  "details_bytes d = concat (map le32 (details_words d))"

definition word_at :: "u8 list \<Rightarrow> nat \<Rightarrow> u32" where
  "word_at bs i = un_le32 (drop (4 * i) bs)"

text \<open>Reading a structure from fewer bytes (or from the null pointer) is undefined.\<close>

definition read_details :: "u8 list \<Rightarrow> conn_details option" where
  "read_details bs = (if length bs < 52 then None else
     Some \<lparr>cd_opts = ucast (word_at bs 0),
       cd_buffer_ctx = \<lparr>data0 = word_at bs 1, data1 = word_at bs 2, data2 = word_at bs 3, data3 = word_at bs 4\<rparr>,
       cd_ack_ctx = \<lparr>ac_data0 = word_at bs 5, ac_data1 = word_at bs 6, ac_data2 = word_at bs 7, ac_data3 = word_at bs 8\<rparr>,
       cd_snd0 = word_at bs 9, cd_snd1 = word_at bs 10, cd_snd2 = word_at bs 11, cd_snd3 = word_at bs 12\<rparr>)"

lemma drop_le32: "drop (4 + n) (le32 w @ xs) = drop n xs"
  by (simp add: add.commute)

lemma le32_four: "le32 w = [le32 w ! 0, le32 w ! 1, le32 w ! 2, le32 w ! 3]"
  by (simp add: le32_def)

lemma word_at_concat: "i < length ws \<Longrightarrow> word_at (concat (map le32 ws)) i = ws ! i"
proof (induction ws arbitrary: i)
  case (Cons w ws)
  show ?case
  proof (cases i)
    case 0
    then show ?thesis by (simp add: word_at_def)
  next
    case (Suc j)
    have "drop (4 * i) (concat (map le32 (w # ws))) = drop (4 * j) (concat (map le32 ws))"
      by (simp add: Suc)
    then show ?thesis using Cons Suc by (simp add: word_at_def)
  qed
qed simp

lemma ucast_16_32_16 [simp]: "(ucast (ucast (x::u16) :: u32) :: u16) = x"
  by (rule bit_word_eqI) (simp add: bit_simps)

lemma details_roundtrip: "read_details (details_bytes d) = Some d"
proof -
  have len: "length (details_bytes d) = 52"
    by (simp add: details_bytes_def details_words_def)
  have w: "word_at (details_bytes d) i = details_words d ! i" if "i < 13" for i
    unfolding details_bytes_def by (rule word_at_concat) (use that in \<open>simp add: details_words_def\<close>)
  show ?thesis
    by (simp add: read_details_def len w) (simp add: details_words_def)
qed

section \<open>Receiver and sender before and after the connection\<close>

definition inflight :: u64 where
  "inflight = 400"

text \<open>
  The buffer, the acknowledger (a placeholder for \<open>Send\<close>) and, for the offset sender, the word
  that holds the tail. The null region stands for a \<open>metadata\<close> that is not set.
\<close>

definition init_ack :: "WriteOpts \<Rightarrow> 'e env_scheme \<Rightarrow> (Acknowledger status_or \<times> 'e env_scheme) option" where
  "init_ack opts e = (
     if opt_acknowledger opts = kAcknowledgerRead then do {
       (ack, e) \<leftarrow> GetReadAcknowledger e;
       Some (Inr ack, e) }
     else if opt_acknowledger opts = kAcknowledgerSend then Some (Inr (SendAcknowledger 0 0), e)
     else Some (Inl (Status InvalidArgument ''unkown acknowledger option''), e))"

definition init_buffer :: "WriteOpts \<Rightarrow> 'e env_scheme \<Rightarrow> (ring_buffer status_or \<times> 'e env_scheme) option" where
  "init_buffer opts e = (
     if opt_buffer opts = kBufferBasic
     then Some (Inl (Status NotImplemented ''basic buffer not implemented''), e)
     else if opt_buffer opts = kBufferMagic then do {
       (r, e) \<leftarrow> NewMagicRingBuffer write_buf_size e;
       Some (case r of Inl s \<Rightarrow> Inl (Wrap ''error setting up magic receive buffer'' s) | Inr b \<Rightarrow> Inr b, e) }
     else if opt_buffer opts = kBufferReverse then do {
       (r, e) \<leftarrow> NewReverseRingBuffer write_buf_size e;
       Some (case r of Inl s \<Rightarrow> Inl (Wrap ''error setting up reverse receive buffer'' s) | Inr b \<Rightarrow> Inr b, e) }
     else Some (Inl (Status InvalidArgument ''unkown buffer option''), e))"

definition init_metadata :: "WriteOpts \<Rightarrow> 'e env_scheme \<Rightarrow> (ibv_mr status_or \<times> 'e env_scheme) option" where
  "init_metadata opts e = (
     if opt_sender opts = kSenderWriteOffset then do {
       (buf, e) \<leftarrow> sys_addr (Malloc 4) e;
       (m, e) \<leftarrow> sys_mr (Reg_mr buf 4) e;
       Some (case m of
           None \<Rightarrow> Inl (Status Internal (''error '' @ to_string (errno e) @ '' registering MR''))
         | Some m \<Rightarrow> Inr m, e) }
     else Some (Inr null_mr, e))"

definition initReceiver ::
    "WriteOpts \<Rightarrow> 'e env_scheme \<Rightarrow> ((ring_buffer \<times> Acknowledger \<times> ibv_mr) status_or \<times> 'e env_scheme) option" where
  "initReceiver opts e = do {
     (ack, e) \<leftarrow> init_ack opts e;
     (case ack of Inl s \<Rightarrow> Some (Inl s, e)
      | Inr ack \<Rightarrow> do {
          (rb, e) \<leftarrow> init_buffer opts e;
          (case rb of Inl s \<Rightarrow> Some (Inl s, e)
           | Inr rb \<Rightarrow> do {
               (md, e) \<leftarrow> init_metadata opts e;
               Some (case md of Inl s \<Rightarrow> Inl s | Inr md \<Rightarrow> Inr (rb, ack, md), e) }) }) }"

text \<open>\<open>oa\<close> is the address of the acknowledger object that is created here.\<close>

definition connectReceiver :: "u64 \<Rightarrow> WriteOpts \<Rightarrow> Acknowledger \<Rightarrow> Acknowledger status_or" where
  "connectReceiver oa opts ack = (
     if opt_acknowledger opts = kAcknowledgerRead then Inr ack
     else if opt_acknowledger opts = kAcknowledgerSend then Inr (GetSendAcknowledger oa)
     else Inl (Status InvalidArgument ''unkown acknowledger option''))"

definition initSender :: "WriteOpts \<Rightarrow> status" where
  "initSender opts = (if opt_allocator opts = kAllocatorDumb then Status0
                      else Status InvalidArgument ''unkown allocator option'')"

definition connect_ack :: "conn_details \<Rightarrow> endpoint \<Rightarrow> (AckReceiver status_or \<times> endpoint) option" where
  "connect_ack det ep = (
     if opt_acknowledger (cd_opts det) = kAcknowledgerRead then do {
       (ack, ep) \<leftarrow> GetReadAckReceiver (cd_ack_ctx det) ep;
       Some (Inr ack, ep) }
     else if opt_acknowledger (cd_opts det) = kAcknowledgerSend then do {
       (r, ep) \<leftarrow> GetSendAckReceiver ep;
       Some (case r of Inl s \<Rightarrow> Inl (Wrap ''error setting up send acknowledger'' s) | Inr a \<Rightarrow> Inr a, ep) }
     else Some (Inl (Status InvalidArgument ''unkown acknowledger option''), ep))"

definition connect_rbuf :: "conn_details \<Rightarrow> (RemoteBuffer_ops \<times> remote_buffer) status_or" where
  "connect_rbuf det = (
     if opt_buffer (cd_opts det) = kBufferBasic
     then Inl (Status NotImplemented ''basic buffer not implemented'')
     else if opt_buffer (cd_opts det) = kBufferMagic
     then Inr (magic_remote, MagicRemoteBuffer (cd_buffer_ctx det))
     else if opt_buffer (cd_opts det) = kBufferReverse
     then Inr (reverse_remote, ReverseRemoteBuffer (cd_buffer_ctx det))
     else Inl (Status InvalidArgument ''unkown buffer option''))"

definition connectSender ::
    "conn_details \<Rightarrow> endpoint \<Rightarrow> (((RemoteBuffer_ops \<times> remote_buffer) \<times> AckReceiver) status_or \<times> endpoint) option" where
  "connectSender det ep = do {
     (ack, ep) \<leftarrow> connect_ack det ep;
     Some (case ack of Inl s \<Rightarrow> Inl s
       | Inr ack \<Rightarrow> (case connect_rbuf det of Inl s \<Rightarrow> Inl s | Inr rb \<Rightarrow> Inr (rb, ack)), ep) }"

end
