(* ===== verification/Write_Connect.thy ===== *)
theory Write_Connect
  imports Write_Setup
begin

text \<open>
  Dialing and accepting write connections: the last part of \<^verbatim>\<open>tests/write/write.cpp\<close>. A sender,
  a receiver or both are set up over one endpoint. The result holds the endpoint, whose fields
  include the environment; the environment is returned as well. An endpoint that is not closed
  on an error path is lost there, as in the code. \<open>oa\<close> is the address at which the send
  acknowledger is created.
\<close>

section \<open>Steps that may fail\<close>

definition and_then ::
    "('a status_or \<times> 's) option \<Rightarrow> ('a \<Rightarrow> 's \<Rightarrow> ('b status_or \<times> 's) option) \<Rightarrow> ('b status_or \<times> 's) option" where
  "and_then m f = do {
     (r, s) \<leftarrow> m;
     (case r of Inl st \<Rightarrow> Some (Inl st, s) | Inr x \<Rightarrow> f x s) }"

definition wrapped :: "string \<Rightarrow> ('a status_or \<times> 's) option \<Rightarrow> ('a status_or \<times> 's) option" where
  "wrapped msg m = map_option (\<lambda>(r, s). (case r of Inl st \<Rightarrow> Inl (Wrap msg st) | Inr x \<Rightarrow> Inr x, s)) m"

definition checked :: "status \<Rightarrow> unit status_or" where
  "checked st = (if status_ok st then Inr () else Inl st)"

text \<open>A step on the endpoint, seen from the environment.\<close>

definition on_ep :: "('a status_or \<times> endpoint) option \<Rightarrow> (('a \<times> endpoint) status_or \<times> env) option" where
  "on_ep m = map_option (\<lambda>(r, ep). (case r of Inl st \<Rightarrow> Inl st | Inr x \<Rightarrow> Inr (x, ep), env.truncate ep)) m"

text \<open>The endpoint is closed after an error; whether that worked is not looked at.\<close>

definition closing :: "('a status_or \<times> endpoint) option \<Rightarrow> ('a status_or \<times> endpoint) option" where
  "closing m = do {
     (r, ep) \<leftarrow> m;
     (case r of
        Inl st \<Rightarrow> do { (_, ep) \<leftarrow> Endpoint_Close ep; Some (Inl st, ep) }
      | Inr x \<Rightarrow> Some (Inr x, ep)) }"

section \<open>What both sides do\<close>

definition unsupported :: "WriteOpts \<Rightarrow> bool" where
  "unsupported opts \<longleftrightarrow> opt_sender opts = kSenderWrite \<and> opt_buffer opts = kBufferBasic"

definition unsupported_duplex :: "WriteOpts \<Rightarrow> bool" where
  "unsupported_duplex opts \<longleftrightarrow> opt_sender opts = kSenderWriteImm \<and> opt_acknowledger opts = kAcknowledgerSend"

definition basic_error :: status where
  "basic_error = Status InvalidArgument ''write sender with basic buffer not supported''"

definition duplex_error :: status where
  "duplex_error = Status InvalidArgument
     ''duplex connection with WriteImm and Send Acknowledger not supported''"

text \<open>The class of the buffer that \<open>initReceiver\<close> made.\<close>

definition buffer_ops_of :: "WriteOpts \<Rightarrow> Buffer_ops" where
  "buffer_ops_of opts = (if opt_buffer opts = kBufferReverse then reverse_buffer else magic_buffer)"

text \<open>The structure a side with a receiver sends.\<close>

definition receiver_details :: "WriteOpts \<Rightarrow> ring_buffer \<Rightarrow> Acknowledger \<Rightarrow> ibv_mr \<Rightarrow> conn_details" where
  "receiver_details opts rb ack md =
     (empty_details opts)\<lparr>cd_buffer_ctx := b_GetContext (buffer_ops_of opts) rb,
       cd_ack_ctx := Acknowledger_GetContext ack, cd_snd0 := lo32 (mr_addr md),
       cd_snd1 := hi32 (mr_addr md), cd_snd2 := mr_lkey md\<rparr>"

definition with_details :: "conn_details \<Rightarrow> Options" where
  "with_details d = write_connection_opts\<lparr>o_private_data := details_bytes d\<rparr>"

text \<open>Both bytes of \<open>opts.raw\<close> in the structure of the other side.\<close>

definition remote_opts :: "u8 list \<Rightarrow> WriteOpts option" where
  "remote_opts bs = (case bs of b0 # b1 # _ \<Rightarrow> Some (ucast b0 OR push_bit 8 (ucast b1)) | _ \<Rightarrow> None)"

definition check_remote :: "WriteOpts \<Rightarrow> endpoint \<Rightarrow> (conn_details status_or \<times> endpoint) option" where
  "check_remote opts ep = do {
     ro \<leftarrow> remote_opts (Endpoint_GetConnectionInfo ep);
     if ro \<noteq> opts
     then closing (Some (Inl (Status InvalidArgument ''remote options missmatch''), ep))
     else do {
       det \<leftarrow> read_details (Endpoint_GetConnectionInfo ep);
       Some (Inr det, ep) } }"

text \<open>The switch over the kind of sender at the end.\<close>

definition new_sender ::
    "bool \<Rightarrow> WriteOpts \<Rightarrow> conn_details \<Rightarrow> RemoteBuffer_ops \<times> remote_buffer \<Rightarrow> AckReceiver \<Rightarrow>
     (write_kind \<times> write_sender) status_or" where
  "new_sender owns opts det rb ack = (case sender_kind opts of
       None \<Rightarrow> Inl (Status InvalidArgument ''unkown sender option'')
     | Some KOffset \<Rightarrow> Inr (KOffset, WriteSender_new owns (fst rb) (snd rb) ack
         (addr_of_halves (cd_snd0 det) (cd_snd1 det)) (cd_snd2 det))
     | Some k \<Rightarrow> Inr (k, WriteSender_new owns (fst rb) (snd rb) ack 0 0))"

definition new_receiver ::
    "bool \<Rightarrow> WriteOpts \<Rightarrow> ring_buffer \<Rightarrow> Acknowledger \<Rightarrow> ibv_mr \<Rightarrow> endpoint \<Rightarrow>
     ((write_kind \<times> write_receiver) status_or \<times> endpoint) option" where
  "new_receiver owns opts rb ack md ep = (case sender_kind opts of
       None \<Rightarrow> Some (Inl (Status InvalidArgument ''unkown sender option''), ep)
     | Some KImm \<Rightarrow>
         and_then (wrapped ''error setting up receive queue'' (GetReceiveQueue 8 inflight ep)) (\<lambda>rq ep.
         Some (Inr (KImm, WriteReceiver_new owns (buffer_ops_of opts) rb ack null_mr rq), ep))
     | Some k \<Rightarrow> Some (Inr (k, WriteReceiver_new owns (buffer_ops_of opts) rb ack
         (if k = KOffset then md else null_mr) null_rq), ep))"

definition finish_sender ::
    "string \<Rightarrow> bool \<Rightarrow> WriteOpts \<Rightarrow> conn_details \<Rightarrow> endpoint \<Rightarrow>
     ((write_kind \<times> write_sender) status_or \<times> endpoint) option" where
  "finish_sender msg owns opts det ep =
     and_then (closing (wrapped msg (connectSender det ep))) (\<lambda>(rb, ack) ep.
     Some (new_sender owns opts det rb ack, ep))"

definition finish_receiver ::
    "u64 \<Rightarrow> bool \<Rightarrow> WriteOpts \<Rightarrow> conn_details \<Rightarrow> ring_buffer \<times> Acknowledger \<times> ibv_mr \<Rightarrow> endpoint \<Rightarrow>
     ((write_kind \<times> write_receiver) status_or \<times> endpoint) option" where
  "finish_receiver oa owns opts det parts ep = (case parts of (rb, ack, md) \<Rightarrow>
     and_then (closing (wrapped ''Error connecting receiver'' (Some (connectReceiver oa (cd_opts det) ack, ep))))
       (\<lambda>ack ep. new_receiver owns opts rb ack md ep))"

section \<open>One direction\<close>

definition DialWriteSender ::
    "string \<Rightarrow> int \<Rightarrow> WriteOpts \<Rightarrow> env \<Rightarrow> (((write_kind \<times> write_sender) \<times> endpoint) status_or \<times> env) option" where
  "DialWriteSender ip port opts e = (
     if unsupported opts then Some (Inl basic_error, e)
     else and_then (Create ip port write_connection_opts e) (\<lambda>ep e. on_ep (
       and_then (wrapped ''error initalizing sender details'' (Some (checked (initSender opts), ep))) (\<lambda>_ ep.
       and_then (wrapped ''error connecting to remote''
         (map_option (\<lambda>(st, ep). (checked st, ep)) (Endpoint_Connect (with_details (empty_details opts)) ep))) (\<lambda>_ ep.
       and_then (check_remote opts ep) (\<lambda>det ep.
       finish_sender ''error setting up connection details'' True opts det ep))))))"

definition DialWriteReceiver ::
    "u64 \<Rightarrow> string \<Rightarrow> int \<Rightarrow> WriteOpts \<Rightarrow> env \<Rightarrow>
     (((write_kind \<times> write_receiver) \<times> endpoint) status_or \<times> env) option" where
  "DialWriteReceiver oa ip port opts e = (
     if unsupported opts then Some (Inl basic_error, e)
     else and_then (Create ip port write_connection_opts e) (\<lambda>ep e. on_ep (
       and_then (wrapped ''Error initalizing connection details'' (initReceiver opts ep)) (\<lambda>(rb, ack, md) ep.
       and_then (wrapped ''error connecting to remote''
         (map_option (\<lambda>(st, ep). (checked st, ep))
           (Endpoint_Connect (with_details (receiver_details opts rb ack md)) ep))) (\<lambda>_ ep.
       and_then (check_remote opts ep) (\<lambda>det ep.
       finish_receiver oa True opts det (rb, ack, md) ep))))))"

definition AcceptSender ::
    "WriteOpts \<Rightarrow> cm_id \<Rightarrow> env \<Rightarrow> (((write_kind \<times> write_sender) \<times> endpoint) status_or \<times> env) option" where
  "AcceptSender opts lid e = (
     if unsupported opts then Some (Inl basic_error, e)
     else do {
       _ \<leftarrow> Listener_GetPd lid;
       and_then (wrapped ''error initalizing sender details'' (Some (checked (initSender opts), e))) (\<lambda>_ e.
       and_then (Listener_Accept (with_details (empty_details opts)) lid e) (\<lambda>ep e. on_ep (
         and_then (check_remote opts ep) (\<lambda>det ep.
         finish_sender ''error setting up connection details'' True opts det ep)))) })"

definition AcceptReceiver ::
    "u64 \<Rightarrow> WriteOpts \<Rightarrow> cm_id \<Rightarrow> env \<Rightarrow>
     (((write_kind \<times> write_receiver) \<times> endpoint) status_or \<times> env) option" where
  "AcceptReceiver oa opts lid e = (
     if unsupported opts then Some (Inl basic_error, e)
     else do {
       _ \<leftarrow> Listener_GetPd lid;
       and_then (wrapped ''Error initalizing connection details'' (initReceiver opts e)) (\<lambda>(rb, ack, md) e.
       and_then (Listener_Accept (with_details (receiver_details opts rb ack md)) lid e) (\<lambda>ep e. on_ep (
         and_then (check_remote opts ep) (\<lambda>det ep.
         finish_receiver oa True opts det (rb, ack, md) ep)))) })"

definition ListenWrite :: "string \<Rightarrow> int \<Rightarrow> env \<Rightarrow> (cm_id status_or \<times> env) option" where
  "ListenWrite ip port e = Listen ip (if port = 0 then 18515 else port) e"

definition WriteListener_Close :: "env \<Rightarrow> (status \<times> env) option" where
  "WriteListener_Close = Listener_Close"

section \<open>Both directions\<close>

text \<open>Neither the sender nor the receiver of a connection owns the endpoint.\<close>

record write_connection =
  cn_snd :: "write_kind \<times> write_sender"
  cn_rcv :: "write_kind \<times> write_receiver"

definition finish_connection ::
    "u64 \<Rightarrow> WriteOpts \<Rightarrow> ring_buffer \<times> Acknowledger \<times> ibv_mr \<Rightarrow> endpoint \<Rightarrow>
     (write_connection status_or \<times> endpoint) option" where
  "finish_connection oa opts parts ep =
     and_then (check_remote opts ep) (\<lambda>det ep.
     and_then (finish_receiver oa False opts det parts ep) (\<lambda>rcv ep.
     and_then (finish_sender ''error setting up sender details'' False opts det ep) (\<lambda>sndr ep.
     Some (Inr \<lparr>cn_snd = sndr, cn_rcv = rcv\<rparr>, ep))))"

definition DialWriteConnection ::
    "u64 \<Rightarrow> string \<Rightarrow> int \<Rightarrow> WriteOpts \<Rightarrow> env \<Rightarrow> ((write_connection \<times> endpoint) status_or \<times> env) option" where
  "DialWriteConnection oa ip port opts e = (
     if unsupported opts then Some (Inl basic_error, e)
     else if unsupported_duplex opts then Some (Inl duplex_error, e)
     else and_then (Create ip port write_connection_opts e) (\<lambda>ep e. on_ep (
       and_then (wrapped ''Error initalizing receiver details'' (initReceiver opts ep)) (\<lambda>(rb, ack, md) ep.
       and_then (wrapped ''error initalizing sender details'' (Some (checked (initSender opts), ep))) (\<lambda>_ ep.
       and_then (wrapped ''error connecting to remote''
         (map_option (\<lambda>(st, ep). (checked st, ep))
           (Endpoint_Connect (with_details (receiver_details opts rb ack md)) ep))) (\<lambda>_ ep.
       finish_connection oa opts (rb, ack, md) ep))))))"

definition AcceptConnection ::
    "u64 \<Rightarrow> WriteOpts \<Rightarrow> cm_id \<Rightarrow> env \<Rightarrow> ((write_connection \<times> endpoint) status_or \<times> env) option" where
  "AcceptConnection oa opts lid e = (
     if unsupported opts then Some (Inl basic_error, e)
     else if unsupported_duplex opts then Some (Inl duplex_error, e)
     else do {
       _ \<leftarrow> Listener_GetPd lid;
       and_then (wrapped ''Error initalizing receiver details'' (initReceiver opts e)) (\<lambda>(rb, ack, md) e.
       and_then (wrapped ''error initalizing sender details'' (Some (checked (initSender opts), e))) (\<lambda>_ e.
       and_then (Listener_Accept (with_details (receiver_details opts rb ack md)) lid e) (\<lambda>ep e.
       on_ep (finish_connection oa opts (rb, ack, md) ep)))) })"

text \<open>
  \<open>Close\<close> is not a virtual method: the receiver is closed as a \<open>WriteReceiver\<close> whatever its
  class is.
\<close>

definition WriteConnection_Close ::
    "(ring_buffer \<Rightarrow> endpoint \<Rightarrow> (status \<times> endpoint) option) \<Rightarrow>
     write_connection \<Rightarrow> endpoint \<Rightarrow> (status \<times> endpoint) option" where
  "WriteConnection_Close close_buffer c ep = do {
     (st, ep) \<leftarrow> Endpoint_Close ep;
     if \<not> status_ok st then Some (Wrap ''Error closing endpoint'' st, ep)
     else do {
       (st, ep) \<leftarrow> WriteReceiver_Close close_buffer (snd (cn_rcv c)) ep;
       if \<not> status_ok st then Some (Wrap ''Error closing receiver'' st, ep)
       else WriteSender_Close (snd (cn_snd c)) ep } }"

end
