(* ===== verification/Write_Agreement.thy ===== *)
theory Write_Agreement
  imports Write_Connect
begin

text \<open>
  What a successful set-up of a write connection gives: the two sides have the same options, the
  sender writes into the buffer of the receiver, whose link is at its start, and it fetches the
  head where the receiver leaves it.
\<close>

section \<open>Taking a successful set-up apart\<close>

lemma and_thenE:
  assumes "and_then m f = Some (Inr y, s')"
  obtains x s where "m = Some (Inr x, s)" "f x s = Some (Inr y, s')"
  using assms by (auto simp: and_then_def elim!: bindE split: sum.splits)

lemma wrapped_ok [simp]: "wrapped msg m = Some (Inr x, s) \<longleftrightarrow> m = Some (Inr x, s)"
  by (cases m) (auto simp: wrapped_def split: sum.splits)

lemma closing_ok [simp]: "closing m = Some (Inr x, s) \<longleftrightarrow> m = Some (Inr x, s)"
  by (cases m) (auto simp: closing_def elim!: bindE split: sum.splits)

lemma on_ep_ok [simp]: "on_ep m = Some (Inr (x, ep), e) \<longleftrightarrow> m = Some (Inr x, ep) \<and> e = env.truncate ep"
  by (cases m) (auto simp: on_ep_def split: sum.splits)

lemma check_remote_ok:
  assumes "check_remote opts ep = Some (Inr det, ep')"
  shows "ep' = ep" and "remote_opts (ep_private_data ep) = Some opts" and "read_details (ep_private_data ep) = Some det"
  using assms by (auto simp: check_remote_def closing_def Endpoint_GetConnectionInfo_def elim!: bindE split: if_splits)

lemma remote_opts_details: "remote_opts (details_bytes d) = Some (cd_opts d)"
proof -
  have "(ucast (ucast (w::u32) :: u8) :: u16) OR push_bit 8 (ucast (ucast (drop_bit 8 w) :: u8)) = ucast w" for w
    by (rule bit_word_eqI) (auto simp: bit_simps)
  then show ?thesis
    by (simp add: remote_opts_def details_bytes_def details_words_def le32_def)
qed

lemma remote_opts_read:
  assumes "read_details bs = Some det" and "remote_opts bs = Some opts"
  shows "cd_opts det = opts"
proof -
  have "52 \<le> length bs" using assms(1) by (simp add: read_details_def split: if_splits)
  then have "Suc (Suc (Suc (Suc 0))) \<le> length bs" by linarith
  then obtain a b c d bs' where bs: "bs = a # b # c # d # bs'" by (auto simp: Suc_le_length_iff)
  have "(ucast (ucast a OR push_bit 8 (ucast b) OR push_bit 16 (ucast c) OR push_bit 24 (ucast d) :: u32) :: u16) =
      ucast a OR push_bit 8 (ucast b)"
    by (rule bit_word_eqI) (auto simp: bit_simps)
  moreover have "det = \<lparr>cd_opts = ucast (word_at bs 0),
      cd_buffer_ctx = cd_buffer_ctx det, cd_ack_ctx = cd_ack_ctx det, cd_snd0 = cd_snd0 det,
      cd_snd1 = cd_snd1 det, cd_snd2 = cd_snd2 det, cd_snd3 = cd_snd3 det\<rparr>"
    using assms(1) unfolding read_details_def by (simp split: if_splits) (erule subst, simp)
  moreover have "word_at bs 0 = ucast a OR push_bit 8 (ucast b) OR push_bit 16 (ucast c) OR push_bit 24 (ucast d)"
    by (simp add: word_at_def bs)
  ultimately have "cd_opts det = ucast a OR push_bit 8 (ucast b)" by (metis conn_details.select_convs(1))
  then show ?thesis using assms(2) by (simp add: bs remote_opts_def)
qed

section \<open>What a step leaves alone\<close>

text \<open>The parameters with which connections were accepted.\<close>

definition accepted :: "call list \<Rightarrow> conn_param list" where
  "accepted cs = List.map_filter (\<lambda>c. case c of Cm_accept cp \<Rightarrow> Some cp | _ \<Rightarrow> None) cs"

lemma accepted_simps [simp]:
  "accepted [] = []" "accepted (xs @ ys) = accepted xs @ accepted ys"
  "accepted (Cm_accept cp # cs) = cp # accepted cs" "(\<And>cp. c \<noteq> Cm_accept cp) \<Longrightarrow> accepted (c # cs) = accepted cs"
  by (auto simp: accepted_def List.map_filter_def split: call.splits)

lemma sys_id_some: "sys_id c i e = Some (r, e') \<Longrightarrow> calls e' = calls e @ [c]"
  by (auto simp: sys_id_def sys_def split: option.splits list.splits if_splits)

lemmas traces = call_traces sys_id_some

text \<open>Private data is a field of the endpoint that replies do not touch.\<close>

lemma ep_traces:
  "sys c ep = Some (r, ep') \<Longrightarrow> ep_private_data ep' = ep_private_data ep \<and> calls ep' = calls ep @ [c]"
  "sys_addr c ep = Some (a, ep') \<Longrightarrow> ep_private_data ep' = ep_private_data ep \<and> calls ep' = calls ep @ [c]"
  "sys_mr c ep = Some (m, ep') \<Longrightarrow> ep_private_data ep' = ep_private_data ep \<and> calls ep' = calls ep @ [c]"
  by (auto simp: sys_def sys_addr_def sys_mr_def split: list.splits)

lemma private_data_void [simp]: "ep_private_data (sys_void c ep) = ep_private_data ep"
  by (simp add: sys_void_def)

lemma post_initial_frame:
  assumes "post_initial is mr n ep = Some (st, ep')"
  shows "ep_private_data ep' = ep_private_data ep \<and> accepted (calls ep') = accepted (calls ep)"
  using assms
proof (induction "is" arbitrary: ep)
  case (Cons i "is")
  from Cons.prems obtain st1 ep1 where 1: "Endpoint_PostRecv (word_of_nat i) (mr_lkey mr)
      (mr_addr mr + word_of_nat i * n) n ep = Some (st1, ep1)"
    and rest: "(if \<not> status_ok st1 then Some (st1, ep1) else post_initial is mr n ep1) = Some (st, ep')"
    by (auto elim!: bindE)
  have "ep_private_data ep1 = ep_private_data ep \<and> accepted (calls ep1) = accepted (calls ep)"
    using 1 by (auto simp: Endpoint_PostRecv_def Endpoint_PostRecvRaw_def Let_def elim!: bindE
        dest!: ep_traces split: if_splits)
  then show ?case using rest Cons.IH [of ep1] by (auto split: if_splits)
qed simp

lemma GetReceiveQueue_frame:
  assumes "GetReceiveQueue n k ep = Some (r, ep')"
  shows "ep_private_data ep' = ep_private_data ep \<and> accepted (calls ep') = accepted (calls ep)"
proof -
  from assms obtain a ep1 m ep2 st ep3 where 1: "sys_addr (Malloc (k * n)) ep = Some (a, ep1)"
    "sys_mr (Reg_mr a (n * k)) ep1 = Some (Some m, ep2)" "post_initial [0..<unat k] m n ep2 = Some (st, ep3)"
    and rest: "(if \<not> status_ok st then do {
        (_, ep) \<leftarrow> sys (Dereg_mr (mr_addr m)) ep3;
        Some (Inl (Wrap ''error setting up receive queue'' st), sys_void (Free_mem a) ep) }
      else Some (Inr (ReceiveQueue_new 0 m n), ep3)) = Some (r, ep')"
    unfolding GetReceiveQueue_def by (auto elim!: bindE split: option.splits)
  have "ep_private_data ep3 = ep_private_data ep \<and> accepted (calls ep3) = accepted (calls ep)"
    using 1(1,2) post_initial_frame [OF 1(3)]
    by (auto dest!: ep_traces)
  then show ?thesis using rest
    by (auto elim!: bindE dest!: ep_traces split: if_splits)
qed

section \<open>The sender\<close>

definition ack_for :: "conn_details \<Rightarrow> AckReceiver \<Rightarrow> bool" where
  "ack_for det a \<longleftrightarrow> (let ctx = cd_ack_ctx det in
     if opt_acknowledger (cd_opts det) = kAcknowledgerRead
     then \<exists>m. a = ReadAckReceiver m (ac_data2 ctx) (addr_of_halves (ac_data0 ctx) (ac_data1 ctx))
     else opt_acknowledger (cd_opts det) = kAcknowledgerSend \<and> (\<exists>q. a = SendAckReceiver q))"

lemma connect_ack_ok:
  assumes "connect_ack det ep = Some (Inr a, ep')"
  shows "ep_private_data ep' = ep_private_data ep \<and> ack_for det a"
proof (cases "opt_acknowledger (cd_opts det) = kAcknowledgerRead")
  case True
  then show ?thesis using assms
    by (auto simp: connect_ack_def GetReadAckReceiver_def new_registered_word_def ack_for_def Let_def
        elim!: bindE dest!: ep_traces split: option.splits)
next
  case False
  then obtain r where "GetReceiveQueue 4 100 ep = Some (r, ep')" "opt_acknowledger (cd_opts det) = kAcknowledgerSend"
    "\<exists>q. a = SendAckReceiver q" using assms
    by (auto simp: connect_ack_def GetSendAckReceiver_def elim!: bindE split: if_splits sum.splits)
  then show ?thesis using GetReceiveQueue_frame False by (auto simp: ack_for_def Let_def)
qed

lemma new_sender_ok:
  assumes "new_sender owns opts det rb ack = Inr (k, s)"
  shows "sender_kind opts = Some k \<and> ws_ack s = ack \<and> (ws_rops s, ws_rbuf s) = rb \<and>
    (k = KOffset \<longrightarrow> ws_tail_addr s = addr_of_halves (cd_snd0 det) (cd_snd1 det) \<and> ws_tail_key s = cd_snd2 det)"
  using assms by (auto simp: new_sender_def WriteSender_new_def split: option.splits write_kind.splits)

lemma finish_sender_ok:
  assumes "finish_sender msg owns opts det ep = Some (Inr (k, s), ep')"
  shows "ep_private_data ep' = ep_private_data ep \<and> sender_kind opts = Some k \<and> ack_for det (ws_ack s) \<and>
    connect_rbuf det = Inr (ws_rops s, ws_rbuf s) \<and>
    (k = KOffset \<longrightarrow> ws_tail_addr s = addr_of_halves (cd_snd0 det) (cd_snd1 det) \<and> ws_tail_key s = cd_snd2 det)"
proof -
  from assms obtain rb ack where c: "connectSender det ep = Some (Inr (rb, ack), ep')"
    and n: "new_sender owns opts det rb ack = Inr (k, s)"
    unfolding finish_sender_def by (auto elim!: and_thenE)
  from c have "connect_ack det ep = Some (Inr ack, ep')" "connect_rbuf det = Inr rb"
    by (auto simp: connectSender_def elim!: bindE split: sum.splits)
  then show ?thesis using connect_ack_ok new_sender_ok [OF n] by auto
qed

section \<open>The receiver\<close>

lemma initReceiver_ok:
  assumes "initReceiver opts e = Some (Inr (rb, ack, md), e')"
  shows "accepted (calls e') = accepted (calls e)"
    and "if opt_acknowledger opts = kAcknowledgerRead then \<exists>m. ack = ReadAcknowledger m
         else opt_acknowledger opts = kAcknowledgerSend"
    and "if opt_buffer opts = kBufferReverse then \<exists>m. rb = ReverseRingBuffer m
         else opt_buffer opts = kBufferMagic \<and> (\<exists>m. rb = MagicRingBuffer m)"
proof -
  from assms obtain e1 e2 where 1: "init_ack opts e = Some (Inr ack, e1)" "init_buffer opts e1 = Some (Inr rb, e2)"
    "init_metadata opts e2 = Some (Inr md, e')"
    unfolding initReceiver_def by (auto elim!: bindE split: sum.splits)
  have a: "accepted (calls e1) = accepted (calls e)"
    using 1(1) by (auto simp: init_ack_def GetReadAcknowledger_def new_registered_word_def elim!: bindE
        dest!: traces split: if_splits option.splits)
  have new: "accepted (calls e2) = accepted (calls e1) \<and> (\<exists>m. rb = mk m)"
    if "new_ring_buffer mk n e1 = Some (Inr rb, e2)" for mk n
  proof -
    from that obtain a e3 m where "GetMagicBuffer (ucast n) e1 = Some (Inr a, e3)" "rb = mk m"
      "calls e2 = calls e3 @ [Memset a (ucast n), Reg_mr a (ucast (2 * n))]"
      unfolding new_ring_buffer_def
      by (auto elim!: bindE dest!: traces split: sum.splits option.splits)
    then show ?thesis
      by (auto simp: GetMagicBuffer_def Let_def elim!: bindE dest!: traces split: if_splits)
  qed
  have b: "accepted (calls e2) = accepted (calls e1) \<and>
      (if opt_buffer opts = kBufferReverse then \<exists>m. rb = ReverseRingBuffer m
       else opt_buffer opts = kBufferMagic \<and> (\<exists>m. rb = MagicRingBuffer m))"
    using 1(2) new
    by (auto simp: init_buffer_def NewMagicRingBuffer_def NewReverseRingBuffer_def option_defs elim!: bindE
        split: if_splits sum.splits)
  have c: "accepted (calls e') = accepted (calls e2)"
    using 1(3) by (auto simp: init_metadata_def elim!: bindE dest!: traces split: if_splits option.splits)
  show "accepted (calls e') = accepted (calls e)" using a b c by simp
  show "if opt_acknowledger opts = kAcknowledgerRead then \<exists>m. ack = ReadAcknowledger m
        else opt_acknowledger opts = kAcknowledgerSend"
    using 1(1) by (auto simp: init_ack_def GetReadAcknowledger_def elim!: bindE split: if_splits)
  show "if opt_buffer opts = kBufferReverse then \<exists>m. rb = ReverseRingBuffer m
        else opt_buffer opts = kBufferMagic \<and> (\<exists>m. rb = MagicRingBuffer m)" using b by simp
qed

lemma finish_receiver_ok:
  assumes "finish_receiver oa owns opts det (rb, ack, md) ep = Some (Inr (k, r), ep')"
  shows "accepted (calls ep') = accepted (calls ep) \<and> sender_kind opts = Some k \<and> wr_rbuf r = rb \<and>
    wr_bops r = buffer_ops_of opts \<and> connectReceiver oa (cd_opts det) ack = Inr (wr_ack r) \<and>
    (k = KOffset \<longrightarrow> wr_tail_mr r = md)"
proof -
  from assms obtain ack' where c: "connectReceiver oa (cd_opts det) ack = Inr ack'"
    and n: "new_receiver owns opts rb ack' md ep = Some (Inr (k, r), ep')"
    unfolding finish_receiver_def by (auto elim!: and_thenE)
  show ?thesis
    using c n by (auto simp: new_receiver_def WriteReceiver_new_def elim!: and_thenE
        dest!: GetReceiveQueue_frame split: option.splits write_kind.splits)
qed

lemma Listener_Accept_ok:
  assumes "Listener_Accept (with_details d) lid e = Some (Inr ep, e')"
  shows "\<exists>cp. accepted (calls ep) = accepted (calls e) @ [cp] \<and> cp_private_data cp = details_bytes d"
proof -
  have o: "\<not> o_use_srq (with_details d)" "\<not> o_native_qp (with_details d)" "o_private_data (with_details d) = details_bytes d"
    by (simp_all add: with_details_def write_connection_opts_def)
  from assms obtain i e1 i' e2 where 1: "sys_id Cm_get_request null_id e = Some ((0, i), e1)"
    "sys_id (Cm_create_qp (o_srq (with_details d))) i e1 = Some ((0, i'), e2)"
    "Accept_finish (with_details d) (id_event_data i) i' 0 e2 = Some (Inr ep, e')"
    unfolding Listener_Accept_def Accept_srq_def Accept_qp_def
    by (auto simp: o elim!: bindE split: if_splits sum.splits)
  have "calls ep = calls e2 @ [Cm_accept (conn_param_of (with_details d) 0)]"
    using 1(3) by (auto simp: Accept_finish_def o Endpoint_new_def env.defs Let_def elim!: bindE
        dest!: traces split: if_splits)
  then show ?thesis using 1(1,2) by (auto simp: conn_param_of_def o dest!: traces)
qed

section \<open>Both sides\<close>

text \<open>
  A sender and a receiver that belong together: same kind, the buffers are the two ends of a link
  at its start, the head is fetched where the acknowledger leaves it, and the tail is written
  where the receiver polls it.
\<close>

definition ends_of :: "write_sender \<Rightarrow> write_receiver \<Rightarrow> link" where
  "ends_of s r = \<lparr>l_snd = ws_rbuf s, l_rcv = wr_rbuf r, l_wire = [], l_held = [], l_acks = []\<rparr>"

definition linked :: "write_sender \<Rightarrow> write_receiver \<Rightarrow> bool" where
  "linked s r \<longleftrightarrow> (\<exists>mr.
     (ws_rops s = magic_remote \<and> wr_bops r = magic_buffer \<and> ends_of s r = magic_link mr) \<or>
     (ws_rops s = reverse_remote \<and> wr_bops r = reverse_buffer \<and> ends_of s r = reverse_link mr))"

lemma linked_magic:
  assumes "ws_rops s = magic_remote" and "wr_bops r = magic_buffer" and "wr_rbuf r = MagicRingBuffer m"
    and "ws_rbuf s = MagicRemoteBuffer (b_GetContext magic_buffer (MagicRingBuffer m))"
  shows "linked s r"
  unfolding linked_def by (rule exI [of _ m]) (simp add: assms ends_of_def magic_link_def link_start_def)

lemma linked_reverse:
  assumes "ws_rops s = reverse_remote" and "wr_bops r = reverse_buffer" and "wr_rbuf r = ReverseRingBuffer m"
    and "ws_rbuf s = ReverseRemoteBuffer (b_GetContext reverse_buffer (ReverseRingBuffer m))"
  shows "linked s r"
  unfolding linked_def by (rule exI [of _ m]) (simp add: assms ends_of_def reverse_link_def link_start_def)

definition head_meets :: "write_sender \<Rightarrow> write_receiver \<Rightarrow> bool" where
  "head_meets s r \<longleftrightarrow> (case wr_ack r of
     ReadAcknowledger m \<Rightarrow> \<exists>m'. ws_ack s = ReadAckReceiver m' (mr_lkey m) (mr_addr m)
   | SendAcknowledger _ _ \<Rightarrow> \<exists>q. ws_ack s = SendAckReceiver q)"

definition paired :: "write_kind \<times> write_sender \<Rightarrow> write_kind \<times> write_receiver \<Rightarrow> bool" where
  "paired s r \<longleftrightarrow> fst s = fst r \<and> linked (snd s) (snd r) \<and> head_meets (snd s) (snd r) \<and>
     (fst s = KOffset \<longrightarrow> ws_tail_addr (snd s) = mr_addr (wr_tail_mr (snd r)) \<and>
        ws_tail_key (snd s) = mr_lkey (wr_tail_mr (snd r)))"

lemma receiver_details_simps:
  "cd_opts (receiver_details opts rb ack md) = opts"
  "cd_buffer_ctx (receiver_details opts rb ack md) = b_GetContext (buffer_ops_of opts) rb"
  "cd_ack_ctx (receiver_details opts rb ack md) = Acknowledger_GetContext ack"
  "addr_of_halves (cd_snd0 (receiver_details opts rb ack md)) (cd_snd1 (receiver_details opts rb ack md)) = mr_addr md"
  "cd_snd2 (receiver_details opts rb ack md) = mr_lkey md"
  by (simp_all add: receiver_details_def empty_details_def)

lemma paired_ends:
  assumes init: "initReceiver opts e = Some (Inr (rb, ack, md), e1)"
    and rcv: "finish_receiver oa owns opts det (rb, ack, md) ep = Some (Inr (kr, r), ep')" and "cd_opts det = opts"
    and snd: "finish_sender msg owns' opts (receiver_details opts rb ack md) es = Some (Inr (ks, s), es')"
  shows "paired (ks, s) (kr, r)"
proof -
  note i = initReceiver_ok [OF init] and r = finish_receiver_ok [OF rcv] and s = finish_sender_ok [OF snd]
  have "linked s r"
  proof (cases "opt_buffer opts = kBufferReverse")
    case True
    then obtain m where m: "rb = ReverseRingBuffer m" using i(3) by auto
    show ?thesis
      by (rule linked_reverse [of _ _ m])
        (use True r s m in \<open>auto simp: connect_rbuf_def receiver_details_simps buffer_ops_of_def option_defs\<close>)
  next
    case False
    then obtain m where m: "rb = MagicRingBuffer m" "opt_buffer opts = kBufferMagic" using i(3) by auto
    show ?thesis
      by (rule linked_magic [of _ _ m])
        (use False r s m in \<open>auto simp: connect_rbuf_def receiver_details_simps buffer_ops_of_def option_defs\<close>)
  qed
  moreover have "head_meets s r"
  proof (cases "opt_acknowledger opts = kAcknowledgerRead")
    case True
    then obtain m where m: "ack = ReadAcknowledger m" using i(2) by auto
    then have "wr_ack r = ReadAcknowledger m"
      using r assms(3) True by (simp add: connectReceiver_def)
    then show ?thesis using True s m
      by (auto simp: head_meets_def ack_for_def receiver_details_simps Let_def)
  next
    case False
    then have "wr_ack r = SendAcknowledger oa 0"
      using r assms(3) i(2) by (auto simp: connectReceiver_def GetSendAcknowledger_def)
    then show ?thesis using False s
      by (auto simp: head_meets_def ack_for_def receiver_details_simps Let_def)
  qed
  ultimately show ?thesis using r s
    by (auto simp: paired_def receiver_details_simps)
qed

lemma DialWriteSender_ok:
  assumes "DialWriteSender ip port opts e = Some (Inr ((k, s), ep), e')"
  shows "\<exists>det ep0. remote_opts (ep_private_data ep) = Some opts \<and> read_details (ep_private_data ep) = Some det \<and>
    finish_sender ''error setting up connection details'' True opts det ep0 = Some (Inr (k, s), ep)"
proof -
  from assms obtain ep0 ep1 det where c: "check_remote opts ep0 = Some (Inr det, ep1)"
    "finish_sender ''error setting up connection details'' True opts det ep1 = Some (Inr (k, s), ep)"
    unfolding DialWriteSender_def by (auto elim!: and_thenE split: if_splits)
  then show ?thesis using check_remote_ok [OF c(1)] finish_sender_ok [OF c(2)] by auto
qed

lemma AcceptReceiver_ok:
  assumes "AcceptReceiver oa opts lid e = Some (Inr ((k, r), ep), e')"
  shows "\<exists>rb ack md e1 det ep0 cp. initReceiver opts e = Some (Inr (rb, ack, md), e1) \<and>
    finish_receiver oa True opts det (rb, ack, md) ep0 = Some (Inr (k, r), ep) \<and> cd_opts det = opts \<and>
    accepted (calls ep) = accepted (calls e) @ [cp] \<and>
    cp_private_data cp = details_bytes (receiver_details opts rb ack md)"
proof -
  from assms obtain rb ack md e1 ep0 e2 ep1 det where 1: "initReceiver opts e = Some (Inr (rb, ack, md), e1)"
    "Listener_Accept (with_details (receiver_details opts rb ack md)) lid e1 = Some (Inr ep0, e2)"
    "check_remote opts ep0 = Some (Inr det, ep1)"
    "finish_receiver oa True opts det (rb, ack, md) ep1 = Some (Inr (k, r), ep)"
    unfolding AcceptReceiver_def by (auto elim!: and_thenE bindE split: if_splits)
  from Listener_Accept_ok [OF 1(2)] obtain cp where cp: "accepted (calls ep0) = accepted (calls e1) @ [cp]"
    "cp_private_data cp = details_bytes (receiver_details opts rb ack md)" by blast
  have ep1: "ep1 = ep0" and det: "cd_opts det = opts"
    using check_remote_ok [OF 1(3)] remote_opts_read by auto
  have "accepted (calls ep) = accepted (calls e) @ [cp]"
    using finish_receiver_ok [OF 1(4)] cp(1) initReceiver_ok(1) [OF 1(1)] ep1 by simp
  then show ?thesis using 1(1,4) det cp(2) by blast
qed

text \<open>
  C7: When a sender that dials and a receiver that accepts are both set up, and the connection
  manager hands the private data of the accepting side to the dialing side as it is, then both
  have the same options and belong together: the sender starts at the empty buffer of the
  receiver (so the properties of its link hold for this connection), fetches the head where the
  receiver leaves it, and writes the tail where the receiver polls it.
\<close>

theorem dial_accept_paired:
  assumes "AcceptReceiver oa opts lid e = Some (Inr ((kr, r), epr), e')"
    and "DialWriteSender ip port opts' f = Some (Inr ((ks, s), eps), f')"
    and "ep_private_data eps = cp_private_data (last (accepted (calls epr)))"
  shows "opts' = opts \<and> paired (ks, s) (kr, r)"
proof -
  from AcceptReceiver_ok [OF assms(1)] obtain rb ack md e1 det ep0 cp where
    a: "initReceiver opts e = Some (Inr (rb, ack, md), e1)"
      "finish_receiver oa True opts det (rb, ack, md) ep0 = Some (Inr (kr, r), epr)" "cd_opts det = opts"
      "accepted (calls epr) = accepted (calls e) @ [cp]"
      "cp_private_data cp = details_bytes (receiver_details opts rb ack md)" by blast
  from DialWriteSender_ok [OF assms(2)] obtain det' ep1 where
    d: "remote_opts (ep_private_data eps) = Some opts'" "read_details (ep_private_data eps) = Some det'"
      "finish_sender ''error setting up connection details'' True opts' det' ep1 = Some (Inr (ks, s), eps)" by blast
  have data: "ep_private_data eps = details_bytes (receiver_details opts rb ack md)"
    using assms(3) a(4,5) by simp
  have opts: "opts' = opts" using d(1) by (simp add: data remote_opts_details receiver_details_simps)
  have "det' = receiver_details opts rb ack md" using d(2) by (simp add: data details_roundtrip)
  then show ?thesis using paired_ends [OF a(1,2,3)] d(3) opts by simp
qed

text \<open>Read acknowledgements, plain writes and the magic buffer.\<close>

definition demo_write_opts :: WriteOpts where
  "demo_write_opts = make_opts kAllocatorDumb kAcknowledgerRead kSenderWrite kBufferMagic"

definition demo_details :: conn_details where
  "demo_details = receiver_details demo_write_opts
     (MagicRingBuffer \<lparr>mr_addr = 8192, mr_length = 33554432, mr_lkey = 7\<rparr>)
     (ReadAcknowledger \<lparr>mr_addr = 4096, mr_length = 8, mr_lkey = 5\<rparr>) null_mr"

definition demo_accept_env :: env where
  "demo_accept_env = demo_env\<lparr>addrs := [4096, 8192, 8192, 16785408],
     rets := [3, 0, 0, 0, 0],
     mrs := [Some \<lparr>mr_addr = 4096, mr_length = 8, mr_lkey = 5\<rparr>,
             Some \<lparr>mr_addr = 8192, mr_length = 33554432, mr_lkey = 7\<rparr>],
     cm_ids := [demo_id\<lparr>id_event_data := details_bytes (empty_details demo_write_opts)\<rparr>, demo_id]\<rparr>"

definition demo_dial_env :: env where
  "demo_dial_env = demo_env\<lparr>addrs := [4096], rets := [0, 0, 0, 0],
     mrs := [Some \<lparr>mr_addr = 4096, mr_length = 8, mr_lkey = 9\<rparr>],
     cm_ids := [demo_id, demo_id, demo_id\<lparr>id_event_data := details_bytes demo_details\<rparr>]\<rparr>"

lemma dial_accept_paired_witness:
  "\<exists>r s. map_option (\<lambda>(x, _). fst (projr x)) (AcceptReceiver 0 demo_write_opts demo_id demo_accept_env) = Some r \<and>
     map_option (\<lambda>(x, _). fst (projr x)) (DialWriteSender ''h'' 1 demo_write_opts demo_dial_env) = Some s \<and>
     paired s r"
proof -
  have "map_option (\<lambda>(x, _). \<not> isl x \<and>
      map cp_private_data (accepted (calls (snd (projr x)))) = [details_bytes demo_details])
    (AcceptReceiver 0 demo_write_opts demo_id demo_accept_env) = Some True" by code_simp
  then obtain x e' where a: "AcceptReceiver 0 demo_write_opts demo_id demo_accept_env = Some (Inr x, e')"
    "map cp_private_data (accepted (calls (snd x))) = [details_bytes demo_details]" by (rule run_value)
  have "map_option (\<lambda>(x, _). \<not> isl x \<and> ep_private_data (snd (projr x)) = details_bytes demo_details)
    (DialWriteSender ''h'' 1 demo_write_opts demo_dial_env) = Some True" by code_simp
  then obtain y f' where d: "DialWriteSender ''h'' 1 demo_write_opts demo_dial_env = Some (Inr y, f')"
    "ep_private_data (snd y) = details_bytes demo_details" by (rule run_value)
  obtain kr r epr where x: "x = ((kr, r), epr)" by (metis prod.exhaust)
  obtain ks s eps where y: "y = ((ks, s), eps)" by (metis prod.exhaust)
  have "cp_private_data (last (accepted (calls epr))) = details_bytes demo_details"
    using a(2) x by (cases "accepted (calls epr)") auto
  then have "paired (ks, s) (kr, r)"
    using dial_accept_paired [OF a(1) [unfolded x] d(1) [unfolded y]] d(2) y by simp
  then show ?thesis using a(1) d(1) x y by simp
qed

section \<open>Closing a connection\<close>

text \<open>
  The receiver of a connection is closed as a plain \<open>WriteReceiver\<close>: a successful \<open>Close\<close> makes
  exactly these calls, whatever the kind is, so the tail word of an offset receiver stays
  registered and the receive queue of an immediate data receiver too.
\<close>

lemma connection_close_calls:
  assumes "WriteConnection_Close MagicRingBuffer_Close c ep = Some (st, ep')" and "status_ok st"
    and "wr_ack (snd (cn_rcv c)) = SendAcknowledger a k" and "ws_ack (snd (cn_snd c)) = SendAckReceiver q"
    and "\<not> wr_owns_ep (snd (cn_rcv c))" and "\<not> ws_owns_ep (snd (cn_snd c))"
  shows "calls ep' = calls ep @ [Cm_disconnect,
     Dereg_mr (rb_addr (wr_rbuf (snd (cn_rcv c)))), Shmdt (rb_addr (wr_rbuf (snd (cn_rcv c)))),
     Shmdt (rb_addr (wr_rbuf (snd (cn_rcv c))) + ucast (rb_length (wr_rbuf (snd (cn_rcv c))))),
     Dereg_mr (mr_addr (rq_mr q)), Free_mem (mr_addr (rq_mr q))]"
proof -
  let ?b = "wr_rbuf (snd (cn_rcv c))"
  from assms obtain ep1 ep2 s1 s2 where 1: "sys Cm_disconnect ep = Some (0, ep1)"
    "MagicRingBuffer_Close ?b ep1 = Some (s1, ep2)" "status_ok s1"
    "ReceiveQueue_Close q ep2 = Some (s2, ep')" "status_ok s2"
    by (auto simp: WriteConnection_Close_def Endpoint_Close_def WriteReceiver_Close_def WriteSender_Close_def
        elim!: bindE split: if_splits)
  have "calls ep2 = calls ep1 @ [Dereg_mr (rb_addr ?b), Shmdt (rb_addr ?b), Shmdt (rb_addr ?b + ucast (rb_length ?b))]"
    using 1(2,3) by (auto simp: MagicRingBuffer_Close_def FreeMagicBuffer_def elim!: bindE dest!: traces split: if_splits)
  moreover have "calls ep' = calls ep2 @ [Dereg_mr (mr_addr (rq_mr q)), Free_mem (mr_addr (rq_mr q))]"
    using 1(4,5) by (auto simp: ReceiveQueue_Close_def elim!: bindE dest!: traces split: if_splits)
  ultimately show ?thesis using 1(1) by (auto dest!: traces)
qed

end
