(* ===== verification/Floating.thy ===== *)
theory Floating
  imports Kym_Prelude "HOL-Library.Signed_Division"
begin

text \<open>
  The floating point arithmetic the benchmarks use. A finite \<open>double\<close> is a mantissa and an
  exponent, the number \<open>m * 2 ^ e\<close>; an operation computes exactly and rounds to 53 significant
  bits (24 for \<open>float\<close>), halves to even. Products and quotients of 32 and 64 bit integers stay
  far from the largest and the smallest \<open>double\<close>, so infinity and NaN come from a division by
  zero only, which is \<open>None\<close>: each such value is converted to an integer afterwards, and that
  conversion is undefined.
\<close>

type_synonym double = "int \<times> int"

section \<open>Rounding\<close>

function ilog2 :: "int \<Rightarrow> int" where
  "ilog2 n = (if n < 2 then 0 else 1 + ilog2 (n div 2))"
  by auto
termination by (relation "measure nat") auto

declare ilog2.simps [simp del]

text \<open>
  The quotient \<open>n / d\<close> with \<open>0 < d\<close>, rounded to \<open>p\<close> bits: it is scaled by a power of two into
  \<open>[2 ^ (p - 1), 2 ^ p)\<close> and rounded to an integer.
\<close>

definition div_round :: "int \<Rightarrow> int \<Rightarrow> int" where
  "div_round a b = (let q = a div b; r = a mod b in
     if 2 * r < b then q else if b < 2 * r then q + 1 else if even q then q else q + 1)"

definition scale_num :: "int \<Rightarrow> int \<Rightarrow> int" where
  "scale_num n s = n * 2 ^ nat s"

definition round_ratio :: "nat \<Rightarrow> int \<Rightarrow> int \<Rightarrow> double" where
  "round_ratio p n d = (if n = 0 then (0, 0) else
     (let a = \<bar>n\<bar>;
          s0 = int p - 1 - (ilog2 a - ilog2 d);
          s = (if 2 ^ (p - 1) * scale_num d (- s0) \<le> scale_num a s0 then s0 else s0 + 1)
      in (sgn n * div_round (scale_num a s) (scale_num d (- s)), - s)))"

definition double_of :: "int \<Rightarrow> double" where
  "double_of n = round_ratio 53 n 1"

fun dmul :: "double \<Rightarrow> double \<Rightarrow> double" where
  "dmul (m, e) (m', e') = (let (q, f) = round_ratio 53 (m * m') 1 in (q, f + e + e'))"

fun ddiv :: "double \<Rightarrow> double \<Rightarrow> double option" where
  "ddiv (m, e) (m', e') = (if m' = 0 then None else
     (let (q, f) = round_ratio 53 (m * sgn m') \<bar>m'\<bar> in Some (q, f + e - e')))"

fun float_of :: "double \<Rightarrow> double" where
  "float_of (m, e) = (let (q, f) = round_ratio 24 m 1 in (q, f + e))"

text \<open>Conversion to integers truncates; a value that does not fit is undefined.\<close>

fun truncate_double :: "double \<Rightarrow> int" where
  "truncate_double (m, e) = sgn m * (\<bar>m\<bar> * 2 ^ nat e div 2 ^ nat (- e))"

definition to_uint64 :: "double \<Rightarrow> u64 option" where
  "to_uint64 x = (let n = truncate_double x in
     if 0 \<le> n \<and> n < 2 ^ 64 then Some (word_of_int n) else None)"

definition to_long :: "double \<Rightarrow> int option" where
  "to_long x = (let n = truncate_double x in
     if - (2 ^ 63) \<le> n \<and> n < 2 ^ 63 then Some n else None)"

section \<open>Rounding error\<close>

lemma div_round_error:
  assumes "0 < b"
  shows "2 * \<bar>a - div_round a b * b\<bar> \<le> b"
proof -
  have split: "a = (a div b) * b + a mod b" by simp
  have r: "0 \<le> a mod b" "a mod b < b" using assms by simp_all
  have low: "a - (a div b) * b = a mod b" using split by linarith
  have high: "a - (a div b + 1) * b = a mod b - b"
    using split by (simp add: algebra_simps)
  show ?thesis using r low high by (auto simp: div_round_def Let_def)
qed

lemma div_round_multiple: "0 < b \<Longrightarrow> div_round (q * b) b = q"
  by (simp add: div_round_def)

end
