(* ===== verification/Interfaces.thy ===== *)
theory Interfaces
  imports Conn
begin

text \<open>
  The interfaces of \<^verbatim>\<open>src/conn.hpp\<close>: abstract classes whose methods are virtual become records of
  operations over an arbitrary state \<open>'c\<close> of the connection behind them. \<open>None\<close> is a call that
  does not return. A \<open>BatchSender\<close> sends lists of regions.
\<close>

record 'c SenderBase =
  s_GetMemoryRegion :: "u64 \<Rightarrow> 'c \<Rightarrow> (SendRegion status_or \<times> 'c) option"
  s_Free :: "SendRegion \<Rightarrow> 'c \<Rightarrow> (status \<times> 'c) option"
  s_SendAsync :: "SendRegion \<Rightarrow> 'c \<Rightarrow> (u64 status_or \<times> 'c) option"
  s_Wait :: "u64 \<Rightarrow> 'c \<Rightarrow> (status \<times> 'c) option"

record 'c Sender = "'c SenderBase" +
  s_Send :: "SendRegion \<Rightarrow> 'c \<Rightarrow> (status \<times> 'c) option"

record 'c BatchSender = "'c SenderBase" +
  bs_Send :: "SendRegion list \<Rightarrow> 'c \<Rightarrow> (status \<times> 'c) option"
  bs_SendAsync :: "SendRegion list \<Rightarrow> 'c \<Rightarrow> (u64 status_or \<times> 'c) option"

record 'c Receiver =
  r_Receive :: "'c \<Rightarrow> (ReceiveRegion status_or \<times> 'c) option"
  r_Free :: "ReceiveRegion \<Rightarrow> 'c \<Rightarrow> (status \<times> 'c) option"

text \<open>
  What the programs over these interfaces use of the machine besides: the clock, in
  nanoseconds, and loads and stores of an \<open>int\<close> in a region.
\<close>

record 'c Machine =
  m_now :: "'c \<Rightarrow> (int \<times> 'c) option"
  m_put_int :: "u64 \<Rightarrow> int \<Rightarrow> 'c \<Rightarrow> 'c"
  m_get_int :: "u64 \<Rightarrow> 'c \<Rightarrow> (int \<times> 'c) option"

section \<open>Loops that stop at the first error\<close>

fun for_each :: "('i \<Rightarrow> 's \<Rightarrow> (status \<times> 's) option) \<Rightarrow> 'i list \<Rightarrow> 's \<Rightarrow> (status \<times> 's) option" where
  "for_each f [] s = Some (Status0, s)"
| "for_each f (i # is) s = do {
     (st, s) \<leftarrow> f i s;
     if status_ok st then for_each f is s else Some (st, s) }"

text \<open>\<open>for (int i = lo; i < hi; i++)\<close>.\<close>

definition int_range :: "int \<Rightarrow> int \<Rightarrow> int list" where
  "int_range lo hi = map (\<lambda>k. lo + int k) [0..<nat (hi - lo)]"

lemma int_range_empty [simp]: "hi \<le> lo \<Longrightarrow> int_range lo hi = []"
  by (simp add: int_range_def)

lemma length_int_range [simp]: "length (int_range lo hi) = nat (hi - lo)"
  by (simp add: int_range_def)

lemma int_range_nat: "int_range (int m) (int n) = map int [m..<n]"
  by (rule nth_equalityI) (auto simp: int_range_def)

lemma for_each_append:
  "for_each f (xs @ ys) s = do {
     (st, s) \<leftarrow> for_each f xs s;
     if status_ok st then for_each f ys s else Some (st, s) }"
proof (induction xs arbitrary: s)
  case (Cons x xs)
  then show ?case by (cases "f x s") (auto split: if_splits)
qed simp

text \<open>The rule for loops: an invariant indexed by the number of finished turns.\<close>

lemma for_each_rule:
  assumes run: "for_each f xs s = Some (st, s')" and ok: "status_ok st" and start: "I 0 s"
    and step: "\<And>k t st t'. \<lbrakk>k < length xs; I k t; f (xs ! k) t = Some (st, t'); status_ok st\<rbrakk>
                 \<Longrightarrow> I (Suc k) t'"
  shows "I (length xs) s'"
proof -
  have "for_each f ys t = Some (st, s') \<Longrightarrow> I k t \<Longrightarrow> k + length ys = length xs \<Longrightarrow>
      ys = drop k xs \<Longrightarrow> I (length xs) s'" for ys t k
  proof (induction ys arbitrary: t k)
    case Nil
    then show ?case by simp
  next
    case (Cons y ys)
    obtain st1 t1 where 1: "f y t = Some (st1, t1)"
      using Cons.prems(1) by (cases "f y t") auto
    have ok1: "status_ok st1" using Cons.prems(1) ok by (auto simp: 1 split: if_splits)
    then have rest: "for_each f ys t1 = Some (st, s')" using Cons.prems(1) by (simp add: 1)
    have "y = xs ! k" "ys = drop (Suc k) xs"
      using Cons.prems(3,4) by (metis drop_Suc nth_via_drop, metis drop_Suc list.sel(3) tl_drop)
    then show ?case
      using Cons.IH [OF rest, of "Suc k"] step [OF _ Cons.prems(2), of st1 t1] 1 ok1 Cons.prems(3)
      by simp
  qed
  from this [OF run start] show ?thesis by simp
qed

end
