(* ===== verification/Bench.thy ===== *)
theory Bench
  imports Interfaces Floating
begin

text \<open>
  The benchmarks of \<^verbatim>\<open>src/bench/bench.cpp\<close>: warm-up, latency and bandwidth measurements over any
  sender and receiver. \<open>None\<close> is a run that hangs or is undefined: a division by zero, an index
  out of range, a floating point value that does not fit. Printing is left out. The loop
  variables and sizes are \<open>int\<close>s that never leave their range because they count up to an \<open>int\<close>.
\<close>

section \<open>Pinning a thread\<close>

definition nr_cores :: int where
  "nr_cores = 36"

definition whole_cores :: "int list" where
  "whole_cores = map int [0..<36]"

text \<open>The core \<open>set_core_affinity\<close> selects; a negative remainder is an index out of range.\<close>

definition set_core_affinity :: "(int \<Rightarrow> 'c \<Rightarrow> (int \<times> 'c) option) \<Rightarrow> int \<Rightarrow> 'c \<Rightarrow> (int \<times> 'c) option" where
  "set_core_affinity setaffinity cid s =
     (let i = cid smod 36 in if i < 0 then None else setaffinity (whole_cores ! nat i) s)"

section \<open>Warm-up\<close>

partial_function (option) busy_wait :: "('c \<Rightarrow> (int \<times> 'c) option) \<Rightarrow> int \<Rightarrow> 'c \<Rightarrow> 'c option" where
  "busy_wait now t s = do {
     (v, s) \<leftarrow> now s;
     if v < t then busy_wait now t s else Some s }"

lemmas [code] = busy_wait.simps

text \<open>\<open>start + nanoseconds(nanodelay*i)\<close>: the product is unsigned, then read as a signed count.\<close>

definition sleep_end_time :: "int \<Rightarrow> u64 \<Rightarrow> int \<Rightarrow> int" where
  "sleep_end_time start nanodelay i = start + sint (nanodelay * word_of_int i)"

definition test_warmup_send ::
    "'c Machine \<Rightarrow> 'c Sender \<Rightarrow> int \<Rightarrow> SendRegion \<Rightarrow> 'c \<Rightarrow> (status \<times> 'c) option" where
  "test_warmup_send m sdr cnt buf s = (
     if cnt = 0 then None
     else do {
       let nanodelay = word_of_int (5000000000 sdiv cnt);
       (start, s) \<leftarrow> m_now m s;
       for_each (\<lambda>i s. do {
           (st, s) \<leftarrow> s_Send sdr buf s;
           if \<not> status_ok st then Some (Wrap ''error sending buffer'' st, s)
           else do {
             s \<leftarrow> busy_wait (m_now m) (sleep_end_time start nanodelay i) s;
             Some (Status0, s) } })
         (int_range 0 cnt) s })"

definition test_warmup_send_batch ::
    "'c BatchSender \<Rightarrow> int \<Rightarrow> SendRegion list \<Rightarrow> 'c \<Rightarrow> (status \<times> 'c) option" where
  "test_warmup_send_batch sdr cnt bufs s =
     for_each (\<lambda>i s.
         if bufs = [] then None
         else do {
           (st, s) \<leftarrow> bs_Send sdr [bufs ! nat (i mod int (length bufs))] s;
           Some (if status_ok st then Status0 else Wrap ''error sending buffer'' st, s) })
       (int_range 0 cnt) s"

text \<open>
  A receive that is freed at once; \<open>what\<close> is the message of a failed free. A result that is
  ok but has no value leaves nothing to free.
\<close>

definition receive_free :: "string \<Rightarrow> 'c Receiver \<Rightarrow> 'c \<Rightarrow> (status \<times> 'c) option" where
  "receive_free what rcv s = do {
     (r, s) \<leftarrow> r_Receive rcv s;
     (case r of
        Inl st \<Rightarrow> if status_ok st then None else Some (Wrap ''error receiving buffer'' st, s)
      | Inr reg \<Rightarrow> do {
          (st, s) \<leftarrow> r_Free rcv reg s;
          Some (if status_ok st then Status0 else Wrap what st, s) }) }"

definition test_warmup_receive :: "'c Receiver \<Rightarrow> int \<Rightarrow> 'c \<Rightarrow> (status \<times> 'c) option" where
  "test_warmup_receive rcv cnt s =
     for_each (\<lambda>i. receive_free ''error freeing receive buffer'' rcv) (int_range 0 cnt) s"

section \<open>Latency\<close>

text \<open>\<open>count()/1000.0\<close>, kept as a \<open>float\<close>.\<close>

definition lat_us_of :: "int \<Rightarrow> double" where
  "lat_us_of ns = (case ddiv (double_of ns) (double_of 1000) of Some d \<Rightarrow> float_of d | None \<Rightarrow> (0, 0))"

text \<open>What is done when a later step fails: the region is freed, whatever \<open>Free\<close> says.\<close>

definition free_then :: "('c, 'z) SenderBase_scheme \<Rightarrow> SendRegion \<Rightarrow> status \<Rightarrow> 'c \<Rightarrow> (status \<times> 'c) option" where
  "free_then sdr buf st s = do { (_, s) \<leftarrow> s_Free sdr buf s; Some (st, s) }"

definition ping_round ::
    "'c Machine \<Rightarrow> 'c Sender \<Rightarrow> 'c Receiver \<Rightarrow> SendRegion \<Rightarrow> int \<Rightarrow>
     double list \<times> 'c \<Rightarrow> (status \<times> double list \<times> 'c) option" where
  "ping_round m sdr rcv buf i = (\<lambda>(lat_us, s). do {
     let s = m_put_int m (reg_addr buf) i s;
     (start, s) \<leftarrow> m_now m s;
     (st, s) \<leftarrow> s_Send sdr buf s;
     if \<not> status_ok st then do {
       (st, s) \<leftarrow> free_then sdr buf (Wrap ''error sending buffer'' st) s;
       Some (st, lat_us, s) }
     else do {
       (r, s) \<leftarrow> r_Receive rcv s;
       (finish, s) \<leftarrow> m_now m s;
       (case r of
          Inl st \<Rightarrow> do {
            (st, s) \<leftarrow> free_then sdr buf (Wrap ''error receiving buffer'' st) s;
            Some (st, lat_us, s) }
        | Inr reg \<Rightarrow> do {
            (st, s) \<leftarrow> r_Free rcv reg s;
            if \<not> status_ok st then Some (Wrap ''error freeing receive buffer'' st, lat_us, s)
            else Some (Status0, lat_us @ [lat_us_of (finish - start)], s) }) } })"

text \<open>Reserving a negative number of elements throws.\<close>

definition test_lat_ping ::
    "'c Machine \<Rightarrow> 'c Sender \<Rightarrow> 'c Receiver \<Rightarrow> int \<Rightarrow> int \<Rightarrow> double list \<Rightarrow> 'c \<Rightarrow>
     (status \<times> double list \<times> 'c) option" where
  "test_lat_ping m sdr rcv cnt sz lat_us s = (
     if cnt < 0 then None
     else do {
       (r, s) \<leftarrow> s_GetMemoryRegion sdr (word_of_int sz) s;
       (case r of
          Inl st \<Rightarrow> Some (Wrap ''error allocating send region'' st, lat_us, s)
        | Inr buf \<Rightarrow> do {
            (st, s) \<leftarrow> test_warmup_send m sdr (cnt sdiv 4) buf s;
            if \<not> status_ok st then Some (Wrap ''error during send warmup'' st, lat_us, s)
            else do {
              (st, s) \<leftarrow> test_warmup_receive rcv (cnt sdiv 4) s;
              if \<not> status_ok st then Some (Wrap ''error during receive warmup'' st, lat_us, s)
              else do {
                (st, lat_us, s) \<leftarrow> for_each (ping_round m sdr rcv buf) (int_range 0 cnt) (lat_us, s);
                if \<not> status_ok st then Some (st, lat_us, s)
                else do {
                  (st, s) \<leftarrow> s_Free sdr buf s;
                  Some (st, lat_us, s) } } } }) })"

text \<open>Both results are looked at only after the answer was sent.\<close>

definition pong_round ::
    "'c Machine \<Rightarrow> 'c Sender \<Rightarrow> 'c Receiver \<Rightarrow> SendRegion \<Rightarrow> int \<Rightarrow> 'c \<Rightarrow> (status \<times> 'c) option" where
  "pong_round m sdr rcv buf i s = do {
     let s = m_put_int m (reg_addr buf) i s;
     (r, s) \<leftarrow> r_Receive rcv s;
     (send_s, s) \<leftarrow> s_Send sdr buf s;
     (case r of
        Inl st \<Rightarrow> free_then sdr buf (Wrap ''error receiving buffer'' st) s
      | Inr reg \<Rightarrow>
          if \<not> status_ok send_s then free_then sdr buf (Wrap ''error sending buffer'' send_s) s
          else do {
            (st, s) \<leftarrow> r_Free rcv reg s;
            Some (if status_ok st then Status0 else Wrap ''error freeing receive buffer'' st, s) }) }"

definition test_lat_pong ::
    "'c Machine \<Rightarrow> 'c Sender \<Rightarrow> 'c Receiver \<Rightarrow> int \<Rightarrow> int \<Rightarrow> 'c \<Rightarrow> (status \<times> 'c) option" where
  "test_lat_pong m sdr rcv cnt sz s = do {
     (r, s) \<leftarrow> s_GetMemoryRegion sdr (word_of_int sz) s;
     (case r of
        Inl st \<Rightarrow> Some (Wrap ''error allocating send region'' st, s)
      | Inr buf \<Rightarrow> do {
          (st, s) \<leftarrow> test_warmup_receive rcv (cnt sdiv 4) s;
          if \<not> status_ok st then Some (Wrap ''error during receive warmup'' st, s)
          else do {
            (st, s) \<leftarrow> test_warmup_send m sdr (cnt sdiv 4) buf s;
            if \<not> status_ok st then Some (Wrap ''error during send warmup'' st, s)
            else do {
              (st, s) \<leftarrow> for_each (pong_round m sdr rcv buf) (int_range 0 cnt) s;
              if \<not> status_ok st then Some (st, s) else s_Free sdr buf s } } }) }"

definition lat_send_round ::
    "'c Machine \<Rightarrow> 'c Sender \<Rightarrow> SendRegion \<Rightarrow> int \<Rightarrow> double list \<times> 'c \<Rightarrow>
     (status \<times> double list \<times> 'c) option" where
  "lat_send_round m sdr buf i = (\<lambda>(lat_us, s). do {
     let s = m_put_int m (reg_addr buf) i s;
     (start, s) \<leftarrow> m_now m s;
     (st, s) \<leftarrow> s_Send sdr buf s;
     (finish, s) \<leftarrow> m_now m s;
     if \<not> status_ok st then do {
       (st, s) \<leftarrow> free_then sdr buf (Wrap ''error sending buffer'' st) s;
       Some (st, lat_us, s) }
     else Some (Status0, lat_us @ [lat_us_of (finish - start)], s) })"

definition test_lat_send ::
    "'c Machine \<Rightarrow> 'c Sender \<Rightarrow> int \<Rightarrow> int \<Rightarrow> double list \<Rightarrow> 'c \<Rightarrow> (status \<times> double list \<times> 'c) option" where
  "test_lat_send m sdr cnt sz lat_us s = (
     if cnt < 0 then None
     else do {
       (r, s) \<leftarrow> s_GetMemoryRegion sdr (word_of_int sz) s;
       (case r of
          Inl st \<Rightarrow> Some (Wrap ''error allocating send region'' st, lat_us, s)
        | Inr buf \<Rightarrow> do {
            (st, s) \<leftarrow> test_warmup_send m sdr (cnt sdiv 4) buf s;
            if \<not> status_ok st then Some (Wrap ''error during send warmup'' st, lat_us, s)
            else do {
              (st, lat_us, s) \<leftarrow> for_each (lat_send_round m sdr buf) (int_range 0 cnt) (lat_us, s);
              if \<not> status_ok st then Some (st, lat_us, s)
              else do {
                (st, s) \<leftarrow> s_Free sdr buf s;
                Some (st, lat_us, s) } } }) })"

text \<open>The receiver checks the number the sender stored; a region that fails is not freed.\<close>

definition lat_recv_round :: "'c Machine \<Rightarrow> 'c Receiver \<Rightarrow> int \<Rightarrow> 'c \<Rightarrow> (status \<times> 'c) option" where
  "lat_recv_round m rcv i s = do {
     (r, s) \<leftarrow> r_Receive rcv s;
     (case r of
        Inl st \<Rightarrow> if status_ok st then None else Some (Wrap ''error receiving buffer'' st, s)
      | Inr reg \<Rightarrow> do {
          (v, s) \<leftarrow> m_get_int m (reg_addr reg) s;
          if v \<noteq> i then do {
            (got, s) \<leftarrow> m_get_int m (reg_addr reg) s;
            Some (Status Internal (''transmission error exepected '' @ to_string i @ '' got '' @ to_string got), s) }
          else do {
            (st, s) \<leftarrow> r_Free rcv reg s;
            Some (if status_ok st then Status0 else Wrap ''error receiving buffer'' st, s) } }) }"

definition test_lat_recv :: "'c Machine \<Rightarrow> 'c Receiver \<Rightarrow> int \<Rightarrow> 'c \<Rightarrow> (status \<times> 'c) option" where
  "test_lat_recv m rcv cnt s = do {
     (st, s) \<leftarrow> test_warmup_receive rcv (cnt sdiv 4) s;
     if \<not> status_ok st then Some (Wrap ''error during receive warmup'' st, s)
     else for_each (lat_recv_round m rcv) (int_range 0 cnt) s }"

end
