(* ===== verification/Bandwidth.thy ===== *)
theory Bandwidth
  imports Bench
begin

text \<open>
  The bandwidth tests of \<^verbatim>\<open>src/bench/bench.cpp\<close>: a window of \<open>unack\<close> asynchronous sends kept
  full, its rate limited and batched variants, and the receiving side that reports the median
  of its measurements.
\<close>

section \<open>The send window\<close>

fun free_all :: "('c, 'z) SenderBase_scheme \<Rightarrow> SendRegion list \<Rightarrow> 'c \<Rightarrow> 'c option" where
  "free_all sdr [] s = Some s"
| "free_all sdr (b # bs) s = do { (_, s) \<leftarrow> s_Free sdr b s; free_all sdr bs s }"

text \<open>A region per slot, the slot number stored in it. The ones before a failed one stay.\<close>

fun alloc_bufs ::
    "'c Machine \<Rightarrow> ('c, 'z) SenderBase_scheme \<Rightarrow> int \<Rightarrow> int list \<Rightarrow> SendRegion list \<Rightarrow> 'c \<Rightarrow>
     (SendRegion list status_or \<times> 'c) option" where
  "alloc_bufs m sdr sz [] bufs s = Some (Inr bufs, s)"
| "alloc_bufs m sdr sz (i # is) bufs s = do {
     (r, s) \<leftarrow> s_GetMemoryRegion sdr (word_of_int sz) s;
     (case r of
        Inl st \<Rightarrow> Some (Inl (Wrap ''error allocating send region'' st), s)
      | Inr buf \<Rightarrow> alloc_bufs m sdr sz is (bufs @ [buf]) (m_put_int m (reg_addr buf) i s)) }"

text \<open>
  \<open>send\<close> starts the send of slot \<open>k\<close> and \<open>bufs\<close> are all regions to free when it fails. A
  result that is ok but has no value leaves none to use.
\<close>

definition start_slot ::
    "(nat \<Rightarrow> 'c \<Rightarrow> (u64 status_or \<times> 'c) option) \<Rightarrow> ('c, 'z) SenderBase_scheme \<Rightarrow> SendRegion list \<Rightarrow> nat \<Rightarrow>
     u64 list \<times> 'c \<Rightarrow> (status \<times> u64 list \<times> 'c) option" where
  "start_slot send sdr bufs k = (\<lambda>(ids, s). do {
     (r, s) \<leftarrow> send k s;
     (case r of
        Inl st \<Rightarrow>
          if status_ok st then None
          else do {
            s \<leftarrow> free_all sdr bufs s;
            Some (Wrap ''error sending buffer'' st, ids, s) }
      | Inr wid \<Rightarrow> Some (Status0, ids[k := wid], s)) })"

text \<open>One turn of the second loop: \<open>pace\<close> is what comes between the wait and the send.\<close>

definition refill_slot ::
    "(int \<Rightarrow> 'c \<Rightarrow> 'c option) \<Rightarrow> (nat \<Rightarrow> 'c \<Rightarrow> (u64 status_or \<times> 'c) option) \<Rightarrow>
     ('c, 'z) SenderBase_scheme \<Rightarrow> SendRegion list \<Rightarrow> int \<Rightarrow> int \<Rightarrow>
     u64 list \<times> 'c \<Rightarrow> (status \<times> u64 list \<times> 'c) option" where
  "refill_slot pace send sdr bufs unack i = (\<lambda>(ids, s). do {
     let k = nat (i mod unack);
     (st, s) \<leftarrow> s_Wait sdr (ids ! k) s;
     if \<not> status_ok st then do {
       s \<leftarrow> free_all sdr bufs s;
       Some (Wrap ''error waiting for buffer to be sent'' st, ids, s) }
     else do {
       s \<leftarrow> pace i s;
       start_slot send sdr bufs k (ids, s) } })"

text \<open>Both loops; the array of ids starts undefined, here as zeroes.\<close>

definition run_window ::
    "(int \<Rightarrow> 'c \<Rightarrow> 'c option) \<Rightarrow> (nat \<Rightarrow> 'c \<Rightarrow> (u64 status_or \<times> 'c) option) \<Rightarrow>
     ('c, 'z) SenderBase_scheme \<Rightarrow> SendRegion list \<Rightarrow> int \<Rightarrow> int \<Rightarrow> 'c \<Rightarrow>
     (status \<times> u64 list \<times> 'c) option" where
  "run_window pace send sdr bufs unack cnt s = do {
     (st, ids, s) \<leftarrow> for_each (\<lambda>i. start_slot send sdr bufs (nat i)) (int_range 0 unack)
       (replicate (nat unack) 0, s);
     if \<not> status_ok st then Some (st, ids, s)
     else for_each (refill_slot pace send sdr bufs unack) (int_range unack cnt) (ids, s) }"

text \<open>The last loop waits and frees; neither result is looked at.\<close>

fun drain_window :: "('c, 'z) SenderBase_scheme \<Rightarrow> (u64 \<times> SendRegion) list \<Rightarrow> 'c \<Rightarrow> 'c option" where
  "drain_window sdr [] s = Some s"
| "drain_window sdr ((wid, buf) # ws) s = do {
     (_, s) \<leftarrow> s_Wait sdr wid s;
     (_, s) \<leftarrow> s_Free sdr buf s;
     drain_window sdr ws s }"

text \<open>\<open>(double)size*((double)count/(dur/1e9))\<close> as a \<open>uint64_t\<close>.\<close>

definition bytes_per_second :: "int \<Rightarrow> int \<Rightarrow> int \<Rightarrow> u64 option" where
  "bytes_per_second sz cnt ns = do {
     seconds \<leftarrow> ddiv (double_of ns) (double_of 1000000000);
     rate \<leftarrow> ddiv (double_of cnt) seconds;
     to_uint64 (dmul (double_of sz) rate) }"

text \<open>
  \<open>pace\<close> gets the start time: no pause in \<open>test_bw_send\<close>, the busy loop in \<open>test_bw_limit_send\<close>.
  With no slot at all, \<open>bufs[0]\<close> is out of range.
\<close>

definition bw_measure ::
    "(int \<Rightarrow> int \<Rightarrow> 'c \<Rightarrow> 'c option) \<Rightarrow> 'c Machine \<Rightarrow> 'c Sender \<Rightarrow> int \<Rightarrow> int \<Rightarrow> int \<Rightarrow>
     SendRegion list \<Rightarrow> 'c \<Rightarrow> (u64 status_or \<times> 'c) option" where
  "bw_measure pace m sdr cnt sz unack bufs s = do {
     (start, s) \<leftarrow> m_now m s;
     (st, ids, s) \<leftarrow> run_window (pace start) (\<lambda>k. s_SendAsync sdr (bufs ! k)) sdr bufs unack cnt s;
     if \<not> status_ok st then Some (Inl st, s)
     else do {
       (finish, s) \<leftarrow> m_now m s;
       s \<leftarrow> drain_window sdr (zip ids bufs) s;
       rate \<leftarrow> bytes_per_second sz cnt (finish - start);
       Some (Inr rate, s) } }"

definition bw_send_with ::
    "(int \<Rightarrow> int \<Rightarrow> 'c \<Rightarrow> 'c option) \<Rightarrow> 'c Machine \<Rightarrow> 'c Sender \<Rightarrow> int \<Rightarrow> int \<Rightarrow> int \<Rightarrow> 'c \<Rightarrow>
     (u64 status_or \<times> 'c) option" where
  "bw_send_with pace m sdr cnt sz unack s = do {
     (r, s) \<leftarrow> alloc_bufs m sdr sz (int_range 0 unack) [] s;
     (case r of
        Inl st \<Rightarrow> Some (Inl st, s)
      | Inr bufs \<Rightarrow>
          if bufs = [] then None
          else do {
            (st, s) \<leftarrow> test_warmup_send m sdr (cnt sdiv 16) (bufs ! 0) s;
            if \<not> status_ok st then Some (Inl (Wrap ''error during send warmup'' st), s)
            else bw_measure pace m sdr cnt sz unack bufs s }) }"

definition test_bw_send ::
    "'c Machine \<Rightarrow> 'c Sender \<Rightarrow> int \<Rightarrow> int \<Rightarrow> int \<Rightarrow> 'c \<Rightarrow> (u64 status_or \<times> 'c) option" where
  "test_bw_send = bw_send_with (\<lambda>_ _. Some)"

definition test_bw_limit_send ::
    "'c Machine \<Rightarrow> 'c Sender \<Rightarrow> int \<Rightarrow> int \<Rightarrow> int \<Rightarrow> int \<Rightarrow> 'c \<Rightarrow> (u64 status_or \<times> 'c) option" where
  "test_bw_limit_send m sdr cnt sz unack max_msgps s = (
     if max_msgps = 0 then None
     else (let nanodelay = word_of_int (1000000000 sdiv max_msgps)
           in bw_send_with (\<lambda>start i. busy_wait (m_now m) (sleep_end_time start nanodelay i))
                m sdr cnt sz unack s))"

section \<open>Batches\<close>

fun alloc_batches ::
    "'c Machine \<Rightarrow> 'c BatchSender \<Rightarrow> int \<Rightarrow> int \<Rightarrow> nat \<Rightarrow> SendRegion list list \<Rightarrow> 'c \<Rightarrow>
     (SendRegion list list status_or \<times> 'c) option" where
  "alloc_batches m sdr sz batch 0 bs s = Some (Inr bs, s)"
| "alloc_batches m sdr sz batch (Suc n) bs s = do {
     (r, s) \<leftarrow> alloc_bufs m sdr sz (int_range 0 batch) [] s;
     (case r of Inl st \<Rightarrow> Some (Inl st, s)
      | Inr b \<Rightarrow> alloc_batches m sdr sz batch n (bs @ [b]) s) }"

text \<open>\<open>(double)size*(double)batch*count_batch/(dur/1e9)\<close>.\<close>

definition batch_rate :: "int \<Rightarrow> int \<Rightarrow> int \<Rightarrow> int \<Rightarrow> u64 option" where
  "batch_rate sz batch count_batch ns = do {
     seconds \<leftarrow> ddiv (double_of ns) (double_of 1000000000);
     rate \<leftarrow> ddiv (dmul (dmul (double_of sz) (double_of batch)) (double_of count_batch)) seconds;
     to_uint64 rate }"

definition batch_measure ::
    "'c Machine \<Rightarrow> 'c BatchSender \<Rightarrow> int \<Rightarrow> int \<Rightarrow> int \<Rightarrow> int \<Rightarrow> SendRegion list list \<Rightarrow> 'c \<Rightarrow>
     (u64 status_or \<times> 'c) option" where
  "batch_measure m sdr sz batch unack_batch count_batch batches s = do {
     (start, s) \<leftarrow> m_now m s;
     (st, ids, s) \<leftarrow> run_window (\<lambda>_. Some) (\<lambda>k. bs_SendAsync sdr (batches ! k)) sdr
       (concat batches) unack_batch count_batch s;
     if \<not> status_ok st then Some (Inl st, s)
     else do {
       (finish, s) \<leftarrow> m_now m s;
       rate \<leftarrow> batch_rate sz batch count_batch (finish - start);
       Some (Inr rate, s) } }"

text \<open>
  A batch of 0 divides by zero, and a quotient \<open>unack/batch\<close> of 0 or less leaves no batch for
  the warm-up.
\<close>

definition test_bw_batch_send ::
    "'c Machine \<Rightarrow> 'c BatchSender \<Rightarrow> int \<Rightarrow> int \<Rightarrow> int \<Rightarrow> int \<Rightarrow> 'c \<Rightarrow> (u64 status_or \<times> 'c) option" where
  "test_bw_batch_send m sdr cnt sz batch unack s = (
     let unack_batch = unack sdiv batch; count_batch = cnt sdiv batch in
     if unack < batch then Some (Inl (Status InvalidArgument ''batch cannot be larger than unack''), s)
     else if cnt < unack then Some (Inl (Status InvalidArgument ''unack cannot be larger than count''), s)
     else if batch = 0 \<or> unack_batch \<le> 0 then None
     else do {
       (r, s) \<leftarrow> alloc_batches m sdr sz batch (nat unack_batch) [] s;
       (case r of
          Inl st \<Rightarrow> Some (Inl st, s)
        | Inr batches \<Rightarrow> do {
            (st, s) \<leftarrow> test_warmup_send_batch sdr (cnt sdiv 16) (batches ! 0) s;
            if \<not> status_ok st then Some (Inl (Wrap ''error during send warmup'' st), s)
            else batch_measure m sdr sz batch unack_batch count_batch batches s }) })"

section \<open>Receiving\<close>

text \<open>
  One round of receives, one per receiver, then, after every \<open>interval\<close> rounds, a measurement.
  The state is the round counter, the start of the interval and the measurements.
\<close>

record meter =
  mt_rounds :: int
  mt_start :: int
  mt_measurements :: "int list"

definition measure_round ::
    "'c Machine \<Rightarrow> 'c Receiver list \<Rightarrow> int \<Rightarrow> (int \<Rightarrow> double option) \<Rightarrow> int \<Rightarrow>
     meter \<times> 'c \<Rightarrow> (status \<times> meter \<times> 'c) option" where
  "measure_round m rcvers interval rate_of i = (\<lambda>(mt, s). do {
     let mt = mt\<lparr>mt_rounds := mt_rounds mt + 1\<rparr>;
     (st, s) \<leftarrow> for_each (receive_free ''error receiving buffer'') rcvers s;
     if \<not> status_ok st then Some (st, mt, s)
     else if mt_rounds mt = interval then do {
       (now, s) \<leftarrow> m_now m s;
       rate \<leftarrow> rate_of (now - mt_start mt);
       v \<leftarrow> to_long rate;
       Some (Status0, \<lparr>mt_rounds = 0, mt_start = now, mt_measurements = mt_measurements mt @ [v]\<rparr>, s) }
     else Some (Status0, mt, s) })"

definition median_of :: "int list \<Rightarrow> int option" where
  "median_of ms = (let k = length ms div 2 in if k < length ms then Some (sort ms ! k) else None)"

definition rate_with :: "double \<Rightarrow> int \<Rightarrow> double option" where
  "rate_with bytes ns = do {
     seconds \<leftarrow> ddiv (double_of ns) (double_of 1000000000);
     ddiv bytes seconds }"

text \<open>\<open>count/interval\<close> divides by zero when nothing is to be received.\<close>

definition bw_recv_loop ::
    "'c Machine \<Rightarrow> 'c Receiver list \<Rightarrow> int \<Rightarrow> double \<Rightarrow> 'c \<Rightarrow> (u64 status_or \<times> 'c) option" where
  "bw_recv_loop m rcvers cnt bytes s = do {
     let interval = min cnt 5000;
     (start, s) \<leftarrow> m_now m s;
     (st, mt, s) \<leftarrow> for_each (measure_round m rcvers interval (rate_with bytes)) (int_range 0 cnt)
       (\<lparr>mt_rounds = 0, mt_start = start, mt_measurements = []\<rparr>, s);
     if \<not> status_ok st then Some (Inl st, s)
     else do {
       (finish, s) \<leftarrow> m_now m s;
       v \<leftarrow> median_of (mt_measurements mt);
       Some (Inr (word_of_int v), s) } }"

definition test_bw_recv ::
    "'c Machine \<Rightarrow> 'c Receiver \<Rightarrow> int \<Rightarrow> int \<Rightarrow> 'c \<Rightarrow> (u64 status_or \<times> 'c) option" where
  "test_bw_recv m rcv cnt sz s = (
     if cnt = 0 then None
     else do {
       (st, s) \<leftarrow> test_warmup_receive rcv (cnt sdiv 16) s;
       if \<not> status_ok st then Some (Inl (Wrap ''error during receive warmup'' st), s)
       else bw_recv_loop m [rcv] cnt (dmul (double_of (min cnt 5000)) (double_of sz)) s })"

text \<open>
  The variant over several receivers; \<open>interval*cn\<close> is a product of two \<open>int\<close>s.
\<close>

definition test_bw_recv_all ::
    "'c Machine \<Rightarrow> 'c Receiver list \<Rightarrow> int \<Rightarrow> int \<Rightarrow> 'c \<Rightarrow> (u64 status_or \<times> 'c) option" where
  "test_bw_recv_all m rcvers cnt sz s = (
     let per_interval = min cnt 5000 * int (length rcvers) in
     if cnt = 0 then None
     else do {
       (st, s) \<leftarrow> for_each (\<lambda>i. for_each (receive_free ''error freeing receive buffer'') rcvers)
         (int_range 0 (cnt sdiv 16)) s;
       if \<not> status_ok st then Some (Inl st, s)
       else if 2 ^ 31 \<le> per_interval then None
       else bw_recv_loop m rcvers cnt (dmul (double_of per_interval) (double_of sz)) s })"

end
