(* ===== verification/Bench_Trace.thy ===== *)
theory Bench_Trace
  imports Bandwidth
begin

text \<open>
  What the bandwidth tests do to a sender: any sender is wrapped so that its calls are recorded,
  and the recorded calls of a whole successful run are given exactly. A region or batch is sent
  again only after its previous send was waited for.
\<close>

section \<open>Recording the calls of a sender\<close>

datatype bench_event =
    Got SendRegion
  | Freed SendRegion
  | Sent "SendRegion list" bool
  | Started "SendRegion list" u64
  | Waited u64 bool

definition record_op ::
    "('r \<Rightarrow> 'e list) \<Rightarrow> ('c \<Rightarrow> ('r \<times> 'c) option) \<Rightarrow>
     'c \<times> 'e list \<Rightarrow> ('r \<times> 'c \<times> 'e list) option" where
  "record_op what f = (\<lambda>(s, tr). do { (r, s) \<leftarrow> f s; Some (r, s, tr @ what r) })"

definition on_value :: "('a \<Rightarrow> bench_event) \<Rightarrow> 'a status_or \<Rightarrow> bench_event list" where
  "on_value ev r = (case r of Inl _ \<Rightarrow> [] | Inr v \<Rightarrow> [ev v])"

definition traced :: "'c Sender \<Rightarrow> ('c \<times> bench_event list) Sender" where
  "traced sdr = \<lparr>
     s_GetMemoryRegion = (\<lambda>n. record_op (on_value Got) (s_GetMemoryRegion sdr n)),
     s_Free = (\<lambda>b. record_op (\<lambda>_. [Freed b]) (s_Free sdr b)),
     s_SendAsync = (\<lambda>b. record_op (on_value (Started [b])) (s_SendAsync sdr b)),
     s_Wait = (\<lambda>i. record_op (\<lambda>st. [Waited i (status_ok st)]) (s_Wait sdr i)),
     s_Send = (\<lambda>b. record_op (\<lambda>st. [Sent [b] (status_ok st)]) (s_Send sdr b))\<rparr>"

definition traced_batch :: "'c BatchSender \<Rightarrow> ('c \<times> bench_event list) BatchSender" where
  "traced_batch sdr = \<lparr>
     s_GetMemoryRegion = (\<lambda>n. record_op (on_value Got) (s_GetMemoryRegion sdr n)),
     s_Free = (\<lambda>b. record_op (\<lambda>_. [Freed b]) (s_Free sdr b)),
     s_SendAsync = (\<lambda>b. record_op (on_value (Started [b])) (s_SendAsync sdr b)),
     s_Wait = (\<lambda>i. record_op (\<lambda>st. [Waited i (status_ok st)]) (s_Wait sdr i)),
     bs_Send = (\<lambda>bs. record_op (\<lambda>st. [Sent bs (status_ok st)]) (bs_Send sdr bs)),
     bs_SendAsync = (\<lambda>bs. record_op (on_value (Started bs)) (bs_SendAsync sdr bs))\<rparr>"

definition traced_machine :: "'c Machine \<Rightarrow> ('c \<times> bench_event list) Machine" where
  "traced_machine m = \<lparr>
     m_now = record_op (\<lambda>_. []) (m_now m),
     m_put_int = (\<lambda>a i (s, tr). (m_put_int m a i s, tr)),
     m_get_int = (\<lambda>a. record_op (\<lambda>_. []) (m_get_int m a))\<rparr>"

lemma record_op_trace:
  "record_op what f (s, tr) = Some (r, s', tr') \<Longrightarrow> tr' = tr @ what r"
  by (auto simp: record_op_def elim!: bindE)

lemmas traced_defs = traced_def traced_batch_def traced_machine_def

section \<open>The window\<close>

text \<open>The calls of the first \<open>n\<close> sends over \<open>u\<close> slots, when they returned the ids \<open>ids\<close>.\<close>

definition window_event :: "(nat \<Rightarrow> u64 \<Rightarrow> bench_event) \<Rightarrow> nat \<Rightarrow> u64 list \<Rightarrow> nat \<Rightarrow> bench_event list" where
  "window_event ev u ids i =
     (if i < u then [] else [Waited (ids ! (i - u)) True]) @ [ev (i mod u) (ids ! i)]"

definition window_events :: "(nat \<Rightarrow> u64 \<Rightarrow> bench_event) \<Rightarrow> nat \<Rightarrow> u64 list \<Rightarrow> bench_event list" where
  "window_events ev u ids = concat (map (window_event ev u ids) [0..<length ids])"

text \<open>The number of the newest send of slot \<open>k\<close>.\<close>

definition newest :: "nat \<Rightarrow> nat \<Rightarrow> nat \<Rightarrow> nat" where
  "newest u n k = n - 1 - (n - 1 - k) mod u"

lemma window_events_Nil [simp]: "window_events ev u [] = []"
  by (simp add: window_events_def)

lemma window_events_snoc:
  "window_events ev u (ids @ [w]) = window_events ev u ids @
     (if length ids < u then [] else [Waited (ids ! (length ids - u)) True]) @
     [ev (length ids mod u) w]"
  if "0 < u"
proof -
  have "map (window_event ev u (ids @ [w])) [0..<length ids] = map (window_event ev u ids) [0..<length ids]"
    using that by (intro map_cong) (auto simp: window_event_def nth_append)
  moreover have "window_event ev u (ids @ [w]) (length ids) =
      (if length ids < u then [] else [Waited (ids ! (length ids - u)) True]) @ [ev (length ids mod u) w]"
    using that by (auto simp: window_event_def nth_append)
  ultimately show ?thesis by (simp add: window_events_def del: map_eq_conv)
qed

text \<open>The array holds the id of the newest send of each slot.\<close>

definition window_inv ::
    "(nat \<Rightarrow> u64 \<Rightarrow> bench_event) \<Rightarrow> nat \<Rightarrow> bench_event list \<Rightarrow> nat \<Rightarrow>
     u64 list \<times> 'c \<times> bench_event list \<Rightarrow> bool" where
  "window_inv ev u tr0 n = (\<lambda>(arr, s, tr). \<exists>ids. length ids = n \<and> length arr = u \<and>
     tr = tr0 @ window_events ev u ids \<and> (\<forall>i<n. n \<le> i + u \<longrightarrow> arr ! (i mod u) = ids ! i))"

lemma mod_eq_window:
  fixes i n u :: nat
  assumes "i mod u = n mod u" and "i < n" and "n < i + u"
  shows "False"
proof -
  have "u dvd n - i" using mod_eq_dvd_iff_nat [of i n u] assms(1,2) by simp
  then show False using assms(2,3) by (auto dest: dvd_imp_le)
qed

lemma window_inv_step:
  assumes "window_inv ev u tr0 n (arr, s, tr)" and "0 < u"
    and "tr' = tr @ (if n < u then [] else [Waited (arr ! (n mod u)) True]) @ [ev (n mod u) w]"
  shows "window_inv ev u tr0 (Suc n) (arr[n mod u := w], s', tr')"
proof -
  from assms(1) obtain ids where ids: "length ids = n" "length arr = u"
    "tr = tr0 @ window_events ev u ids" "\<forall>i<n. n \<le> i + u \<longrightarrow> arr ! (i mod u) = ids ! i"
    by (auto simp: window_inv_def)
  have old: "arr ! (n mod u) = ids ! (n - u)" if "\<not> n < u"
    using ids(4) [rule_format, of "n - u"] that assms(2) by (simp add: le_mod_geq)
  have new: "arr[n mod u := w] ! (i mod u) = (ids @ [w]) ! i" if "i < Suc n" "Suc n \<le> i + u" for i
  proof (cases "i = n")
    case True
    then show ?thesis using ids(1,2) assms(2) by (simp add: nth_append)
  next
    case False
    then have "i < n" "i mod u \<noteq> n mod u" using that mod_eq_window [of i u n] by auto
    then show ?thesis using ids that by (simp add: nth_append)
  qed
  show ?thesis
    unfolding window_inv_def using ids assms(2,3) old new
    by (auto intro!: exI [of _ "ids @ [w]"] simp: window_events_snoc)
qed

text \<open>
  What the tests use of the operations they are given: each success leaves its mark, and a wait
  leaves one in any case.
\<close>

locale recording_sender =
  fixes sdr :: "('c \<times> bench_event list, 'z) SenderBase_scheme"
  assumes get_trace: "s_GetMemoryRegion sdr n (s, tr) = Some (Inr b, s', tr') \<Longrightarrow> tr' = tr @ [Got b]"
    and wait_trace: "s_Wait sdr wid (s, tr) = Some (st, s', tr') \<Longrightarrow> tr' = tr @ [Waited wid (status_ok st)]"
    and free_trace: "s_Free sdr b (s, tr) = Some (st, s', tr') \<Longrightarrow> tr' = tr @ [Freed b]"
begin

lemma alloc_bufs_ok:
  assumes "alloc_bufs (traced_machine m) sdr sz is bufs (s, tr) = Some (Inr bs, s', tr')"
  shows "\<exists>new. bs = bufs @ new \<and> length new = length is \<and> tr' = tr @ map Got new"
  using assms
proof (induction "is" arbitrary: bufs s tr)
  case (Cons i "is")
  then obtain b s1 tr1 where 1: "s_GetMemoryRegion sdr (word_of_int sz) (s, tr) = Some (Inr b, s1, tr1)"
      "alloc_bufs (traced_machine m) sdr sz is (bufs @ [b])
         (m_put_int (traced_machine m) (reg_addr b) i (s1, tr1)) = Some (Inr bs, s', tr')"
    by (auto elim!: bindE split: sum.splits)
  then have 2: "alloc_bufs (traced_machine m) sdr sz is (bufs @ [b]) (m_put_int m (reg_addr b) i s1, tr1) =
      Some (Inr bs, s', tr')"
    by (simp add: traced_machine_def)
  from Cons.IH [OF 2] get_trace [OF 1(1)] show ?case by auto
qed simp

lemma drain_window_ok:
  assumes "drain_window sdr ws (s, tr) = Some (s', tr')"
  shows "\<exists>oks. length oks = length ws \<and>
    tr' = tr @ concat (map2 (\<lambda>(wid, b) ok. [Waited wid ok, Freed b]) ws oks)"
  using assms
proof (induction ws arbitrary: s tr)
  case (Cons w ws)
  obtain wid b where w: "w = (wid, b)" by (cases w)
  from Cons.prems obtain st1 s1 tr1 st2 s2 tr2 where
    1: "s_Wait sdr wid (s, tr) = Some (st1, s1, tr1)" "s_Free sdr b (s1, tr1) = Some (st2, s2, tr2)"
      "drain_window sdr ws (s2, tr2) = Some (s', tr')"
    by (auto simp: w elim!: bindE)
  from Cons.IH [OF 1(3)] obtain oks where "length oks = length ws"
    "tr' = tr2 @ concat (map2 (\<lambda>(wid, b) ok. [Waited wid ok, Freed b]) ws oks)" by auto
  then show ?case using wait_trace [OF 1(1)] free_trace [OF 1(2)]
    by (intro exI [of _ "status_ok st1 # oks"]) (simp add: w)
qed simp

end

locale window_sender = recording_sender sdr
  for sdr :: "('c \<times> bench_event list, 'z) SenderBase_scheme" +
  fixes send :: "nat \<Rightarrow> 'c \<times> bench_event list \<Rightarrow> (u64 status_or \<times> 'c \<times> bench_event list) option"
    and pace :: "int \<Rightarrow> 'c \<times> bench_event list \<Rightarrow> ('c \<times> bench_event list) option"
    and ev :: "nat \<Rightarrow> u64 \<Rightarrow> bench_event"
  assumes send_trace: "send k (s, tr) = Some (Inr w, s', tr') \<Longrightarrow> tr' = tr @ [ev k w]"
    and pace_trace: "pace i (s, tr) = Some (s', tr') \<Longrightarrow> tr' = tr"
begin

lemma start_slot_ok:
  assumes "start_slot send sdr bufs k (arr, s, tr) = Some (st, arr', s', tr')" and "status_ok st"
  shows "\<exists>w. arr' = arr[k := w] \<and> tr' = tr @ [ev k w]"
proof -
  from assms obtain w where "send k (s, tr) = Some (Inr w, s', tr')" "arr' = arr[k := w]"
    by (auto simp: start_slot_def elim!: bindE split: sum.splits if_splits)
  then show ?thesis using send_trace by blast
qed

lemma refill_slot_ok:
  assumes "refill_slot pace send sdr bufs u i (arr, s, tr) = Some (st, arr', s', tr')" and "status_ok st"
  shows "\<exists>w. arr' = arr[nat (i mod u) := w] \<and>
    tr' = tr @ [Waited (arr ! nat (i mod u)) True, ev (nat (i mod u)) w]"
proof -
  from assms obtain st1 s1 tr1 s2 tr2 where 1: "s_Wait sdr (arr ! nat (i mod u)) (s, tr) = Some (st1, s1, tr1)"
      "status_ok st1" "pace i (s1, tr1) = Some (s2, tr2)"
      "start_slot send sdr bufs (nat (i mod u)) (arr, s2, tr2) = Some (st, arr', s', tr')"
    unfolding refill_slot_def Let_def by (auto elim!: bindE split: if_splits)
  show ?thesis
    using start_slot_ok [OF 1(4) assms(2)] wait_trace [OF 1(1)] pace_trace [OF 1(3)] 1(2) by auto
qed

text \<open>The first loop fills the slots, the second one refills them in turn.\<close>

lemma run_window_ok:
  assumes run: "run_window pace send sdr bufs (int u) cnt (s, tr) = Some (st, arr, s', tr')"
    and ok: "status_ok st" and u: "0 < u"
  shows "window_inv ev u tr (nat (max cnt (int u))) (arr, s', tr')"
proof -
  from run ok obtain arr1 s1 tr1 st1 where
    1: "for_each (\<lambda>i. start_slot send sdr bufs (nat i)) (int_range 0 (int u)) (replicate u 0, s, tr) =
          Some (st1, arr1, s1, tr1)" "status_ok st1" and
    2: "for_each (refill_slot pace send sdr bufs (int u)) (int_range (int u) cnt) (arr1, s1, tr1) =
          Some (st, arr, s', tr')"
    unfolding run_window_def by (auto elim!: bindE split: if_splits)
  have "window_inv ev u tr (length (int_range 0 (int u))) (arr1, s1, tr1)"
  proof (rule for_each_rule [OF 1, where I = "window_inv ev u tr"])
    show "window_inv ev u tr 0 (replicate u 0, s, tr)" by (simp add: window_inv_def)
  next
    fix k t st' t'
    assume k: "k < length (int_range 0 (int u))" and inv: "window_inv ev u tr k t"
      and step: "start_slot send sdr bufs (nat (int_range 0 (int u) ! k)) t = Some (st', t')" "status_ok st'"
    obtain a b c a' b' c' where t: "t = (a, b, c)" "t' = (a', b', c')" by (cases t; cases t') auto
    show "window_inv ev u tr (Suc k) t'"
      using window_inv_step [OF inv [unfolded t] u] start_slot_ok [OF step [unfolded t]] k
      by (auto simp: t int_range_def)
  qed
  then have start: "window_inv ev u tr (u + 0) (arr1, s1, tr1)" by simp
  have "window_inv ev u tr (u + length (int_range (int u) cnt)) (arr, s', tr')"
  proof (rule for_each_rule [OF 2 ok, where I = "\<lambda>k. window_inv ev u tr (u + k)"])
    show "window_inv ev u tr (u + 0) (arr1, s1, tr1)" by (rule start)
  next
    fix k t st' t'
    assume k: "k < length (int_range (int u) cnt)" and inv: "window_inv ev u tr (u + k) t"
      and step: "refill_slot pace send sdr bufs (int u) (int_range (int u) cnt ! k) t = Some (st', t')" "status_ok st'"
    obtain a b c a' b' c' where t: "t = (a, b, c)" "t' = (a', b', c')" by (cases t; cases t') auto
    have "int_range (int u) cnt ! k = int (u + k)" using k by (simp add: int_range_def)
    then have slot: "nat (int_range (int u) cnt ! k mod int u) = (u + k) mod u"
      by (metis nat_int of_nat_mod)
    show "window_inv ev u tr (u + Suc k) t'"
      using window_inv_step [OF inv [unfolded t] u] refill_slot_ok [OF step [unfolded t]] k
      by (auto simp: t slot)
  qed
  moreover have "u + length (int_range (int u) cnt) = nat (max cnt (int u))" by auto
  ultimately show ?thesis by simp
qed

end

text \<open>After \<open>n\<close> sends the array of ids holds exactly the newest id of every slot.\<close>

lemma newest_slot:
  assumes "k < u" and "u \<le> n"
  shows "newest u n k < n" and "n \<le> newest u n k + u" and "newest u n k mod u = k"
proof -
  define q r where "q = (n - 1 - k) div u" and "r = (n - 1 - k) mod u"
  have split: "n - 1 - k = q * u + r" by (simp add: q_def r_def)
  have r: "r < u" using assms by (simp add: r_def)
  have "newest u n k = n - 1 - r" by (simp add: newest_def r_def)
  then have new: "newest u n k = k + q * u" using assms split by linarith
  show "newest u n k < n" "n \<le> newest u n k + u" using new split r assms by linarith+
  show "newest u n k mod u = k" using new assms by simp
qed

lemma window_inv_array:
  assumes "window_inv ev u tr0 n (arr, s, tr)" and "u \<le> n"
  obtains ids where "length ids = n" "tr = tr0 @ window_events ev u ids"
    "arr = map (\<lambda>k. ids ! newest u n k) [0..<u]"
proof -
  from assms(1) obtain ids where ids: "length ids = n" "length arr = u"
    "tr = tr0 @ window_events ev u ids" "\<forall>i<n. n \<le> i + u \<longrightarrow> arr ! (i mod u) = ids ! i"
    by (auto simp: window_inv_def)
  have "arr = map (\<lambda>k. ids ! newest u n k) [0..<u]"
  proof (rule nth_equalityI)
    fix k assume "k < length arr"
    then have k: "k < u" using ids(2) by simp
    show "arr ! k = map (\<lambda>k. ids ! newest u n k) [0..<u] ! k"
      using ids(4) [rule_format, OF newest_slot(1,2) [OF k assms(2)]] newest_slot(3) [OF k assms(2)] k
      by simp
  qed (simp add: ids)
  with ids that show thesis by blast
qed

end
