(* ===== verification/Bench_Window.thy ===== *)
theory Bench_Window
  imports Bench_Trace
begin

text \<open>
  The windowed senders of the benchmarks, whole runs: the plain and the rate limited bandwidth
  test never touch a region before its previous send was waited for, and end with everything
  waited for and freed; the batched test leaves its last window unfinished.
\<close>

section \<open>The recorded senders meet the contract\<close>

lemma record_value_trace:
  "record_op (on_value ev) f (s, tr) = Some (Inr v, s', tr') \<Longrightarrow> tr' = tr @ [ev v]"
  by (auto dest!: record_op_trace simp: on_value_def)

interpretation single_rec: recording_sender "traced sdr" for sdr
  by unfold_locales (auto simp: traced_def dest!: record_op_trace simp: on_value_def)

interpretation batch_rec: recording_sender "traced_batch sdr" for sdr
  by unfold_locales (auto simp: traced_batch_def dest!: record_op_trace simp: on_value_def)

lemma busy_wait_trace:
  fixes m :: "'a Machine"
  assumes run: "busy_wait (m_now (traced_machine m)) t p = Some p'"
  shows "snd p' = snd p"
proof -
  define P where "P = (\<lambda>(now :: 'a \<times> bench_event list \<Rightarrow> (int \<times> 'a \<times> bench_event list) option) (t :: int)
       (p :: 'a \<times> bench_event list) (p' :: 'a \<times> bench_event list).
     now = m_now (traced_machine m) \<longrightarrow> snd p' = snd p)"
  have "P (m_now (traced_machine m)) t p p'"
  proof (rule busy_wait.raw_induct [where P = P, OF _ run])
    fix f now t p r
    assume IH: "\<And>now t p r. f now t p = Some r \<Longrightarrow> P now t p r"
      and step: "do { (v, s) \<leftarrow> now p; if v < t then f now t s else Some s } = Some r"
    show "P now t p r"
      unfolding P_def
    proof safe
      assume now: "now = m_now (traced_machine m)"
      from step [unfolded now] obtain v q where q: "m_now (traced_machine m) p = Some (v, q)"
        "(if v < t then f (m_now (traced_machine m)) t q else Some q) = Some r"
        by (auto elim!: bindE)
      have "snd q = snd p" using q(1)
        by (cases p; cases q) (auto simp: traced_machine_def dest!: record_op_trace)
      with q(2) show "snd r = snd p"
        by (auto split: if_splits dest!: IH simp: P_def)
    qed
  qed
  then show ?thesis by (simp add: P_def)
qed

interpretation plain: window_sender "traced sdr" "\<lambda>k. s_SendAsync (traced sdr) (bufs ! k)" "\<lambda>_. Some"
    "\<lambda>k. Started [bufs ! k]" for sdr bufs
  by unfold_locales (auto simp: traced_def dest!: record_value_trace)

interpretation paced: window_sender "traced sdr" "\<lambda>k. s_SendAsync (traced sdr) (bufs ! k)"
    "\<lambda>i. busy_wait (m_now (traced_machine m)) (deadline i)" "\<lambda>k. Started [bufs ! k]" for sdr bufs m deadline
  by unfold_locales (auto simp: traced_def dest!: record_value_trace busy_wait_trace)

interpretation batched: window_sender "traced_batch sdr" "\<lambda>k. bs_SendAsync (traced_batch sdr) (batches ! k)"
    "\<lambda>_. Some" "\<lambda>k. Started (batches ! k)" for sdr batches
  by unfold_locales (auto simp: traced_batch_def dest!: record_value_trace)

section \<open>Warm-up\<close>

lemma test_warmup_send_trace:
  assumes run: "test_warmup_send (traced_machine m) (traced sdr) cnt buf (s, tr) = Some (st, s', tr')"
    and ok: "status_ok st"
  shows "tr' = tr @ replicate (nat cnt) (Sent [buf] True)"
proof -
  define body where "body start i p = (do {
      (st, p) \<leftarrow> s_Send (traced sdr) buf p;
      if \<not> status_ok st then Some (Wrap ''error sending buffer'' st, p)
      else do {
        p \<leftarrow> busy_wait (m_now (traced_machine m)) (sleep_end_time start (word_of_int (5000000000 sdiv cnt)) i) p;
        Some (Status0, p) } })" for start i p
  from run obtain start s1 tr1 where
    1: "m_now (traced_machine m) (s, tr) = Some (start, s1, tr1)" and
    2: "for_each (body start) (int_range 0 cnt) (s1, tr1) = Some (st, s', tr')"
    by (auto simp: test_warmup_send_def body_def [abs_def] Let_def elim!: bindE split: if_splits)
  have tr1: "tr1 = tr" using 1 by (auto simp: traced_machine_def dest!: record_op_trace)
  have "snd (s', tr') = tr @ replicate (length (int_range 0 cnt)) (Sent [buf] True)"
  proof (rule for_each_rule [OF 2 ok, where I = "\<lambda>k p. snd p = tr @ replicate k (Sent [buf] True)"])
    show "snd (s1, tr1) = tr @ replicate 0 (Sent [buf] True)" by (simp add: tr1)
  next
    fix k p st1 p'
    assume inv: "snd p = tr @ replicate k (Sent [buf] True)"
      and step: "body start (int_range 0 cnt ! k) p = Some (st1, p')" "status_ok st1"
    obtain a b where p: "p = (a, b)" by (cases p)
    from step obtain st2 q where q: "s_Send (traced sdr) buf p = Some (st2, q)" "status_ok st2" "snd p' = snd q"
      by (auto simp: body_def elim!: bindE split: if_splits dest!: busy_wait_trace)
    then have "snd q = b @ [Sent [buf] True]"
      by (cases q) (auto simp: traced_def p dest!: record_op_trace)
    then show "snd p' = tr @ replicate (Suc k) (Sent [buf] True)"
      using inv q(3) by (simp add: p replicate_append_same)
  qed
  then show ?thesis by simp
qed

lemma test_warmup_send_batch_trace:
  assumes run: "test_warmup_send_batch (traced_batch sdr) cnt bufs (s, tr) = Some (st, s', tr')"
    and ok: "status_ok st"
  shows "tr' = tr @ map (\<lambda>k. Sent [bufs ! (k mod length bufs)] True) [0..<nat cnt]"
proof -
  let ?I = "\<lambda>k p. snd p = tr @ map (\<lambda>k. Sent [bufs ! (k mod length bufs)] True) [0..<k]"
  have "?I (length (int_range 0 cnt)) (s', tr')"
  proof (rule for_each_rule [OF run [unfolded test_warmup_send_batch_def] ok, where I = ?I])
    show "?I 0 (s, tr)" by simp
  next
    fix k p st1 p'
    assume k: "k < length (int_range 0 cnt)" and inv: "?I k p"
      and step: "(if bufs = [] then None else do {
          (st, s) \<leftarrow> bs_Send (traced_batch sdr) [bufs ! nat (int_range 0 cnt ! k mod int (length bufs))] p;
          Some (if status_ok st then Status0 else Wrap ''error sending buffer'' st, s) }) = Some (st1, p')"
        "status_ok st1"
    have slot: "nat (int_range 0 cnt ! k mod int (length bufs)) = k mod length bufs"
      using k by (simp add: int_range_def nat_mod_as_int)
    obtain a b a' b' where p: "p = (a, b)" "p' = (a', b')" by (cases p; cases p') auto
    from step obtain st2 where "bs_Send (traced_batch sdr) [bufs ! (k mod length bufs)] p = Some (st2, p')"
        "status_ok st2"
      by (auto simp: slot elim!: bindE split: if_splits)
    then have "b' = b @ [Sent [bufs ! (k mod length bufs)] True]"
      by (auto simp: traced_batch_def p dest!: record_op_trace)
    then show "?I (Suc k) p'" using inv by (simp add: p)
  qed
  then show ?thesis by simp
qed

section \<open>Whole runs\<close>

text \<open>
  The calls of a complete run: the regions are allocated, the first one is used for the warm-up,
  then come the windowed sends, and at last each slot is waited for and freed.
\<close>

definition window_run :: "SendRegion list \<Rightarrow> nat \<Rightarrow> u64 list \<Rightarrow> bool list \<Rightarrow> bench_event list" where
  "window_run bufs warm ids oks =
     map Got bufs @ replicate warm (Sent [bufs ! 0] True) @
     window_events (\<lambda>k. Started [bufs ! k]) (length bufs) ids @
     concat (map (\<lambda>k. [Waited (ids ! newest (length bufs) (length ids) k) (oks ! k), Freed (bufs ! k)])
       [0..<length bufs])"

lemma bw_send_with_trace:
  assumes run: "bw_send_with pace (traced_machine m) (traced sdr) cnt sz unack (s, []) = Some (Inr rate, s', tr)"
    and window: "\<And>start bufs. window_sender (traced sdr) (\<lambda>k. s_SendAsync (traced sdr) (bufs ! k))
      (pace start) (\<lambda>k. Started [bufs ! k])"
  shows "\<exists>bufs ids oks. 0 < unack \<and> length bufs = nat unack \<and> length ids = nat (max cnt unack) \<and>
    length oks = nat unack \<and> tr = window_run bufs (nat (cnt sdiv 16)) ids oks"
proof -
  let ?m = "traced_machine m" and ?s = "traced sdr"
  from run obtain bufs s1 tr1 where
    1: "alloc_bufs ?m ?s sz (int_range 0 unack) [] (s, []) = Some (Inr bufs, s1, tr1)" and
    ne: "bufs \<noteq> []" and
    r1: "do {
        (st, p) \<leftarrow> test_warmup_send ?m ?s (cnt sdiv 16) (bufs ! 0) (s1, tr1);
        if \<not> status_ok st then Some (Inl (Wrap ''error during send warmup'' st), p)
        else bw_measure pace ?m ?s cnt sz unack bufs p } = Some (Inr rate, s', tr)"
    unfolding bw_send_with_def by (auto elim!: bindE split: sum.splits if_splits)
  from r1 obtain st2 s2 tr2 where
    2: "test_warmup_send ?m ?s (cnt sdiv 16) (bufs ! 0) (s1, tr1) = Some (st2, s2, tr2)" "status_ok st2" and
    r2: "bw_measure pace ?m ?s cnt sz unack bufs (s2, tr2) = Some (Inr rate, s', tr)"
    by (auto elim!: bindE split: if_splits)
  from r2 obtain start s3 tr3 st4 arr s4 tr4 finish s5 tr5 where
    3: "m_now ?m (s2, tr2) = Some (start, s3, tr3)" and
    4: "run_window (pace start) (\<lambda>k. s_SendAsync ?s (bufs ! k)) ?s bufs unack cnt (s3, tr3) =
          Some (st4, arr, s4, tr4)" "status_ok st4" and
    5: "m_now ?m (s4, tr4) = Some (finish, s5, tr5)" and
    6: "drain_window ?s (zip arr bufs) (s5, tr5) = Some (s', tr)"
    unfolding bw_measure_def by (auto elim!: bindE split: if_splits)
  define u where "u = length bufs"
  have tr1: "length bufs = nat unack" "tr1 = map Got bufs"
    using single_rec.alloc_bufs_ok [OF 1] by auto
  have pos: "0 < u" using ne by (simp add: u_def)
  have u: "0 < u" "unack = int u" using pos tr1(1) by (auto simp: u_def)
  have tr3: "tr3 = map Got bufs @ replicate (nat (cnt sdiv 16)) (Sent [bufs ! 0] True)"
    using test_warmup_send_trace [OF 2] 3 tr1 by (auto simp: traced_machine_def dest!: record_op_trace)
  have inv: "window_inv (\<lambda>k. Started [bufs ! k]) u tr3 (nat (max cnt (int u))) (arr, s4, tr4)"
    using window_sender.run_window_ok [OF window 4(1) [unfolded u(2)] 4(2) u(1)] .
  from inv obtain ids where ids: "length ids = nat (max cnt (int u))"
      "tr4 = tr3 @ window_events (\<lambda>k. Started [bufs ! k]) u ids"
      "arr = map (\<lambda>k. ids ! newest u (nat (max cnt (int u))) k) [0..<u]"
    by (rule window_inv_array) auto
  have tr5: "tr5 = tr4" using 5 by (auto simp: traced_machine_def dest!: record_op_trace)
  from single_rec.drain_window_ok [OF 6] obtain oks where oks: "length oks = u"
      "tr = tr5 @ concat (map2 (\<lambda>(wid, b) ok. [Waited wid ok, Freed b]) (zip arr bufs) oks)"
    using ids(3) by (auto simp: u_def)
  have "map2 (\<lambda>(wid, b) ok. [Waited wid ok, Freed b]) (zip arr bufs) oks =
      map (\<lambda>k. [Waited (ids ! newest u (length ids) k) (oks ! k), Freed (bufs ! k)]) [0..<u]"
    using oks(1) ids(1,3) by (intro nth_equalityI) (auto simp: u_def)
  then show ?thesis
    using u ids(1,2) oks tr5 tr3
    by (intro exI [of _ bufs] exI [of _ ids] exI [of _ oks])
      (simp add: window_run_def u_def [symmetric])
qed

text \<open>
  C32: A bandwidth test, plain or rate limited, that returns a rate made exactly these calls: it got
  \<open>unack\<close> regions, sent the first one \<open>count/16\<close> times to warm up, then started
  \<open>max count unack\<close> sends over the regions in turn, the \<open>i\<close>-th only after the send \<open>i - unack\<close> of
  the same region had been waited for successfully, and at last waited for the newest send of
  every region and freed it. No region is written again while the card may still read it, and
  each is freed exactly once.
\<close>

theorem bw_send_window:
  assumes "test_bw_send (traced_machine m) (traced sdr) cnt sz unack (s, []) = Some (Inr rate, s', tr) \<or>
    test_bw_limit_send (traced_machine m) (traced sdr) cnt sz unack max_msgps (s, []) = Some (Inr rate, s', tr)"
  shows "\<exists>bufs ids oks. 0 < unack \<and> length bufs = nat unack \<and> length ids = nat (max cnt unack) \<and>
    length oks = nat unack \<and> tr = window_run bufs (nat (cnt sdiv 16)) ids oks"
  using assms
proof
  assume run: "test_bw_send (traced_machine m) (traced sdr) cnt sz unack (s, []) = Some (Inr rate, s', tr)"
  show ?thesis
    by (rule bw_send_with_trace [OF run [unfolded test_bw_send_def]]) (rule plain.window_sender_axioms)
next
  assume "test_bw_limit_send (traced_machine m) (traced sdr) cnt sz unack max_msgps (s, []) =
    Some (Inr rate, s', tr)"
  then have run: "bw_send_with (\<lambda>start i. busy_wait (m_now (traced_machine m))
      (sleep_end_time start (word_of_int (1000000000 sdiv max_msgps)) i)) (traced_machine m) (traced sdr)
      cnt sz unack (s, []) = Some (Inr rate, s', tr)"
    by (simp add: test_bw_limit_send_def Let_def split: if_splits)
  show ?thesis
    by (rule bw_send_with_trace [OF run]) (rule paced.window_sender_axioms)
qed

text \<open>
  A sender of the memory of a counter: it hands out regions by number and every send succeeds
  at once. The clock advances by a second at each reading.
\<close>

definition demo_sender :: "(nat \<times> int) Sender" where
  "demo_sender = \<lparr>
     s_GetMemoryRegion = (\<lambda>n (k, t). Some (Inr \<lparr>reg_context = 0, reg_addr = word_of_nat (64 * k),
       reg_length = ucast n, reg_lkey = 7\<rparr>, Suc k, t)),
     s_Free = (\<lambda>b s. Some (Status0, s)),
     s_SendAsync = (\<lambda>b (k, t). Some (Inr (word_of_nat k), Suc k, t)),
     s_Wait = (\<lambda>i s. Some (Status0, s)),
     s_Send = (\<lambda>b s. Some (Status0, s))\<rparr>"

definition demo_machine :: "(nat \<times> int) Machine" where
  "demo_machine = \<lparr>m_now = (\<lambda>(k, t). Some (t, k, t + 1000000000)), m_put_int = (\<lambda>a i s. s),
     m_get_int = (\<lambda>a s. Some (0, s))\<rparr>"

lemma bw_send_window_witness:
  "\<exists>rate s' tr. test_bw_send (traced_machine demo_machine) (traced demo_sender) 16 64 2 ((0, 0), []) =
      Some (Inr rate, s', tr) \<and> rate = 1024 \<and>
    (\<exists>bufs ids oks. length bufs = 2 \<and> length ids = 16 \<and> length oks = 2 \<and>
      tr = window_run bufs 1 ids oks)"
proof -
  have "map_option (\<lambda>(r, e). \<not> isl r \<and> projr r = 1024) (test_bw_send (traced_machine demo_machine)
      (traced demo_sender) 16 64 2 ((0, 0), [])) = Some True"
    by code_simp
  then obtain rate p where run: "test_bw_send (traced_machine demo_machine) (traced demo_sender) 16 64 2
      ((0, 0), []) = Some (Inr rate, p)" "rate = 1024"
    by (rule run_value)
  obtain s' tr where p: "p = (s', tr)" by (cases p)
  from bw_send_window [where max_msgps = 0, OF disjI1 [OF run(1) [unfolded p]]] run p show ?thesis
    by (auto simp: signed_divide_int_def)
qed

end
