(* ===== verification/Bench_Results.thy ===== *)
theory Bench_Results
  imports Bench_Window
begin

text \<open>
  What the remaining benchmarks compute: the batched sender, the result of the receiving side and
  the check of the latency receiver, and the message counts that are too small to run.
\<close>

section \<open>Batches\<close>

lemma alloc_batches_ok:
  assumes "alloc_batches (traced_machine m) (traced_batch sdr) sz batch n bs (s, tr) = Some (Inr bs', s', tr')"
  shows "\<exists>new. bs' = bs @ new \<and> length new = n \<and> (\<forall>b\<in>set new. length b = nat batch) \<and>
    tr' = tr @ map Got (concat new)"
  using assms
proof (induction n arbitrary: bs s tr)
  case (Suc n)
  then obtain b s1 tr1 where
    1: "alloc_bufs (traced_machine m) (traced_batch sdr) sz (int_range 0 batch) [] (s, tr) = Some (Inr b, s1, tr1)" and
    2: "alloc_batches (traced_machine m) (traced_batch sdr) sz batch n (bs @ [b]) (s1, tr1) = Some (Inr bs', s', tr')"
    by (auto elim!: bindE split: sum.splits)
  have b: "length b = nat batch" "tr1 = tr @ map Got b"
    using batch_rec.alloc_bufs_ok [OF 1] by auto
  from Suc.IH [OF 2] obtain new where "bs' = (bs @ [b]) @ new" "length new = n"
    "\<forall>b\<in>set new. length b = nat batch" "tr' = tr1 @ map Got (concat new)" by blast
  then show ?case using b by (intro exI [of _ "b # new"]) auto
qed simp

lemma batch_measure_trace:
  assumes "batch_measure (traced_machine m) (traced_batch sdr) sz batch (int u) cb batches (s, tr) =
      Some (Inr rate, s', tr')" and "0 < u"
  shows "\<exists>ids. length ids = nat (max cb (int u)) \<and>
    tr' = tr @ window_events (\<lambda>k. Started (batches ! k)) u ids"
proof -
  let ?m = "traced_machine m" and ?s = "traced_batch sdr"
  from assms(1) obtain start s1 tr1 st arr s2 tr2 finish s3 tr3 where
    1: "m_now ?m (s, tr) = Some (start, s1, tr1)" and
    2: "run_window (\<lambda>_. Some) (\<lambda>k. bs_SendAsync ?s (batches ! k)) ?s (concat batches) (int u) cb (s1, tr1) =
          Some (st, arr, s2, tr2)" "status_ok st" and
    3: "m_now ?m (s2, tr2) = Some (finish, s', tr')"
    unfolding batch_measure_def by (auto elim!: bindE split: if_splits)
  have tr1: "tr1 = tr" "tr' = tr2" using 1 3 by (auto simp: traced_machine_def dest!: record_op_trace)
  obtain ids where "length ids = nat (max cb (int u))"
      "tr2 = tr1 @ window_events (\<lambda>k. Started (batches ! k)) u ids"
    by (rule window_inv_array [OF batched.run_window_ok [OF 2 assms(2)]]) auto
  then show ?thesis using tr1 by auto
qed

lemma Freed_window_events: "(\<And>k w. Freed b \<noteq> ev k w) \<Longrightarrow> Freed b \<notin> set (window_events ev u ids)"
  by (auto simp: window_events_def window_event_def)

text \<open>
  The batched bandwidth test keeps the same discipline with batches, but it stops when the last
  batch has been started: its successful run ends with the last sends, the sends of the whole
  last window are never waited for, so the rate counts messages that may not have been sent, and
  no region is ever freed (the plain test waits for and frees every region).
\<close>

theorem batch_send_unfinished:
  assumes "test_bw_batch_send (traced_machine m) (traced_batch sdr) cnt sz batch unack (s, []) =
    Some (Inr rate, s', tr)"
  shows "\<exists>batches ids. length batches = nat (unack sdiv batch) \<and> (\<forall>b\<in>set batches. length b = nat batch) \<and>
    length ids = nat (max (cnt sdiv batch) (unack sdiv batch)) \<and>
    tr = map Got (concat batches) @
      map (\<lambda>k. Sent [batches ! 0 ! (k mod length (batches ! 0))] True) [0..<nat (cnt sdiv 16)] @
      window_events (\<lambda>k. Started (batches ! k)) (length batches) ids \<and>
    (\<forall>b. Freed b \<notin> set tr)"
proof -
  let ?m = "traced_machine m" and ?s = "traced_batch sdr"
  define u where "u = nat (unack sdiv batch)"
  from assms have pos: "0 < unack sdiv batch"
    by (auto simp: test_bw_batch_send_def Let_def split: if_splits)
  then have u: "unack sdiv batch = int u" "0 < u" by (auto simp: u_def)
  from assms obtain batches s1 tr1 where
    1: "alloc_batches ?m ?s sz batch u [] (s, []) = Some (Inr batches, s1, tr1)" and
    r1: "do {
        (st, p) \<leftarrow> test_warmup_send_batch ?s (cnt sdiv 16) (batches ! 0) (s1, tr1);
        if \<not> status_ok st then Some (Inl (Wrap ''error during send warmup'' st), p)
        else batch_measure ?m ?s sz batch (unack sdiv batch) (cnt sdiv batch) batches p } =
          Some (Inr rate, s', tr)"
    unfolding test_bw_batch_send_def Let_def u_def by (auto elim!: bindE split: sum.splits if_splits)
  from r1 obtain st2 s2 tr2 where
    2: "test_warmup_send_batch ?s (cnt sdiv 16) (batches ! 0) (s1, tr1) = Some (st2, s2, tr2)" "status_ok st2" and
    3: "batch_measure ?m ?s sz batch (int u) (cnt sdiv batch) batches (s2, tr2) = Some (Inr rate, s', tr)"
    unfolding u(1) by (auto elim!: bindE split: if_splits)
  have b: "length batches = u" "\<forall>b\<in>set batches. length b = nat batch" "tr1 = map Got (concat batches)"
    using alloc_batches_ok [OF 1] by auto
  from batch_measure_trace [OF 3 u(2)] obtain ids where ids: "length ids = nat (max (cnt sdiv batch) (int u))"
    "tr = tr2 @ window_events (\<lambda>k. Started (batches ! k)) u ids" by blast
  show ?thesis
    using b ids test_warmup_send_batch_trace [OF 2] Freed_window_events
    by (intro exI [of _ batches] exI [of _ ids]) (auto simp: u)
qed

definition demo_batch_sender :: "(nat \<times> int) BatchSender" where
  "demo_batch_sender = \<lparr>
     s_GetMemoryRegion = s_GetMemoryRegion demo_sender, s_Free = s_Free demo_sender,
     s_SendAsync = s_SendAsync demo_sender, s_Wait = s_Wait demo_sender,
     bs_Send = (\<lambda>bs s. Some (Status0, s)),
     bs_SendAsync = (\<lambda>bs (k, t). Some (Inr (word_of_nat k), Suc k, t))\<rparr>"

lemma batch_send_unfinished_witness:
  "\<exists>rate s' tr. test_bw_batch_send (traced_machine demo_machine) (traced_batch demo_batch_sender) 16 64 2 4 ((0, 0), []) =
      Some (Inr rate, s', tr) \<and> rate = 1024 \<and> (\<forall>b. Freed b \<notin> set tr) \<and>
      (\<exists>batches ids. length batches = 2 \<and> length ids = 8 \<and>
        tr = map Got (concat batches) @ [Sent [batches ! 0 ! 0] True] @
          window_events (\<lambda>k. Started (batches ! k)) 2 ids)"
proof -
  have "map_option (\<lambda>(r, e). \<not> isl r \<and> projr r = 1024) (test_bw_batch_send (traced_machine demo_machine)
      (traced_batch demo_batch_sender) 16 64 2 4 ((0, 0), [])) = Some True"
    by code_simp
  then obtain rate p where run: "test_bw_batch_send (traced_machine demo_machine)
      (traced_batch demo_batch_sender) 16 64 2 4 ((0, 0), []) = Some (Inr rate, p)" "rate = 1024"
    by (rule run_value)
  obtain s' tr where p: "p = (s', tr)" by (cases p)
  from batch_send_unfinished [OF run(1) [unfolded p]] obtain batches ids where
    "length batches = 2" "\<forall>b\<in>set batches. length b = 2" "length ids = 8" "\<forall>b. Freed b \<notin> set tr"
    "tr = map Got (concat batches) @ [Sent [batches ! 0 ! (0 mod length (batches ! 0))] True] @
       window_events (\<lambda>k. Started (batches ! k)) (length batches) ids"
    by (auto simp: signed_divide_int_def)
  then show ?thesis using run p by auto
qed

section \<open>Counts that are too small\<close>

text \<open>
  A bandwidth test of fewer than 16 messages divides by zero: the warm-up computes its delay
  as five seconds divided by \<open>count/16\<close>, which is 0. Once its regions are allocated the test
  returns nothing at all, neither a rate nor an error.
\<close>

theorem bw_send_small_count:
  assumes "alloc_bufs m sdr sz (int_range 0 unack) [] s = Some (Inr bufs, s1)" and "0 \<le> cnt" and "cnt < 16"
  shows "test_bw_send m sdr cnt sz unack s = None"
  using assms by (simp add: test_bw_send_def bw_send_with_def test_warmup_send_def signed_divide_int_def)

lemma bw_send_small_count_witness:
  "test_bw_send demo_machine demo_sender 15 64 2 (0, 0) = None"
proof -
  have "map_option (\<lambda>(r, e). \<not> isl r \<and> length (projr r) = 2)
      (alloc_bufs demo_machine demo_sender 64 (int_range 0 2) [] (0, 0)) = Some True"
    by code_simp
  then obtain bufs s1 where
    "alloc_bufs demo_machine demo_sender 64 (int_range 0 2) [] (0, 0) = Some (Inr bufs, s1)"
    by (rule run_value)
  from bw_send_small_count [OF this] show ?thesis by simp
qed

section \<open>What a receiving side does\<close>

text \<open>
  The trace of a receiving side: what it received, which numbers it read, what it gave back and
  whether that succeeded, and the readings of the clock, in the order they happened.
\<close>

datatype receive_event =
    Received ReceiveRegion
  | Loaded u64 int
  | Released ReceiveRegion bool
  | Clock int

definition logged :: "'c Receiver \<Rightarrow> ('c \<times> receive_event list) Receiver" where
  "logged rcv = \<lparr>
     r_Receive = record_op (\<lambda>r. case r of Inl _ \<Rightarrow> [] | Inr reg \<Rightarrow> [Received reg]) (r_Receive rcv),
     r_Free = (\<lambda>b. record_op (\<lambda>st. [Released b (status_ok st)]) (r_Free rcv b))\<rparr>"

definition warm_events :: "ReceiveRegion list \<Rightarrow> receive_event list" where
  "warm_events regs = concat (map (\<lambda>r. [Received r, Released r True]) regs)"

lemma warm_events_snoc [simp]:
  "warm_events [] = []" "warm_events (rs @ [r]) = warm_events rs @ [Received r, Released r True]"
  by (simp_all add: warm_events_def)

lemma receive_free_logged:
  assumes "receive_free what (logged rcv) (s, tr) = Some (st, s', tr')" and "status_ok st"
  obtains r where "tr' = tr @ [Received r, Released r True]"
proof -
  from assms obtain r s1 tr1 st1 where
    1: "r_Receive (logged rcv) (s, tr) = Some (Inr r, s1, tr1)"
      "r_Free (logged rcv) r (s1, tr1) = Some (st1, s', tr')" "status_ok st1"
    by (auto simp: receive_free_def elim!: bindE split: sum.splits if_splits)
  then have "tr' = tr @ [Received r, Released r True]"
    by (auto simp: logged_def dest!: record_op_trace)
  then show thesis by (rule that)
qed

lemma test_warmup_receive_logged:
  assumes "test_warmup_receive (logged rcv) cnt (s, []) = Some (st, s', tr)" and "status_ok st"
  obtains warm where "length warm = nat cnt" "tr = warm_events warm"
proof -
  have "\<exists>warm. length warm = length (int_range 0 cnt) \<and> snd (s', tr) = warm_events warm"
  proof (rule for_each_rule [OF assms(1) [unfolded test_warmup_receive_def] assms(2),
        where I = "\<lambda>k p. \<exists>warm. length warm = k \<and> snd p = warm_events warm"])
    fix k p st' p'
    assume inv: "\<exists>warm. length warm = k \<and> snd p = warm_events warm"
      and step: "receive_free ''error freeing receive buffer'' (logged rcv) p = Some (st', p')" "status_ok st'"
    obtain a b a' b' where p: "p = (a, b)" "p' = (a', b')" by (cases p; cases p') auto
    from inv obtain warm where warm: "length warm = k" "b = warm_events warm" by (auto simp: p)
    obtain r where "b' = b @ [Received r, Released r True]" by (rule receive_free_logged [OF step [unfolded p]])
    then show "\<exists>warm. length warm = Suc k \<and> snd p' = warm_events warm"
      using warm by (intro exI [of _ "warm @ [r]"]) (simp add: p)
  qed simp
  then obtain warm where "length warm = nat cnt" "tr = warm_events warm" by auto
  then show thesis by (rule that)
qed

section \<open>The median of the measurements\<close>

definition clocked :: "'c Machine \<Rightarrow> ('c \<times> receive_event list) Machine" where
  "clocked m = \<lparr>m_now = record_op (\<lambda>t. [Clock t]) (m_now m),
     m_put_int = (\<lambda>a i (s, tr). (m_put_int m a i s, tr)),
     m_get_int = (\<lambda>a. record_op (\<lambda>v. [Loaded a v]) (m_get_int m a))\<rparr>"

text \<open>
  The messages \<open>regs\<close>, each given back when it was received, and after every \<open>interval\<close> of them the
  next reading of the clock; reading 0 comes before them.
\<close>

definition metered_events :: "nat \<Rightarrow> ReceiveRegion list \<Rightarrow> int list \<Rightarrow> receive_event list" where
  "metered_events interval regs readings = concat (map (\<lambda>k. [Received (regs ! k), Released (regs ! k) True] @
     (if Suc k mod interval = 0 then [Clock (readings ! (Suc k div interval))] else [])) [0..<length regs])"

lemma metered_events_snoc:
  assumes "length rd = Suc (length regs div interval)"
  shows "Suc (length regs) mod interval \<noteq> 0 \<Longrightarrow>
      metered_events interval (regs @ [r]) rd = metered_events interval regs rd @ [Received r, Released r True]"
    and "Suc (length regs) mod interval = 0 \<Longrightarrow> metered_events interval (regs @ [r]) (rd @ [now]) =
      metered_events interval regs rd @ [Received r, Released r True, Clock now]"
proof -
  have old: "map (\<lambda>k. [Received ((regs @ [r]) ! k), Released ((regs @ [r]) ! k) True] @
      (if Suc k mod interval = 0 then [Clock ((rd @ xs) ! (Suc k div interval))] else [])) [0..<length regs] =
    map (\<lambda>k. [Received (regs ! k), Released (regs ! k) True] @
      (if Suc k mod interval = 0 then [Clock (rd ! (Suc k div interval))] else [])) [0..<length regs]" for xs
  proof (intro map_cong refl)
    fix k assume "k \<in> set [0..<length regs]"
    then have "k < length regs" "Suc k div interval \<le> length regs div interval" by (simp_all add: div_le_mono)
    then show "[Received ((regs @ [r]) ! k), Released ((regs @ [r]) ! k) True] @
        (if Suc k mod interval = 0 then [Clock ((rd @ xs) ! (Suc k div interval))] else []) =
      [Received (regs ! k), Released (regs ! k) True] @
        (if Suc k mod interval = 0 then [Clock (rd ! (Suc k div interval))] else [])"
      using assms by (simp add: nth_append)
  qed
  show "Suc (length regs) mod interval \<noteq> 0 \<Longrightarrow>
      metered_events interval (regs @ [r]) rd = metered_events interval regs rd @ [Received r, Released r True]"
    using old [of "[]", unfolded append_Nil2] by (simp add: metered_events_def del: map_eq_conv)
  show "metered_events interval (regs @ [r]) (rd @ [now]) =
      metered_events interval regs rd @ [Received r, Released r True, Clock now]"
    if full: "Suc (length regs) mod interval = 0"
  proof -
    have "Suc (length regs) div interval = length rd" using full assms by (simp add: div_Suc)
    then show ?thesis using old [of "[now]"] full by (simp add: metered_events_def del: map_eq_conv)
  qed
qed

text \<open>The measurements made from the clock readings \<open>ts\<close>, one per finished interval.\<close>

definition measured :: "double \<Rightarrow> int list \<Rightarrow> int list \<Rightarrow> bool" where
  "measured bytes ts ms \<longleftrightarrow> length ts = Suc (length ms) \<and>
     (\<forall>j<length ms. \<exists>rate. rate_with bytes (ts ! Suc j - ts ! j) = Some rate \<and> to_long rate = Some (ms ! j))"

lemma measured_snoc:
  assumes "measured bytes ts ms" and "rate_with bytes (now - last ts) = Some rate" and "to_long rate = Some v"
  shows "measured bytes (ts @ [now]) (ms @ [v])"
proof -
  have len: "length ts = Suc (length ms)" using assms(1) by (simp add: measured_def)
  then have "last ts = ts ! length ms" by (simp add: last_conv_nth flip: length_greater_0_conv)
  then show ?thesis using assms len by (cases rate) (auto simp: measured_def nth_append less_Suc_eq)
qed

text \<open>
  After \<open>k\<close> rounds: \<open>k div interval\<close> measurements were made, \<open>k mod interval\<close> rounds are under
  way since the last clock reading.
\<close>

definition meter_inv ::
    "receive_event list \<Rightarrow> double \<Rightarrow> nat \<Rightarrow> nat \<Rightarrow> meter \<times> 'c \<times> receive_event list \<Rightarrow> bool" where
  "meter_inv warm bytes interval k = (\<lambda>(mt, s, tr). mt_rounds mt = int (k mod interval) \<and>
     length (mt_measurements mt) = k div interval \<and>
     (\<exists>regs readings. length regs = k \<and> mt_start mt = last readings \<and> measured bytes readings (mt_measurements mt) \<and>
        tr = warm @ Clock (readings ! 0) # metered_events interval regs readings))"

lemma meter_inv_step:
  assumes step: "measure_round (clocked m) [logged rcv] (int interval) (rate_with bytes) i (mt, s, tr) =
      Some (st, mt', s', tr')" "status_ok st"
    and inv: "meter_inv warm bytes interval k (mt, s, tr)" and pos: "0 < interval"
  shows "meter_inv warm bytes interval (Suc k) (mt', s', tr')"
proof -
  let ?mt = "mt\<lparr>mt_rounds := mt_rounds mt + 1\<rparr>"
  from step obtain st1 s1 tr1 where
    1: "receive_free ''error receiving buffer'' (logged rcv) (s, tr) = Some (st1, s1, tr1)" "status_ok st1" and
    2: "(if mt_rounds ?mt = int interval then do {
        (now, s) \<leftarrow> m_now (clocked m) (s1, tr1);
        rate \<leftarrow> rate_with bytes (now - mt_start ?mt);
        v \<leftarrow> to_long rate;
        Some (Status0, \<lparr>mt_rounds = 0, mt_start = now, mt_measurements = mt_measurements ?mt @ [v]\<rparr>, s) }
      else Some (Status0, ?mt, s1, tr1)) = Some (st, mt', s', tr')"
    unfolding measure_round_def Let_def by (auto elim!: bindE split: if_splits)
  obtain r where tr1: "tr1 = tr @ [Received r, Released r True]" by (rule receive_free_logged [OF 1])
  from inv obtain regs rd where i: "mt_rounds mt = int (k mod interval)" "length (mt_measurements mt) = k div interval"
    "length regs = k" "mt_start mt = last rd" "measured bytes rd (mt_measurements mt)"
    "tr = warm @ Clock (rd ! 0) # metered_events interval regs rd"
    by (auto simp: meter_inv_def)
  have len: "length rd = Suc (length regs div interval)" using i(2,3,5) by (simp add: measured_def)
  note snoc = metered_events_snoc [OF len, of r]
  show ?thesis
  proof (cases "mt_rounds ?mt = int interval")
    case True
    then have full: "Suc (k mod interval) = interval" using i(1) by simp
    from 2 True obtain now rate v where 3: "m_now (clocked m) (s1, tr1) = Some (now, s', tr')"
      "rate_with bytes (now - mt_start mt) = Some rate" "to_long rate = Some v"
      "mt' = \<lparr>mt_rounds = 0, mt_start = now, mt_measurements = mt_measurements mt @ [v]\<rparr>"
      by (auto elim!: bindE)
    have tr': "tr' = tr1 @ [Clock now]" using 3(1) by (auto simp: clocked_def dest!: record_op_trace)
    have k: "Suc k mod interval = 0" "Suc k div interval = Suc (k div interval)"
      using full by (simp_all add: mod_Suc div_Suc)
    have "tr' = warm @ Clock ((rd @ [now]) ! 0) # metered_events interval (regs @ [r]) (rd @ [now])"
      using snoc(2) [of now] k(1) i(3,6) tr1 tr' len by (simp add: nth_append)
    moreover have "measured bytes (rd @ [now]) (mt_measurements mt @ [v])"
      by (rule measured_snoc [OF i(5) _ 3(3)]) (use 3(2) i(4) in simp)
    ultimately show ?thesis using k i(2,3)
      by (simp add: meter_inv_def 3(4)) (metis last_snoc length_append_singleton)
  next
    case False
    moreover have "mt_rounds ?mt = int (Suc (k mod interval))" using i(1) by simp
    ultimately have "Suc (k mod interval) \<noteq> interval" by metis
    then have k: "Suc k mod interval = Suc (k mod interval)" "Suc k div interval = k div interval"
      by (simp_all add: mod_Suc div_Suc)
    from 2 False have e: "mt' = ?mt" "tr' = tr1" by auto
    have "tr' = warm @ Clock (rd ! 0) # metered_events interval (regs @ [r]) rd"
      using snoc(1) k(1) i(3,6) tr1 e(2) by simp
    then show ?thesis using k i(1-5) by (simp add: meter_inv_def e(1)) (metis length_append_singleton)
  qed
qed

text \<open>The element in the middle of the sorted list splits the measurements in halves.\<close>

lemma median_halves:
  assumes "median_of ms = Some v"
  shows "v \<in> set ms" and "length ms < 2 * length (filter (\<lambda>x. x \<le> v) ms)"
    and "length ms \<le> 2 * length (filter (\<lambda>x. v \<le> x) ms)"
proof -
  define k where "k = length ms div 2"
  have k: "k < length (sort ms)" and v: "v = sort ms ! k"
    using assms by (auto simp: median_of_def k_def Let_def split: if_splits)
  show "v \<in> set ms" using k v by (metis nth_mem set_sort)
  have split: "length (filter P ms) = length (filter P (take n (sort ms))) + length (filter P (drop n (sort ms)))" for P n
    by (metis append_take_drop_id filter_append filter_sort length_append length_sort)
  have low: "x \<le> v" if "x \<in> set (take (Suc k) (sort ms))" for x
  proof -
    from that obtain i where "i < Suc k" "x = sort ms ! i" using k by (auto simp: in_set_conv_nth)
    then show ?thesis using k v sorted_nth_mono [of "sort ms" i k] by simp
  qed
  have high: "v \<le> x" if "x \<in> set (drop k (sort ms))" for x
  proof -
    from that obtain i where "i < length ms - k" "x = sort ms ! (k + i)" by (auto simp: in_set_conv_nth)
    then show ?thesis using v sorted_nth_mono [of "sort ms" k "k + i"] by simp
  qed
  have "filter (\<lambda>x. x \<le> v) (take (Suc k) (sort ms)) = take (Suc k) (sort ms)"
    using low by (simp add: filter_id_conv)
  then show "length ms < 2 * length (filter (\<lambda>x. x \<le> v) ms)"
    using k split [of "\<lambda>x. x \<le> v" "Suc k"] by (simp add: k_def)
  have "filter (\<lambda>x. v \<le> x) (drop k (sort ms)) = drop k (sort ms)"
    using high by (simp add: filter_id_conv)
  then show "length ms \<le> 2 * length (filter (\<lambda>x. v \<le> x) ms)"
    using k split [of "\<lambda>x. v \<le> x" k] by (simp add: k_def)
qed

lemma bw_recv_loop_ok:
  assumes run: "bw_recv_loop (clocked m) [logged rcv] cnt bytes (s, warm) = Some (Inr r, s', tr)"
  shows "\<exists>ms v regs readings t_end. 0 < cnt \<and> length regs = nat cnt \<and> measured bytes readings ms \<and>
    tr = warm @ [Clock (readings ! 0)] @ metered_events (nat (min cnt 5000)) regs readings @ [Clock t_end] \<and>
    length ms = nat (cnt div min cnt 5000) \<and> median_of ms = Some v \<and> r = word_of_int v"
proof -
  let ?m = "clocked m"
  from run obtain start s1 tr1 st mt s2 tr2 t_end v where
    1: "m_now ?m (s, warm) = Some (start, s1, tr1)" and
    2: "for_each (measure_round ?m [logged rcv] (min cnt 5000) (rate_with bytes)) (int_range 0 cnt)
          (\<lparr>mt_rounds = 0, mt_start = start, mt_measurements = []\<rparr>, s1, tr1) = Some (st, mt, s2, tr2)" and
    ok: "status_ok st" and
    3: "m_now ?m (s2, tr2) = Some (t_end, s', tr)" and
    4: "median_of (mt_measurements mt) = Some v" "r = word_of_int v"
    unfolding bw_recv_loop_def Let_def by (auto elim!: bindE split: if_splits)
  have tr1: "tr1 = warm @ [Clock start]" using 1 by (auto simp: clocked_def dest!: record_op_trace)
  have tr: "tr = tr2 @ [Clock t_end]" using 3 by (auto simp: clocked_def dest!: record_op_trace)
  have pos: "0 < cnt"
  proof (rule ccontr)
    assume "\<not> 0 < cnt"
    then have "mt_measurements mt = []" using 2 by auto
    then show False using 4(1) by (simp add: median_of_def)
  qed
  define interval where "interval = nat (min cnt 5000)"
  have interval: "0 < interval" "min cnt 5000 = int interval" using pos by (auto simp: interval_def)
  have "meter_inv warm bytes interval (length (int_range 0 cnt)) (mt, s2, tr2)"
  proof (rule for_each_rule [OF 2 ok, where I = "meter_inv warm bytes interval"])
    show "meter_inv warm bytes interval 0 (\<lparr>mt_rounds = 0, mt_start = start, mt_measurements = []\<rparr>, s1, tr1)"
      by (simp add: meter_inv_def tr1 metered_events_def, rule exI [of _ "[start]"]) (simp add: measured_def)
  next
    fix k p st' p'
    assume inv: "meter_inv warm bytes interval k p" and step: "measure_round ?m [logged rcv] (min cnt 5000)
      (rate_with bytes) (int_range 0 cnt ! k) p = Some (st', p')" "status_ok st'"
    obtain a b c a' b' c' where p: "p = (a, b, c)" "p' = (a', b', c')" by (cases p; cases p') auto
    show "meter_inv warm bytes interval (Suc k) p'"
      using meter_inv_step [OF step [unfolded p interval(2)] inv [unfolded p] interval(1)] by (simp add: p)
  qed
  moreover have "nat cnt div interval = nat (cnt div min cnt 5000)"
    using pos by (simp add: interval(2) nat_div_distrib)
  ultimately obtain regs readings where "length regs = nat cnt" "measured bytes readings (mt_measurements mt)"
    "tr2 = warm @ Clock (readings ! 0) # metered_events interval regs readings"
    "length (mt_measurements mt) = nat (cnt div min cnt 5000)"
    by (auto simp: meter_inv_def)
  then show ?thesis using pos tr 4 unfolding interval_def [symmetric] by (metis append.assoc append_Cons append_Nil)
qed

text \<open>
  C33: The receiving bandwidth test reports the median of its measurements. First it takes and gives
  back \<open>count/16\<close> warm-up messages, then it reads the clock; with \<open>interval\<close> the smaller of
  \<open>count\<close> and 5000, it then takes and gives back \<open>count\<close> messages and reads the clock again after
  every \<open>interval\<close> of them (and once more at the end). It makes \<open>count div interval\<close>
  measurements, each the number of bytes of an interval over the time between the two readings
  around it; the result is one of them, at least half of them are not above and at least half not
  below it. The index of the median is always in range.
\<close>

theorem bw_recv_median:
  assumes "test_bw_recv (clocked m) (logged rcv) cnt sz (s, []) = Some (Inr r, s', tr)"
  shows "\<exists>warm regs ms v readings t_end. 0 < cnt \<and> length warm = nat (cnt sdiv 16) \<and> length regs = nat cnt \<and>
    tr = warm_events warm @ [Clock (readings ! 0)] @ metered_events (nat (min cnt 5000)) regs readings @ [Clock t_end] \<and>
    measured (dmul (double_of (min cnt 5000)) (double_of sz)) readings ms \<and>
    length ms = nat (cnt div min cnt 5000) \<and> r = word_of_int v \<and> v \<in> set ms \<and>
    length ms < 2 * length (filter (\<lambda>x. x \<le> v) ms) \<and> length ms \<le> 2 * length (filter (\<lambda>x. v \<le> x) ms)"
proof -
  let ?bytes = "dmul (double_of (min cnt 5000)) (double_of sz)"
  from assms obtain st s1 tr1 where
    1: "test_warmup_receive (logged rcv) (cnt sdiv 16) (s, []) = Some (st, s1, tr1)" "status_ok st" and
    2: "bw_recv_loop (clocked m) [logged rcv] cnt ?bytes (s1, tr1) = Some (Inr r, s', tr)"
    unfolding test_bw_recv_def by (auto elim!: bindE split: if_splits)
  obtain warm where w: "length warm = nat (cnt sdiv 16)" "tr1 = warm_events warm"
    by (rule test_warmup_receive_logged [OF 1])
  from bw_recv_loop_ok [OF 2] obtain ms v regs readings t_end where b: "0 < cnt" "length regs = nat cnt"
    "measured ?bytes readings ms" "length ms = nat (cnt div min cnt 5000)" "median_of ms = Some v" "r = word_of_int v"
    "tr = tr1 @ [Clock (readings ! 0)] @ metered_events (nat (min cnt 5000)) regs readings @ [Clock t_end]"
    by blast
  show ?thesis using b w median_halves [OF b(5)]
    by (intro exI [of _ warm] exI [of _ regs] exI [of _ ms] exI [of _ v] exI [of _ readings] exI [of _ t_end]) simp
qed

definition demo_receiver :: "(nat \<times> int) Receiver" where
  "demo_receiver = \<lparr>
     r_Receive = (\<lambda>(k, t). Some (Inr \<lparr>reg_context = 0, reg_addr = word_of_nat k, reg_length = 64, reg_lkey = 7\<rparr>, Suc k, t)),
     r_Free = (\<lambda>b s. Some (Status0, s))\<rparr>"

lemma bw_recv_median_witness:
  "\<exists>s' tr ms warm regs readings t_end. test_bw_recv (clocked demo_machine) (logged demo_receiver) 20 64 ((0, 0), []) =
      Some (Inr 1280, s', tr) \<and> length warm = 1 \<and> length regs = 20 \<and> length ms = 1 \<and>
      (\<exists>v \<in> set ms. word_of_int v = (1280 :: u64)) \<and>
      tr = warm_events warm @ [Clock (readings ! 0)] @ metered_events 20 regs readings @ [Clock t_end]"
proof -
  have "map_option (\<lambda>(r, e). \<not> isl r \<and> projr r = 1280) (test_bw_recv (clocked demo_machine)
      (logged demo_receiver) 20 64 ((0, 0), [])) = Some True"
    by code_simp
  then obtain r p where run: "test_bw_recv (clocked demo_machine) (logged demo_receiver) 20 64 ((0, 0), []) =
      Some (Inr r, p)" "r = 1280"
    by (rule run_value) auto
  obtain s' tr where p: "p = (s', tr)" by (cases p)
  from bw_recv_median [OF run(1) [unfolded p]] obtain warm regs ms v readings t_end where
    "length warm = 1" "length regs = 20" "length ms = 1" "v \<in> set ms" "r = word_of_int v"
    "tr = warm_events warm @ [Clock (readings ! 0)] @ metered_events 20 regs readings @ [Clock t_end]"
    by (auto simp: signed_divide_int_def)
  note f = this
  have "test_bw_recv (clocked demo_machine) (logged demo_receiver) 20 64 ((0, 0), []) = Some (Inr 1280, s', tr)"
    using run p by simp
  moreover have "\<exists>v \<in> set ms. word_of_int v = (1280 :: u64)" using f(4,5) run(2) by (metis (full_types))
  ultimately show ?thesis using f(1-3,6) by (intro exI conjI)
qed

section \<open>The check of the latency receiver\<close>

definition logged_machine :: "'c Machine \<Rightarrow> ('c \<times> receive_event list) Machine" where
  "logged_machine m = \<lparr>m_now = record_op (\<lambda>_. []) (m_now m),
     m_put_int = (\<lambda>a i (s, tr). (m_put_int m a i s, tr)),
     m_get_int = (\<lambda>a. record_op (\<lambda>v. [Loaded a v]) (m_get_int m a))\<rparr>"

definition numbered_events :: "ReceiveRegion list \<Rightarrow> receive_event list" where
  "numbered_events regs = concat (map (\<lambda>k. [Received (regs ! k), Loaded (reg_addr (regs ! k)) (int k),
     Released (regs ! k) True]) [0..<length regs])"

lemma numbered_events_snoc [simp]:
  "numbered_events [] = []"
  "numbered_events (rs @ [r]) = numbered_events rs @
     [Received r, Loaded (reg_addr r) (int (length rs)), Released r True]"
proof -
  have "map (\<lambda>k. [Received ((rs @ [r]) ! k), Loaded (reg_addr ((rs @ [r]) ! k)) (int k), Released ((rs @ [r]) ! k) True])
      [0..<length rs] = map (\<lambda>k. [Received (rs ! k), Loaded (reg_addr (rs ! k)) (int k), Released (rs ! k) True])
      [0..<length rs]"
    by (intro map_cong) (auto simp: nth_append)
  then show "numbered_events (rs @ [r]) = numbered_events rs @
     [Received r, Loaded (reg_addr r) (int (length rs)), Released r True]"
    by (simp add: numbered_events_def del: map_eq_conv)
qed (simp add: numbered_events_def)

lemma lat_recv_round_logged:
  assumes "lat_recv_round (logged_machine m) (logged rcv) i (s, tr) = Some (st, s', tr')" and "status_ok st"
  obtains r where "tr' = tr @ [Received r, Loaded (reg_addr r) i, Released r True]"
proof -
  from assms obtain r s1 tr1 where
    1: "r_Receive (logged rcv) (s, tr) = Some (Inr r, s1, tr1)" and
    2: "do {
        (v, p) \<leftarrow> m_get_int (logged_machine m) (reg_addr r) (s1, tr1);
        if v \<noteq> i then do {
          (got, p) \<leftarrow> m_get_int (logged_machine m) (reg_addr r) p;
          Some (Status Internal (''transmission error exepected '' @ to_string i @ '' got '' @ to_string got), p) }
        else do {
          (st, p) \<leftarrow> r_Free (logged rcv) r p;
          Some (if status_ok st then Status0 else Wrap ''error receiving buffer'' st, p) } } = Some (st, s', tr')"
    unfolding lat_recv_round_def by (auto elim!: bindE split: sum.splits if_splits)
  from 2 assms(2) obtain s2 tr2 st1 where
    3: "m_get_int (logged_machine m) (reg_addr r) (s1, tr1) = Some (i, s2, tr2)"
      "r_Free (logged rcv) r (s2, tr2) = Some (st1, s', tr')" "status_ok st1"
    by (auto elim!: bindE split: if_splits)
  have "tr' = tr @ [Received r, Loaded (reg_addr r) i, Released r True]"
    using 1 3 by (auto simp: logged_def logged_machine_def dest!: record_op_trace)
  then show thesis by (rule that)
qed

text \<open>
  C34: The latency receiver accepts a run only when the messages arrived complete and in order: after
  the warm-up, the \<open>k\<close>-th message it received carried the number \<open>k\<close> (the sender stores its loop
  counter in every message), exactly \<open>count\<close> messages were received, and each region was given
  back before the next message was taken.
\<close>

theorem lat_recv_in_order:
  assumes "test_lat_recv (logged_machine m) (logged rcv) cnt (s, []) = Some (st, s', tr)" and "status_ok st"
  shows "\<exists>warm regs. length warm = nat (cnt sdiv 4) \<and> length regs = nat cnt \<and>
    tr = warm_events warm @ numbered_events regs"
proof -
  from assms obtain st1 s1 tr1 where
    1: "test_warmup_receive (logged rcv) (cnt sdiv 4) (s, []) = Some (st1, s1, tr1)" "status_ok st1" and
    2: "for_each (lat_recv_round (logged_machine m) (logged rcv)) (int_range 0 cnt) (s1, tr1) = Some (st, s', tr)"
    unfolding test_lat_recv_def by (auto elim!: bindE split: if_splits)
  obtain warm where warm: "length warm = nat (cnt sdiv 4)" "tr1 = warm_events warm"
    by (rule test_warmup_receive_logged [OF 1])
  let ?I = "\<lambda>k p. \<exists>regs. length regs = k \<and> snd p = warm_events warm @ numbered_events regs"
  have "?I (length (int_range 0 cnt)) (s', tr)"
  proof (rule for_each_rule [OF 2 assms(2), where I = ?I])
    fix k p st' p'
    assume k: "k < length (int_range 0 cnt)" and inv: "?I k p"
      and step: "lat_recv_round (logged_machine m) (logged rcv) (int_range 0 cnt ! k) p = Some (st', p')" "status_ok st'"
    obtain a b a' b' where p: "p = (a, b)" "p' = (a', b')" by (cases p; cases p') auto
    from inv obtain regs where regs: "length regs = k" "b = warm_events warm @ numbered_events regs" by (auto simp: p)
    have "int_range 0 cnt ! k = int k" using k by (simp add: int_range_def)
    then obtain r where "b' = b @ [Received r, Loaded (reg_addr r) (int k), Released r True]"
      using lat_recv_round_logged [OF step [unfolded p]] by metis
    then show "?I (Suc k) p'" using regs by (intro exI [of _ "regs @ [r]"]) (simp add: p)
  qed (use warm in auto)
  then show ?thesis using warm by auto
qed

text \<open>A receiver whose regions hold their own number once the warm-up of one message is over.\<close>

definition counting_machine :: "(nat \<times> int) Machine" where
  "counting_machine = demo_machine\<lparr>m_get_int := (\<lambda>a s. Some (uint a - 1, s))\<rparr>"

lemma lat_recv_in_order_witness:
  "\<exists>s' tr warm regs. test_lat_recv (logged_machine counting_machine) (logged demo_receiver) 4 ((0, 0), []) =
      Some (Status0, s', tr) \<and> length warm = 1 \<and> length regs = 4 \<and> tr = warm_events warm @ numbered_events regs"
proof -
  have "map_option (\<lambda>(r, e). r = Status0) (test_lat_recv (logged_machine counting_machine) (logged demo_receiver) 4
      ((0, 0), [])) = Some True"
    by code_simp
  then obtain st p where run: "test_lat_recv (logged_machine counting_machine) (logged demo_receiver) 4
      ((0, 0), []) = Some (st, p)" "st = Status0"
    by (rule run_test)
  obtain s' tr where p: "p = (s', tr)" by (cases p)
  have "status_ok st" by (simp add: run(2))
  from lat_recv_in_order [OF run(1) [unfolded p] this] show ?thesis
    using run p by (auto simp: signed_divide_int_def)
qed

end
