(* ===== verification/Async_Events.thy ===== *)
theory Async_Events
  imports Kym_Status
begin

text \<open>
  \<^verbatim>\<open>src/async_events.{hpp,cpp}\<close>: the loop that handles the asynchronous events of a device and the
  handler that logs them. What \<open>ibv_get_async_event\<close> will return is a list of replies in the
  state, a code and an event; the loop is waiting for ever (\<open>None\<close>) when the list is used up. A
  logged line is its format string and what it prints.
\<close>

datatype event_type =
    EVENT_QP_FATAL
  | EVENT_QP_REQ_ERR
  | EVENT_QP_ACCESS_ERR
  | EVENT_COMM_EST
  | EVENT_SQ_DRAINED
  | EVENT_PATH_MIG
  | EVENT_PATH_MIG_ERR
  | EVENT_QP_LAST_WQE_REACHED
  | EVENT_CQ_ERR
  | EVENT_SRQ_ERR
  | EVENT_SRQ_LIMIT_REACHED
  | EVENT_PORT_ACTIVE
  | EVENT_PORT_ERR
  | EVENT_LID_CHANGE
  | EVENT_PKEY_CHANGE
  | EVENT_GID_CHANGE
  | EVENT_SM_CHANGE
  | EVENT_CLIENT_REREGISTER
  | EVENT_DEVICE_FATAL
  | EVENT_OTHER int

record ibv_async_event =
  event_type :: event_type
  element :: u64

datatype log_argument = Handle u64 | Port u64 | Device_name | Number int

fun log_line :: "ibv_async_event \<Rightarrow> string \<times> log_argument" where
  "log_line ev = (case event_type ev of
      EVENT_QP_FATAL \<Rightarrow> (''[async_event]QP fatal event for QP with handle %p'', Handle (element ev))
    | EVENT_QP_REQ_ERR \<Rightarrow> (''[async_event]QP Requestor error for QP with handle %p'', Handle (element ev))
    | EVENT_QP_ACCESS_ERR \<Rightarrow> (''[async_event]QP access error event for QP with handle %p'', Handle (element ev))
    | EVENT_COMM_EST \<Rightarrow> (''[async_event]QP communication established event for QP with handle %p'', Handle (element ev))
    | EVENT_SQ_DRAINED \<Rightarrow> (''[async_event]QP Send Queue drained event for QP with handle %p'', Handle (element ev))
    | EVENT_PATH_MIG \<Rightarrow> (''[async_event]QP Path migration loaded event for QP with handle %p'', Handle (element ev))
    | EVENT_PATH_MIG_ERR \<Rightarrow> (''[async_event]QP Path migration error event for QP with handle %p'', Handle (element ev))
    | EVENT_QP_LAST_WQE_REACHED \<Rightarrow> (''[async_event]QP last WQE reached event for QP with handle %p'', Handle (element ev))
    | EVENT_CQ_ERR \<Rightarrow> (''[async_event]CQ error for CQ with handle %p'', Handle (element ev))
    | EVENT_SRQ_ERR \<Rightarrow> (''[async_event]SRQ error for SRQ with handle %p'', Handle (element ev))
    | EVENT_SRQ_LIMIT_REACHED \<Rightarrow> (''[async_event]SRQ limit reached event for SRQ with handle %p'', Handle (element ev))
    | EVENT_PORT_ACTIVE \<Rightarrow> (''[async_event]Port active event for port number %d'', Port (element ev))
    | EVENT_PORT_ERR \<Rightarrow> (''[async_event]Port error event for port number %d'', Port (element ev))
    | EVENT_LID_CHANGE \<Rightarrow> (''[async_event]LID change event for port number %d'', Port (element ev))
    | EVENT_PKEY_CHANGE \<Rightarrow> (''[async_event]P_Key table change event for port number %d'', Port (element ev))
    | EVENT_GID_CHANGE \<Rightarrow> (''[async_event]GID table change event for port number %d'', Port (element ev))
    | EVENT_SM_CHANGE \<Rightarrow> (''[async_event]SM change event for port number %d'', Port (element ev))
    | EVENT_CLIENT_REREGISTER \<Rightarrow> (''[async_event]Client reregister event for port number %d'', Port (element ev))
    | EVENT_DEVICE_FATAL \<Rightarrow> (''[async_event]Fatal error event for device %s'', Device_name)
    | EVENT_OTHER n \<Rightarrow> (''[async_event]Unknown event (%d)'', Number n))"

text \<open>What the loop did, in the order it did it.\<close>

datatype event_action = Logged "string \<times> log_argument" | Acknowledged ibv_async_event

record event_state =
  es_replies :: "(int \<times> ibv_async_event) list"
  es_done :: "event_action list"

definition LogAsyncEvent :: "ibv_async_event \<Rightarrow> event_state \<Rightarrow> (status \<times> event_state) option" where
  "LogAsyncEvent ev s = Some (Status0, s\<lparr>es_done := es_done s @ [Logged (log_line ev)]\<rparr>)"

definition get_async_event :: "event_state \<Rightarrow> ((int \<times> ibv_async_event) \<times> event_state) option" where
  "get_async_event s = (case es_replies s of [] \<Rightarrow> None
     | r # rs \<Rightarrow> Some (r, s\<lparr>es_replies := rs\<rparr>))"

definition ack_async_event :: "ibv_async_event \<Rightarrow> event_state \<Rightarrow> event_state" where
  "ack_async_event ev s = s\<lparr>es_done := es_done s @ [Acknowledged ev]\<rparr>"

text \<open>
  One turn of the loop; \<open>Some\<close> status inside ends it. An event whose handler fails is not
  acknowledged.
\<close>

definition handler_turn ::
    "(ibv_async_event \<Rightarrow> event_state \<Rightarrow> (status \<times> event_state) option) \<Rightarrow> event_state \<Rightarrow>
     (status option \<times> event_state) option" where
  "handler_turn eh s = do {
     ((ret, ev), s) \<leftarrow> get_async_event s;
     if ret \<noteq> 0 then Some (Some (Status Internal ''Error  ibv_get_async_event failed''), s)
     else do {
       (stat, s) \<leftarrow> eh ev s;
       if \<not> status_ok stat then Some (Some stat, s)
       else Some (None, ack_async_event ev s) } }"

partial_function (option) RunAsyncEventHandler ::
    "(ibv_async_event \<Rightarrow> event_state \<Rightarrow> (status \<times> event_state) option) \<Rightarrow> event_state \<Rightarrow>
     (status \<times> event_state) option" where
  "RunAsyncEventHandler eh s = do {
     (ended, s) \<leftarrow> handler_turn eh s;
     (case ended of Some stat \<Rightarrow> Some (stat, s) | None \<Rightarrow> RunAsyncEventHandler eh s) }"

lemmas [code] = RunAsyncEventHandler.simps

text \<open>The thread \<open>TrailAsyncEvents\<close> starts.\<close>

definition TrailAsyncEvents :: "event_state \<Rightarrow> (status \<times> event_state) option" where
  "TrailAsyncEvents = RunAsyncEventHandler LogAsyncEvent"

section \<open>Every event is logged and acknowledged\<close>

text \<open>Where the loop is after \<open>n\<close> turns that did not end it.\<close>

fun handler_turns ::
    "nat \<Rightarrow> (ibv_async_event \<Rightarrow> event_state \<Rightarrow> (status \<times> event_state) option) \<Rightarrow> event_state \<Rightarrow> event_state option" where
  "handler_turns 0 eh s = Some s"
| "handler_turns (Suc n) eh s = do {
     (ended, s) \<leftarrow> handler_turn eh s;
     (case ended of Some stat \<Rightarrow> None | None \<Rightarrow> handler_turns n eh s) }"

text \<open>The replies up to the first that reports an error, and what is to be done about them.\<close>

definition good_events :: "event_state \<Rightarrow> ibv_async_event list" where
  "good_events s = map snd (takeWhile (\<lambda>(ret, ev). ret = 0) (es_replies s))"

definition trail_of :: "ibv_async_event list \<Rightarrow> event_action list" where
  "trail_of evs = concat (map (\<lambda>ev. [Logged (log_line ev), Acknowledged ev]) evs)"

lemma trail_of_simps [simp]:
  "trail_of [] = []" "trail_of (ev # evs) = [Logged (log_line ev), Acknowledged ev] @ trail_of evs"
  by (simp_all add: trail_of_def)

declare log_line.simps [simp del]

lemma Log_turn:
  "handler_turn LogAsyncEvent s = (case es_replies s of [] \<Rightarrow> None
     | (ret, ev) # rs \<Rightarrow>
         if ret \<noteq> 0 then Some (Some (Status Internal ''Error  ibv_get_async_event failed''), s\<lparr>es_replies := rs\<rparr>)
         else Some (None, s\<lparr>es_replies := rs, es_done := es_done s @ trail_of [ev]\<rparr>))"
  by (simp add: handler_turn_def get_async_event_def LogAsyncEvent_def ack_async_event_def split: list.splits)

lemma Trail_step:
  "TrailAsyncEvents s = (case es_replies s of [] \<Rightarrow> None
     | (ret, ev) # rs \<Rightarrow>
         if ret \<noteq> 0 then Some (Status Internal ''Error  ibv_get_async_event failed'', s\<lparr>es_replies := rs\<rparr>)
         else TrailAsyncEvents (s\<lparr>es_replies := rs, es_done := es_done s @ trail_of [ev]\<rparr>))"
  unfolding TrailAsyncEvents_def RunAsyncEventHandler.simps [of LogAsyncEvent s]
  by (simp add: Log_turn split: list.splits)

lemma good_events_Cons:
  "es_replies s = (0, ev) # rs \<Longrightarrow> good_events s = ev # good_events (s\<lparr>es_replies := rs, es_done := d\<rparr>)"
  by (simp add: good_events_def)

lemma handler_turns_log:
  "n \<le> length (good_events s) \<Longrightarrow> handler_turns n LogAsyncEvent s =
     Some (s\<lparr>es_replies := drop n (es_replies s), es_done := es_done s @ trail_of (take n (good_events s))\<rparr>)"
proof (induction n arbitrary: s)
  case (Suc n)
  then obtain ev rs where r: "es_replies s = (0, ev) # rs"
    by (cases "es_replies s") (auto simp: good_events_def split: if_splits)
  let ?s = "s\<lparr>es_replies := rs, es_done := es_done s @ trail_of [ev]\<rparr>"
  note good = good_events_Cons [OF r, of "es_done s @ trail_of [ev]"]
  have "n \<le> length (good_events ?s)" using Suc.prems good by simp
  from Suc.IH [OF this] show ?case by (simp add: Log_turn r good)
qed simp

text \<open>
  C40: The thread that trails a device's events handles the events the library delivers one after the
  other: it logs an event, then acknowledges it, then asks for the next, so after each number of events
  exactly those have been logged, in order, each once and each acknowledged right behind its line. It
  keeps waiting as long as the library delivers events, and ends, with an error, exactly when the
  library reports one.
\<close>

theorem trail_logs_all:
  "(\<forall>n. n \<le> length (good_events s) \<longrightarrow> handler_turns n LogAsyncEvent s =
     Some (s\<lparr>es_replies := drop n (es_replies s), es_done := es_done s @ trail_of (take n (good_events s))\<rparr>)) \<and>
   TrailAsyncEvents s = (case drop (length (good_events s)) (es_replies s) of
       [] \<Rightarrow> None
     | _ # rest \<Rightarrow> Some (Status Internal ''Error  ibv_get_async_event failed'',
         s\<lparr>es_replies := rest, es_done := es_done s @ trail_of (good_events s)\<rparr>))"
proof -
  have "TrailAsyncEvents s = (case drop (length (good_events s)) (es_replies s) of
       [] \<Rightarrow> None
     | _ # rest \<Rightarrow> Some (Status Internal ''Error  ibv_get_async_event failed'',
         s\<lparr>es_replies := rest, es_done := es_done s @ trail_of (good_events s)\<rparr>))"
  proof (induction "es_replies s" arbitrary: s)
    case Nil
    then show ?case by (simp add: Trail_step [of s] good_events_def flip: Nil)
  next
    case (Cons r rs)
    obtain ret ev where r: "r = (ret, ev)" by (cases r)
    have replies: "es_replies s = (ret, ev) # rs" using Cons.hyps(2) r by simp
    show ?case
    proof (cases "ret = 0")
      case True
      let ?s = "s\<lparr>es_replies := rs, es_done := es_done s @ trail_of [ev]\<rparr>"
      have "TrailAsyncEvents s = TrailAsyncEvents ?s" using True by (simp add: Trail_step [of s] replies)
      then show ?thesis using Cons.hyps(1) [of ?s] True good_events_Cons [of s ev rs "es_done s @ trail_of [ev]"]
        by (simp add: replies split: list.splits)
    next
      case False
      then show ?thesis by (simp add: Trail_step [of s] replies good_events_def)
    qed
  qed
  then show ?thesis using handler_turns_log by blast
qed

definition demo_events :: event_state where
  "demo_events = (let ev = \<lparr>event_type = EVENT_PORT_ACTIVE, element = 1\<rparr> in
     \<lparr>es_replies = [(0, ev), (0, ev), (-1, ev)], es_done = []\<rparr>)"

theorem trail_logs_all_witness:
  "handler_turns 1 LogAsyncEvent demo_events = Some (demo_events\<lparr>es_replies := tl (es_replies demo_events),
     es_done := trail_of [\<lparr>event_type = EVENT_PORT_ACTIVE, element = 1\<rparr>]\<rparr>)"
  using trail_logs_all [of demo_events, THEN conjunct1, rule_format, of 1]
  by (simp add: good_events_def demo_events_def Let_def)

end
