(* ===== verification/Read_Connection.thy ===== *)
theory Read_Connection
  imports Write_Waiting Endpoint_Setup
begin

text \<open>
  \<^verbatim>\<open>tests/read/read.{hpp,cpp}\<close>: a connection whose receiver reads the message out of the sender's
  memory. The sender sends a request with the address, key and length of its region and waits
  until the byte in front of the region is set; the receiver reads the region and then writes
  that byte. Without \<open>fence\<close> the write is kept in a table until the read is complete.
\<close>

section \<open>Data\<close>

record ReadRequest =
  rr_addr :: u64
  rr_key :: u32
  rr_length :: u32

text \<open>
  The tables \<open>outstanding_read_wr_\<close> and \<open>outstanding_read_sge_\<close> have the same index, a request
  holds its element; an index never written has no entry.
\<close>

record read_connection =
  rc_rq :: receive_queue
  rc_fence :: bool
  rc_outstanding_read_wr :: "nat \<rightharpoonup> send_wr"
  rc_ackd_rcv_id :: u64
  rc_next_rcv_id :: u64

definition max_rcv :: u32 where
  "max_rcv = 512"

definition read_inflight :: u32 where
  "read_inflight = 200"

definition ReadConnection :: "receive_queue \<Rightarrow> bool \<Rightarrow> read_connection" where
  "ReadConnection rq fence = \<lparr>rc_rq = rq, rc_fence = fence, rc_outstanding_read_wr = Map.empty,
     rc_ackd_rcv_id = 0, rc_next_rcv_id = 1\<rparr>"

definition read_connection_default_opts :: Options where
  "read_connection_default_opts = \<lparr>o_pd = 0, o_srq = 0, o_send_cq = 0, o_recv_cq = 0,
     o_max_send_wr = read_inflight, o_max_recv_wr = read_inflight, o_max_send_sge = 1, o_max_recv_sge = 1,
     o_max_inline_data = 16, o_use_srq = False, o_private_data = [], o_src = None,
     o_responder_resources = 16, o_initiator_depth = 16, o_flow_control = 0,
     o_retry_count = 3, o_rnr_retry_count = 0, o_native_qp = False, o_inline_recv = 0\<rparr>"

section \<open>The sender\<close>

definition ReadConnection_GetMemoryRegion :: "u64 \<Rightarrow> endpoint \<Rightarrow> (SendRegion status_or \<times> endpoint) option" where
  "ReadConnection_GetMemoryRegion sz ep = do {
     (mrStatus, ep) \<leftarrow> DumbAllocator_Alloc (sz + 1) ep;
     Some (case mrStatus of
         Inl s \<Rightarrow> (Inl s, ep)
       | Inr mr \<Rightarrow> (Inr \<lparr>reg_context = reg_context mr, reg_addr = reg_addr mr + 1, reg_length = ucast sz,
                       reg_lkey = reg_lkey mr\<rparr>, sys_void (Store (reg_addr mr) 0 1) ep)) }"

text \<open>\<open>do { wc_s = PollSendCqOnce(); } while (wc_s.ok());\<close>: the status the loop ends with.\<close>

partial_function (option) drain_send_cq :: "endpoint \<Rightarrow> (status \<times> endpoint) option" where
  "drain_send_cq ep = do {
     (wc_s, ep) \<leftarrow> Endpoint_PollSendCqOnce ep;
     (case wc_s of
        Inl s \<Rightarrow> if status_ok s then drain_send_cq ep else Some (s, ep)
      | Inr _ \<Rightarrow> drain_send_cq ep) }"

lemmas [code] = drain_send_cq.simps

text \<open>The request is a local variable at address \<open>ra\<close>, sent inline.\<close>

definition store_request :: "u64 \<Rightarrow> ReadRequest \<Rightarrow> 'e env_scheme \<Rightarrow> 'e env_scheme" where
  "store_request ra req e = sys_void (Store (ra + 12) (ucast (rr_length req)) 4)
     (sys_void (Store (ra + 8) (ucast (rr_key req)) 4) (sys_void (Store ra (rr_addr req) 8) e))"

definition ReadConnection_SendAsync ::
    "u64 \<Rightarrow> SendRegion \<Rightarrow> endpoint \<Rightarrow> (u64 status_or \<times> endpoint) option" where
  "ReadConnection_SendAsync ra region ep = (
     let req = \<lparr>rr_addr = reg_addr region, rr_key = reg_lkey region, rr_length = reg_length region\<rparr> in do {
     (s, ep) \<leftarrow> drain_send_cq (store_request ra req ep);
     if code s \<noteq> NotFound then Some (Inl (Wrap ''error polling send cq while sending'' s), ep)
     else do {
       (sendStatus, ep) \<leftarrow> Endpoint_PostInline 0 ra 16 ep;
       Some (if \<not> status_ok sendStatus then Inl sendStatus else Inr (rr_addr req - 1), ep) } })"

text \<open>\<open>id\<close> is the address of the byte.\<close>

definition ReadConnection_Wait :: "u64 \<Rightarrow> endpoint \<Rightarrow> (status \<times> endpoint) option" where
  "ReadConnection_Wait wid ep = do {
     ep \<leftarrow> poll_word (\<lambda>v. (ucast v :: u8) = 0) wid ep;
     Some (Status0, sys_void (Store wid 0 1) ep) }"

definition ReadConnection_Send :: "u64 \<Rightarrow> SendRegion \<Rightarrow> endpoint \<Rightarrow> (status \<times> endpoint) option" where
  "ReadConnection_Send ra region ep = do {
     (id_stat, ep) \<leftarrow> ReadConnection_SendAsync ra region ep;
     (case id_stat of Inl s \<Rightarrow> Some (s, ep) | Inr wid \<Rightarrow> ReadConnection_Wait wid ep) }"

definition ReadConnection_Free_send :: "SendRegion \<Rightarrow> endpoint \<Rightarrow> (status \<times> endpoint) option" where
  "ReadConnection_Free_send region ep = DumbAllocator_Free
     \<lparr>reg_context = reg_context region, reg_addr = reg_addr region - 1, reg_length = reg_length region + 1,
      reg_lkey = reg_lkey region\<rparr> ep"

section \<open>The receiver\<close>

text \<open>A null result of the registration is dereferenced.\<close>

definition ReadConnection_RegisterReceiveRegion ::
    "u64 \<Rightarrow> u32 \<Rightarrow> endpoint \<Rightarrow> (ReceiveRegion status_or \<times> endpoint) option" where
  "ReadConnection_RegisterReceiveRegion addr len ep = do {
     (mr, ep) \<leftarrow> sys_mr (Reg_mr addr (ucast len)) ep;
     (case mr of None \<Rightarrow> None
      | Some m \<Rightarrow> Some (Inr \<lparr>reg_context = mr_addr m, reg_addr = addr, reg_length = len, reg_lkey = mr_lkey m\<rparr>, ep)) }"

definition ReadConnection_DeregisterReceiveRegion :: "ReceiveRegion \<Rightarrow> endpoint \<Rightarrow> (status \<times> endpoint) option" where
  "ReadConnection_DeregisterReceiveRegion reg ep = do {
     (ret, ep) \<leftarrow> sys (Dereg_mr (reg_context reg)) ep;
     Some (if ret \<noteq> 0 then Status Unknown ''free: error deregistering mr'' else Status0, ep) }"

text \<open>The fields are copied in the order length, address, key, then the buffer is reposted.\<close>

definition ReadConnection_ReceiveRequest ::
    "read_connection \<Rightarrow> endpoint \<Rightarrow> (ReadRequest status_or \<times> read_connection \<times> endpoint) option" where
  "ReadConnection_ReceiveRequest c ep = do {
     (wcStatus, ep) \<leftarrow> Endpoint_PollRecvCq ep;
     (case wcStatus of
        Inl s \<Rightarrow> Some (Inl s, c, ep)
      | Inr wc \<Rightarrow> do {
          let a = bm_addr (ReceiveQueue_GetMR (rc_rq c) (ucast (wc_wr_id wc)));
          (len, ep) \<leftarrow> sys_load (a + 12) ep;
          (addr, ep) \<leftarrow> sys_load a ep;
          (key, ep) \<leftarrow> sys_load (a + 8) ep;
          (stat, rq, ep) \<leftarrow> ReceiveQueue_PostMR (ucast (wc_wr_id wc)) (rc_rq c) ep;
          Some (if \<not> status_ok stat then Inl stat
                else Inr \<lparr>rr_addr = addr, rr_key = ucast key, rr_length = ucast len\<rparr>,
                c\<lparr>rc_rq := rq\<rparr>, ep) }) }"

text \<open>\<open>one_a\<close> is the address of the constant \<open>one\<close>.\<close>

definition ack_wr :: "u64 \<Rightarrow> read_connection \<Rightarrow> u64 \<Rightarrow> ReadRequest \<Rightarrow> send_wr" where
  "ack_wr one_a c rid req = (send_wr0 rid (sge one_a 1 0) WR_RDMA_WRITE
     (if rc_fence c then [SEND_SIGNALED, SEND_INLINE, SEND_FENCE] else [SEND_INLINE]))
     \<lparr>swr_remote_addr := rr_addr req - 1, swr_rkey := rr_key req, swr_inline := 1\<rparr>"

definition data_wr :: "read_connection \<Rightarrow> u64 \<Rightarrow> u64 \<Rightarrow> u32 \<Rightarrow> ReadRequest \<Rightarrow> send_wr" where
  "data_wr c rid addr key req = (send_wr0 rid (sge addr (ucast (rr_length req)) key) WR_RDMA_READ
     (if rc_fence c then [] else [SEND_SIGNALED]))
     \<lparr>swr_remote_addr := rr_addr req, swr_rkey := rr_key req\<rparr>"

definition slot_of :: "u64 \<Rightarrow> nat" where
  "slot_of rid = unat (rid mod ucast max_rcv)"

definition ReadConnection_ReadInto ::
    "u64 \<Rightarrow> u64 \<Rightarrow> u32 \<Rightarrow> ReadRequest \<Rightarrow> read_connection \<Rightarrow> endpoint \<Rightarrow>
     (u64 status_or \<times> read_connection \<times> endpoint) option" where
  "ReadConnection_ReadInto one_a addr key req c ep = (
     if rc_next_rcv_id c > rc_ackd_rcv_id c + ucast max_rcv
     then Some (Inl (Status RateLimit ''Too many outstanding requests''), c, ep)
     else
       (let rid = rc_next_rcv_id c;
            wr_ack = ack_wr one_a c rid req;
            c = c\<lparr>rc_next_rcv_id := rid + 1\<rparr>;
            c = (if rc_fence c then c
                 else c\<lparr>rc_outstanding_read_wr := (rc_outstanding_read_wr c)(slot_of rid \<mapsto> wr_ack)\<rparr>) in do {
        (stat, ep) \<leftarrow> Endpoint_PostSendRaw
           (data_wr c rid addr key req # (if rc_fence c then [wr_ack] else [])) ep;
        Some (if \<not> status_ok stat then Inl stat else Inr rid, c, ep) }))"

definition ReadConnection_WaitReceive ::
    "u64 \<Rightarrow> read_connection \<Rightarrow> endpoint \<Rightarrow> (status \<times> read_connection \<times> endpoint) option" where
  "ReadConnection_WaitReceive rid c ep = do {
     (st, ackd, ep) \<leftarrow> wait_loop keep_last rid (rc_ackd_rcv_id c) ep;
     let c = c\<lparr>rc_ackd_rcv_id := ackd\<rparr>;
     if \<not> status_ok st then Some (st, c, ep)
     else if rc_fence c then Some (Status0, c, ep)
     else do {
       wr \<leftarrow> rc_outstanding_read_wr c (slot_of rid);
       (stat, ep) \<leftarrow> Endpoint_PostSendRaw [wr] ep;
       Some (stat, c, ep) } }"

definition ReadConnection_Receive ::
    "u64 \<Rightarrow> read_connection \<Rightarrow> endpoint \<Rightarrow> (ReceiveRegion status_or \<times> read_connection \<times> endpoint) option" where
  "ReadConnection_Receive one_a c ep = do {
     (req_s, c, ep) \<leftarrow> ReadConnection_ReceiveRequest c ep;
     (case req_s of Inl s \<Rightarrow> Some (Inl s, c, ep) | Inr req \<Rightarrow> do {
       (regStat, ep) \<leftarrow> DumbAllocator_Alloc (ucast (rr_length req)) ep;
       (case regStat of Inl s \<Rightarrow> Some (Inl s, c, ep) | Inr reg \<Rightarrow> do {
         (id_s, c, ep) \<leftarrow> ReadConnection_ReadInto one_a (reg_addr reg) (reg_lkey reg) req c ep;
         (case id_s of Inl s \<Rightarrow> Some (Inl s, c, ep) | Inr rid \<Rightarrow> do {
           (stat, c, ep) \<leftarrow> ReadConnection_WaitReceive rid c ep;
           Some (if \<not> status_ok stat then Inl stat else Inr (reg\<lparr>reg_lkey := 0\<rparr>), c, ep) }) }) }) }"

text \<open>The first half of the other receives: the request must fit the region.\<close>

definition ReadConnection_ReceiveAsync ::
    "u64 \<Rightarrow> ReceiveRegion \<Rightarrow> read_connection \<Rightarrow> endpoint \<Rightarrow>
     ((u64 \<times> u32) status_or \<times> read_connection \<times> endpoint) option" where
  "ReadConnection_ReceiveAsync one_a reg c ep = do {
     (req_s, c, ep) \<leftarrow> ReadConnection_ReceiveRequest c ep;
     (case req_s of Inl s \<Rightarrow> Some (Inl s, c, ep) | Inr req \<Rightarrow>
       if reg_length reg < rr_length req
       then Some (Inl (Status InvalidArgument ''Recieve Region to small''), c, ep)
       else do {
         (id_s, c, ep) \<leftarrow> ReadConnection_ReadInto one_a (reg_addr reg) (reg_lkey reg) req c ep;
         Some (case id_s of Inl s \<Rightarrow> Inl s | Inr rid \<Rightarrow> Inr (rid, rr_length req), c, ep) }) }"

definition ReadConnection_Receive_into ::
    "u64 \<Rightarrow> ReceiveRegion \<Rightarrow> read_connection \<Rightarrow> endpoint \<Rightarrow>
     (u32 status_or \<times> read_connection \<times> endpoint) option" where
  "ReadConnection_Receive_into one_a reg c ep = do {
     (id_s, c, ep) \<leftarrow> ReadConnection_ReceiveAsync one_a reg c ep;
     (case id_s of Inl s \<Rightarrow> Some (Inl s, c, ep) | Inr (rid, len) \<Rightarrow> do {
       (stat, c, ep) \<leftarrow> ReadConnection_WaitReceive rid c ep;
       Some (if \<not> status_ok stat then Inl stat else Inr len, c, ep) }) }"

definition ReadConnection_Free_receive :: "ReceiveRegion \<Rightarrow> endpoint \<Rightarrow> (status \<times> endpoint) option" where
  "ReadConnection_Free_receive region ep = DumbAllocator_Free region ep"

section \<open>Setting up and closing\<close>

definition ReadConnection_Close :: "read_connection \<Rightarrow> endpoint \<Rightarrow> (status \<times> endpoint) option" where
  "ReadConnection_Close c ep = do {
     (stat, ep) \<leftarrow> ReceiveQueue_Close (rc_rq c) ep;
     if \<not> status_ok stat then Some (stat, ep) else Endpoint_Close ep }"

definition read_on_endpoint ::
    "bool \<Rightarrow> endpoint \<Rightarrow> ((read_connection \<times> endpoint) status_or \<times> env) option" where
  "read_on_endpoint fence ep = do {
     (rq_status, ep) \<leftarrow> GetReceiveQueue 16 (ucast read_inflight) ep;
     Some (case rq_status of Inl s \<Rightarrow> Inl s | Inr rq \<Rightarrow> Inr (ReadConnection rq fence, ep), env.truncate ep) }"

definition DialRead ::
    "string \<Rightarrow> int \<Rightarrow> bool \<Rightarrow> env \<Rightarrow> ((read_connection \<times> endpoint) status_or \<times> env) option" where
  "DialRead ip port fence e = do {
     (ep_status, e) \<leftarrow> Dial ip (if port = 0 then 18515 else port) read_connection_default_opts e;
     (case ep_status of Inl s \<Rightarrow> Some (Inl s, e) | Inr ep \<Rightarrow> read_on_endpoint fence ep) }"

definition ListenRead :: "string \<Rightarrow> int \<Rightarrow> env \<Rightarrow> (cm_id status_or \<times> env) option" where
  "ListenRead ip port e = Listen ip (if port = 0 then 18515 else port) e"

definition ReadListener_Accept ::
    "bool \<Rightarrow> cm_id \<Rightarrow> env \<Rightarrow> ((read_connection \<times> endpoint) status_or \<times> env) option" where
  "ReadListener_Accept fence lid e = do {
     (epStatus, e) \<leftarrow> Listener_Accept read_connection_default_opts lid e;
     (case epStatus of Inl s \<Rightarrow> Some (Inl s, e) | Inr ep \<Rightarrow> read_on_endpoint fence ep) }"

definition ReadListener_Close :: "env \<Rightarrow> (status \<times> env) option" where
  "ReadListener_Close = Listener_Close"

end
