(* ===== verification/Read_Safety.thy ===== *)
theory Read_Safety
  imports Read_Connection
begin

text \<open>
  What the read connection acknowledges: the byte that is written is the one the sender waits for,
  the request that \<open>WaitReceive\<close> acknowledges, and the completions a send on the same connection
  takes away.
\<close>

section \<open>Frames\<close>

lemma PollSendCq_calls: "Endpoint_PollSendCq ep = Some (wc, ep') \<Longrightarrow> calls ep' = calls ep"
  by (auto simp: Endpoint_PollSendCq_def Let_def elim!: bindE)

lemma PollSendCqOnce_calls: "Endpoint_PollSendCqOnce ep = Some (wc, ep') \<Longrightarrow> calls ep' = calls ep"
  by (auto simp: Endpoint_PollSendCqOnce_def poll_send_def elim!: bindE split: list.splits)

lemma wait_loop_calls:
  assumes "wait_loop upd wid a ep = Some (st, a', ep')"
  shows "calls ep' = calls ep"
proof -
  define P where "P = (\<lambda>(upd :: u64 \<Rightarrow> u64 \<Rightarrow> u64) (wid :: u64) (a :: u64) (ep :: endpoint)
    (r :: status \<times> u64 \<times> endpoint). calls (snd (snd r)) = calls ep)"
  have "P upd wid a ep (st, a', ep')"
  proof (rule wait_loop.raw_induct [where P = P, OF _ assms])
    fix f upd wid a ep r
    assume IH: "\<And>upd wid a ep r. f upd wid a ep = Some r \<Longrightarrow> P upd wid a ep r"
      and step: "(if a < wid then Endpoint_PollSendCq ep \<bind> (\<lambda>(wc_s, ep). case wc_s of
           Inl s \<Rightarrow> Some (s, a, ep)
         | Inr wc \<Rightarrow> f upd wid (upd a (wc_wr_id wc)) ep) else Some (Status0, a, ep)) = Some r"
    show "P upd wid a ep r"
      using step by (auto simp: P_def elim!: bindE dest!: PollSendCq_calls IH split: if_splits sum.splits)
  qed
  then show ?thesis by (simp add: P_def)
qed

lemma PostSendRaw_calls:
  "Endpoint_PostSendRaw wrs ep = Some (st, ep') \<Longrightarrow> calls ep' = calls ep @ [Post_send wrs]"
  by (auto simp: Endpoint_PostSendRaw_def elim!: bindE dest!: sys_calls split: if_splits)

lemma wr_fields [simp]:
  "data_wr (c\<lparr>rc_next_rcv_id := n\<rparr>) = data_wr c" "data_wr (c\<lparr>rc_outstanding_read_wr := t\<rparr>) = data_wr c"
  "ack_wr a (c\<lparr>rc_next_rcv_id := n\<rparr>) = ack_wr a c" "ack_wr a (c\<lparr>rc_outstanding_read_wr := t\<rparr>) = ack_wr a c"
  "ack_wr a (c\<lparr>rc_ackd_rcv_id := n\<rparr>) = ack_wr a c"
  by (auto simp: data_wr_def ack_wr_def fun_eq_iff)

lemma ReadInto_ok:
  assumes "ReadConnection_ReadInto one_a addr key req c ep = Some (Inr rid, c', ep')"
  shows "rid = rc_next_rcv_id c" and
    "calls ep' = calls ep @ [Post_send (data_wr c rid addr key req # (if rc_fence c then [ack_wr one_a c rid req] else []))]" and
    "c' = c\<lparr>rc_next_rcv_id := rid + 1, rc_outstanding_read_wr :=
       (if rc_fence c then rc_outstanding_read_wr c
        else (rc_outstanding_read_wr c)(slot_of rid \<mapsto> ack_wr one_a c rid req))\<rparr>"
  using assms by (auto simp: ReadConnection_ReadInto_def Let_def elim!: bindE dest!: PostSendRaw_calls split: if_splits)

lemma WaitReceive_posts:
  assumes "ReadConnection_WaitReceive rid c ep = Some (st, c', ep')" and "status_ok st"
  shows "if rc_fence c then calls ep' = calls ep
    else \<exists>wr. rc_outstanding_read_wr c (slot_of rid) = Some wr \<and> calls ep' = calls ep @ [Post_send [wr]]"
  using assms
  by (auto simp: ReadConnection_WaitReceive_def Let_def elim!: bindE dest!: wait_loop_calls PostSendRaw_calls split: if_splits)

section \<open>One message\<close>

lemma drain_calls:
  assumes "drain_send_cq ep = Some (s, ep')"
  shows "calls ep' = calls ep"
proof -
  define P where "P = (\<lambda>(ep :: endpoint) (r :: status \<times> endpoint). calls (snd r) = calls ep)"
  have "P ep (s, ep')"
  proof (rule drain_send_cq.raw_induct [where P = P, OF _ assms])
    fix f ep r
    assume IH: "\<And>ep r. f ep = Some r \<Longrightarrow> P ep r"
      and step: "Endpoint_PollSendCqOnce ep \<bind> (\<lambda>(wc_s, ep). case wc_s of
           Inl s \<Rightarrow> if status_ok s then f ep else Some (s, ep)
         | Inr _ \<Rightarrow> f ep) = Some r"
    show "P ep r"
      using step by (auto simp: P_def elim!: bindE dest!: PollSendCqOnce_calls IH split: if_splits sum.splits)
  qed
  then show ?thesis by (simp add: P_def)
qed

definition request_of :: "SendRegion \<Rightarrow> ReadRequest" where
  "request_of region = \<lparr>rr_addr = reg_addr region, rr_key = reg_lkey region, rr_length = reg_length region\<rparr>"

lemma SendAsync_ok:
  assumes "ReadConnection_SendAsync ra region ep = Some (Inr wid, ep')"
  shows "wid = reg_addr region - 1" and
    "calls ep' = calls (store_request ra (request_of region) ep) @
       [Post_send [send_wr0 0 (sge ra 16 0) WR_SEND [SEND_SIGNALED, SEND_INLINE]]]"
  using assms
  by (auto simp: ReadConnection_SendAsync_def request_of_def Let_def Endpoint_PostInline_def elim!: bindE
      dest!: drain_calls PostSendRaw_calls split: if_splits)

definition demo_region :: SendRegion where
  "demo_region = \<lparr>reg_context = 4096, reg_addr = 4097, reg_length = 40, reg_lkey = 7\<rparr>"

definition demo_read_queue :: receive_queue where
  "demo_read_queue = ReceiveQueue_new 0 \<lparr>mr_addr = 8192, mr_length = 3200, mr_lkey = 3\<rparr> 16"

section \<open>Many messages\<close>

text \<open>
  A client starts reads and waits for them in any order, and goes on after an error. The requests
  started so far are remembered; request \<open>k\<close> has the id \<open>k + 1\<close>.
\<close>

datatype read_event = StartRead u64 u32 ReadRequest | WaitRead u64

fun read_run ::
    "u64 \<Rightarrow> read_event list \<Rightarrow> ReadRequest list \<Rightarrow> read_connection \<Rightarrow> endpoint \<Rightarrow>
     (ReadRequest list \<times> read_connection \<times> endpoint) option" where
  "read_run one_a [] hist c ep = Some (hist, c, ep)"
| "read_run one_a (StartRead addr key req # es) hist c ep = do {
     (r, c', ep) \<leftarrow> ReadConnection_ReadInto one_a addr key req c ep;
     read_run one_a es (if rc_next_rcv_id c' = rc_next_rcv_id c then hist else hist @ [req]) c' ep }"
| "read_run one_a (WaitRead rid # es) hist c ep = do {
     (st, c, ep) \<leftarrow> ReadConnection_WaitReceive rid c ep;
     read_run one_a es hist c ep }"

text \<open>The newest of \<open>n\<close> requests that shares its table entry with request \<open>i\<close>.\<close>

definition newest :: "nat \<Rightarrow> nat \<Rightarrow> nat" where
  "newest n i = i + 512 * ((n - Suc i) div 512)"

lemma newest_self: "n \<le> i + 512 \<Longrightarrow> newest n i = i"
  by (simp add: newest_def)

lemma newest_Suc:
  assumes "i < n"
  shows "newest (Suc n) i = (if n mod 512 = i mod 512 then n else newest n i)"
proof -
  obtain m where n: "n = i + Suc m" using assms less_iff_Suc_add [of i n] by auto
  have same: "n mod 512 = i mod 512 \<longleftrightarrow> Suc m mod 512 = 0"
    using mod_eq_dvd_iff_nat [of i n 512] by (simp only: n le_add1 diff_add_inverse simp_thms dvd_eq_mod_eq_0)
  show ?thesis
  proof (cases "Suc m mod 512 = 0")
    case True
    then have "512 * (Suc m div 512) = Suc m" using mult_div_mod_eq [of 512 "Suc m"] by linarith
    moreover have "Suc n - Suc i = Suc m" using n by simp
    ultimately have "newest (Suc n) i = n" by (simp only: newest_def n)
    then show ?thesis using True same by simp
  next
    case False
    then have "Suc m div 512 = m div 512" by (simp add: div_Suc)
    moreover have "Suc n - Suc i = Suc m" "n - Suc i = m" using n by simp_all
    ultimately have "newest (Suc n) i = newest n i" by (simp only: newest_def)
    then show ?thesis using False same by simp
  qed
qed

lemma newest_less:
  assumes "i < n"
  shows "newest n i < n"
proof -
  have "512 * ((n - Suc i) div 512) \<le> n - Suc i" by simp
  then have "i + 512 * ((n - Suc i) div 512) < n" using assms by linarith
  then show ?thesis by (simp only: newest_def)
qed

lemma newest_new: "newest (Suc n) n = n"
  by (simp add: newest_def)

lemma slot_of_nat:
  assumes "k < 2 ^ 64"
  shows "slot_of (of_nat k) = k mod 512"
proof -
  have "unat (of_nat k :: u64) = k" using assms by (simp add: unat_of_nat)
  then show ?thesis by (simp add: slot_of_def max_rcv_def unat_mod_distrib)
qed

definition read_inv :: "u64 \<Rightarrow> ReadRequest list \<Rightarrow> read_connection \<Rightarrow> bool" where
  "read_inv one_a hist c \<longleftrightarrow> \<not> rc_fence c \<and> rc_next_rcv_id c = of_nat (Suc (length hist)) \<and>
     (\<forall>i<length hist. rc_outstanding_read_wr c (Suc i mod 512) =
        Some (ack_wr one_a c (of_nat (Suc (newest (length hist) i))) (hist ! newest (length hist) i)))"

lemma read_inv_ReadInto:
  assumes inv: "read_inv one_a hist c" and run: "ReadConnection_ReadInto one_a addr key req c ep = Some (r, c', ep')"
    and bound: "Suc (length hist) < 2 ^ 64 - 1"
  shows "read_inv one_a (if rc_next_rcv_id c' = rc_next_rcv_id c then hist else hist @ [req]) c'"
proof -
  let ?n = "length hist"
  note i = inv [unfolded read_inv_def]
  from run i have "c' = c \<or> c' = c\<lparr>rc_next_rcv_id := rc_next_rcv_id c + 1, rc_outstanding_read_wr :=
      (rc_outstanding_read_wr c)(slot_of (rc_next_rcv_id c) \<mapsto> ack_wr one_a c (rc_next_rcv_id c) req)\<rparr>"
    by (auto simp: ReadConnection_ReadInto_def Let_def elim!: bindE split: if_splits)
  then show ?thesis
  proof
    assume "c' = c"
    then show ?thesis using inv by simp
  next
    assume c': "c' = c\<lparr>rc_next_rcv_id := rc_next_rcv_id c + 1, rc_outstanding_read_wr :=
      (rc_outstanding_read_wr c)(slot_of (rc_next_rcv_id c) \<mapsto> ack_wr one_a c (rc_next_rcv_id c) req)\<rparr>"
    have next': "rc_next_rcv_id c' = of_nat (Suc (Suc ?n))" using c' i by simp
    have slot: "slot_of (1 + word_of_nat ?n) = Suc ?n mod 512"
      using slot_of_nat [of "Suc ?n"] bound by simp
    have "rc_next_rcv_id c' \<noteq> rc_next_rcv_id c" using c' by simp
    moreover have "rc_outstanding_read_wr c' (Suc i mod 512) =
        Some (ack_wr one_a c' (of_nat (Suc (newest (Suc ?n) i))) ((hist @ [req]) ! newest (Suc ?n) i))"
      if "i < Suc ?n" for i
    proof (cases "Suc ?n mod 512 = Suc i mod 512")
      case True
      then have "?n mod 512 = i mod 512" by (simp add: mod_Suc split: if_splits)
      then have "newest (Suc ?n) i = ?n"
        using that newest_Suc [of i ?n] newest_new by (cases "i = ?n") auto
      then show ?thesis using True i by (simp add: c' slot)
    next
      case False
      then have "?n mod 512 \<noteq> i mod 512" by (metis mod_Suc)
      then have i': "i < ?n" using that by (cases "i = ?n") simp_all
      have nw: "newest (Suc ?n) i = newest ?n i" using newest_Suc [OF i'] \<open>?n mod 512 \<noteq> i mod 512\<close> by simp
      have "newest ?n i < ?n" using newest_less [OF i'] .
      then show ?thesis using False i i' nw by (simp add: c' slot nth_append)
    qed
    ultimately show ?thesis using i next' c' by (simp add: read_inv_def)
  qed
qed

lemma read_inv_WaitReceive:
  "read_inv one_a hist c \<Longrightarrow> ReadConnection_WaitReceive rid c ep = Some (st, c', ep') \<Longrightarrow> read_inv one_a hist c'"
  by (auto simp: ReadConnection_WaitReceive_def Let_def read_inv_def elim!: bindE split: if_splits)

lemma read_run_inv:
  assumes "read_run one_a es hist c ep = Some (hist', c', ep')" and "read_inv one_a hist c"
    and "Suc (length hist + length es) < 2 ^ 64 - 1"
  shows "read_inv one_a hist' c' \<and> length hist' \<le> length hist + length es"
  using assms
proof (induction es arbitrary: hist c ep)
  case (Cons e es)
  show ?case
  proof (cases e)
    case (StartRead addr key req)
    with Cons.prems(1) obtain r c1 ep1 where
      1: "ReadConnection_ReadInto one_a addr key req c ep = Some (r, c1, ep1)"
        "read_run one_a es (if rc_next_rcv_id c1 = rc_next_rcv_id c then hist else hist @ [req]) c1 ep1 = Some (hist', c', ep')"
      by (auto elim!: bindE)
    let ?h = "if rc_next_rcv_id c1 = rc_next_rcv_id c then hist else hist @ [req]"
    have len: "length ?h \<le> Suc (length hist)" by simp
    have bound: "Suc (length hist) < 2 ^ 64 - 1" "Suc (length ?h + length es) < 2 ^ 64 - 1"
      using Cons.prems(3) len by simp_all
    from Cons.IH [OF 1(2) read_inv_ReadInto [OF Cons.prems(2) 1(1) bound(1)] bound(2)] len
    show ?thesis by simp
  next
    case (WaitRead rid)
    with Cons.prems(1) obtain st c1 ep1 where
      1: "ReadConnection_WaitReceive rid c ep = Some (st, c1, ep1)" "read_run one_a es hist c1 ep1 = Some (hist', c', ep')"
      by (auto elim!: bindE)
    have "Suc (length hist + length es) < 2 ^ 64 - 1" using Cons.prems(3) by simp
    from Cons.IH [OF 1(2) read_inv_WaitReceive [OF Cons.prems(2) 1(1)] this] show ?thesis by simp
  qed
qed simp

text \<open>
  C21: Whatever was read and waited for before on a connection without fence, a wait for a request
  that was started and that reports success posts exactly one write, which sets the byte of the
  newest request that shares its table entry: of the request itself when at most 511 requests
  were started after it.
\<close>

theorem read_wait_acks:
  assumes "read_run one_a es [] (ReadConnection rq False) ep = Some (hist, c, ep1)"
    and "length es < 2 ^ 63" and "i < length hist"
    and "ReadConnection_WaitReceive (of_nat (Suc i)) c ep1 = Some (st, c', ep2)" and "status_ok st"
  shows "\<exists>ack. calls ep2 = calls ep1 @ [Post_send [ack]] \<and> swr_opcode ack = WR_RDMA_WRITE \<and> swr_inline ack = 1 \<and>
    swr_remote_addr ack = rr_addr (hist ! newest (length hist) i) - 1 \<and>
    swr_rkey ack = rr_key (hist ! newest (length hist) i) \<and> (length hist \<le> i + 512 \<longrightarrow> newest (length hist) i = i)"
proof -
  have "read_inv one_a [] (ReadConnection rq False)" by (simp add: read_inv_def ReadConnection_def)
  from read_run_inv [OF assms(1) this] assms(2)
  have inv: "read_inv one_a hist c" and len: "length hist \<le> length es" by simp_all
  have "Suc i < 2 ^ 64" using assms(2,3) len by simp
  then have slot: "slot_of (of_nat (Suc i)) = Suc i mod 512" by (rule slot_of_nat)
  have "rc_outstanding_read_wr c (Suc i mod 512) =
      Some (ack_wr one_a c (of_nat (Suc (newest (length hist) i))) (hist ! newest (length hist) i))"
    and "\<not> rc_fence c" using inv assms(3) by (simp_all add: read_inv_def)
  with WaitReceive_posts [OF assms(4,5)] slot
  have "calls ep2 = calls ep1 @ [Post_send [ack_wr one_a c (of_nat (Suc (newest (length hist) i))) (hist ! newest (length hist) i)]]"
    by simp
  then show ?thesis by (simp add: ack_wr_def send_wr0_def newest_self)
qed

definition demo_request :: "u64 \<Rightarrow> ReadRequest" where
  "demo_request a = \<lparr>rr_addr = a, rr_key = 5, rr_length = 8\<rparr>"

lemma read_wait_acks_witness:
  "\<exists>ep1 (ep2 :: endpoint) ack. calls ep2 = calls (ep1 :: endpoint) @ [Post_send [ack]] \<and> swr_remote_addr ack = 100"
proof -
  let ?es = "[StartRead 512 9 (demo_request 101), StartRead 512 9 (demo_request 201), WaitRead 2]"
  let ?run = "read_run 96 ?es [] (ReadConnection demo_read_queue False) (demo_send_ep [(1, demo_wc 1), (1, demo_wc 2)])"
  have "map_option (\<lambda>(h, p). h = [demo_request 101, demo_request 201] \<and>
      map_option (\<lambda>(st, _). status_ok st) (ReadConnection_WaitReceive 1 (fst p) (snd p)) = Some True) ?run = Some True"
    by code_simp
  then obtain h p where r: "?run = Some (h, p)" "h = [demo_request 101, demo_request 201] \<and>
      map_option (\<lambda>(st, _). status_ok st) (ReadConnection_WaitReceive 1 (fst p) (snd p)) = Some True"
    by (rule run_test)
  obtain c ep1 where p: "p = (c, ep1)" by (cases p)
  from r(2) p obtain st c' ep2 where w: "ReadConnection_WaitReceive 1 c ep1 = Some (st, c', ep2)" "status_ok st"
    by (auto elim: run_test)
  have one: "(of_nat (Suc 0) :: u64) = 1" by simp
  from read_wait_acks [OF r(1) [unfolded p], of 0, unfolded one, OF _ _ w] r(2)
  show ?thesis by (auto simp: newest_def demo_request_def)
qed

section \<open>A send takes the completion of a read\<close>

lemma drain_takes:
  assumes "send_polls ep = map (Pair 1) wcs @ (0, w) # ps"
  shows "drain_send_cq ep = Some (Status NotFound ''nothing recieved in send cq'', ep\<lparr>send_polls := ps\<rparr>)"
  using assms
proof (induction wcs arbitrary: ep)
  case Nil
  then show ?case
    by (subst drain_send_cq.simps) (simp add: Endpoint_PollSendCqOnce_def poll_send_def status_ok_def Status_def)
next
  case (Cons wc wcs)
  let ?ep = "ep\<lparr>send_polls := map (Pair 1) wcs @ (0, w) # ps\<rparr>"
  have "drain_send_cq ep = drain_send_cq ?ep"
    using Cons.prems by (subst drain_send_cq.simps) (simp add: Endpoint_PollSendCqOnce_def poll_send_def)
  then show ?case using Cons.IH [of ?ep] by simp
qed

text \<open>
  A send on a read connection throws away every completion that is ready, also those of the
  reads started before: when the completion of a read is among them and none with its id or a
  larger one follows, waiting for the read returns before the send and never after it.
\<close>

theorem read_send_takes_completion:
  assumes "send_polls ep = map (Pair 1) wcs @ (0, w) # ps" and "all_successful (send_polls ep)"
    and "wc \<in> set wcs" and "wc_wr_id wc = rid" and "rc_ackd_rcv_id c < rid" and "rc_fence c"
    and "\<forall>wc \<in> set (completions ps). wc_wr_id wc < rid" and "rets ep = 0 # rs"
  shows "(\<exists>c' ep'. ReadConnection_WaitReceive rid c ep = Some (Status0, c', ep')) \<and>
    (\<exists>ep'. ReadConnection_SendAsync ra region ep = Some (Inr (reg_addr region - 1), ep') \<and>
      ReadConnection_WaitReceive rid c ep' = None)"
proof
  have comps: "completions (send_polls ep) = wcs @ completions ps"
    unfolding assms(1) by (induction wcs) auto
  then have "\<exists>wc\<in>set (completions (send_polls ep)). rid \<le> wc_wr_id wc" using assms(3,4) by auto
  with wait_loop_last [OF assms(2), of rid "rc_ackd_rcv_id c"]
  show "\<exists>c' ep'. ReadConnection_WaitReceive rid c ep = Some (Status0, c', ep')"
    using assms(6) by (auto simp: ReadConnection_WaitReceive_def)
  let ?req = "\<lparr>rr_addr = reg_addr region, rr_key = reg_lkey region, rr_length = reg_length region\<rparr>"
  let ?ep0 = "store_request ra ?req ep"
  have "send_polls ?ep0 = map (Pair 1) wcs @ (0, w) # ps" "rets ?ep0 = 0 # rs"
    using assms(1,8) by (simp_all add: store_request_def sys_void_def)
  note drained = drain_takes [OF this(1)] and rs = this(2)
  have "\<exists>ep'. ReadConnection_SendAsync ra region ep = Some (Inr (reg_addr region - 1), ep') \<and> send_polls ep' = ps"
    by (simp add: ReadConnection_SendAsync_def drained Endpoint_PostInline_def Endpoint_PostSendRaw_def
        sys_reply [of _ 0 rs] rs Status_def Let_def)
  then obtain ep' where s: "ReadConnection_SendAsync ra region ep = Some (Inr (reg_addr region - 1), ep')"
    "send_polls ep' = ps" by blast
  have ok: "all_successful (send_polls ep')" using assms(2) comps s(2) by (simp add: all_successful_def)
  have "ReadConnection_WaitReceive rid c ep' = None"
    using wait_loop_last [OF ok, of rid "rc_ackd_rcv_id c"] assms(5,7) s(2)
    by (auto simp: ReadConnection_WaitReceive_def not_le split: if_splits)
  with s(1) show "\<exists>ep'. ReadConnection_SendAsync ra region ep = Some (Inr (reg_addr region - 1), ep') \<and>
      ReadConnection_WaitReceive rid c ep' = None" by blast
qed

lemma read_send_takes_completion_witness:
  "\<exists>c' ep'. ReadConnection_WaitReceive 1 (ReadConnection demo_read_queue True)
     (demo_send_ep [(1, demo_wc 1), (0, demo_wc 0)]) = Some (Status0, c', ep')"
  using read_send_takes_completion [of "demo_send_ep [(1, demo_wc 1), (0, demo_wc 0)]" "[demo_wc 1]" "demo_wc 0" "[]"
      "demo_wc 1" 1 "ReadConnection demo_read_queue True" "[0, 0, 0]" 64 demo_region]
  by (simp add: all_successful_def demo_wc_def ReadConnection_def)

end
