(* ===== verification/Send_Receive.thy ===== *)
theory Send_Receive
  imports Write_Waiting Endpoint_Setup
begin

text \<open>
  \<^verbatim>\<open>tests/send_recv/send_receive.{hpp,cpp}\<close>: connections over plain send and receive requests. The
  receive queue of a connection is its own or a stub of the listener's shared queue; a listener
  may also receive for all its connections from one completion queue.
\<close>

section \<open>Data\<close>

text \<open>The interface \<open>IReceiveQueue\<close> as a table of operations.\<close>

record 'q IReceiveQueue =
  iq_GetMR :: "'q \<Rightarrow> u32 \<Rightarrow> buffer_mr"
  iq_PostMR :: "u32 \<Rightarrow> 'q \<Rightarrow> endpoint \<Rightarrow> (status \<times> 'q \<times> endpoint) option"
  iq_Close :: "'q \<Rightarrow> endpoint \<Rightarrow> (status \<times> endpoint) option"

definition own_queue :: "receive_queue IReceiveQueue" where
  "own_queue = \<lparr>iq_GetMR = ReceiveQueue_GetMR, iq_PostMR = ReceiveQueue_PostMR, iq_Close = ReceiveQueue_Close\<rparr>"

text \<open>Stub \<open>k\<close>; \<open>room\<close> tells whether its queue takes another id.\<close>

definition stub_queue :: "nat \<Rightarrow> bool \<Rightarrow> shared_receive_queue IReceiveQueue" where
  "stub_queue k room = \<lparr>iq_GetMR = SharedReceiveQueueStub_GetMR,
     iq_PostMR = (\<lambda>i s ep. case SharedReceiveQueueStub_PostMR k i s room of (st, s) \<Rightarrow> Some (st, s, ep)),
     iq_Close = (\<lambda>s. SharedReceiveQueueStub_Close)\<rparr>"

record 'q send_receive =
  sr_rq :: 'q
  sr_rq_shared :: bool
  sr_ackd_id :: u64
  sr_next_id :: u64
  sr_next_post_id :: u32
  sr_max_to_post :: u32

definition sr_inflight :: u64 where
  "sr_inflight = 512"

definition SendReceiveConnection :: "'q \<Rightarrow> bool \<Rightarrow> 'q send_receive" where
  "SendReceiveConnection rq shared = \<lparr>sr_rq = rq, sr_rq_shared = shared, sr_ackd_id = 0, sr_next_id = 1,
     sr_next_post_id = 0, sr_max_to_post = ucast (sr_inflight div 4)\<rparr>"

definition sr_defaultOptions :: Options where
  "sr_defaultOptions = \<lparr>o_pd = 0, o_srq = 0, o_send_cq = 0, o_recv_cq = 0,
     o_max_send_wr = ucast (2 * sr_inflight), o_max_recv_wr = ucast (2 * sr_inflight), o_max_send_sge = 1,
     o_max_recv_sge = 1, o_max_inline_data = 0, o_use_srq = False, o_private_data = [], o_src = None,
     o_responder_resources = 0, o_initiator_depth = 0, o_flow_control = 0,
     o_retry_count = 5, o_rnr_retry_count = 2, o_native_qp = False, o_inline_recv = 0\<rparr>"

section \<open>Sending\<close>

definition SendReceiveConnection_GetMemoryRegion ::
    "u64 \<Rightarrow> endpoint \<Rightarrow> (SendRegion status_or \<times> endpoint) option" where
  "SendReceiveConnection_GetMemoryRegion = DumbAllocator_Alloc"

definition SendReceiveConnection_Free :: "SendRegion \<Rightarrow> endpoint \<Rightarrow> (status \<times> endpoint) option" where
  "SendReceiveConnection_Free = DumbAllocator_Free"

definition SendReceiveConnection_SendAsync ::
    "SendRegion \<Rightarrow> 'q send_receive \<Rightarrow> endpoint \<Rightarrow> (u64 status_or \<times> 'q send_receive \<times> endpoint) option" where
  "SendReceiveConnection_SendAsync region c ep = (
     let sid = sr_next_id c; c = c\<lparr>sr_next_id := sid + 1\<rparr> in do {
     (sendStatus, ep) \<leftarrow> Endpoint_PostSend sid (reg_lkey region) (reg_addr region) (ucast (reg_length region)) ep;
     Some (if \<not> status_ok sendStatus then Inl sendStatus else Inr sid, c, ep) })"

text \<open>All requests of a batch have the same id, the last one is signaled.\<close>

definition send_batch :: "u64 \<Rightarrow> SendRegion list \<Rightarrow> send_wr list" where
  "send_batch sid regions = map (\<lambda>(i, region).
     send_wr0 sid \<lparr>sge_addr = reg_addr region, sge_length = reg_length region, sge_lkey = reg_lkey region\<rparr> WR_SEND
       (if Suc i = length regions then [SEND_SIGNALED] else [])) (enumerate 0 regions)"

text \<open>An empty batch posts an array of no elements.\<close>

definition SendReceiveConnection_SendAsync_batch ::
    "SendRegion list \<Rightarrow> 'q send_receive \<Rightarrow> endpoint \<Rightarrow> (u64 status_or \<times> 'q send_receive \<times> endpoint) option" where
  "SendReceiveConnection_SendAsync_batch regions c ep = (
     let sid = sr_next_id c; c = c\<lparr>sr_next_id := sid + 1\<rparr> in
     if regions = [] then None
     else do {
       (stat, ep) \<leftarrow> Endpoint_PostSendRaw (send_batch sid regions) ep;
       Some (if \<not> status_ok stat then Inl stat else Inr sid, c, ep) })"

definition SendReceiveConnection_Wait ::
    "u64 \<Rightarrow> 'q send_receive \<Rightarrow> endpoint \<Rightarrow> (status \<times> 'q send_receive \<times> endpoint) option" where
  "SendReceiveConnection_Wait sid c ep = do {
     (st, ackd, ep) \<leftarrow> wait_loop keep_last sid (sr_ackd_id c) ep;
     Some (st, c\<lparr>sr_ackd_id := ackd\<rparr>, ep) }"

definition sr_send_and_wait ::
    "('q send_receive \<Rightarrow> endpoint \<Rightarrow> (u64 status_or \<times> 'q send_receive \<times> endpoint) option) \<Rightarrow>
     'q send_receive \<Rightarrow> endpoint \<Rightarrow> (status \<times> 'q send_receive \<times> endpoint) option" where
  "sr_send_and_wait async c ep = do {
     (id_stat, c, ep) \<leftarrow> async c ep;
     (case id_stat of Inl s \<Rightarrow> Some (s, c, ep) | Inr sid \<Rightarrow> SendReceiveConnection_Wait sid c ep) }"

definition SendReceiveConnection_Send ::
    "SendRegion \<Rightarrow> 'q send_receive \<Rightarrow> endpoint \<Rightarrow> (status \<times> 'q send_receive \<times> endpoint) option" where
  "SendReceiveConnection_Send region = sr_send_and_wait (SendReceiveConnection_SendAsync region)"

definition SendReceiveConnection_Send_batch ::
    "SendRegion list \<Rightarrow> 'q send_receive \<Rightarrow> endpoint \<Rightarrow> (status \<times> 'q send_receive \<times> endpoint) option" where
  "SendReceiveConnection_Send_batch regions = sr_send_and_wait (SendReceiveConnection_SendAsync_batch regions)"

section \<open>Receiving\<close>

definition SendReceiveConnection_Receive ::
    "'q IReceiveQueue \<Rightarrow> 'q send_receive \<Rightarrow> endpoint \<Rightarrow> (ReceiveRegion status_or \<times> endpoint) option" where
  "SendReceiveConnection_Receive iq c ep = do {
     (wcStatus, ep) \<leftarrow> Endpoint_PollRecvCq ep;
     Some (case wcStatus of
         Inl s \<Rightarrow> Inl (Wrap ''error while polling recieve queue for receive'' s)
       | Inr wc \<Rightarrow> Inr \<lparr>reg_context = wc_wr_id wc, reg_addr = bm_addr (iq_GetMR iq (sr_rq c) (ucast (wc_wr_id wc))),
                       reg_length = wc_byte_len wc, reg_lkey = 0\<rparr>, ep) }"

definition SendReceiveConnection_Free_receive ::
    "'q IReceiveQueue \<Rightarrow> ReceiveRegion \<Rightarrow> 'q send_receive \<Rightarrow> endpoint \<Rightarrow>
     (status \<times> 'q send_receive \<times> endpoint) option" where
  "SendReceiveConnection_Free_receive iq region c ep = do {
     (st, q, ep) \<leftarrow> iq_PostMR iq (ucast (reg_context region)) (sr_rq c) ep;
     Some (st, c\<lparr>sr_rq := q\<rparr>, ep) }"

definition SendReceiveConnection_Close ::
    "'q IReceiveQueue \<Rightarrow> 'q send_receive \<Rightarrow> endpoint \<Rightarrow> (status \<times> endpoint) option" where
  "SendReceiveConnection_Close iq c ep = do {
     (stat, ep) \<leftarrow> (if sr_rq_shared c then Some (Status0, ep) else iq_Close iq (sr_rq c) ep);
     if \<not> status_ok stat
     then Some (Wrap ''error closing receive queue for SendReceiveConnection'' stat, ep)
     else Endpoint_Close ep }"

section \<open>Dialing\<close>

definition sr_port :: "int \<Rightarrow> int" where
  "sr_port port = (if port = 0 then 18515 else port)"

definition sr_dial_options :: "string \<Rightarrow> Options" where
  "sr_dial_options src = (if src \<noteq> [] then sr_defaultOptions\<lparr>o_src := Some src\<rparr> else sr_defaultOptions)"

definition DialSendReceive_src ::
    "string \<Rightarrow> int \<Rightarrow> string \<Rightarrow> env \<Rightarrow> ((receive_queue send_receive \<times> endpoint) status_or \<times> env) option" where
  "DialSendReceive_src ip port src e = do {
     (epStatus, e) \<leftarrow> Dial ip (sr_port port) (sr_dial_options src) e;
     (case epStatus of Inl s \<Rightarrow> Some (Inl s, e) | Inr ep \<Rightarrow> do {
       (rq_stat, ep) \<leftarrow> GetReceiveQueue (16 * 1024) sr_inflight ep;
       Some (case rq_stat of
           Inl s \<Rightarrow> Inl (Wrap ''error creating receive queue while dialing'' s)
         | Inr rq \<Rightarrow> Inr (SendReceiveConnection rq False, ep), env.truncate ep) }) }"

text \<open>A source given as a null pointer, \<open>None\<close>, is not a string.\<close>

definition DialSendReceive_src_rq ::
    "string \<Rightarrow> int \<Rightarrow> string option \<Rightarrow> 'q \<Rightarrow> env \<Rightarrow> (('q send_receive \<times> endpoint) status_or \<times> env) option" where
  "DialSendReceive_src_rq ip port src rq e = do {
     src \<leftarrow> src;
     (epStatus, e) \<leftarrow> Dial ip (sr_port port) (sr_dial_options src) e;
     Some (case epStatus of Inl s \<Rightarrow> Inl s | Inr ep \<Rightarrow> Inr (SendReceiveConnection rq True, ep), e) }"

text \<open>\<open>DialSendReceive(ip, port, NULL, rq)\<close>.\<close>

definition DialSendReceive_rq ::
    "string \<Rightarrow> int \<Rightarrow> 'q \<Rightarrow> env \<Rightarrow> (('q send_receive \<times> endpoint) status_or \<times> env) option" where
  "DialSendReceive_rq ip port rq e = DialSendReceive_src_rq ip port None rq e"

text \<open>
  \<open>DialSendReceive(ip, port, NULL)\<close>. The third argument may become a string, by a user-defined
  conversion, or an \<open>IReceiveQueue *\<close>, by a standard one, which C++ prefers: the call is that of
  the overload above with a null queue.
\<close>

definition DialSendReceive ::
    "string \<Rightarrow> int \<Rightarrow> env \<Rightarrow> ((u64 send_receive \<times> endpoint) status_or \<times> env) option" where
  "DialSendReceive ip port e = DialSendReceive_rq ip port 0 e"

section \<open>The listener\<close>

text \<open>
  The receive queue of an accepted connection: its own, the one the listener keeps under the
  number of a queue pair (the connection holds the same pointer), or a stub of the shared queue.
\<close>

datatype rq_ref = Own_rq receive_queue | Listed_rq u32 | Stub_rq nat

text \<open>
  A queue in \<open>rqs_\<close> posts on the endpoint it was made for, which is kept beside it. \<open>0\<close> is the null
  completion queue, \<open>None\<close> the null shared queue.
\<close>

record sr_listener =
  sl_listener :: cm_id
  sl_srq :: "shared_receive_queue option"
  sl_rcv_cq :: u64
  sl_rqs :: "(u32, receive_queue \<times> endpoint) map"
  sl_single_receiver :: bool

definition SendReceiveListener :: "cm_id \<Rightarrow> shared_receive_queue option \<Rightarrow> bool \<Rightarrow> sr_listener" where
  "SendReceiveListener ln srq single = \<lparr>sl_listener = ln, sl_srq = srq, sl_rcv_cq = 0,
     sl_rqs = Map.empty, sl_single_receiver = single\<rparr>"

definition ListenSendReceive_shared ::
    "string \<Rightarrow> int \<Rightarrow> bool \<Rightarrow> env \<Rightarrow> (sr_listener status_or \<times> env) option" where
  "ListenSendReceive_shared ip port shared_rcv e = do {
     (lnStatus, e) \<leftarrow> Listen ip (sr_port port) e;
     Some (case lnStatus of Inl s \<Rightarrow> Inl s | Inr ln \<Rightarrow> Inr (SendReceiveListener ln None shared_rcv), e) }"

definition ListenSendReceive :: "string \<Rightarrow> int \<Rightarrow> env \<Rightarrow> (sr_listener status_or \<times> env) option" where
  "ListenSendReceive ip port = ListenSendReceive_shared ip port False"

definition ListenSharedReceive_shared ::
    "string \<Rightarrow> int \<Rightarrow> bool \<Rightarrow> env \<Rightarrow> (sr_listener status_or \<times> env) option" where
  "ListenSharedReceive_shared ip port shared_rcv e = do {
     (lnStatus, e) \<leftarrow> Listen ip (sr_port port) e;
     (case lnStatus of Inl s \<Rightarrow> Some (Inl s, e) | Inr ln \<Rightarrow> do {
       pd \<leftarrow> Listener_GetPd ln;
       (srq_stat, e) \<leftarrow> GetSharedReceiveQueue pd (16 * 1024) (2 * sr_inflight) e;
       Some (case srq_stat of
           Inl s \<Rightarrow> Inl (Wrap ''error creating shared receive queue'' s)
         | Inr srq \<Rightarrow> Inr (SendReceiveListener ln (Some srq) shared_rcv), e) }) }"

definition ListenSharedReceive :: "string \<Rightarrow> int \<Rightarrow> env \<Rightarrow> (sr_listener status_or \<times> env) option" where
  "ListenSharedReceive ip port = ListenSharedReceive_shared ip port False"

text \<open>The common completion queue is created for the first connection that is accepted.\<close>

definition accept_cq :: "sr_listener \<Rightarrow> env \<Rightarrow> (sr_listener \<times> env) option" where
  "accept_cq l e = (
     if sl_single_receiver l \<and> sl_rcv_cq l = 0 then do {
       (cq, e) \<leftarrow> sys_addr (Create_cq 1024) e;
       Some (l\<lparr>sl_rcv_cq := cq\<rparr>, e) }
     else Some (l, e))"

definition accept_opts :: "sr_listener \<Rightarrow> Options" where
  "accept_opts l = sr_defaultOptions
     \<lparr>o_srq := (case sl_srq l of None \<Rightarrow> 0 | Some srq \<Rightarrow> SharedReceiveQueue_GetSRQ srq),
      o_recv_cq := (if sl_single_receiver l then sl_rcv_cq l else 0)\<rparr>"

definition accept_rq :: "sr_listener \<Rightarrow> endpoint \<Rightarrow> (rq_ref status_or \<times> sr_listener \<times> endpoint) option" where
  "accept_rq l ep = (case sl_srq l of
     None \<Rightarrow> do {
       (rq_stat, ep) \<leftarrow> GetReceiveQueue (16 * 1024) sr_inflight ep;
       Some (case rq_stat of
           Inl s \<Rightarrow> (Inl (Wrap ''error creating receive queue while accepting'' s), l, ep)
         | Inr trq \<Rightarrow>
             if sl_single_receiver l
             then (Inr (Listed_rq (Endpoint_GetQpNum ep)),
                   l\<lparr>sl_rqs := (sl_rqs l)(Endpoint_GetQpNum ep \<mapsto> (trq, ep))\<rparr>, ep)
             else (Inr (Own_rq trq), l, ep)) }
   | Some srq \<Rightarrow> (case SharedReceiveQueue_NewReceiver srq of
       (k, srq) \<Rightarrow> Some (Inr (Stub_rq k), l\<lparr>sl_srq := Some srq\<rparr>, ep)))"

definition SendReceiveListener_Accept ::
    "sr_listener \<Rightarrow> env \<Rightarrow> ((rq_ref send_receive \<times> endpoint) status_or \<times> sr_listener \<times> env) option" where
  "SendReceiveListener_Accept l e = do {
     (l, e) \<leftarrow> accept_cq l e;
     (epStatus, e) \<leftarrow> Listener_Accept (accept_opts l) (sl_listener l) e;
     (case epStatus of Inl s \<Rightarrow> Some (Inl s, l, e) | Inr ep \<Rightarrow> do {
       (rq, l, ep) \<leftarrow> accept_rq l ep;
       Some (case rq of Inl s \<Rightarrow> Inl s
         | Inr rq \<Rightarrow> Inr (SendReceiveConnection rq (sl_srq l \<noteq> None), ep), l, env.truncate ep) }) }"

text \<open>
  The loop polls for one entry until the reply is not 0. The inner \<open>None\<close> is a negative reply. A
  positive reply that wrote no entry would leave \<open>wc\<close> uninitialised.
\<close>

fun poll_recv_one :: "(int \<times> ibv_wc list) list \<Rightarrow> (ibv_wc option \<times> (int \<times> ibv_wc list) list) option" where
  "poll_recv_one [] = None"
| "poll_recv_one ((ret, wcs) # ps) =
     (if ret = 0 then poll_recv_one ps
      else if ret < 0 then Some (None, ps)
      else case wcs of [] \<Rightarrow> None | wc # _ \<Rightarrow> Some (Some wc, ps))"

text \<open>
  The status of the completion is not looked at. A null completion queue, or a queue pair number
  with no queue, is a null pointer that is dereferenced.
\<close>

definition listener_context :: "u32 \<Rightarrow> u64 \<Rightarrow> u64" where
  "listener_context qp wid = push_bit 32 (ucast qp) OR wid"

definition SendReceiveListener_Receive ::
    "sr_listener \<Rightarrow> env \<Rightarrow> (ReceiveRegion status_or \<times> sr_listener \<times> env) option" where
  "SendReceiveListener_Receive l e = (
     if sl_rcv_cq l = 0 then None
     else do {
       (wc, ps) \<leftarrow> poll_recv_one (recv_polls e);
       let e = e\<lparr>recv_polls := ps\<rparr>;
       (case wc of
          None \<Rightarrow> Some (Inl (Status Internal (''error polling recv cq'' @ [CHR 0x0A])), l, e)
        | Some wc \<Rightarrow> (case sl_srq l of
            Some srq \<Rightarrow> Some (Inr \<lparr>reg_context = wc_wr_id wc,
              reg_addr = bm_addr (SharedReceiveQueue_GetMR srq (ucast (wc_wr_id wc))),
              reg_length = wc_byte_len wc, reg_lkey = 0\<rparr>, l, e)
          | None \<Rightarrow> (case sl_rqs l (wc_qp_num wc) of
              None \<Rightarrow> None
            | Some (rq, _) \<Rightarrow> Some (Inr \<lparr>reg_context = listener_context (wc_qp_num wc) (wc_wr_id wc),
                reg_addr = bm_addr (ReceiveQueue_GetMR rq (ucast (wc_wr_id wc))),
                reg_length = wc_byte_len wc, reg_lkey = 0\<rparr>, l, e)))) })"

text \<open>An operation of a queue runs on its endpoint within the environment of the caller.\<close>

definition SendReceiveListener_Free ::
    "ReceiveRegion \<Rightarrow> sr_listener \<Rightarrow> env \<Rightarrow> (status \<times> sr_listener \<times> env) option" where
  "SendReceiveListener_Free region l e = (case sl_srq l of
     Some srq \<Rightarrow> do {
       (st, srq, e) \<leftarrow> SharedReceiveQueue_PostMR (ucast (reg_context region)) srq e;
       Some (st, l\<lparr>sl_srq := Some srq\<rparr>, e) }
   | None \<Rightarrow> (let qp_num = ucast (drop_bit 32 (reg_context region)) :: u32 in
       case sl_rqs l qp_num of
         None \<Rightarrow> None
       | Some (rq, ep) \<Rightarrow> do {
           (st, rq, ep) \<leftarrow> ReceiveQueue_PostMR (ucast (reg_context region AND 0xFFFFFFFF)) rq
              (env.extend e (env.more ep));
           Some (st, l\<lparr>sl_rqs := (sl_rqs l)(qp_num \<mapsto> (rq, ep))\<rparr>, env.truncate ep) }))"

text \<open>What closing the shared queue reports is dropped.\<close>

definition SendReceiveListener_Close :: "sr_listener \<Rightarrow> env \<Rightarrow> (status \<times> sr_listener \<times> env) option" where
  "SendReceiveListener_Close l e = do {
     (l, e) \<leftarrow> (case sl_srq l of
         None \<Rightarrow> Some (l, e)
       | Some srq \<Rightarrow> do {
           (_, srq, e) \<leftarrow> SharedReceiveQueue_Close srq e;
           Some (l\<lparr>sl_srq := Some srq\<rparr>, e) });
     (st, e) \<leftarrow> Listener_Close e;
     Some (st, l, e) }"

text \<open>The turns of the loop are given, as for \<open>Run\<close>.\<close>

definition SendReceiveListener_RunReceiver ::
    "srq_turn list \<Rightarrow> sr_listener \<Rightarrow> env \<Rightarrow> (status \<times> sr_listener \<times> srq_turn list \<times> env) option" where
  "SendReceiveListener_RunReceiver ts l e = do {
     srq \<leftarrow> sl_srq l;
     (st, srq, ts, e) \<leftarrow> SharedReceiveQueue_Run ts srq e;
     Some (st, l\<lparr>sl_srq := Some srq\<rparr>, ts, e) }"

end
