(* ===== verification/Send_Receive_Safety.thy ===== *)
theory Send_Receive_Safety
  imports Send_Receive
begin

text \<open>
  What the send/receive connection and its listener keep: a buffer received on any connection of a
  listener goes back to the queue it came from, a batch of sends has one completion that its wait
  waits for, and the two-argument dial cannot return.
\<close>

section \<open>The context of a received buffer\<close>

lemma context_qp: "(ucast (drop_bit 32 (listener_context qp (ucast (i :: u32)))) :: u32) = qp"
  by (rule bit_eqI) (auto simp: listener_context_def bit_simps dest: bit_imp_le_length)

lemma context_wr_id: "(ucast (listener_context qp (ucast (i :: u32)) AND 0xFFFFFFFF) :: u32) = i"
proof -
  have m: "(0xFFFFFFFF :: u64) = mask 32" by (simp add: mask_eq_exp_minus_1)
  show ?thesis unfolding m by (rule bit_eqI) (auto simp: listener_context_def bit_simps)
qed

lemma listener_receive_own:
  assumes "SendReceiveListener_Receive l e = Some (Inr reg, l1, e1)" and "sl_srq l = None"
    and "poll_recv_one (recv_polls e) = Some (Some wc, ps)" and "wc_wr_id wc = ucast (i :: u32)"
  obtains rq ep where "sl_rqs l (wc_qp_num wc) = Some (rq, ep)"
    "reg = \<lparr>reg_context = listener_context (wc_qp_num wc) (ucast i), reg_addr = ContextToAddr rq i,
       reg_length = wc_byte_len wc, reg_lkey = 0\<rparr>"
    "l1 = l" "e1 = e\<lparr>recv_polls := ps\<rparr>"
  using assms
  by (auto simp: SendReceiveListener_Receive_def ReceiveQueue_GetMR_def ContextToAddr_def Let_def
      split: if_splits option.splits prod.splits)

section \<open>Well-formed listeners\<close>

text \<open>Every queue the listener keeps is well formed, and so is its shared queue.\<close>

definition listener_ok :: "sr_listener \<Rightarrow> bool" where
  "listener_ok l \<longleftrightarrow> (\<forall>(q, ep) \<in> ran (sl_rqs l). rq_ok q) \<and> pred_option (\<lambda>s. rq_ok (sq_rq s)) (sl_srq l)"

lemma listener_ok_own: "listener_ok l \<Longrightarrow> sl_rqs l qp = Some (q, ep) \<Longrightarrow> rq_ok q"
  by (auto simp: listener_ok_def ran_def)

lemma listener_ok_srq: "listener_ok l \<Longrightarrow> sl_srq l = Some s \<Longrightarrow> rq_ok (sq_rq s)"
  by (simp add: listener_ok_def)

lemma listener_ok_upd:
  "listener_ok l \<Longrightarrow> rq_ok q \<Longrightarrow> listener_ok (l\<lparr>sl_rqs := (sl_rqs l)(qp \<mapsto> (q, ep))\<rparr>)"
  "listener_ok l \<Longrightarrow> rq_ok (sq_rq s) \<Longrightarrow> listener_ok (l\<lparr>sl_srq := Some s\<rparr>)"
  "listener_ok l \<Longrightarrow> listener_ok (l\<lparr>sl_rcv_cq := cq\<rparr>)"
  by (simp_all add: listener_ok_def ran_def) (metis (mono_tags, lifting) fun_upd_apply option.inject case_prod_conv)

lemma srq_post_srq:
  assumes "SharedReceiveQueue_PostMR i s e = Some (st, s', e')" and "rq_ok (sq_rq s)"
  shows "rq_ok (sq_rq s')"
proof -
  from assms(1) obtain q where "srq_post i (sq_rq s) e = Some (st, q, e')" "s' = s\<lparr>sq_rq := q\<rparr>"
    by (auto simp: SharedReceiveQueue_PostMR_def elim!: bindE)
  with srq_post_once [OF assms(2) this(1)] show ?thesis by simp
qed

text \<open>What a listener's owner does with it, and what that leaves behind.\<close>

inductive listener_step :: "sr_listener \<Rightarrow> sr_listener \<Rightarrow> bool" where
  accept: "SendReceiveListener_Accept l e = Some (r, l', e') \<Longrightarrow> listener_step l l'"
| receive: "SendReceiveListener_Receive l e = Some (r, l', e') \<Longrightarrow> listener_step l l'"
| free: "SendReceiveListener_Free reg l e = Some (st, l', e') \<Longrightarrow> listener_step l l'"
| run: "SendReceiveListener_RunReceiver ts l e = Some (st, l', ts', e') \<Longrightarrow> listener_step l l'"
| close: "SendReceiveListener_Close l e = Some (st, l', e') \<Longrightarrow> listener_step l l'"

inductive listener_reachable :: "sr_listener \<Rightarrow> bool" where
  listen: "ListenSendReceive_shared ip port single e = Some (Inr l, e') \<Longrightarrow> listener_reachable l"
| listen_srq: "ListenSharedReceive_shared ip port single e = Some (Inr l, e') \<Longrightarrow> listener_reachable l"
| step: "listener_reachable l \<Longrightarrow> listener_step l l' \<Longrightarrow> listener_reachable l'"

lemma listen_ok:
  "ListenSendReceive_shared ip port single e = Some (Inr l, e') \<Longrightarrow> listener_ok l"
  by (auto simp: ListenSendReceive_shared_def SendReceiveListener_def listener_ok_def elim!: bindE
      split: sum.splits)

lemma listen_srq_ok:
  assumes "ListenSharedReceive_shared ip port single e = Some (Inr l, e')"
  shows "listener_ok l"
proof -
  from assms obtain ln e1 pd srq where
    "GetSharedReceiveQueue pd (16 * 1024) (2 * sr_inflight) e1 = Some (Inr srq, e')"
    "l = SendReceiveListener ln (Some srq) single"
    unfolding ListenSharedReceive_shared_def by (auto elim!: bindE split: sum.splits)
  then show ?thesis
    by (auto simp: GetSharedReceiveQueue_def SendReceiveListener_def listener_ok_def rq_ok_new
        elim!: bindE split: if_splits option.splits)
qed

lemma accept_rq_ok:
  assumes "accept_rq l ep = Some (r, l', ep')" and "listener_ok l"
  shows "listener_ok l'"
proof (cases "sl_srq l")
  case None
  have q: "rq_ok q" if "GetReceiveQueue (16 * 1024) sr_inflight ep = Some (Inr q, ep1)" for q ep1
    using GetReceiveQueue_ok [OF that] by (simp add: sr_inflight_def)
  from assms None show ?thesis
    by (auto simp: accept_rq_def elim!: bindE split: sum.splits if_splits
        intro!: listener_ok_upd(1) q)
next
  case (Some s)
  then show ?thesis using assms listener_ok_srq [OF assms(2) Some]
    by (auto simp: accept_rq_def SharedReceiveQueue_NewReceiver_def intro: listener_ok_upd(2))
qed

lemma accept_ok:
  assumes "SendReceiveListener_Accept l e = Some (r, l', e')" and "listener_ok l"
  shows "listener_ok l'"
proof -
  from assms(1) obtain l1 e1 where 1: "accept_cq l e = Some (l1, e1)"
    and 2: "l' = l1 \<or> (\<exists>ep rq ep'. accept_rq l1 ep = Some (rq, l', ep'))"
    unfolding SendReceiveListener_Accept_def by (fastforce elim!: bindE split: sum.splits)
  have "listener_ok l1" using 1 assms(2) listener_ok_upd(3)
    by (auto simp: accept_cq_def elim!: bindE split: if_splits)
  with 2 show ?thesis by (auto intro: accept_rq_ok)
qed

lemma receive_unchanged: "SendReceiveListener_Receive l e = Some (r, l', e') \<Longrightarrow> l' = l"
  by (auto simp: SendReceiveListener_Receive_def Let_def elim!: bindE split: if_splits option.splits)

lemma free_ok:
  assumes "SendReceiveListener_Free reg l e = Some (st, l', e')" and "listener_ok l"
  shows "listener_ok l'"
proof (cases "sl_srq l")
  case None
  then show ?thesis using assms listener_ok_own [OF assms(2)]
    by (auto simp: SendReceiveListener_Free_def Let_def elim!: bindE split: option.splits
        dest!: rq_post_once intro: listener_ok_upd(1))
next
  case (Some s)
  then show ?thesis using assms listener_ok_srq [OF assms(2) Some]
    by (auto simp: SendReceiveListener_Free_def elim!: bindE intro: listener_ok_upd(2) dest: srq_post_srq)
qed

lemma close_ok:
  assumes "SendReceiveListener_Close l e = Some (st, l', e')" and "listener_ok l"
  shows "listener_ok l'"
proof (cases "sl_srq l")
  case (Some s)
  have "sq_rq s' = sq_rq s" if "SharedReceiveQueue_Close s e = Some (st, s', e1)" for st s' e1
    using that by (auto simp: SharedReceiveQueue_Close_def Let_def elim!: bindE split: if_splits)
  then show ?thesis using assms Some listener_ok_srq [OF assms(2) Some]
    by (auto simp: SendReceiveListener_Close_def elim!: bindE intro!: listener_ok_upd(2))
qed (use assms in \<open>auto simp: SendReceiveListener_Close_def elim!: bindE\<close>)

lemma run_receiver_ok:
  assumes "SendReceiveListener_RunReceiver ts l e = Some (st, l', ts', e')" and "listener_ok l"
  shows "listener_ok l'"
proof -
  from assms(1) obtain s s' where 1: "sl_srq l = Some s" "SharedReceiveQueue_Run ts s e = Some (st, s', ts', e')"
    "l' = l\<lparr>sl_srq := Some s'\<rparr>"
    by (auto simp: SendReceiveListener_RunReceiver_def elim!: bindE)
  from shared_run_ok [OF 1(2) listener_ok_srq [OF assms(2) 1(1)]]
  show ?thesis by (simp add: 1(3) listener_ok_upd(2) [OF assms(2)])
qed

lemma listener_step_ok: "listener_step l l' \<Longrightarrow> listener_ok l \<Longrightarrow> listener_ok l'"
  by (induction rule: listener_step.induct)
    (auto intro: accept_ok free_ok run_receiver_ok close_ok dest: receive_unchanged)

text \<open>
  C22: Whatever is accepted, received, given back, run or closed on a listener, with whatever
  outcome, and however it was set up: each queue it keeps, one per connection or the shared one,
  stays well formed, with room for the next buffer and every request at the length and key of its
  region.
\<close>

theorem listener_invariant:
  assumes "listener_reachable l"
  shows "(\<forall>qp q ep. sl_rqs l qp = Some (q, ep) \<longrightarrow> rq_ok q) \<and> (\<forall>s. sl_srq l = Some s \<longrightarrow> rq_ok (sq_rq s))"
proof -
  from assms have "listener_ok l"
    by (induction rule: listener_reachable.induct) (auto intro: listen_ok listen_srq_ok listener_step_ok)
  then show ?thesis by (auto simp: listener_ok_def ran_def)
qed

definition demo_sr_listener :: sr_listener where
  "demo_sr_listener = (SendReceiveListener demo_id None True)
     \<lparr>sl_rcv_cq := 6, sl_rqs := [7 \<mapsto> (ReceiveQueue_new 0 \<lparr>mr_addr = 65536, mr_length = 24, mr_lkey = 9\<rparr> 8, demo_rq_ep)]\<rparr>"

text \<open>
  C20: What a listener receives for one of its connections is the buffer of the queue of the queue
  pair that completed, at the address it was posted with; giving the region back lends exactly
  that buffer again, once, through the same queue, and touches no other queue of the listener; when
  a batch was due and the card refused it, the status says so.
\<close>

theorem listener_repost:
  assumes "SendReceiveListener_Receive l e = Some (Inr reg, l1, e1)" and "sl_srq l = None"
    and "poll_recv_one (recv_polls e) = Some (Some wc, ps)" and "wc_wr_id wc = ucast (i :: u32)"
    and "listener_ok l"
    and "SendReceiveListener_Free reg l1 e1 = Some (st, l2, e2)"
  shows "\<exists>rq ep rq' ep'. sl_rqs l (wc_qp_num wc) = Some (rq, ep) \<and>
    sge_addr (rwr_sge (rq_wr rq i)) = reg_addr reg \<and> rwr_id (rq_wr rq i) = wc_wr_id wc \<and>
    l1 = l \<and> sl_rqs l2 = (sl_rqs l)(wc_qp_num wc \<mapsto> (rq', ep')) \<and> rq_ok rq' \<and>
    mset (accepted_wrs (replied e2)) + mset (refused_wrs (replied e2)) + mset (rq_pending rq') =
      mset (accepted_wrs (replied e)) + mset (refused_wrs (replied e)) + mset (rq_pending rq) + {#rq_wr rq i#} \<and>
    length (refused_wrs (replied e2)) =
      length (refused_wrs (replied e)) + (if status_ok st then 0 else 64)"
proof -
  obtain rq ep where r: "sl_rqs l (wc_qp_num wc) = Some (rq, ep)"
    "reg = \<lparr>reg_context = listener_context (wc_qp_num wc) (ucast i), reg_addr = ContextToAddr rq i,
       reg_length = wc_byte_len wc, reg_lkey = 0\<rparr>"
    "l1 = l" "e1 = e\<lparr>recv_polls := ps\<rparr>"
    by (rule listener_receive_own [OF assms(1-4)])
  from assms(6) obtain rq' ep' where f:
    "ReceiveQueue_PostMR i rq (env.extend e1 (env.more ep)) = Some (st, rq', ep')"
    "l2 = l\<lparr>sl_rqs := (sl_rqs l)(wc_qp_num wc \<mapsto> (rq', ep'))\<rparr>" "e2 = env.truncate ep'"
    by (auto simp: SendReceiveListener_Free_def r(1-3) assms(2) context_qp context_wr_id Let_def elim!: bindE)
  have "rq_ok rq" by (rule listener_ok_own [OF assms(5) r(1)])
  from rq_post_once [OF this f(1)] r f show ?thesis
    by - (rule exI [of _ rq], rule exI [of _ ep], rule exI [of _ rq'], rule exI [of _ ep'],
        simp add: env.defs rq_wr_def slot_wr_def sge_def assms(4))
qed

theorem listener_repost_witness:
  "\<exists>(reg :: ReceiveRegion) (l2 :: sr_listener) (e2 :: env) (rq' :: receive_queue) ep'. reg_addr reg = 65544 \<and> sl_rqs l2 = [7 \<mapsto> (rq', ep')] \<and>
     mset (accepted_wrs (replied e2)) + mset (refused_wrs (replied e2)) + mset (rq_pending rq') = {#slot_wr \<lparr>mr_addr = 65536, mr_length = 24, mr_lkey = 9\<rparr> 8 1 65544#}"
proof -
  let ?wc = "zero_wc\<lparr>wc_wr_id := 1, wc_byte_len := 5, wc_qp_num := 7\<rparr>"
  let ?e = "demo_env\<lparr>recv_polls := [(0, []), (1, [?wc])]\<rparr>" and ?l = demo_sr_listener
  have poll: "poll_recv_one (recv_polls ?e) = Some (Some ?wc, [])" by simp
  have "map_option (\<lambda>(r, p). \<not> isl r \<and> SendReceiveListener_Free (projr r) (fst p) (snd p) \<noteq> None)
      (SendReceiveListener_Receive ?l ?e) = Some True" by code_simp
  then obtain reg p where "SendReceiveListener_Receive ?l ?e = Some (Inr reg, p)"
    "SendReceiveListener_Free reg (fst p) (snd p) \<noteq> None" by (rule run_value)
  then obtain l1 e1 where 1: "SendReceiveListener_Receive ?l ?e = Some (Inr reg, l1, e1)"
    "SendReceiveListener_Free reg l1 e1 \<noteq> None" by (cases p) auto
  then obtain st l2 e2 where 2: "SendReceiveListener_Free reg l1 e1 = Some (st, l2, e2)" by auto
  have ok: "listener_ok ?l" "sl_srq ?l = None"
    by (simp_all add: listener_ok_def demo_sr_listener_def SendReceiveListener_def rq_ok_new)
  have i: "wc_wr_id ?wc = ucast (1 :: u32)" by simp
  from listener_repost [OF 1(1) ok(2) poll i ok(1) 2] obtain rq ep rq' ep' where
    r: "sl_rqs ?l 7 = Some (rq, ep)" "sge_addr (rwr_sge (rq_wr rq 1)) = reg_addr reg"
      "sl_rqs l2 = (sl_rqs ?l)(7 \<mapsto> (rq', ep'))"
      "mset (accepted_wrs (replied e2)) + mset (refused_wrs (replied e2)) + mset (rq_pending rq') =
        mset (accepted_wrs (replied ?e)) + mset (refused_wrs (replied ?e)) + mset (rq_pending rq) + {#rq_wr rq 1#}" by auto
  then have "reg_addr reg = 65544 \<and> sl_rqs l2 = [7 \<mapsto> (rq', ep')] \<and>
     mset (accepted_wrs (replied e2)) + mset (refused_wrs (replied e2)) + mset (rq_pending rq') = {#slot_wr \<lparr>mr_addr = 65536, mr_length = 24, mr_lkey = 9\<rparr> 8 1 65544#}"
    by (auto simp: demo_sr_listener_def SendReceiveListener_def rq_wr_def ContextToAddr_def
        ReceiveQueue_new_def slot_wr_def sge_def rq_pending_def batch_size_def batch_wrs_def demo_env_def)
  then show ?thesis by blast
qed

text \<open>A card that takes every first request leaves a queue with nothing to post.\<close>

lemma post_initial_taken:
  "rets ep = replicate (length is) 0 @ rs \<Longrightarrow> \<exists>ep'. post_initial is mr n ep = Some (Status0, ep') \<and>
     rets ep' = rs \<and> Endpoint_GetQpNum ep' = Endpoint_GetQpNum ep"
proof (induction "is" arbitrary: ep)
  case (Cons i js)
  let ?a = "mr_addr mr + word_of_nat i * n"
  have "\<exists>ep1. Endpoint_PostRecv (word_of_nat i) (mr_lkey mr) ?a n ep = Some (Status0, ep1) \<and>
      rets ep1 = replicate (length js) 0 @ rs \<and> Endpoint_GetQpNum ep1 = Endpoint_GetQpNum ep"
    using Cons.prems by (simp add: Endpoint_PostRecv_def Let_def sys_def Endpoint_GetQpNum_def)
  then obtain ep1 where 1: "Endpoint_PostRecv (word_of_nat i) (mr_lkey mr) ?a n ep = Some (Status0, ep1)"
    "rets ep1 = replicate (length js) 0 @ rs" "Endpoint_GetQpNum ep1 = Endpoint_GetQpNum ep" by blast
  from Cons.IH [OF 1(2)] 1(1,3) show ?case by simp
qed simp

lemma GetReceiveQueue_taken:
  assumes "addrs ep = buf # as" and "mrs ep = Some mr # ms" and "rets ep = replicate 512 0 @ rs"
  shows "\<exists>ep'. GetReceiveQueue n sr_inflight ep = Some (Inr (ReceiveQueue_new 0 mr n), ep') \<and>
    Endpoint_GetQpNum ep' = Endpoint_GetQpNum ep"
proof -
  let ?ep = "ep\<lparr>given := given ep @ [(Malloc (sr_inflight * n), buf)], addrs := as,
    calls := calls ep @ [Malloc (sr_inflight * n), Reg_mr buf (n * sr_inflight)], mrs := ms\<rparr>"
  have "length [0..<unat sr_inflight] = 512" by (simp add: sr_inflight_def)
  then have "rets ?ep = replicate (length [0..<unat sr_inflight]) 0 @ rs" using assms(3) by simp
  from post_initial_taken [OF this, of mr n] obtain ep' where
    "post_initial [0..<unat sr_inflight] mr n ?ep = Some (Status0, ep')"
    "Endpoint_GetQpNum ep' = Endpoint_GetQpNum ep" by (auto simp: Endpoint_GetQpNum_def)
  then show ?thesis using assms(1,2) by (simp add: GetReceiveQueue_def sys_addr_def sys_mr_def)
qed

definition listen_env :: "int list \<Rightarrow> env" where
  "listen_env rs = demo_env\<lparr>rets := [0, 0, 0, 0, 0, 0] @ rs, cm_ids := [demo_id, demo_id, demo_id],
     addrs := [6, 65536], mrs := [Some \<lparr>mr_addr = 65536, mr_length = 8388608, mr_lkey = 9\<rparr>]\<rparr>"

lemma listen_env_listens:
  "\<exists>e. ListenSendReceive_shared ''h'' 0 True (listen_env rs) = Some (Inr (SendReceiveListener demo_id None True), e) \<and>
     rets e = [0, 0, 0] @ rs \<and> cm_ids e = [demo_id, demo_id] \<and> addrs e = [6, 65536] \<and>
     mrs e = [Some \<lparr>mr_addr = 65536, mr_length = 8388608, mr_lkey = 9\<rparr>] \<and> qp_num_of e = (\<lambda>_. 0)"
  by (simp add: listen_env_def ListenSendReceive_shared_def Listen_def get_rdma_addr_def sys_id_def sys_def
      sys_void_def demo_env_def demo_id_def)

lemma listener_accepts:
  assumes "rets e = [0, 0, 0] @ replicate 512 0 @ rs" and "cm_ids e = [demo_id, demo_id]"
    and "addrs e = [6, 65536]" and "mrs e = [Some mr]" and "qp_num_of e = (\<lambda>_. 0)"
  shows "\<exists>r l' e' ep. SendReceiveListener_Accept (SendReceiveListener demo_id None True) e = Some (r, l', e') \<and>
    sl_srq l' = None \<and> sl_rqs l' 0 = Some (ReceiveQueue_new 0 mr (16 * 1024), ep)"
proof -
  let ?l = "(SendReceiveListener demo_id None True)\<lparr>sl_rcv_cq := 6\<rparr>"
  have "\<exists>e1. accept_cq (SendReceiveListener demo_id None True) e = Some (?l, e1) \<and>
      (\<exists>ep e2. Listener_Accept (accept_opts ?l) demo_id e1 = Some (Inr ep, e2) \<and> addrs ep = [65536] \<and>
        mrs ep = [Some mr] \<and> rets ep = replicate 512 0 @ rs \<and> Endpoint_GetQpNum ep = 0)"
    using assms by (simp add: accept_cq_def SendReceiveListener_def sys_addr_def Listener_Accept_def accept_opts_def
        sr_defaultOptions_def sys_id_def sys_def Accept_srq_def Accept_qp_def Accept_finish_def Let_def
        Endpoint_new_def Endpoint_GetQpNum_def env.defs)
  then obtain e1 ep e2 where 1: "accept_cq (SendReceiveListener demo_id None True) e = Some (?l, e1)"
    "Listener_Accept (accept_opts ?l) demo_id e1 = Some (Inr ep, e2)" "addrs ep = 65536 # []"
    "mrs ep = Some mr # []" "rets ep = replicate 512 0 @ rs" "Endpoint_GetQpNum ep = 0" by blast
  from GetReceiveQueue_taken [OF 1(3-5)] obtain ep' where
    2: "GetReceiveQueue (16 * 1024) sr_inflight ep = Some (Inr (ReceiveQueue_new 0 mr (16 * 1024)), ep')"
    "Endpoint_GetQpNum ep' = 0" using 1(6) by auto
  show ?thesis using 1(1,2) 2
    by (simp add: SendReceiveListener_Accept_def accept_rq_def SendReceiveListener_def)
qed

text \<open>A listener with one receiver for all, after it accepted a connection and got a buffer back.\<close>

theorem listener_invariant_witness:
  "\<exists>l q ep. listener_reachable l \<and> sl_rqs l 0 = Some (q, ep) \<and> length (rq_pending q) = 1 \<and> rq_ok q"
proof -
  let ?mr = "\<lparr>mr_addr = 65536, mr_length = 8388608, mr_lkey = 9\<rparr>"
  let ?q = "ReceiveQueue_new 0 ?mr (16 * 1024)" and ?reg = "\<lparr>reg_context = 5, reg_addr = 0, reg_length = 0, reg_lkey = 0\<rparr>"
  obtain e where 1: "ListenSendReceive_shared ''h'' 0 True (listen_env (replicate 512 0 @ [])) =
      Some (Inr (SendReceiveListener demo_id None True), e)"
    "rets e = [0, 0, 0] @ replicate 512 0 @ []" "cm_ids e = [demo_id, demo_id]" "addrs e = [6, 65536]"
    "mrs e = [Some ?mr]" "qp_num_of e = (\<lambda>_. 0)"
    using listen_env_listens [of "replicate 512 0 @ []"] by blast
  obtain r l e1 ep where 2: "SendReceiveListener_Accept (SendReceiveListener demo_id None True) e = Some (r, l, e1)"
    "sl_srq l = None" "sl_rqs l 0 = Some (?q, ep)"
    using listener_accepts [OF 1(2-6)] by blast
  have post: "ReceiveQueue_PostMR 5 ?q ep1 = Some (Status0, fill_slot 5 ?q, ep1)" for ep1
    by (simp add: ReceiveQueue_PostMR_def fill_slot_def ReceiveQueue_new_def batch_size_def Let_def)
  obtain l2 e2 ep2 where 3: "SendReceiveListener_Free ?reg l demo_env = Some (Status0, l2, e2)"
    "sl_rqs l2 0 = Some (fill_slot 5 ?q, ep2)"
    using 2(2,3) post by (simp add: SendReceiveListener_Free_def Let_def)
  have reach: "listener_reachable l2"
    by (rule listener_reachable.step [OF listener_reachable.step [OF listener_reachable.listen [OF 1(1)]
          listener_step.accept [OF 2(1)]] listener_step.free [OF 3(1)]])
  have "length (rq_pending (fill_slot 5 ?q)) = 1"
    by (simp add: rq_pending_def fill_slot_def ReceiveQueue_new_def batch_size_def batch_wrs_def Let_def)
  with listener_invariant [OF reach] reach 3(2) show ?thesis by blast
qed

end
