(* ===== verification/Direct_Write.thy ===== *)
theory Direct_Write
  imports Read_Connection Write_Receiver
begin

text \<open>
  \<^verbatim>\<open>tests/direct_write/direct_write.{hpp,cpp}\<close>: the sender writes each message into a buffer of the
  receiver. The receiver announces its free buffers by writing their addresses into a table in
  the sender's memory; the sender takes the entries in turn. The last word of a buffer holds the
  length of the message and tells the receiver that it has come.
\<close>

section \<open>Data\<close>

text \<open>
  An entry of the table is 16 bytes: the address, the key at offset 8 and \<open>valid\<close> at offset 12.
  The sender's table is memory that the other side writes, at \<open>dw_target_buf\<close>.
\<close>

record DirectWriteReceiveBuffer =
  db_addr :: u64
  db_rkey :: u32
  db_valid :: bool

record direct_write =
  dw_nr_buffers :: u64
  dw_buf_size :: u32
  dw_target_buf_mr :: ibv_mr
  dw_target_buf :: u64
  dw_rcv_buffer_mrs :: "ibv_mr list"
  dw_rcv_buffers :: "u32 \<rightharpoonup> DirectWriteReceiveBuffer"
  dw_rcv_head :: u32
  dw_rcv_tail :: u32
  dw_r_rcv_buf_addr :: u64
  dw_r_rcv_buf_key :: u32
  dw_ackd_id :: u64
  dw_next_id :: u64

definition DirectWriteConnection ::
    "u64 \<Rightarrow> u32 \<Rightarrow> ibv_mr list \<Rightarrow> ibv_mr \<Rightarrow> u64 \<Rightarrow> u32 \<Rightarrow> direct_write" where
  "DirectWriteConnection nr_buffers buf_size rcv_mrs target_buf_mr r_addr r_key =
     \<lparr>dw_nr_buffers = nr_buffers, dw_buf_size = buf_size, dw_target_buf_mr = target_buf_mr,
      dw_target_buf = mr_addr target_buf_mr, dw_rcv_buffer_mrs = rcv_mrs, dw_rcv_buffers = Map.empty,
      dw_rcv_head = 1, dw_rcv_tail = 1, dw_r_rcv_buf_addr = r_addr, dw_r_rcv_buf_key = r_key,
      dw_ackd_id = 0, dw_next_id = 1\<rparr>"

definition dw_inflight :: u64 where
  "dw_inflight = 128"

definition dw_default_opts :: Options where
  "dw_default_opts = \<lparr>o_pd = 0, o_srq = 0, o_send_cq = 0, o_recv_cq = 0,
     o_max_send_wr = ucast dw_inflight, o_max_recv_wr = 1, o_max_send_sge = 1, o_max_recv_sge = 1,
     o_max_inline_data = 0, o_use_srq = False, o_private_data = [], o_src = None,
     o_responder_resources = 15, o_initiator_depth = 15, o_flow_control = 0,
     o_retry_count = 8, o_rnr_retry_count = 0, o_native_qp = False, o_inline_recv = 0\<rparr>"

definition getLengthAddr :: "u64 \<Rightarrow> u32 \<Rightarrow> u64" where
  "getLengthAddr addr max_len = addr + ucast max_len - 4"

section \<open>The sender\<close>

text \<open>Every region is a whole buffer; the size that was asked for goes into its last word.\<close>

definition DirectWriteConnection_GetMemoryRegion ::
    "u64 \<Rightarrow> direct_write \<Rightarrow> endpoint \<Rightarrow> (SendRegion status_or \<times> endpoint) option" where
  "DirectWriteConnection_GetMemoryRegion sz c ep = do {
     (mrStatus, ep) \<leftarrow> DumbAllocator_Alloc (ucast (dw_buf_size c)) ep;
     Some (case mrStatus of
         Inl s \<Rightarrow> (Inl s, ep)
       | Inr mr \<Rightarrow> (Inr mr, sys_void (Store (getLengthAddr (reg_addr mr) (dw_buf_size c)) sz 4) ep)) }"

definition DirectWriteConnection_Free_send ::
    "SendRegion \<Rightarrow> direct_write \<Rightarrow> endpoint \<Rightarrow> (status \<times> endpoint) option" where
  "DirectWriteConnection_Free_send region c ep = DumbAllocator_Free (region\<lparr>reg_length := dw_buf_size c\<rparr>) ep"

definition target_entry :: "u64 \<Rightarrow> direct_write \<Rightarrow> u64" where
  "target_entry sid c = dw_target_buf c + (sid mod dw_nr_buffers c) * 16"

definition DirectWriteConnection_SendAsync ::
    "SendRegion \<Rightarrow> direct_write \<Rightarrow> endpoint \<Rightarrow> (u64 status_or \<times> direct_write \<times> endpoint) option" where
  "DirectWriteConnection_SendAsync region c ep = (
     let sid = dw_next_id c; c = c\<lparr>dw_next_id := sid + 1\<rparr>; buf = target_entry sid c in do {
     ep \<leftarrow> poll_word (\<lambda>v. (ucast v :: u8) = 0) (buf + 12) ep;
     (addr, ep) \<leftarrow> sys_load buf ep;
     (rkey, ep) \<leftarrow> sys_load (buf + 8) ep;
     let ep = sys_void (Store (buf + 12) 0 1) ep;
     (sendStatus, ep) \<leftarrow> Endpoint_PostWrite sid (reg_lkey region) (reg_addr region) (ucast (dw_buf_size c))
        addr (ucast rkey) ep;
     Some (if \<not> status_ok sendStatus then Inl sendStatus else Inr sid, c, ep) })"

definition DirectWriteConnection_Wait ::
    "u64 \<Rightarrow> direct_write \<Rightarrow> endpoint \<Rightarrow> (status \<times> direct_write \<times> endpoint) option" where
  "DirectWriteConnection_Wait sid c ep = do {
     (st, ackd, ep) \<leftarrow> wait_loop keep_last sid (dw_ackd_id c) ep;
     Some (st, c\<lparr>dw_ackd_id := ackd\<rparr>, ep) }"

definition DirectWriteConnection_Send ::
    "SendRegion \<Rightarrow> direct_write \<Rightarrow> endpoint \<Rightarrow> (status \<times> direct_write \<times> endpoint) option" where
  "DirectWriteConnection_Send region c ep = do {
     (id_stat, c, ep) \<leftarrow> DirectWriteConnection_SendAsync region c ep;
     (case id_stat of Inl s \<Rightarrow> Some (s, c, ep) | Inr sid \<Rightarrow> DirectWriteConnection_Wait sid c ep) }"

section \<open>The receiver\<close>

definition dw_next :: "u32 \<Rightarrow> direct_write \<Rightarrow> u32" where
  "dw_next i c = ucast ((ucast (i + 1) :: u64) mod dw_nr_buffers c)"

text \<open>
  The vector of buffers is only reserved, so indexing it is undefined by its rules; the model reads
  what was stored in its memory. \<open>None\<close> when nothing was.
\<close>

definition DirectWriteConnection_Receive ::
    "direct_write \<Rightarrow> endpoint \<Rightarrow> (ReceiveRegion status_or \<times> direct_write \<times> endpoint) option" where
  "DirectWriteConnection_Receive c ep = do {
     buf \<leftarrow> dw_rcv_buffers c (dw_rcv_head c);
     let msg_len = getLengthAddr (db_addr buf) (dw_buf_size c);
     ep \<leftarrow> poll_word (\<lambda>v. (ucast v :: u32) = 0) msg_len ep;
     (len, ep) \<leftarrow> sys_load msg_len ep;
     Some (Inr \<lparr>reg_context = 0, reg_addr = db_addr buf, reg_length = ucast len, reg_lkey = db_rkey buf\<rparr>,
       c\<lparr>dw_rcv_buffers := (dw_rcv_buffers c)(dw_rcv_head c \<mapsto> buf\<lparr>db_valid := False\<rparr>),
         dw_rcv_head := dw_next (dw_rcv_head c) c\<rparr>, ep) }"

text \<open>The entry is a local variable at \<open>ba\<close> and is sent inline, all its 16 bytes.\<close>

definition store_buffer :: "u64 \<Rightarrow> DirectWriteReceiveBuffer \<Rightarrow> 'e env_scheme \<Rightarrow> 'e env_scheme" where
  "store_buffer ba buf e = sys_void (Store (ba + 12) (if db_valid buf then 1 else 0) 1)
     (sys_void (Store (ba + 8) (ucast (db_rkey buf)) 4) (sys_void (Store ba (db_addr buf) 8) e))"

definition DirectWriteConnection_Free ::
    "u64 \<Rightarrow> ReceiveRegion \<Rightarrow> direct_write \<Rightarrow> endpoint \<Rightarrow> (status \<times> direct_write \<times> endpoint) option" where
  "DirectWriteConnection_Free ba region c ep = (
     let buf = \<lparr>db_addr = reg_addr region, db_rkey = reg_lkey region, db_valid = True\<rparr>;
         ep = sys_void (Store (getLengthAddr (reg_addr region) (dw_buf_size c)) 0 4) (store_buffer ba buf ep) in do {
     (s, ep) \<leftarrow> drain_send_cq ep;
     if code s \<noteq> NotFound then Some (s, c, ep)
     else do {
       (sendStatus, ep) \<leftarrow> Endpoint_PostWriteInline (reg_context region) ba 16
          (dw_r_rcv_buf_addr c + ucast (dw_rcv_tail c) * 16) (dw_r_rcv_buf_key c) ep;
       if \<not> status_ok sendStatus then Some (sendStatus, c, ep)
       else Some (Status0, c\<lparr>dw_rcv_buffers := (dw_rcv_buffers c)(dw_rcv_tail c \<mapsto> buf),
                             dw_rcv_tail := dw_next (dw_rcv_tail c) c\<rparr>, ep) } })"

section \<open>Closing\<close>

fun close_buffers :: "ibv_mr list \<Rightarrow> endpoint \<Rightarrow> (status \<times> endpoint) option" where
  "close_buffers [] ep = Some (Status0, ep)"
| "close_buffers (mr # rest) ep = do {
     (ret, ep) \<leftarrow> sys (Dereg_mr (mr_addr mr)) ep;
     if ret \<noteq> 0 then Some (Status Internal ''error deregistering rcv mr'', ep)
     else close_buffers rest (sys_void (Free_mem (mr_addr mr)) ep) }"

definition DirectWriteConnection_Close :: "direct_write \<Rightarrow> endpoint \<Rightarrow> (status \<times> endpoint) option" where
  "DirectWriteConnection_Close c ep = do {
     (ret, ep) \<leftarrow> sys (Dereg_mr (mr_addr (dw_target_buf_mr c))) ep;
     if ret \<noteq> 0 then Some (Status Internal ''error deregistering target mr'', ep)
     else do {
       (s, ep) \<leftarrow> close_buffers (dw_rcv_buffer_mrs c) (sys_void (Free_mem (dw_target_buf c)) ep);
       if \<not> status_ok s then Some (s, ep) else Endpoint_Close ep } }"

section \<open>Setting up\<close>

text \<open>
  The private data are the address and the key of the table and four bytes of padding, whose
  contents \<open>pad\<close> are not initialised.
\<close>

definition dw_details :: "u8 list \<Rightarrow> u64 \<Rightarrow> u32 \<Rightarrow> u8 list" where
  "dw_details pad addr key = le32 (ucast addr) @ le32 (ucast (drop_bit 32 addr)) @ le32 key @ pad"

definition read_dw_details :: "u8 list \<Rightarrow> (u64 \<times> u32) option" where
  "read_dw_details bs = (if length bs < 12 then None
     else Some (ucast (un_le32 bs) OR push_bit 32 (ucast (un_le32 (drop 4 bs))), un_le32 (drop 8 bs)))"

definition target_table :: "u64 \<Rightarrow> 'e env_scheme \<Rightarrow> (ibv_mr status_or \<times> 'e env_scheme) option" where
  "target_table tar_size e = do {
     (buf, e) \<leftarrow> sys_addr (Malloc tar_size) e;
     (mr, e) \<leftarrow> sys_mr (Reg_mr buf tar_size) (sys_void (Memset buf tar_size) e);
     Some (case mr of
         None \<Rightarrow> Inl (Status Internal (''error '' @ to_string (errno e) @ '' registering target buffer mr''))
       | Some m \<Rightarrow> Inr m, e) }"

fun receive_buffers :: "nat \<Rightarrow> u64 \<Rightarrow> 'e env_scheme \<Rightarrow> (ibv_mr list status_or \<times> 'e env_scheme) option" where
  "receive_buffers 0 buf_size e = Some (Inr [], e)"
| "receive_buffers (Suc n) buf_size e = do {
     (buf, e) \<leftarrow> sys_addr (Malloc buf_size) e;
     (mr, e) \<leftarrow> sys_mr (Reg_mr buf buf_size) (sys_void (Memset buf buf_size) e);
     (case mr of
        None \<Rightarrow> Some (Inl (Status Internal (''error '' @ to_string (errno e) @ '' registering reveive buffer mr'')), e)
      | Some m \<Rightarrow> do {
          (r, e) \<leftarrow> receive_buffers n buf_size e;
          Some (map_sum id ((#) m) r, e) }) }"

text \<open>The new connection gives back all its buffers; at the first error it is closed.\<close>

fun offer_buffers :: "u64 \<Rightarrow> ibv_mr list \<Rightarrow> direct_write \<Rightarrow> endpoint \<Rightarrow> (status \<times> direct_write \<times> endpoint) option" where
  "offer_buffers ba [] c ep = Some (Status0, c, ep)"
| "offer_buffers ba (mr # rest) c ep = do {
     (s, c, ep) \<leftarrow> DirectWriteConnection_Free ba \<lparr>reg_context = 0, reg_addr = mr_addr mr, reg_length = 0,
       reg_lkey = mr_lkey mr\<rparr> c ep;
     if \<not> status_ok s then do {
       (_, ep) \<leftarrow> DirectWriteConnection_Close c ep;
       Some (s, c, ep) }
     else offer_buffers ba rest c ep }"

text \<open>
  The buffer size is a signed number; as a \<open>size_t\<close> it is extended with its sign. The sleep before
  and after the buffers are offered has no effect here.
\<close>

definition dw_finish ::
    "u64 \<Rightarrow> ibv_mr \<Rightarrow> u32 \<Rightarrow> endpoint \<Rightarrow> ((direct_write \<times> endpoint) status_or \<times> env) option" where
  "dw_finish ba tar_mr buf_size ep = do {
     (r_addr, r_key) \<leftarrow> read_dw_details (Endpoint_GetConnectionInfo ep);
     (r, ep) \<leftarrow> receive_buffers (unat dw_inflight) (scast buf_size) ep;
     (case r of Inl s \<Rightarrow> Some (Inl s, env.truncate ep) | Inr ms \<Rightarrow> do {
       (s, c, ep) \<leftarrow> offer_buffers ba ms (DirectWriteConnection dw_inflight buf_size ms tar_mr r_addr r_key) ep;
       Some (if \<not> status_ok s then Inl s else Inr (c, ep), env.truncate ep) }) }"

definition dw_opts :: "u8 list \<Rightarrow> ibv_mr \<Rightarrow> Options" where
  "dw_opts pad m = dw_default_opts\<lparr>o_private_data := dw_details pad (mr_addr m) (mr_lkey m)\<rparr>"

definition DialDirectWrite ::
    "u64 \<Rightarrow> u8 list \<Rightarrow> string \<Rightarrow> int \<Rightarrow> u32 \<Rightarrow> env \<Rightarrow> ((direct_write \<times> endpoint) status_or \<times> env) option" where
  "DialDirectWrite ba pad ip port buf_size e = do {
     (ep_s, e) \<leftarrow> Create ip (if port = 0 then 18515 else port) dw_default_opts e;
     (case ep_s of Inl s \<Rightarrow> Some (Inl (Wrap ''error setting up endpoint'' s), e) | Inr ep \<Rightarrow> do {
       (t, ep) \<leftarrow> target_table (dw_inflight * 16) ep;
       (case t of Inl s \<Rightarrow> Some (Inl s, env.truncate ep) | Inr m \<Rightarrow> do {
         (stat, ep) \<leftarrow> Endpoint_Connect (dw_opts pad m) ep;
         if \<not> status_ok stat then Some (Inl (Wrap ''error connecting to remote'' stat), env.truncate ep)
         else dw_finish ba m buf_size ep }) }) }"

definition DirectWriteListener_Accept ::
    "u64 \<Rightarrow> u8 list \<Rightarrow> u32 \<Rightarrow> cm_id \<Rightarrow> env \<Rightarrow> ((direct_write \<times> endpoint) status_or \<times> env) option" where
  "DirectWriteListener_Accept ba pad buf_size lid e = do {
     pd \<leftarrow> Listener_GetPd lid;
     (t, e) \<leftarrow> target_table (dw_inflight * 16) e;
     (case t of Inl s \<Rightarrow> Some (Inl s, e) | Inr m \<Rightarrow> do {
       (ep_stat, e) \<leftarrow> Listener_Accept (dw_opts pad m) lid e;
       (case ep_stat of Inl s \<Rightarrow> Some (Inl (Wrap ''error connecting to remote'' s), e)
        | Inr ep \<Rightarrow> dw_finish ba m buf_size ep) }) }"

definition ListenDirectWrite :: "string \<Rightarrow> int \<Rightarrow> env \<Rightarrow> (cm_id status_or \<times> env) option" where
  "ListenDirectWrite ip port e = Listen ip (if port = 0 then 18515 else port) e"

definition DirectWriteListener_Close :: "env \<Rightarrow> (status \<times> env) option" where
  "DirectWriteListener_Close = Listener_Close"

end
