(* ===== verification/Remote_Memory.thy ===== *)
theory Remote_Memory
  imports Read_Safety Write_Receiver
begin

text \<open>
  What the calls of an operation do to memory, for theorems about two hosts. A host's memory is a
  map from the address of an object to its value; objects do not overlap. A posted write takes
  the data with it and changes the other host's memory when it lands.
\<close>

type_synonym memory = "u64 \<Rightarrow> u64"

record wire =
  w_addr :: u64
  w_length :: u32
  w_data :: "u64 \<Rightarrow> u64"

definition posted :: "memory \<Rightarrow> send_wr \<Rightarrow> wire" where
  "posted m wr = \<lparr>w_addr = swr_remote_addr wr, w_length = sge_length (swr_sge wr),
     w_data = (\<lambda>x. m (sge_addr (swr_sge wr) + x))\<rparr>"

definition land :: "wire \<Rightarrow> memory \<Rightarrow> memory" where
  "land w m = (\<lambda>a. if a - w_addr w < ucast (w_length w) then w_data w (a - w_addr w) else m a)"

text \<open>The values loaded, the memory afterwards and the writes posted by a list of calls.\<close>

primrec run_calls :: "call list \<Rightarrow> memory \<Rightarrow> u64 list \<times> memory \<times> wire list" where
  "run_calls [] m = ([], m, [])"
| "run_calls (c # cs) m = (case c of
      Load a \<Rightarrow> (let (ls, m', ws) = run_calls cs m in (m a # ls, m', ws))
    | Store a v n \<Rightarrow> run_calls cs (m(a := v))
    | Post_send wrs \<Rightarrow> (let (ls, m', ws) = run_calls cs m in (ls, m', map (posted m) wrs @ ws))
    | _ \<Rightarrow> run_calls cs m)"

text \<open>Between two states of an endpoint: the replies to loads are what the memory held.\<close>

definition performs :: "'e env_scheme \<Rightarrow> 'e env_scheme \<Rightarrow> memory \<Rightarrow> memory \<Rightarrow> wire list \<Rightarrow> bool" where
  "performs ep ep' m m' ws \<longleftrightarrow> (\<exists>cs ls. calls ep' = calls ep @ cs \<and> loads ep = ls @ loads ep' \<and>
     run_calls cs m = (ls, m', ws))"

lemma performsD:
  "performs ep ep' m m' ws \<Longrightarrow> calls ep' = calls ep @ cs \<Longrightarrow> loads ep = ls @ loads ep' \<Longrightarrow>
     run_calls cs m = (ls, m', ws)"
  by (auto simp: performs_def)

lemma performs_no_load:
  "performs ep ep' m m' ws \<Longrightarrow> calls ep' = calls ep @ cs \<Longrightarrow> \<exists>ls. run_calls cs m = (ls, m', ws)"
  by (auto simp: performs_def)

lemma run_calls_append:
  "run_calls (as @ bs) m = (case run_calls as m of (l1, m1, w1) \<Rightarrow>
     (case run_calls bs m1 of (l2, m2, w2) \<Rightarrow> (l1 @ l2, m2, w1 @ w2)))"
  by (induction as arbitrary: m) (auto split: call.splits prod.splits)

lemma run_calls_loads: "run_calls (replicate k (Load a) @ cs) m =
    (case run_calls cs m of (ls, m', ws) \<Rightarrow> (replicate k (m a) @ ls, m', ws))"
  by (induction k) (auto split: prod.splits)

text \<open>A polling loop: some loads that keep it waiting, and the one that ends it.\<close>

lemma poll_word_turns:
  assumes "poll_word stay a ep = Some ep'"
  shows "\<exists>vs v. calls ep' = calls ep @ replicate (length vs) (Load a) @ [Load a] \<and>
    loads ep = vs @ v # loads ep' \<and> list_all stay vs \<and> \<not> stay v"
proof -
  define P where "P = (\<lambda>(stay :: u64 \<Rightarrow> bool) (a :: u64) (ep :: endpoint) (ep' :: endpoint).
    \<exists>vs v. calls ep' = calls ep @ replicate (length vs) (Load a) @ [Load a] \<and>
    loads ep = vs @ v # loads ep' \<and> list_all stay vs \<and> \<not> stay v)"
  have "P stay a ep ep'"
  proof (rule poll_word.raw_induct [where P = P, OF _ assms])
    fix f stay a ep r
    assume IH: "\<And>stay a ep r. f stay a ep = Some r \<Longrightarrow> P stay a ep r"
      and step: "sys_load a ep \<bind> (\<lambda>(v, ep). if stay v then f stay a ep else Some ep) = Some r"
    from step obtain u us where l: "loads ep = u # us"
      and s: "(if stay u then f stay a (ep\<lparr>calls := calls ep @ [Load a], loads := us\<rparr>)
        else Some (ep\<lparr>calls := calls ep @ [Load a], loads := us\<rparr>)) = Some r"
      by (auto simp: sys_load_def elim!: bindE split: list.splits)
    show "P stay a ep r"
    proof (cases "stay u")
      case True
      with s have "P stay a (ep\<lparr>calls := calls ep @ [Load a], loads := us\<rparr>) r" by (simp add: IH)
      then obtain vs v where "calls r = calls ep @ Load a # replicate (length vs) (Load a) @ [Load a]"
        "us = vs @ v # loads r" "list_all stay vs" "\<not> stay v"
        by (auto simp: P_def)
      with True l show ?thesis unfolding P_def by (intro exI [of _ "u # vs"] exI [of _ v]) simp
    next
      case False
      with s l show ?thesis unfolding P_def by (intro exI [of _ "[]"] exI [of _ u]) auto
    qed
  qed
  then show ?thesis by (simp add: P_def)
qed

lemma drain_not_ok:
  assumes "drain_send_cq ep = Some (s, ep')"
  shows "\<not> status_ok s"
proof -
  define P where "P = (\<lambda>(ep :: endpoint) (r :: status \<times> endpoint). \<not> status_ok (fst r))"
  have "P ep (s, ep')"
  proof (rule drain_send_cq.raw_induct [where P = P, OF _ assms])
    fix f ep r
    assume IH: "\<And>ep r. f ep = Some r \<Longrightarrow> P ep r"
      and step: "Endpoint_PollSendCqOnce ep \<bind> (\<lambda>(wc_s, ep). case wc_s of
           Inl s \<Rightarrow> if status_ok s then f ep else Some (s, ep)
         | Inr _ \<Rightarrow> f ep) = Some r"
    show "P ep r"
      using step by (auto simp: P_def elim!: bindE dest: IH [unfolded P_def] split: if_splits sum.splits)
  qed
  then show ?thesis by (simp add: P_def)
qed

text \<open>On a memory that does not change, a loop that ends ends at the first load.\<close>

lemma run_poll:
  assumes "run_calls (replicate (length vs) (Load a) @ Load a # cs) m = (vs @ v # ls, m', ws)"
  shows "v = m a" and "run_calls cs m = (ls, m', ws)"
proof -
  obtain l2 m2 w2 where r: "run_calls cs m = (l2, m2, w2)" by (cases "run_calls cs m")
  have "run_calls (replicate (length vs) (Load a) @ Load a # cs) m = (replicate (length vs) (m a) @ m a # l2, m2, w2)"
    by (simp add: run_calls_loads r)
  with assms have e: "replicate (length vs) (m a) @ m a # l2 = vs @ v # ls" and w: "m2 = m'" "w2 = ws"
    by (simp_all only: prod.inject)
  from e have l: "m a = v \<and> l2 = ls" by (simp add: append_eq_append_conv)
  then show "v = m a" by simp
  show "run_calls cs m = (ls, m', ws)" using r w l by simp
qed

lemma PollSendCq_loads: "Endpoint_PollSendCq ep = Some (wc, ep') \<Longrightarrow> loads ep' = loads ep"
  by (auto simp: Endpoint_PollSendCq_def Let_def elim!: bindE)

lemma load_frame:
  "sys_load a e = Some (v, e') \<Longrightarrow> calls e' = calls e @ [Load a] \<and> loads e = v # loads e'"
  by (auto simp: sys_load_def split: list.splits)

lemma PostSendRaw_frame:
  "Endpoint_PostSendRaw wrs ep = Some (st, ep') \<Longrightarrow> calls ep' = calls ep @ [Post_send wrs] \<and> loads ep' = loads ep"
  by (auto simp: Endpoint_PostSendRaw_def sys_def elim!: bindE split: list.splits)

lemma sys_void_frame [simp]:
  "calls (sys_void c e) = calls e @ [c]" "loads (sys_void c e) = loads e"
  by (simp_all add: sys_void_def)

lemma post_write:
  assumes "Endpoint_PostSendRaw [wr] ep = Some (st, ep')"
  shows "calls ep' = calls ep @ [Post_send [wr]]" and "loads ep' = loads ep"
  using PostSendRaw_frame [OF assms] by simp_all

lemma land_inside: "x < ucast (w_length w) \<Longrightarrow> land w m (w_addr w + x) = w_data w x"
  by (simp add: land_def)

lemma land_outside: "ucast (w_length w) \<le> a - w_addr w \<Longrightarrow> land w m a = m a"
  by (auto simp: land_def)

end
