(* ===== verification/Read_Exchange.thy ===== *)
theory Read_Exchange
  imports Remote_Memory
begin








section \<open>A message of 40 bytes\<close>




end
