(* ===== verification/Direct_Write_System.thy ===== *)
theory Direct_Write_System
  imports Direct_Write Remote_Memory
begin

text \<open>
  A sender and a receiver of a direct write connection, their memories and the writes under way
  between them, as a step relation with its invariant. A step of a side runs the operation of the
  model; what it does to memory and to the network is read off from its calls.
\<close>

section \<open>What each operation does to memory\<close>

lemma SendAsync_performs:
  assumes "DirectWriteConnection_SendAsync region c ep = Some (Inr sid, c', ep')"
    and "performs ep ep' m m' ws"
  defines "buf \<equiv> target_entry (dw_next_id c) c"
  shows "sid = dw_next_id c" and "c' = c\<lparr>dw_next_id := dw_next_id c + 1\<rparr>" and
    "(ucast (m (buf + 12)) :: u8) \<noteq> 0" and "m' = m(buf + 12 := 0)" and
    "ws = [\<lparr>w_addr = m buf, w_length = dw_buf_size c, w_data = (\<lambda>x. m' (reg_addr region + x))\<rparr>]"
proof -
  have e: "target_entry s (c\<lparr>dw_next_id := s'\<rparr>) = target_entry s c"
    "dw_buf_size (c\<lparr>dw_next_id := s'\<rparr>) = dw_buf_size c" for s s'
    by (simp_all add: target_entry_def)
  from assms(1) obtain ep1 where p: "poll_word (\<lambda>v. (ucast v :: u8) = 0) (buf + 12) ep = Some ep1"
    and s1: "sys_load buf ep1 \<bind> (\<lambda>(addr, ep). sys_load (buf + 8) ep \<bind> (\<lambda>(rkey, ep).
      Endpoint_PostWrite (dw_next_id c) (reg_lkey region) (reg_addr region) (ucast (dw_buf_size c)) addr (ucast rkey)
        (sys_void (Store (buf + 12) 0 1) ep) \<bind> (\<lambda>(st, ep).
      Some (if \<not> status_ok st then Inl st else Inr (dw_next_id c), c\<lparr>dw_next_id := dw_next_id c + 1\<rparr>, ep)))) =
      Some (Inr sid, c', ep')"
    unfolding DirectWriteConnection_SendAsync_def Let_def e buf_def [symmetric] by (rule bindE)
  obtain addr ep2 where a: "sys_load buf ep1 = Some (addr, ep2)"
    and s2: "sys_load (buf + 8) ep2 \<bind> (\<lambda>(rkey, ep).
      Endpoint_PostWrite (dw_next_id c) (reg_lkey region) (reg_addr region) (ucast (dw_buf_size c)) addr (ucast rkey)
        (sys_void (Store (buf + 12) 0 1) ep) \<bind> (\<lambda>(st, ep).
      Some (if \<not> status_ok st then Inl st else Inr (dw_next_id c), c\<lparr>dw_next_id := dw_next_id c + 1\<rparr>, ep))) =
      Some (Inr sid, c', ep')"
    using s1 by (rule bindE) (simp only: split_paired_all prod.case)
  obtain rkey ep3 where k: "sys_load (buf + 8) ep2 = Some (rkey, ep3)"
    and s3: "Endpoint_PostWrite (dw_next_id c) (reg_lkey region) (reg_addr region) (ucast (dw_buf_size c)) addr (ucast rkey)
        (sys_void (Store (buf + 12) 0 1) ep3) \<bind> (\<lambda>(st, ep).
      Some (if \<not> status_ok st then Inl st else Inr (dw_next_id c), c\<lparr>dw_next_id := dw_next_id c + 1\<rparr>, ep)) =
      Some (Inr sid, c', ep')"
    using s2 by (rule bindE) (simp only: split_paired_all prod.case)
  obtain st where w: "Endpoint_PostWrite (dw_next_id c) (reg_lkey region) (reg_addr region) (ucast (dw_buf_size c))
        addr (ucast rkey) (sys_void (Store (buf + 12) 0 1) ep3) = Some (st, ep')"
    and r: "sid = dw_next_id c" "c' = c\<lparr>dw_next_id := dw_next_id c + 1\<rparr>"
    using s3 by (rule bindE) (simp split: prod.splits if_splits)
  obtain vs v where pv: "calls ep1 = calls ep @ replicate (length vs) (Load (buf + 12)) @ [Load (buf + 12)]"
    "loads ep = vs @ v # loads ep1" "(ucast v :: u8) \<noteq> 0"
    using poll_word_turns [OF p] by blast
  note pw = post_write [OF w [unfolded Endpoint_PostWrite_def]]
  then obtain wr where wr: "calls ep' = calls ep3 @ [Store (buf + 12) 0 1, Post_send [wr]]" "loads ep' = loads ep3"
    and wf: "posted m1 wr = \<lparr>w_addr = addr, w_length = dw_buf_size c, w_data = (\<lambda>x. m1 (reg_addr region + x))\<rparr>" for m1
    by (simp add: posted_def send_wr0_def sge_def)
  have cs: "calls ep' = calls ep @ (replicate (length vs) (Load (buf + 12)) @ Load (buf + 12) #
      [Load buf, Load (buf + 8), Store (buf + 12) 0 1, Post_send [wr]])"
    and ls: "loads ep = (vs @ v # [addr, rkey]) @ loads ep'"
    using pv wr load_frame [OF a] load_frame [OF k] by simp_all
  note rp = run_poll [OF performsD [OF assms(2) cs ls]]
  from rp(2) have *: "addr = m buf" "m' = m(buf + 12 := 0)" "ws = [posted m' wr]" by auto
  show "sid = dw_next_id c" "c' = c\<lparr>dw_next_id := dw_next_id c + 1\<rparr>" by (fact r)+
  show "(ucast (m (buf + 12)) :: u8) \<noteq> 0" using rp(1) pv(3) by simp
  show "m' = m(buf + 12 := 0)"
    "ws = [\<lparr>w_addr = m buf, w_length = dw_buf_size c, w_data = (\<lambda>x. m' (reg_addr region + x))\<rparr>]"
    using * wf by simp_all
qed

lemma Receive_performs:
  assumes "DirectWriteConnection_Receive c ep = Some (Inr region, c', ep')" and "performs ep ep' m m' ws"
  shows "\<exists>buf. dw_rcv_buffers c (dw_rcv_head c) = Some buf \<and> reg_addr region = db_addr buf \<and>
    reg_length region = ucast (m (getLengthAddr (db_addr buf) (dw_buf_size c))) \<and> reg_length region \<noteq> 0 \<and>
    c' = c\<lparr>dw_rcv_buffers := (dw_rcv_buffers c)(dw_rcv_head c \<mapsto> buf\<lparr>db_valid := False\<rparr>),
           dw_rcv_head := dw_next (dw_rcv_head c) c\<rparr> \<and> m' = m \<and> ws = []"
proof -
  from assms(1) obtain buf ep1 len where
    b: "dw_rcv_buffers c (dw_rcv_head c) = Some buf"
    and p: "poll_word (\<lambda>v. (ucast v :: u32) = 0) (getLengthAddr (db_addr buf) (dw_buf_size c)) ep = Some ep1"
    and l: "sys_load (getLengthAddr (db_addr buf) (dw_buf_size c)) ep1 = Some (len, ep')"
    and r: "region = \<lparr>reg_context = 0, reg_addr = db_addr buf, reg_length = ucast len, reg_lkey = db_rkey buf\<rparr>"
      "c' = c\<lparr>dw_rcv_buffers := (dw_rcv_buffers c)(dw_rcv_head c \<mapsto> buf\<lparr>db_valid := False\<rparr>),
           dw_rcv_head := dw_next (dw_rcv_head c) c\<rparr>"
    by (auto simp: DirectWriteConnection_Receive_def Let_def elim!: bindE)
  define la where "la = getLengthAddr (db_addr buf) (dw_buf_size c)"
  obtain vs v where pv: "calls ep1 = calls ep @ replicate (length vs) (Load la) @ [Load la]"
    "loads ep = vs @ v # loads ep1" "(ucast v :: u32) \<noteq> 0"
    using poll_word_turns [OF p] la_def by blast
  have cs: "calls ep' = calls ep @ (replicate (length vs) (Load la) @ Load la # [Load la])"
    and ls: "loads ep = (vs @ v # [len]) @ loads ep'"
    using pv load_frame [OF l] la_def by simp_all
  note rp = run_poll [OF performsD [OF assms(2) cs ls]]
  show ?thesis using rp pv(3) b r unfolding la_def by auto
qed

lemma Free_performs:
  assumes "DirectWriteConnection_Free ba region c ep = Some (st, c', ep')" and "status_ok st"
    and "performs ep ep' m m' ws"
  shows "c' = c\<lparr>dw_rcv_buffers := (dw_rcv_buffers c)(dw_rcv_tail c \<mapsto>
        \<lparr>db_addr = reg_addr region, db_rkey = reg_lkey region, db_valid = True\<rparr>),
      dw_rcv_tail := dw_next (dw_rcv_tail c) c\<rparr>" and
    "m' = m(ba := reg_addr region, ba + 8 := ucast (reg_lkey region), ba + 12 := 1,
       getLengthAddr (reg_addr region) (dw_buf_size c) := 0)" and
    "ws = [\<lparr>w_addr = dw_r_rcv_buf_addr c + ucast (dw_rcv_tail c) * 16, w_length = 16, w_data = (\<lambda>x. m' (ba + x))\<rparr>]"
proof -
  let ?buf = "\<lparr>db_addr = reg_addr region, db_rkey = reg_lkey region, db_valid = True\<rparr>"
  let ?la = "getLengthAddr (reg_addr region) (dw_buf_size c)"
  from assms(1,2) obtain s ep1 st' where d: "drain_send_cq (sys_void (Store ?la 0 4) (store_buffer ba ?buf ep)) = Some (s, ep1)"
    and w: "Endpoint_PostWriteInline (reg_context region) ba 16 (dw_r_rcv_buf_addr c + ucast (dw_rcv_tail c) * 16)
      (dw_r_rcv_buf_key c) ep1 = Some (st', ep')"
    and c': "c' = c\<lparr>dw_rcv_buffers := (dw_rcv_buffers c)(dw_rcv_tail c \<mapsto> ?buf), dw_rcv_tail := dw_next (dw_rcv_tail c) c\<rparr>"
    unfolding DirectWriteConnection_Free_def Let_def
    by (clarsimp simp: bind_eq_Some_conv split: if_splits) (auto dest: drain_not_ok)
  show "c' = c\<lparr>dw_rcv_buffers := (dw_rcv_buffers c)(dw_rcv_tail c \<mapsto> ?buf), dw_rcv_tail := dw_next (dw_rcv_tail c) c\<rparr>"
    by (rule c')
  note pw = post_write [OF w [unfolded Endpoint_PostWriteInline_def]]
  then obtain wr where wr: "calls ep' = calls ep1 @ [Post_send [wr]]"
    and wf: "posted m1 wr = \<lparr>w_addr = dw_r_rcv_buf_addr c + ucast (dw_rcv_tail c) * 16, w_length = 16,
      w_data = (\<lambda>x. m1 (ba + x))\<rparr>" for m1
    by (simp add: posted_def send_wr0_def sge_def)
  have "calls ep' = calls ep @ [Store ba (reg_addr region) 8, Store (ba + 8) (ucast (reg_lkey region)) 4,
      Store (ba + 12) 1 1, Store ?la 0 4, Post_send [wr]]"
    using wr(1) drain_calls [OF d] by (simp add: store_buffer_def)
  from performs_no_load [OF assms(3) this]
  show "m' = m(ba := reg_addr region, ba + 8 := ucast (reg_lkey region), ba + 12 := 1, ?la := 0)"
    and "ws = [\<lparr>w_addr = dw_r_rcv_buf_addr c + ucast (dw_rcv_tail c) * 16, w_length = 16, w_data = (\<lambda>x. m' (ba + x))\<rparr>]"
    using wf by auto
qed

section \<open>Positions in the table\<close>

definition entry_of :: "u64 \<Rightarrow> nat \<Rightarrow> nat \<Rightarrow> u64" where
  "entry_of tb n i = tb + of_nat (Suc i mod n) * 16"

lemma entry_word:
  assumes "p < n" "n \<le> 2147483648"
  shows "unat (of_nat p * 16 :: u64) = p * 16"
  using assms by (simp add: unat_word_ariths unat_of_nat)

lemma entry_offset:
  assumes "p < n" "q < n" "n \<le> 2147483648" "unat x < 16" "p \<noteq> q"
  shows "16 \<le> (tb + of_nat p * 16 + x) - (tb + of_nat q * 16 :: u64)"
proof -
  have d: "(tb + of_nat p * 16 + x) - (tb + of_nat q * 16) = (of_nat p * 16 + x) - of_nat q * 16" by simp
  have p: "unat (of_nat p * 16 + x) = p * 16 + unat x"
    using entry_word [OF assms(1,3)] assms by (simp add: unat_word_ariths)
  have q: "unat (of_nat q * 16 :: u64) = q * 16" by (rule entry_word [OF assms(2,3)])
  have "16 \<le> unat ((of_nat p * 16 + x) - of_nat q * 16 :: u64)"
    using p q assms by (auto simp: unat_sub_if' )
  then show ?thesis unfolding d by (simp add: word_le_nat_alt)
qed

lemma entry_inside:
  assumes "q < n" "n \<le> 2147483648" "unat x < 16"
  shows "tb + of_nat q * 16 + x - tb < (of_nat n * 16 :: u64)"
proof -
  have "unat (of_nat q * 16 + x) = q * 16 + unat x"
    using entry_word [OF assms(1,2)] assms by (simp add: unat_word_ariths)
  moreover have "unat (of_nat n * 16 :: u64) = n * 16"
    using entry_word [of n "Suc n"] assms(2) by (simp add: unat_word_ariths unat_of_nat)
  ultimately show ?thesis using assms by (simp add: word_less_nat_alt)
qed

lemma slot_neq:
  assumes "i \<noteq> j" "i < j + n" "j < i + n"
  shows "Suc i mod n \<noteq> Suc j mod n"
  using mod_window_inj' [of "Suc i" n "Suc j"] assms by auto

lemma entries_apart:
  assumes "i \<noteq> j" "i < j + n" "j < i + n" "n \<le> 2147483648" "unat x < 16"
  shows "16 \<le> entry_of tb n i + x - entry_of tb n j"
  unfolding entry_of_def using assms by (intro entry_offset [of _ n]) (auto simp: slot_neq)

lemma next_slot:
  assumes "unat i = j mod n" "dw_nr_buffers c = of_nat n" "0 < n" "n \<le> 2147483648"
  shows "unat (dw_next i c) = Suc j mod n"
proof -
  have "j mod n < n" using assms(3) by simp
  then have "Suc (j mod n) < 4294967296" using assms(4) by linarith
  then have i: "unat (i + 1) = Suc (j mod n)" using assms(1) by (simp add: unat_word_ariths)
  have "unat (of_nat n :: u64) = n" using assms(4) by (simp add: unat_of_nat)
  then have "unat ((ucast (i + 1) :: u64) mod dw_nr_buffers c) = Suc (j mod n) mod n"
    using i assms(2) by (simp add: unat_mod)
  moreover have "Suc (j mod n) mod n < 4294967296"
    using assms(3,4) mod_less_divisor [of n "Suc (j mod n)"] by linarith
  ultimately show ?thesis by (simp add: dw_next_def unsigned_ucast_eq unsigned_take_bit_eq take_bit_nat_eq_self mod_Suc_eq)
qed

lemma next_id_slot:
  assumes "unat x mod n = j mod n" "n dvd 2 ^ 31"
  shows "unat (x + 1 :: u64) mod n = Suc j mod n"
proof -
  have "n dvd 2 ^ 64" using assms(2) by (rule dvd_trans) (simp add: le_imp_power_dvd)
  then have "unat (x + 1) mod n = (unat x + 1) mod n"
    by (simp add: unat_word_ariths mod_mod_cancel)
  also have "\<dots> = Suc (unat x mod n) mod n" by (simp add: mod_Suc_eq)
  finally show ?thesis by (simp add: assms(1) mod_Suc_eq)
qed

lemma target_entry_slot:
  assumes "unat x mod n = Suc i mod n" "dw_nr_buffers c = of_nat n" "0 < n" "n \<le> 2147483648" "dw_target_buf c = tb"
  shows "target_entry x c = entry_of tb n i"
proof -
  have "unat (of_nat n :: u64) = n" using assms(4) by (simp add: unat_of_nat)
  then have "unat (x mod of_nat n) = Suc i mod n" using assms(1) by (simp add: unat_mod)
  moreover have "Suc i mod n < 18446744073709551616"
    using assms(3,4) mod_less_divisor [of n "Suc i"] by linarith
  ultimately have "x mod of_nat n = of_nat (Suc i mod n)" by (simp add: word_unat_eq_iff unat_of_nat)
  then show ?thesis by (simp add: target_entry_def entry_of_def assms)
qed

section \<open>The two sides together\<close>

text \<open>
  \<open>ds_held\<close> are the buffers the receiving application holds; \<open>ds_freed\<close>, \<open>ds_sent\<close> and \<open>ds_recvd\<close>
  are the histories of the buffers given back, of the messages sent (destination and length) and of
  the messages received.
\<close>

record dw_system =
  ds_snd :: direct_write
  ds_rcv :: direct_write
  ds_smem :: memory
  ds_rmem :: memory
  ds_to_table :: "wire list"
  ds_to_bufs :: "wire list"
  ds_held :: "ReceiveRegion list"
  ds_freed :: "(u64 \<times> u32) list"
  ds_sent :: "(u64 \<times> u32) list"
  ds_recvd :: "(u64 \<times> u32) list"

definition in_table :: "direct_write \<Rightarrow> u64 \<Rightarrow> bool" where
  "in_table c a \<longleftrightarrow> a - dw_target_buf c < dw_nr_buffers c * 16"

definition live :: "dw_system \<Rightarrow> u64 list" where
  "live s = map fst (drop (length (ds_recvd s)) (ds_freed s))"

text \<open>
  The application frees only regions it holds, does not call \<open>Receive\<close> while it holds all the
  buffers (\<open>Receive\<close> itself does not check that, see \<open>held_message_again\<close>), and sends regions with a
  length other than 0. Each side may change its memory
  outside the table, and outside the length words of the buffers that it does not hold.
\<close>

inductive dw_step :: "u64 \<Rightarrow> dw_system \<Rightarrow> dw_system \<Rightarrow> bool" for ba where
  dw_free: "region \<in> set (ds_held s) \<Longrightarrow>
    DirectWriteConnection_Free ba region (ds_rcv s) ep = Some (st, c', ep') \<Longrightarrow> status_ok st \<Longrightarrow>
    performs ep ep' (ds_rmem s) m' ws \<Longrightarrow>
    dw_step ba s (s\<lparr>ds_rcv := c', ds_rmem := m', ds_to_table := ds_to_table s @ ws,
      ds_held := remove1 region (ds_held s), ds_freed := ds_freed s @ [(reg_addr region, reg_lkey region)]\<rparr>)"
| dw_free_lands: "ds_to_table s = w # ws \<Longrightarrow>
    dw_step ba s (s\<lparr>ds_smem := land w (ds_smem s), ds_to_table := ws\<rparr>)"
| dw_send: "DirectWriteConnection_SendAsync region (ds_snd s) ep = Some (Inr sid, c', ep') \<Longrightarrow>
    performs ep ep' (ds_smem s) m' ws \<Longrightarrow>
    la = getLengthAddr (reg_addr region) (dw_buf_size (ds_snd s)) \<Longrightarrow> \<not> in_table (ds_snd s) la \<Longrightarrow>
    len = ucast (ds_smem s la) \<Longrightarrow> len \<noteq> 0 \<Longrightarrow>
    dw_step ba s (s\<lparr>ds_snd := c', ds_smem := m', ds_to_bufs := ds_to_bufs s @ ws,
      ds_sent := ds_sent s @ map (\<lambda>w. (w_addr w, len)) ws\<rparr>)"
| dw_message_lands: "ds_to_bufs s = w # ws \<Longrightarrow>
    dw_step ba s (s\<lparr>ds_rmem := land w (ds_rmem s), ds_to_bufs := ws\<rparr>)"
| dw_receive: "length (ds_recvd s) < length (ds_freed s) \<Longrightarrow>
    DirectWriteConnection_Receive (ds_rcv s) ep = Some (Inr region, c', ep') \<Longrightarrow>
    performs ep ep' (ds_rmem s) m' ws \<Longrightarrow>
    dw_step ba s (s\<lparr>ds_rcv := c', ds_rmem := m', ds_held := ds_held s @ [region],
      ds_recvd := ds_recvd s @ [(reg_addr region, reg_length region)]\<rparr>)"
| dw_wait: "DirectWriteConnection_Wait sid (ds_snd s) ep = Some (st, c', ep') \<Longrightarrow>
    dw_step ba s (s\<lparr>ds_snd := c'\<rparr>)"
| dw_sender_app: "\<not> in_table (ds_snd s) a \<Longrightarrow> dw_step ba s (s\<lparr>ds_smem := (ds_smem s)(a := v)\<rparr>)"
| dw_receiver_app: "\<forall>b\<in>set (live s). a \<noteq> getLengthAddr b (dw_buf_size (ds_rcv s)) \<Longrightarrow>
    dw_step ba s (s\<lparr>ds_rmem := (ds_rmem s)(a := v)\<rparr>)"

text \<open>
  The start: both sides constructed, the table cleared, all buffers to be given back. Buffers are
  disjoint, as far as length words go, and the local variable of \<open>Free\<close> is in none of them.
\<close>

definition dw_layout :: "u64 \<Rightarrow> u32 \<Rightarrow> u64 list \<Rightarrow> bool" where
  "dw_layout ba bs as \<longleftrightarrow> 4 \<le> bs \<and> distinct as \<and>
     (\<forall>a\<in>set as. \<forall>b\<in>set as. a \<noteq> b \<longrightarrow> ucast bs \<le> getLengthAddr b bs - a) \<and>
     (\<forall>b\<in>set as. getLengthAddr b bs \<notin> {ba, ba + 8, ba + 12})"

definition dw_start :: "u64 \<Rightarrow> dw_system \<Rightarrow> bool" where
  "dw_start ba s \<longleftrightarrow> (\<exists>n bs rmrs smrs tar_s tar_r key key' ra.
     ds_snd s = DirectWriteConnection n bs smrs tar_s ra key \<and>
     ds_rcv s = DirectWriteConnection n bs rmrs tar_r (mr_addr tar_s) key' \<and>
     1 < unat n \<and> unat n dvd 2 ^ 31 \<and> length (ds_held s) = unat n \<and>
     dw_layout ba bs (map reg_addr (ds_held s)) \<and>
     (\<forall>i < unat n. (ucast (ds_smem s (mr_addr tar_s + of_nat i * 16 + 12)) :: u8) = 0) \<and>
     ds_to_table s = [] \<and> ds_to_bufs s = [] \<and> ds_freed s = [] \<and> ds_sent s = [] \<and> ds_recvd s = [])"

section \<open>The invariant\<close>

abbreviation freed_landed :: "dw_system \<Rightarrow> nat" where
  "freed_landed s \<equiv> length (ds_freed s) - length (ds_to_table s)"

abbreviation sent_landed :: "dw_system \<Rightarrow> nat" where
  "sent_landed s \<equiv> length (ds_sent s) - length (ds_to_bufs s)"

text \<open>Both connections and the histories.\<close>

definition inv_sides :: "nat \<Rightarrow> u32 \<Rightarrow> u64 \<Rightarrow> dw_system \<Rightarrow> bool" where
  "inv_sides n bs tb s \<longleftrightarrow>
     dw_nr_buffers (ds_snd s) = of_nat n \<and> dw_buf_size (ds_snd s) = bs \<and> dw_target_buf (ds_snd s) = tb \<and>
     unat (dw_next_id (ds_snd s)) mod n = Suc (length (ds_sent s)) mod n \<and>
     dw_nr_buffers (ds_rcv s) = of_nat n \<and> dw_buf_size (ds_rcv s) = bs \<and> dw_r_rcv_buf_addr (ds_rcv s) = tb \<and>
     unat (dw_rcv_head (ds_rcv s)) = Suc (length (ds_recvd s)) mod n \<and>
     unat (dw_rcv_tail (ds_rcv s)) = Suc (length (ds_freed s)) mod n \<and>
     (\<forall>i < length (ds_freed s). length (ds_recvd s) \<le> i \<longrightarrow> (\<exists>buf.
        dw_rcv_buffers (ds_rcv s) (of_nat (Suc i mod n)) = Some buf \<and> db_addr buf = fst (ds_freed s ! i)))"

text \<open>Every buffer is with the application or with the connection.\<close>

definition inv_owned :: "u64 list \<Rightarrow> dw_system \<Rightarrow> bool" where
  "inv_owned B s \<longleftrightarrow> length (ds_recvd s) \<le> length (ds_freed s) \<and>
     mset (map reg_addr (ds_held s)) + mset (live s) = mset B"

definition shows_buffer :: "u64 \<Rightarrow> memory \<Rightarrow> u64 \<Rightarrow> bool" where
  "shows_buffer e m a \<longleftrightarrow> m e = a \<and> (ucast (m (e + 12)) :: u8) \<noteq> 0"

definition inv_table :: "nat \<Rightarrow> u64 \<Rightarrow> dw_system \<Rightarrow> bool" where
  "inv_table n tb s \<longleftrightarrow>
     length (ds_to_table s) \<le> length (ds_freed s) \<and> length (ds_sent s) \<le> freed_landed s \<and>
     (\<forall>j < length (ds_to_table s). let w = ds_to_table s ! j; i = freed_landed s + j in
        w_addr w = entry_of tb n i \<and> w_length w = 16 \<and> shows_buffer 0 (w_data w) (fst (ds_freed s ! i))) \<and>
     (\<forall>i < freed_landed s. length (ds_sent s) \<le> i \<longrightarrow>
        shows_buffer (entry_of tb n i) (ds_smem s) (fst (ds_freed s ! i))) \<and>
     (\<forall>i < length (ds_sent s) + n. freed_landed s \<le> i \<longrightarrow>
        (ucast (ds_smem s (entry_of tb n i + 12)) :: u8) = 0)"

definition on_wire :: "u32 \<Rightarrow> wire list \<Rightarrow> (u64 \<times> u32) list \<Rightarrow> bool" where
  "on_wire bs ws ms \<longleftrightarrow> (\<forall>j < length ws. let w = ws ! j; i = length ms - length ws + j in
     w_addr w = fst (ms ! i) \<and> w_length w = bs \<and> ucast (w_data w (ucast bs - 4)) = snd (ms ! i))"

definition inv_messages :: "u32 \<Rightarrow> dw_system \<Rightarrow> bool" where
  "inv_messages bs s \<longleftrightarrow>
     length (ds_to_bufs s) \<le> length (ds_sent s) \<and> length (ds_recvd s) \<le> sent_landed s \<and>
     on_wire bs (ds_to_bufs s) (ds_sent s) \<and>
     (\<forall>i < length (ds_sent s). fst (ds_sent s ! i) = fst (ds_freed s ! i) \<and> snd (ds_sent s ! i) \<noteq> 0) \<and>
     (\<forall>i < sent_landed s. length (ds_recvd s) \<le> i \<longrightarrow>
        ucast (ds_rmem s (getLengthAddr (fst (ds_freed s ! i)) bs)) = snd (ds_sent s ! i)) \<and>
     (\<forall>i < length (ds_freed s). sent_landed s \<le> i \<longrightarrow>
        (ucast (ds_rmem s (getLengthAddr (fst (ds_freed s ! i)) bs)) :: u32) = 0) \<and>
     ds_recvd s = take (length (ds_recvd s)) (ds_sent s)"

definition dw_inv :: "u64 \<Rightarrow> nat \<Rightarrow> u32 \<Rightarrow> u64 \<Rightarrow> u64 list \<Rightarrow> dw_system \<Rightarrow> bool" where
  "dw_inv ba n bs tb B s \<longleftrightarrow> 0 < n \<and> n dvd 2 ^ 31 \<and> length B = n \<and> dw_layout ba bs B \<and>
     inv_sides n bs tb s \<and> inv_owned B s \<and> inv_table n tb s \<and> inv_messages bs s"

text \<open>What follows for the buffers given back and not received.\<close>

lemma owned_window: "inv_owned B s \<Longrightarrow> length (ds_freed s) \<le> length (ds_recvd s) + length B"
  by (drule arg_cong [of _ _ size, OF conjunct2 [OF iffD1 [OF inv_owned_def]]]) (simp add: live_def)

lemma live_nth:
  "length (ds_recvd s) \<le> i \<Longrightarrow> i < length (ds_freed s) \<Longrightarrow>
     fst (ds_freed s ! i) = live s ! (i - length (ds_recvd s)) \<and> i - length (ds_recvd s) < length (live s)"
  by (simp add: live_def)

lemma owned_distinct:
  assumes "inv_owned B s" "distinct B"
  shows "distinct (map reg_addr (ds_held s) @ live s)" and
    "set (map reg_addr (ds_held s) @ live s) = set B"
proof -
  have m: "mset (map reg_addr (ds_held s) @ live s) = mset B" using assms(1) by (simp add: inv_owned_def)
  show "distinct (map reg_addr (ds_held s) @ live s)" using m assms(2) mset_eq_imp_distinct_iff by blast
  show "set (map reg_addr (ds_held s) @ live s) = set B" using m by (rule mset_eq_setD)
qed

lemma freed_in:
  assumes "inv_owned B s" "distinct B" "length (ds_recvd s) \<le> i" "i < length (ds_freed s)"
  shows "fst (ds_freed s ! i) \<in> set B" and
    "region \<in> set (ds_held s) \<Longrightarrow> fst (ds_freed s ! i) \<noteq> reg_addr region" and
    "length (ds_recvd s) \<le> j \<Longrightarrow> j < length (ds_freed s) \<Longrightarrow> i \<noteq> j \<Longrightarrow> fst (ds_freed s ! i) \<noteq> fst (ds_freed s ! j)"
proof -
  have d: "distinct (live s)" and hd: "reg_addr ` set (ds_held s) \<inter> set (live s) = {}"
    and B: "set (live s) \<subseteq> set B"
    using owned_distinct [OF assms(1,2)] by auto
  have i: "fst (ds_freed s ! i) \<in> set (live s)"
    using live_nth [OF assms(3,4)] by (metis nth_mem)
  then show "fst (ds_freed s ! i) \<in> set B" using B by blast
  show "region \<in> set (ds_held s) \<Longrightarrow> fst (ds_freed s ! i) \<noteq> reg_addr region" using i hd by auto
  assume j: "length (ds_recvd s) \<le> j" "j < length (ds_freed s)" "i \<noteq> j"
  then have "i - length (ds_recvd s) \<noteq> j - length (ds_recvd s)" using assms(3) by linarith
  with d j show "fst (ds_freed s ! i) \<noteq> fst (ds_freed s ! j)"
    using live_nth [OF assms(3,4)] live_nth [OF j(1,2)] nth_eq_iff_index_eq by metis
qed

lemma held_in:
  assumes "inv_owned B s" "distinct B" "region \<in> set (ds_held s)"
  shows "reg_addr region \<in> set B"
  using owned_distinct(2) [OF assms(1,2)] assms(3) by auto

lemma layout_words:
  assumes "dw_layout ba bs B" "a \<in> set B" "b \<in> set B"
  shows "getLengthAddr b bs \<noteq> ba" "getLengthAddr b bs \<noteq> ba + 8" "getLengthAddr b bs \<noteq> ba + 12"
    and "a \<noteq> b \<Longrightarrow> ucast bs \<le> getLengthAddr b bs - a"
    and "getLengthAddr a bs = getLengthAddr b bs \<longleftrightarrow> a = b"
    and "getLengthAddr a bs - a < ucast bs" and "getLengthAddr a bs - a = ucast bs - 4"
proof -
  show "getLengthAddr b bs \<noteq> ba" "getLengthAddr b bs \<noteq> ba + 8" "getLengthAddr b bs \<noteq> ba + 12"
    "a \<noteq> b \<Longrightarrow> ucast bs \<le> getLengthAddr b bs - a"
    using assms by (auto simp: dw_layout_def)
  show "getLengthAddr a bs = getLengthAddr b bs \<longleftrightarrow> a = b" by (simp add: getLengthAddr_def)
  show e: "getLengthAddr a bs - a = ucast bs - 4" by (simp add: getLengthAddr_def)
  have "4 \<le> unat bs" using assms(1) by (simp add: dw_layout_def word_le_nat_alt)
  then have "unat (ucast bs - 4 :: u64) = unat bs - 4" by (simp add: unat_sub_if')
  with \<open>4 \<le> unat bs\<close> show "getLengthAddr a bs - a < ucast bs"
    unfolding e word_less_nat_alt by simp
qed

section \<open>Every step keeps it\<close>

text \<open>Which part of the invariant looks at what.\<close>

lemma inv_frames [simp]:
  "inv_sides n bs tb (s\<lparr>ds_smem := m\<rparr>) = inv_sides n bs tb s" "inv_sides n bs tb (s\<lparr>ds_rmem := m\<rparr>) = inv_sides n bs tb s"
  "inv_sides n bs tb (s\<lparr>ds_to_table := ws\<rparr>) = inv_sides n bs tb s" "inv_sides n bs tb (s\<lparr>ds_to_bufs := ws\<rparr>) = inv_sides n bs tb s"
  "inv_owned B (s\<lparr>ds_smem := m\<rparr>) = inv_owned B s" "inv_owned B (s\<lparr>ds_rmem := m\<rparr>) = inv_owned B s"
  "inv_owned B (s\<lparr>ds_to_table := ws\<rparr>) = inv_owned B s" "inv_owned B (s\<lparr>ds_to_bufs := ws\<rparr>) = inv_owned B s"
  "inv_owned B (s\<lparr>ds_snd := c\<rparr>) = inv_owned B s"
  "inv_messages bs (s\<lparr>ds_smem := m\<rparr>) = inv_messages bs s" "inv_messages bs (s\<lparr>ds_to_table := ws\<rparr>) = inv_messages bs s"
  "inv_messages bs (s\<lparr>ds_snd := c\<rparr>) = inv_messages bs s"
  "inv_table n tb (s\<lparr>ds_rmem := m\<rparr>) = inv_table n tb s" "inv_table n tb (s\<lparr>ds_to_bufs := ws\<rparr>) = inv_table n tb s"
  "inv_table n tb (s\<lparr>ds_snd := c\<rparr>) = inv_table n tb s" "inv_table n tb (s\<lparr>ds_rcv := c\<rparr>) = inv_table n tb s"
  "inv_table n tb (s\<lparr>ds_held := hs\<rparr>) = inv_table n tb s" "inv_table n tb (s\<lparr>ds_recvd := rs\<rparr>) = inv_table n tb s"
  by (simp_all add: inv_sides_def inv_owned_def inv_messages_def inv_table_def live_def)

lemma frame_land:
  assumes "w_addr w = entry_of tb n i" "w_length w = 16" "n \<le> 2147483648"
  shows "land w m (entry_of tb n i) = w_data w 0" "land w m (entry_of tb n i + 12) = w_data w 12"
    and "\<lbrakk>j \<noteq> i; j < i + n; i < j + n\<rbrakk> \<Longrightarrow> land w m (entry_of tb n j) = m (entry_of tb n j)"
    and "\<lbrakk>j \<noteq> i; j < i + n; i < j + n\<rbrakk> \<Longrightarrow> land w m (entry_of tb n j + 12) = m (entry_of tb n j + 12)"
proof -
  show "land w m (entry_of tb n i) = w_data w 0" "land w m (entry_of tb n i + 12) = w_data w 12"
    using land_inside [of 0 w m] land_inside [of 12 w m] assms by simp_all
  assume "j \<noteq> i" "j < i + n" "i < j + n"
  from entries_apart [OF this assms(3), of 0 tb] entries_apart [OF this assms(3), of 12 tb]
  show "land w m (entry_of tb n j) = m (entry_of tb n j)" "land w m (entry_of tb n j + 12) = m (entry_of tb n j + 12)"
    using assms by (simp_all add: land_outside)
qed

lemma inv_bound: "dw_inv ba n bs tb B s \<Longrightarrow> n \<le> 2147483648"
  by (auto simp: dw_inv_def dest: dvd_imp_le)

lemma inv_window:
  assumes "dw_inv ba n bs tb B s"
  shows "length (ds_recvd s) \<le> sent_landed s" "length (ds_sent s) \<le> freed_landed s"
    "length (ds_freed s) \<le> length (ds_recvd s) + n"
  using assms owned_window [of B s] by (auto simp: dw_inv_def inv_messages_def inv_table_def)

lemma free_lands_inv:
  assumes inv: "dw_inv ba n bs tb B s" and w: "ds_to_table s = w # ws"
  shows "dw_inv ba n bs tb B (s\<lparr>ds_smem := land w (ds_smem s), ds_to_table := ws\<rparr>)" (is "dw_inv _ _ _ _ _ ?s")
proof -
  let ?l = "freed_landed s" and ?k = "length (ds_freed s)" and ?ss = "length (ds_sent s)"
  have t: "inv_table n tb s" using inv by (simp add: dw_inv_def)
  then have le: "Suc (length ws) \<le> ?k" "?ss \<le> ?l" using w by (auto simp: inv_table_def)
  then have l': "freed_landed ?s = Suc ?l" using w by simp
  have f: "w_addr w = entry_of tb n ?l" "w_length w = 16" "shows_buffer 0 (w_data w) (fst (ds_freed s ! ?l))"
    using t w by (auto simp: inv_table_def Let_def dest: spec [of _ 0])
  note fl = frame_land [OF f(1,2) inv_bound [OF inv]]
  have win: "?l < ?ss + n"
    using inv_window [OF inv] le w by (auto simp: dw_inv_def)
  have fr: "w_addr (ws ! j) = entry_of tb n (Suc ?l + j) \<and> w_length (ws ! j) = 16 \<and>
      shows_buffer 0 (w_data (ws ! j)) (fst (ds_freed s ! (Suc ?l + j)))" if "j < length ws" for j
    using t w that by (auto simp: inv_table_def Let_def dest: spec [of _ "Suc j"])
  have old: "shows_buffer (entry_of tb n i) (ds_smem s) (fst (ds_freed s ! i))" if "i < ?l" "?ss \<le> i" for i
    using t that by (auto simp: inv_table_def)
  have zero: "(ucast (ds_smem s (entry_of tb n i + 12)) :: u8) = 0" if "i < ?ss + n" "?l \<le> i" for i
    using t that by (auto simp: inv_table_def)
  have a: "shows_buffer (entry_of tb n i) (land w (ds_smem s)) (fst (ds_freed s ! i))" if "i < Suc ?l" "?ss \<le> i" for i
  proof (cases "i = ?l")
    case True then show ?thesis using f(3) by (simp add: shows_buffer_def fl)
  next
    case False
    with that win have "i < ?l" "?l < i + n" by linarith+
    with False that show ?thesis using old [of i] fl(3,4) [of i "ds_smem s"] by (simp add: shows_buffer_def)
  qed
  have z: "(ucast (land w (ds_smem s) (entry_of tb n i + 12)) :: u8) = 0" if "i < ?ss + n" "Suc ?l \<le> i" for i
  proof -
    from that le(2) have "i \<noteq> ?l" "i < ?l + n" "?l < i + n" by linarith+
    with that show ?thesis using zero [of i] fl(4) [of i "ds_smem s"] by simp
  qed
  have "inv_table n tb ?s"
    unfolding inv_table_def Let_def l' using le fr a z by simp
  then show ?thesis using inv by (simp add: dw_inv_def)
qed

lemma message_lands_inv:
  assumes inv: "dw_inv ba n bs tb B s" and w: "ds_to_bufs s = w # ws"
  shows "dw_inv ba n bs tb B (s\<lparr>ds_rmem := land w (ds_rmem s), ds_to_bufs := ws\<rparr>)" (is "dw_inv _ _ _ _ _ ?s")
proof -
  let ?l = "sent_landed s" and ?k = "length (ds_freed s)" and ?r = "length (ds_recvd s)"
  have m: "inv_messages bs s" and own: "inv_owned B s" and lay: "dw_layout ba bs B" and d: "distinct B"
    using inv by (auto simp: dw_inv_def dw_layout_def)
  from m have le: "Suc (length ws) \<le> length (ds_sent s)" "?r \<le> ?l" using w by (auto simp: inv_messages_def)
  then have l': "sent_landed ?s = Suc ?l" and lk: "?l < ?k"
    using w inv_window [OF inv] by auto
  have f: "w_addr w = fst (ds_freed s ! ?l)" "w_length w = bs" "ucast (w_data w (ucast bs - 4)) = snd (ds_sent s ! ?l)"
    using m w le by (auto simp: inv_messages_def on_wire_def Let_def dest: spec [of _ 0])
  have fr: "w_addr (ws ! j) = fst (ds_sent s ! (Suc ?l + j)) \<and> w_length (ws ! j) = bs \<and>
      ucast (w_data (ws ! j) (ucast bs - 4)) = snd (ds_sent s ! (Suc ?l + j))" if "j < length ws" for j
    using m w that by (auto simp: inv_messages_def on_wire_def Let_def dest: spec [of _ "Suc j"])
  let ?la = "\<lambda>i. getLengthAddr (fst (ds_freed s ! i)) bs"
  have here: "land w (ds_rmem s) (?la ?l) = w_data w (ucast bs - 4)"
    using layout_words(6,7) [OF lay freed_in(1) [OF own d le(2) lk] freed_in(1) [OF own d le(2) lk]] f
    by (simp add: land_def)
  have there: "land w (ds_rmem s) (?la i) = ds_rmem s (?la i)" if "?r \<le> i" "i < ?k" "i \<noteq> ?l" for i
    using layout_words(4) [OF lay freed_in(1) [OF own d le(2) lk] freed_in(1) [OF own d that(1,2)]]
      freed_in(3) [OF own d that(1,2) le(2) lk that(3)] f by (auto intro!: land_outside)
  have a: "ucast (land w (ds_rmem s) (?la i)) = snd (ds_sent s ! i)" if "i < Suc ?l" "?r \<le> i" for i
  proof (cases "i = ?l")
    case True then show ?thesis using here f(3) by simp
  next
    case False
    with that lk have "i < ?l" "i < ?k" by linarith+
    with False that show ?thesis using there [of i] m by (simp add: inv_messages_def)
  qed
  have z: "(ucast (land w (ds_rmem s) (?la i)) :: u32) = 0" if "i < ?k" "Suc ?l \<le> i" for i
    using there [of i] that le(2) m by (simp add: inv_messages_def)
  have "inv_messages bs ?s"
    unfolding inv_messages_def on_wire_def Let_def l' using le fr a z m by (simp add: inv_messages_def)
  then show ?thesis using inv by (simp add: dw_inv_def)
qed

lemma send_inv:
  assumes inv: "dw_inv ba n bs tb B s"
    and op: "DirectWriteConnection_SendAsync region (ds_snd s) ep = Some (Inr sid, c', ep')"
    and perf: "performs ep ep' (ds_smem s) m' ws"
    and la: "la = getLengthAddr (reg_addr region) (dw_buf_size (ds_snd s))" "\<not> in_table (ds_snd s) la"
    and len: "len = ucast (ds_smem s la)" "len \<noteq> 0"
  shows "dw_inv ba n bs tb B (s\<lparr>ds_snd := c', ds_smem := m', ds_to_bufs := ds_to_bufs s @ ws,
    ds_sent := ds_sent s @ map (\<lambda>w. (w_addr w, len)) ws\<rparr>)" (is "dw_inv _ _ _ _ _ ?s")
proof -
  let ?ss = "length (ds_sent s)" and ?l = "freed_landed s" and ?e = "entry_of tb n (length (ds_sent s))"
  have n: "0 < n" "n dvd 2 ^ 31" "n \<le> 2147483648" and t: "inv_table n tb s" and m: "inv_messages bs s"
    and sd: "inv_sides n bs tb s"
    using inv inv_bound [OF inv] by (auto simp: dw_inv_def)
  have c: "dw_nr_buffers (ds_snd s) = of_nat n" "dw_buf_size (ds_snd s) = bs" "dw_target_buf (ds_snd s) = tb"
    "unat (dw_next_id (ds_snd s)) mod n = Suc ?ss mod n"
    using sd by (simp_all add: inv_sides_def)
  have te: "target_entry (dw_next_id (ds_snd s)) (ds_snd s) = ?e"
    by (rule target_entry_slot [OF c(4,1) n(1,3) c(3)])
  note p = SendAsync_performs [OF op perf, unfolded te c]
  have le: "?ss \<le> ?l" "length (ds_to_bufs s) \<le> ?ss" using t m by (simp_all add: inv_table_def inv_messages_def)
  have zero: "(ucast (ds_smem s (entry_of tb n i + 12)) :: u8) = 0" if "i < ?ss + n" "?l \<le> i" for i
    using t that by (auto simp: inv_table_def)
  have lt: "?ss < ?l" using zero [of ?ss] p(3) le(1) n(1) by (cases "?l \<le> ?ss") auto
  have old: "shows_buffer (entry_of tb n i) (ds_smem s) (fst (ds_freed s ! i))" if "i < ?l" "?ss \<le> i" for i
    using t that by (auto simp: inv_table_def)
  have lk: "?ss < length (ds_freed s)" "?l < ?ss + n \<or> ?l = ?ss + n"
    using lt inv_window [OF inv] le by auto
  have ne: "entry_of tb n i \<noteq> ?e + 12" "entry_of tb n i + 12 \<noteq> ?e + 12" if "i < ?ss + n" "?ss < i" for i
  proof -
    from that have "?ss \<noteq> i" "?ss < i + n" "i < ?ss + n" by linarith+
    from entries_apart [OF this n(3), of 12 tb] entries_apart [OF this n(3), of 12 tb]
    show "entry_of tb n i \<noteq> ?e + 12" "entry_of tb n i + 12 \<noteq> ?e + 12" by auto
  qed
  have la': "la \<noteq> ?e + 12"
    using la(2) entry_inside [of "Suc ?ss mod n" n 12 tb] n by (auto simp: in_table_def c entry_of_def)
  have l': "freed_landed ?s = ?l" "length (ds_sent ?s) = Suc ?ss" "sent_landed ?s = sent_landed s"
    using le(2) by (simp_all add: p(5))
  have a: "shows_buffer (entry_of tb n i) m' (fst (ds_freed s ! i))" if "i < ?l" "Suc ?ss \<le> i" for i
    using old [of i] ne [of i] that lk by (auto simp: p(4) shows_buffer_def)
  have z: "(ucast (m' (entry_of tb n i + 12)) :: u8) = 0" if "i < Suc ?ss + n" "?l \<le> i" for i
  proof (cases "i = ?ss + n")
    case True
    then have "entry_of tb n i = ?e" by (simp add: entry_of_def del: of_nat_Suc flip: add_Suc)
    then show ?thesis by (simp add: p(4))
  next
    case False
    then show ?thesis using zero [of i] ne [of i] that lt by (simp add: p(4))
  qed
  have "inv_table n tb ?s"
    unfolding inv_table_def Let_def l' using t lt a z by (simp add: inv_table_def Let_def)
  moreover have "inv_sides n bs tb ?s"
    using sd next_id_slot [OF c(4) n(2)] by (simp add: inv_sides_def p(2,5))
  moreover have "inv_messages bs ?s"
  proof -
    have d: "w_addr w = fst (ds_freed s ! ?ss)" "w_length w = bs" "ucast (w_data w (ucast bs - 4)) = len"
      if "ws = [w]" for w
      using that p(5) old [of ?ss] lt la' by (auto simp: p(4) shows_buffer_def la(1) len(1) c getLengthAddr_def algebra_simps)
    obtain w where w: "ws = [w]" using p(5) by simp
    note d = d [OF w]
    have j: "sent_landed s + length (ds_to_bufs s) = ?ss" using le(2) by simp
    have old_m: "w_addr (ds_to_bufs s ! j) = fst (ds_sent s ! (sent_landed s + j)) \<and> w_length (ds_to_bufs s ! j) = bs \<and>
      ucast (w_data (ds_to_bufs s ! j) (ucast bs - 4)) = snd (ds_sent s ! (sent_landed s + j))"
      if "j < length (ds_to_bufs s)" for j
      using m that by (simp add: inv_messages_def on_wire_def Let_def)
    have q: "w_addr ((ds_to_bufs s @ [w]) ! j) = fst ((ds_sent s @ [(w_addr w, len)]) ! (sent_landed s + j)) \<and>
      w_length ((ds_to_bufs s @ [w]) ! j) = bs \<and>
      ucast (w_data ((ds_to_bufs s @ [w]) ! j) (ucast bs - 4)) = snd ((ds_sent s @ [(w_addr w, len)]) ! (sent_landed s + j))"
      if "j < Suc (length (ds_to_bufs s))" for j
    proof (cases "j = length (ds_to_bufs s)")
      case True then show ?thesis using d j by (simp add: nth_append)
    next
      case False
      with that have "j < length (ds_to_bufs s)" by simp
      moreover from this j have "sent_landed s + j < ?ss" by linarith
      ultimately show ?thesis using old_m [of j] by (simp add: nth_append)
    qed
    have h: "fst ((ds_sent s @ [(w_addr w, len)]) ! i) = fst (ds_freed s ! i) \<and> snd ((ds_sent s @ [(w_addr w, len)]) ! i) \<noteq> 0"
      if "i < Suc ?ss" for i
      using m d len(2) that by (cases "i = ?ss") (auto simp: nth_append inv_messages_def)
    show ?thesis
      unfolding inv_messages_def on_wire_def Let_def l'(3) using m q h le(2) inv_window [OF inv]
      by (auto simp: w inv_messages_def nth_append)
  qed
  ultimately show ?thesis using inv by (simp add: dw_inv_def inv_owned_def live_def)
qed

lemma free_inv:
  assumes inv: "dw_inv ba n bs tb B s" and held: "region \<in> set (ds_held s)"
    and op: "DirectWriteConnection_Free ba region (ds_rcv s) ep = Some (st, c', ep')" "status_ok st"
    and perf: "performs ep ep' (ds_rmem s) m' ws"
  shows "dw_inv ba n bs tb B (s\<lparr>ds_rcv := c', ds_rmem := m', ds_to_table := ds_to_table s @ ws,
      ds_held := remove1 region (ds_held s), ds_freed := ds_freed s @ [(reg_addr region, reg_lkey region)]\<rparr>)"
    (is "dw_inv _ _ _ _ _ ?s")
proof -
  let ?k = "length (ds_freed s)" and ?r = "length (ds_recvd s)" and ?x = "(reg_addr region, reg_lkey region)"
  have n: "0 < n" "n \<le> 2147483648" and t: "inv_table n tb s" and m: "inv_messages bs s" and sd: "inv_sides n bs tb s"
    and own: "inv_owned B s" and lay: "dw_layout ba bs B" and d: "distinct B" and B: "length B = n"
    using inv inv_bound [OF inv] by (auto simp: dw_inv_def dw_layout_def)
  have c: "dw_nr_buffers (ds_rcv s) = of_nat n" "dw_buf_size (ds_rcv s) = bs" "dw_r_rcv_buf_addr (ds_rcv s) = tb"
    "unat (dw_rcv_tail (ds_rcv s)) = Suc ?k mod n"
    using sd by (simp_all add: inv_sides_def)
  note p = Free_performs [OF op perf, unfolded c]
  have rb: "reg_addr region \<in> set B" by (rule held_in [OF own d held])
  note lw = layout_words [OF lay rb rb]
  have win: "?r \<le> ?k" "?k < ?r + n"
  proof -
    show "?r \<le> ?k" using own by (simp add: inv_owned_def)
    have "length (ds_held s) + length (live s) = n"
      using arg_cong [of _ _ size, OF conjunct2 [OF iffD1 [OF inv_owned_def own]]] B by simp
    moreover have "0 < length (ds_held s)" using held by (cases "ds_held s") auto
    moreover have "length (live s) = ?k - ?r" by (simp add: live_def)
    ultimately show "?k < ?r + n" by linarith
  qed
  have tail: "ucast (dw_rcv_tail (ds_rcv s)) = (of_nat (Suc ?k mod n) :: u64)"
  proof -
    have "Suc ?k mod n < n" using n(1) by simp
    then have "unat (of_nat (Suc ?k mod n) :: u64) = Suc ?k mod n" using n(2) by (simp add: unat_of_nat)
    then show ?thesis using c(4) by (simp add: word_unat_eq_iff)
  qed
  have wa: "w_addr (hd ws) = entry_of tb n ?k" using p(3) tail by (simp add: entry_of_def)
  have md: "shows_buffer 0 (\<lambda>x. m' (ba + x)) (reg_addr region)"
    using lw(1-3) by (simp add: shows_buffer_def p(2))
  have sides: "inv_sides n bs tb ?s"
  proof -
    have "\<exists>buf. dw_rcv_buffers c' (of_nat (Suc i mod n)) = Some buf \<and> db_addr buf = fst ((ds_freed s @ [?x]) ! i)"
      if "i < Suc ?k" "?r \<le> i" for i
    proof (cases "i = ?k")
      case True
      have "(of_nat (Suc ?k mod n) :: u32) = dw_rcv_tail (ds_rcv s)" by (simp flip: c(4))
      then show ?thesis using True by (simp add: p(1))
    next
      case False
      with that win have i: "i < ?k" "?k < i + n" by linarith+
      then have "Suc i mod n \<noteq> Suc ?k mod n" using slot_neq [of i ?k n] by simp
      moreover have "unat (of_nat (Suc i mod n) :: u32) = Suc i mod n"
        using n mod_less_divisor [of n "Suc i"] by (intro unat32_of_nat) linarith
      ultimately have "(of_nat (Suc i mod n) :: u32) \<noteq> dw_rcv_tail (ds_rcv s)" using c(4) by metis
      then show ?thesis using sd that i by (auto simp: p(1) inv_sides_def nth_append)
    qed
    then show ?thesis
      using sd next_slot [OF c(4,1) n] by (simp add: inv_sides_def p(1))
  qed
  have lv: "live ?s = live s @ [reg_addr region]" using win(1) by (simp add: live_def)
  have owned: "inv_owned B ?s"
  proof -
    have "mset (ds_held s) = add_mset region (mset (remove1 region (ds_held s)))" using held by simp
    then have "mset (map reg_addr (ds_held s)) = add_mset (reg_addr region) (mset (map reg_addr (remove1 region (ds_held s))))"
      by (simp only: mset_map image_mset_add_mset)
    then show ?thesis using own lv by (simp add: inv_owned_def)
  qed
  obtain w where w: "ws = [w]" using p(3) by simp
  then have w': "w_addr w = entry_of tb n ?k" "w_length w = 16" "w_data w = (\<lambda>x. m' (ba + x))"
    using p(3) wa by auto
  have le: "length (ds_to_table s) \<le> ?k" "length (ds_sent s) \<le> freed_landed s" using t by (simp_all add: inv_table_def)
  have table: "inv_table n tb ?s"
  proof -
    have fr: "w_addr ((ds_to_table s @ [w]) ! j) = entry_of tb n (freed_landed s + j) \<and> w_length ((ds_to_table s @ [w]) ! j) = 16 \<and>
        shows_buffer 0 (w_data ((ds_to_table s @ [w]) ! j)) (fst ((ds_freed s @ [?x]) ! (freed_landed s + j)))"
      if "j < Suc (length (ds_to_table s))" for j
    proof (cases "j = length (ds_to_table s)")
      case True
      then show ?thesis using w' md le by (simp add: nth_append)
    next
      case False
      with that have "j < length (ds_to_table s)" "freed_landed s + j < ?k" using le by linarith+
      moreover from this(1) t have "w_addr (ds_to_table s ! j) = entry_of tb n (freed_landed s + j) \<and>
        w_length (ds_to_table s ! j) = 16 \<and> shows_buffer 0 (w_data (ds_to_table s ! j)) (fst (ds_freed s ! (freed_landed s + j)))"
        unfolding inv_table_def Let_def by blast
      ultimately show ?thesis by (simp add: nth_append)
    qed
    have l': "freed_landed ?s = freed_landed s" using le w by simp
    have ol: "fst ((ds_freed s @ [?x]) ! i) = fst (ds_freed s ! i)" if "i < freed_landed s" for i
    proof -
      from that have "i < ?k" by linarith
      then show ?thesis by (simp add: nth_append)
    qed
    show ?thesis
      unfolding inv_table_def Let_def l' using t le fr ol by (simp add: w inv_table_def Let_def)
  qed
  have msgs: "inv_messages bs ?s"
  proof -
    let ?la = "\<lambda>i. getLengthAddr (fst (ds_freed s ! i)) bs"
    have same: "m' (?la i) = ds_rmem s (?la i)" if "?r \<le> i" "i < ?k" for i
      using layout_words(1-3,5) [OF lay rb freed_in(1) [OF own d that]] freed_in(2) [OF own d that held]
      by (auto simp: p(2))
    have ls: "length (ds_sent s) \<le> ?k" "sent_landed s \<le> ?k" using le by linarith+
    have z: "(ucast (m' (getLengthAddr (fst ((ds_freed s @ [?x]) ! i)) bs)) :: u32) = 0"
      if "i < Suc ?k" "sent_landed s \<le> i" for i
    proof (cases "i = ?k")
      case True then show ?thesis by (simp add: p(2))
    next
      case False
      with that have i: "i < ?k" by simp
      moreover have "?r \<le> i" using that(2) m by (simp add: inv_messages_def)
      ultimately show ?thesis using same m that(2) by (simp add: inv_messages_def nth_append)
    qed
    have a: "ucast (m' (getLengthAddr (fst ((ds_freed s @ [?x]) ! i)) bs)) = snd (ds_sent s ! i)"
      if "i < sent_landed s" "?r \<le> i" for i
      using same [of i] m that ls by (simp add: inv_messages_def nth_append)
    have h: "fst (ds_sent s ! i) = fst ((ds_freed s @ [?x]) ! i) \<and> snd (ds_sent s ! i) \<noteq> 0" if "i < length (ds_sent s)" for i
      using m that ls by (simp add: inv_messages_def nth_append)
    show ?thesis
      unfolding inv_messages_def using m z a h by (simp add: inv_messages_def)
  qed
  show ?thesis using inv sides owned table msgs by (simp add: dw_inv_def)
qed

lemma received_message:
  assumes "inv_messages bs s" and "length (ds_recvd s) < sent_landed s"
  shows "inv_messages bs (s\<lparr>ds_rcv := c, ds_held := hs, ds_recvd := ds_recvd s @ [ds_sent s ! length (ds_recvd s)]\<rparr>)"
  using assms by (simp add: inv_messages_def take_Suc_conv_app_nth)

lemma receive_inv:
  assumes inv: "dw_inv ba n bs tb B s" and lt: "length (ds_recvd s) < length (ds_freed s)"
    and op: "DirectWriteConnection_Receive (ds_rcv s) ep = Some (Inr region, c', ep')"
    and perf: "performs ep ep' (ds_rmem s) m' ws"
  shows "dw_inv ba n bs tb B (s\<lparr>ds_rcv := c', ds_rmem := m', ds_held := ds_held s @ [region],
      ds_recvd := ds_recvd s @ [(reg_addr region, reg_length region)]\<rparr>)" (is "dw_inv _ _ _ _ _ ?s")
proof -
  let ?r = "length (ds_recvd s)" and ?k = "length (ds_freed s)"
  have n: "0 < n" "n \<le> 2147483648" and m: "inv_messages bs s" and sd: "inv_sides n bs tb s" and own: "inv_owned B s"
    and B: "length B = n"
    using inv inv_bound [OF inv] by (auto simp: dw_inv_def)
  have c: "dw_nr_buffers (ds_rcv s) = of_nat n" "dw_buf_size (ds_rcv s) = bs"
    "unat (dw_rcv_head (ds_rcv s)) = Suc ?r mod n"
    using sd by (simp_all add: inv_sides_def)
  from Receive_performs [OF op perf] obtain buf where
    b: "dw_rcv_buffers (ds_rcv s) (dw_rcv_head (ds_rcv s)) = Some buf" "reg_addr region = db_addr buf"
    and l: "reg_length region = ucast (ds_rmem s (getLengthAddr (db_addr buf) bs))" "reg_length region \<noteq> 0"
    and c': "c' = (ds_rcv s)\<lparr>dw_rcv_buffers := (dw_rcv_buffers (ds_rcv s))(dw_rcv_head (ds_rcv s) \<mapsto> buf\<lparr>db_valid := False\<rparr>),
           dw_rcv_head := dw_next (dw_rcv_head (ds_rcv s)) (ds_rcv s)\<rparr>" and mw: "m' = ds_rmem s" "ws = []"
    by (auto simp: c(2))
  have slot: "(of_nat (Suc ?r mod n) :: u32) = dw_rcv_head (ds_rcv s)" by (simp flip: c(3))
  then have ba: "db_addr buf = fst (ds_freed s ! ?r)" using sd lt b(1) by (fastforce simp: inv_sides_def)
  have win: "?r < sent_landed s"
  proof (rule ccontr)
    assume "\<not> ?r < sent_landed s"
    then show False using m lt l by (simp add: inv_messages_def ba)
  qed
  then have val: "reg_length region = snd (ds_sent s ! ?r)" using m l(1) by (simp add: inv_messages_def ba)
  have src: "fst (ds_sent s ! ?r) = fst (ds_freed s ! ?r)" using m win by (simp add: inv_messages_def)
  have rcv: "(reg_addr region, reg_length region) = ds_sent s ! ?r" using val src ba b(2) by (simp add: prod_eq_iff)
  have sides: "inv_sides n bs tb ?s"
  proof -
    have "\<exists>buf. dw_rcv_buffers c' (of_nat (Suc i mod n)) = Some buf \<and> db_addr buf = fst (ds_freed s ! i)"
      if "i < ?k" "Suc ?r \<le> i" for i
    proof -
      from sd that obtain buf' where "dw_rcv_buffers (ds_rcv s) (of_nat (Suc i mod n)) = Some buf'"
        "db_addr buf' = fst (ds_freed s ! i)"
        by (auto simp: inv_sides_def)
      then show ?thesis using b(1) by (cases "of_nat (Suc i mod n) = dw_rcv_head (ds_rcv s)") (simp_all add: c')
    qed
    then show ?thesis using sd next_slot [OF c(3,1) n] by (simp add: inv_sides_def c')
  qed
  have lv: "live s = db_addr buf # live ?s"
    using lt ba by (simp add: live_def Cons_nth_drop_Suc [symmetric])
  then have owned: "inv_owned B ?s" using own lt b(2) by (simp add: inv_owned_def)
  have msgs: "inv_messages bs ?s"
    using received_message [OF m win] by (simp add: mw rcv)
  show ?thesis using inv sides owned msgs by (simp add: dw_inv_def)
qed

lemma received_memory:
  assumes "inv_messages bs s" and "sent_landed s \<le> length (ds_freed s)"
    and "\<And>i. length (ds_recvd s) \<le> i \<Longrightarrow> i < length (ds_freed s) \<Longrightarrow>
      m (getLengthAddr (fst (ds_freed s ! i)) bs) = ds_rmem s (getLengthAddr (fst (ds_freed s ! i)) bs)"
  shows "inv_messages bs (s\<lparr>ds_rmem := m\<rparr>)"
  using assms by (simp add: inv_messages_def)

lemma step_inv:
  assumes "dw_step ba s s'" and "dw_inv ba n bs tb B s"
  shows "dw_inv ba n bs tb B s'"
  using assms
proof (cases rule: dw_step.cases)
  case (dw_wait sid ep st c' ep')
  then have "c' = (ds_snd s)\<lparr>dw_ackd_id := dw_ackd_id c'\<rparr>"
    by (auto simp: DirectWriteConnection_Wait_def elim!: bindE)
  then obtain a where "c' = (ds_snd s)\<lparr>dw_ackd_id := a\<rparr>" by blast
  with dw_wait(1) assms(2) show ?thesis by (simp add: dw_inv_def inv_sides_def)
next
  case (dw_sender_app a v)
  have "n \<le> 2147483648" "0 < n" using inv_bound [OF assms(2)] assms(2) by (simp_all add: dw_inv_def)
  then have "entry_of tb n i + x - tb < of_nat n * 16" if "unat x < 16" for i x
    using entry_inside [of "Suc i mod n" n x tb] that by (simp add: entry_of_def)
  from this [of 0] this [of 12] have ne: "entry_of tb n i \<noteq> a" "entry_of tb n i + 12 \<noteq> a" for i
    using dw_sender_app(2) assms(2) by (auto simp: in_table_def dw_inv_def inv_sides_def)
  then have "shows_buffer (entry_of tb n i) (ds_smem s') c = shows_buffer (entry_of tb n i) (ds_smem s) c"
    "ds_smem s' (entry_of tb n i + 12) = ds_smem s (entry_of tb n i + 12)" for i c
    using ne [of i] by (simp_all add: dw_sender_app(1) shows_buffer_def)
  moreover have "ds_to_table s' = ds_to_table s" "ds_freed s' = ds_freed s" "ds_sent s' = ds_sent s"
    by (simp_all add: dw_sender_app(1))
  ultimately have "inv_table n tb s' = inv_table n tb s" unfolding inv_table_def by simp
  with dw_sender_app(1) assms(2) show ?thesis by (simp add: dw_inv_def)
next
  case (dw_receiver_app a v)
  have r: "length (ds_recvd s) \<le> sent_landed s" "sent_landed s \<le> length (ds_freed s)"
    using inv_window [OF assms(2)] by linarith+
  have "fst (ds_freed s ! i) \<in> set (live s)" if "length (ds_recvd s) \<le> i" "i < length (ds_freed s)" for i
    using live_nth [OF that] by (metis nth_mem)
  then have "a \<noteq> getLengthAddr (fst (ds_freed s ! i)) bs" if "length (ds_recvd s) \<le> i" "i < length (ds_freed s)" for i
    using that dw_receiver_app(2) assms(2) by (auto simp: dw_inv_def inv_sides_def)
  then have "ds_rmem s' (getLengthAddr (fst (ds_freed s ! i)) bs) = ds_rmem s (getLengthAddr (fst (ds_freed s ! i)) bs)"
    if "length (ds_recvd s) \<le> i" "i < length (ds_freed s)" for i
    using that by (auto simp: dw_receiver_app(1))
  then have "inv_messages bs s'"
    using received_memory [of bs s "ds_rmem s'"] assms(2) r(2) by (simp add: dw_receiver_app(1) dw_inv_def)
  with dw_receiver_app(1) assms(2) show ?thesis by (simp add: dw_inv_def)
qed (auto intro: free_inv free_lands_inv send_inv message_lands_inv receive_inv)

lemma start_inv:
  assumes "dw_start ba s"
  obtains n bs tb where "dw_inv ba n bs tb (map reg_addr (ds_held s)) s"
proof -
  from assms obtain n bs rmrs smrs tar_s tar_r key key' ra where
    c: "ds_snd s = DirectWriteConnection n bs smrs tar_s ra key"
     "ds_rcv s = DirectWriteConnection n bs rmrs tar_r (mr_addr tar_s) key'"
    and n: "1 < unat n" "unat n dvd 2 ^ 31" "length (ds_held s) = unat n"
    and lay: "dw_layout ba bs (map reg_addr (ds_held s))"
    and z: "\<And>i. i < unat n \<Longrightarrow> (ucast (ds_smem s (mr_addr tar_s + of_nat i * 16 + 12)) :: u8) = 0"
    and e: "ds_to_table s = []" "ds_to_bufs s = []" "ds_freed s = []" "ds_sent s = []" "ds_recvd s = []"
    by (auto simp: dw_start_def)
  show thesis
  proof (rule that)
    show "dw_inv ba (unat n) bs (mr_addr tar_s) (map reg_addr (ds_held s)) s"
      using n lay z by (simp add: dw_inv_def inv_sides_def inv_owned_def inv_table_def inv_messages_def on_wire_def live_def c e
        DirectWriteConnection_def entry_of_def)
  qed
qed

end
