(* ===== verification/Direct_Write_Safety.thy ===== *)
theory Direct_Write_Safety
  imports Direct_Write_System
begin

text \<open>
  The theorems on the direct write connection: order, no overwriting and progress over every
  interleaving, the exchange of the table's address, and a run of two buffers.
\<close>

section \<open>Steps that can be taken\<close>

lemma Free_runs: "\<exists>(ep :: endpoint) st c' ep' m' ws.
    DirectWriteConnection_Free ba region c ep = Some (st, c', ep') \<and> status_ok st \<and> performs ep ep' m m' ws"
proof -
  let ?buf = "\<lparr>db_addr = reg_addr region, db_rkey = reg_lkey region, db_valid = True\<rparr>"
  let ?ep = "demo_send_ep [(0, demo_wc 0)]"
  let ?e1 = "sys_void (Store (getLengthAddr (reg_addr region) (dw_buf_size c)) 0 4) (store_buffer ba ?buf ?ep)"
  have e: "send_polls ?e1 = map (Pair 1) [] @ (0, demo_wc 0) # []" "rets ?e1 = [0, 0, 0, 0]" "loads ?e1 = loads ?ep"
    by (simp_all add: store_buffer_def sys_void_def)
  have "code (Status NotFound ''nothing recieved in send cq'') = NotFound" by (simp add: Status_def)
  with drain_takes [OF e(1)] e obtain ep' c' where
    r: "DirectWriteConnection_Free ba region c ?ep = Some (Status0, c', ep')" "loads ep' = loads ?ep"
    "\<exists>wr. calls ep' = calls ?e1 @ [Post_send [wr]]"
    by (auto simp: DirectWriteConnection_Free_def Let_def Endpoint_PostWriteInline_def Endpoint_PostSendRaw_def sys_def)
  then obtain cs wr where "calls ep' = calls ?ep @ [Store ba (reg_addr region) 8, Store (ba + 8) (ucast (reg_lkey region)) 4,
      Store (ba + 12) 1 1, Store (getLengthAddr (reg_addr region) (dw_buf_size c)) 0 4, Post_send [wr]]"
    by (auto simp: store_buffer_def)
  with r(2) have "\<exists>m' ws. performs ?ep ep' m m' ws" unfolding performs_def by fastforce
  moreover have "status_ok Status0" by simp
  ultimately show ?thesis using r(1) by blast
qed

lemma SendAsync_runs:
  assumes "(ucast (m (target_entry (dw_next_id c) c + 12)) :: u8) \<noteq> 0"
  shows "\<exists>(ep :: endpoint) sid c' ep' m' ws.
    DirectWriteConnection_SendAsync region c ep = Some (Inr sid, c', ep') \<and> performs ep ep' m m' ws"
proof -
  let ?b = "target_entry (dw_next_id c) c"
  have t: "target_entry s (c\<lparr>dw_next_id := s'\<rparr>) = target_entry s c" for s s' by (simp add: target_entry_def)
  let ?ep = "(demo_send_ep [])\<lparr>loads := [m (?b + 12), m ?b, m (?b + 8)]\<rparr>"
  from assms obtain c' ep' where r: "DirectWriteConnection_SendAsync region c ?ep = Some (Inr (dw_next_id c), c', ep')"
    "loads ep' = []" "\<exists>wr. calls ep' = calls ?ep @ [Load (?b + 12), Load ?b, Load (?b + 8), Store (?b + 12) 0 1, Post_send [wr]]"
    by (simp add: DirectWriteConnection_SendAsync_def Let_def t poll_word.simps sys_load_def sys_void_def
      Endpoint_PostWrite_def Endpoint_PostSendRaw_def sys_def)
  then have "\<exists>m' ws. performs ?ep ep' m m' ws" unfolding performs_def by fastforce
  with r(1) show ?thesis by blast
qed

lemma Receive_runs:
  assumes "dw_rcv_buffers c (dw_rcv_head c) = Some buf"
    and "(ucast (m (getLengthAddr (db_addr buf) (dw_buf_size c))) :: u32) \<noteq> 0"
  shows "\<exists>(ep :: endpoint) region c' ep' m' ws.
    DirectWriteConnection_Receive c ep = Some (Inr region, c', ep') \<and> performs ep ep' m m' ws"
proof -
  let ?la = "getLengthAddr (db_addr buf) (dw_buf_size c)"
  let ?ep = "(demo_send_ep [])\<lparr>loads := [m ?la, m ?la]\<rparr>"
  from assms obtain region c' ep' where r: "DirectWriteConnection_Receive c ?ep = Some (Inr region, c', ep')"
    "loads ep' = []" "calls ep' = calls ?ep @ [Load ?la, Load ?la]"
    by (simp add: DirectWriteConnection_Receive_def Let_def poll_word.simps sys_load_def)
  then have "\<exists>m' ws. performs ?ep ep' m m' ws" unfolding performs_def by fastforce
  with r(1) show ?thesis by blast
qed

text \<open>
  The steps of the network and of the receiver that deliver messages: a write lands in a buffer, and
  \<open>Receive\<close> returns. The sender takes no part in them, and nothing is given back.
\<close>

inductive dw_delivery :: "dw_system \<Rightarrow> dw_system \<Rightarrow> bool" where
  lands: "ds_to_bufs s = w # ws \<Longrightarrow>
    dw_delivery s (s\<lparr>ds_rmem := land w (ds_rmem s), ds_to_bufs := ws\<rparr>)"
| receives: "length (ds_recvd s) < length (ds_freed s) \<Longrightarrow>
    DirectWriteConnection_Receive (ds_rcv s) ep = Some (Inr region, c', ep') \<Longrightarrow>
    performs ep ep' (ds_rmem s) m' ws \<Longrightarrow>
    dw_delivery s (s\<lparr>ds_rcv := c', ds_rmem := m', ds_held := ds_held s @ [region],
      ds_recvd := ds_recvd s @ [(reg_addr region, reg_length region)]\<rparr>)"

lemma delivery_step: "dw_delivery s s' \<Longrightarrow> dw_step ba s s'"
  by (induction rule: dw_delivery.induct) (auto intro: dw_message_lands dw_receive)

lemma delivery_steps: "dw_delivery\<^sup>*\<^sup>* s s' \<Longrightarrow> (dw_step ba)\<^sup>*\<^sup>* s s'"
  by (induction rule: rtranclp_induct) (auto intro: rtranclp.rtrancl_into_rtrancl delivery_step)

lemma all_land: "\<exists>m. dw_delivery\<^sup>*\<^sup>* s (s\<lparr>ds_rmem := m, ds_to_bufs := []\<rparr>)"
proof (induction "ds_to_bufs s" arbitrary: s)
  case Nil
  then have "s\<lparr>ds_rmem := ds_rmem s, ds_to_bufs := []\<rparr> = s" by simp
  then show ?case by (metis rtranclp.rtrancl_refl)
next
  case (Cons w ws)
  let ?s = "s\<lparr>ds_rmem := land w (ds_rmem s), ds_to_bufs := ws\<rparr>"
  have "dw_delivery s ?s" by (rule lands) (simp flip: Cons.hyps(2))
  moreover obtain m where "dw_delivery\<^sup>*\<^sup>* ?s (?s\<lparr>ds_rmem := m, ds_to_bufs := []\<rparr>)" using Cons.hyps(1) [of ?s] by auto
  ultimately have "dw_delivery\<^sup>*\<^sup>* s (s\<lparr>ds_rmem := m, ds_to_bufs := []\<rparr>)"
    by (simp add: converse_rtranclp_into_rtranclp)
  then show ?case by blast
qed

lemma land_inv:
  assumes "dw_inv ba n bs tb B s" and "(dw_step ba)\<^sup>*\<^sup>* s s'"
  shows "dw_inv ba n bs tb B s'"
  using assms(2,1) by (induction rule: rtranclp_induct) (auto intro: step_inv)

lemma receive_next:
  assumes inv: "dw_inv ba n bs tb B s" and lt: "length (ds_recvd s) < length (ds_sent s)"
  shows "\<exists>s'. dw_delivery\<^sup>*\<^sup>* s s' \<and> ds_sent s' = ds_sent s \<and> ds_recvd s' = ds_recvd s @ [ds_sent s ! length (ds_recvd s)]"
proof -
  let ?r = "length (ds_recvd s)"
  obtain m where run: "dw_delivery\<^sup>*\<^sup>* s (s\<lparr>ds_rmem := m, ds_to_bufs := []\<rparr>)" using all_land by blast
  let ?s = "s\<lparr>ds_rmem := m, ds_to_bufs := []\<rparr>"
  have i1: "dw_inv ba n bs tb B ?s" by (rule land_inv [OF inv delivery_steps [OF run]])
  then have ms: "inv_messages bs ?s" and sd: "inv_sides n bs tb ?s" by (simp_all add: dw_inv_def)
  have win: "?r < length (ds_freed s)" using inv_window [OF inv] lt by linarith
  have bs: "dw_buf_size (ds_rcv s) = bs" using sd by (simp add: inv_sides_def)
  have "unat (dw_rcv_head (ds_rcv s)) = Suc ?r mod n" using sd by (simp add: inv_sides_def)
  then have "(of_nat (Suc ?r mod n) :: u32) = dw_rcv_head (ds_rcv s)" by (simp flip: \<open>unat _ = _\<close>)
  then obtain buf where b: "dw_rcv_buffers (ds_rcv s) (dw_rcv_head (ds_rcv s)) = Some buf" "db_addr buf = fst (ds_freed s ! ?r)"
    using sd win by (fastforce simp: inv_sides_def)
  have "ucast (m (getLengthAddr (db_addr buf) bs)) = snd (ds_sent s ! ?r)" "snd (ds_sent s ! ?r) \<noteq> 0"
    using ms lt b(2) by (simp_all add: inv_messages_def)
  then have "(ucast (m (getLengthAddr (db_addr buf) (dw_buf_size (ds_rcv s)))) :: u32) \<noteq> 0" by (simp add: bs)
  from Receive_runs [where m = m, OF b(1) this] obtain ep region c' ep' m' ws where
    op: "DirectWriteConnection_Receive (ds_rcv s) ep = Some (Inr region, c', ep')" "performs ep ep' m m' ws" by blast
  let ?t = "?s\<lparr>ds_rcv := c', ds_rmem := m', ds_held := ds_held s @ [region],
      ds_recvd := ds_recvd s @ [(reg_addr region, reg_length region)]\<rparr>"
  have st: "dw_delivery ?s ?t"
    using receives [of ?s ep region c' ep' m' ws] win op by simp
  have "dw_inv ba n bs tb B ?t" by (rule step_inv [OF delivery_step [OF st] i1])
  then have "ds_recvd ?t = take (Suc ?r) (ds_sent s)" by (simp add: dw_inv_def inv_messages_def)
  moreover have "ds_recvd s = take ?r (ds_sent s)" using inv by (simp add: dw_inv_def inv_messages_def)
  ultimately have "ds_recvd ?t = ds_recvd s @ [ds_sent s ! ?r]" using lt by (simp add: take_Suc_conv_app_nth)
  moreover have "dw_delivery\<^sup>*\<^sup>* s ?t" using run st by (rule rtranclp.rtrancl_into_rtrancl)
  moreover have "ds_sent ?t = ds_sent s" by simp
  ultimately show ?thesis by blast
qed

section \<open>The messages arrive, once and in order\<close>

lemma runs_inv:
  assumes "dw_start ba s0" and "(dw_step ba)\<^sup>*\<^sup>* s0 s"
  obtains n bs tb where "dw_inv ba n bs tb (map reg_addr (ds_held s0)) s"
proof -
  obtain n bs tb where "dw_inv ba n bs tb (map reg_addr (ds_held s0)) s0" by (rule start_inv [OF assms(1)])
  with assms(2) have "dw_inv ba n bs tb (map reg_addr (ds_held s0)) s"
    by (induction rule: rtranclp_induct) (auto intro: step_inv)
  then show thesis by (rule that)
qed

text \<open>
  C9: Over any interleaving of the two sides, of the writes landing and of what the applications do
  to their own memory, the messages received are the messages sent, each with its length, in the
  order they were sent and without a gap. The messages have a length other than 0, and the receiving
  application frees what it received and does not call \<open>Receive\<close> while it holds all the buffers:
  then the oldest of them, whose length word is still set, would be returned again.
\<close>

theorem direct_write_order:
  assumes "dw_start ba s0" and "(dw_step ba)\<^sup>*\<^sup>* s0 s"
  shows "ds_recvd s = take (length (ds_recvd s)) (ds_sent s)"
proof -
  obtain n bs tb where "dw_inv ba n bs tb (map reg_addr (ds_held s0)) s" by (rule runs_inv [OF assms])
  then show ?thesis by (simp add: dw_inv_def inv_messages_def)
qed

text \<open>
  C10: A message on its way goes to a buffer the receiver has given back and not yet received again:
  the application does not hold it and its length word is 0, so no unread message is overwritten.
  This is for messages of a length other than 0 and a receiving application that frees only what it
  holds and does not call \<open>Receive\<close> while it holds all the buffers.
\<close>

theorem direct_write_no_overwrite:
  assumes "dw_start ba s0" and "(dw_step ba)\<^sup>*\<^sup>* s0 s" and "ds_to_bufs s = w # ws"
  shows "w_addr w \<in> set (live s) \<and> w_addr w \<notin> reg_addr ` set (ds_held s) \<and>
    (ucast (ds_rmem s (getLengthAddr (w_addr w) (dw_buf_size (ds_rcv s)))) :: u32) = 0"
proof -
  obtain n bs tb where inv: "dw_inv ba n bs tb (map reg_addr (ds_held s0)) s" by (rule runs_inv [OF assms(1,2)])
  let ?i = "sent_landed s"
  have m: "inv_messages bs s" and own: "inv_owned (map reg_addr (ds_held s0)) s" and d: "distinct (map reg_addr (ds_held s0))"
    and bs: "dw_buf_size (ds_rcv s) = bs"
    using inv by (auto simp: dw_inv_def dw_layout_def inv_sides_def)
  have i: "length (ds_recvd s) \<le> ?i" "?i < length (ds_freed s)" "?i < length (ds_sent s)"
    using inv_window [OF inv] m assms(3) by (auto simp: inv_messages_def)
  have w: "w_addr w = fst (ds_freed s ! ?i)"
    using m assms(3) i by (auto simp: inv_messages_def on_wire_def Let_def dest: spec [of _ 0])
  have "w_addr w \<in> set (live s)" using live_nth [OF i(1,2)] w by (metis nth_mem)
  moreover have "w_addr w \<notin> reg_addr ` set (ds_held s)" using freed_in(2) [OF own d i(1,2)] w by auto
  moreover have "(ucast (ds_rmem s (getLengthAddr (w_addr w) bs)) :: u32) = 0"
    using m i w by (simp add: inv_messages_def)
  ultimately show ?thesis by (simp add: bs)
qed

text \<open>
  C11: The receiver is never stuck behind the sender: as long as a message (of a length other than 0)
  was sent and not received, steps of the network and of the receiver alone, writes that land and
  calls of \<open>Receive\<close>, deliver the next one: the sender takes no further step and no buffer has to be
  given back first. As in the other two properties the application has not called \<open>Receive\<close> while it
  held all the buffers.
\<close>

theorem direct_write_progress:
  assumes "dw_start ba s0" and "(dw_step ba)\<^sup>*\<^sup>* s0 s" and "length (ds_recvd s) < length (ds_sent s)"
  shows "\<exists>s'. dw_delivery\<^sup>*\<^sup>* s s' \<and> ds_sent s' = ds_sent s \<and>
    ds_recvd s' = ds_recvd s @ [ds_sent s ! length (ds_recvd s)]"
proof -
  obtain n bs tb where "dw_inv ba n bs tb (map reg_addr (ds_held s0)) s" by (rule runs_inv [OF assms(1,2)])
  then show ?thesis using assms(3) by (rule receive_next)
qed

section \<open>A run of two buffers\<close>

definition demo_buffer :: "u64 \<Rightarrow> ReceiveRegion" where
  "demo_buffer a = \<lparr>reg_context = 0, reg_addr = a, reg_length = 0, reg_lkey = 7\<rparr>"

definition demo_system :: dw_system where
  "demo_system = \<lparr>ds_snd = DirectWriteConnection 2 8 [] \<lparr>mr_addr = 1000, mr_length = 32, mr_lkey = 1\<rparr> 9000 4,
     ds_rcv = DirectWriteConnection 2 8 [] \<lparr>mr_addr = 9000, mr_length = 32, mr_lkey = 4\<rparr> 1000 1,
     ds_smem = (\<lambda>_. 0), ds_rmem = (\<lambda>_. 1), ds_to_table = [], ds_to_bufs = [],
     ds_held = [demo_buffer 2000, demo_buffer 3000], ds_freed = [], ds_sent = [], ds_recvd = []\<rparr>"

lemma demo_starts: "dw_start 500 demo_system"
  unfolding dw_start_def
  by (intro exI [of _ "2 :: u64"] exI [of _ "8 :: u32"] exI [of _ "[]"] exI [of _ "\<lparr>mr_addr = 1000, mr_length = 32, mr_lkey = 1\<rparr>"]
      exI [of _ "\<lparr>mr_addr = 9000, mr_length = 32, mr_lkey = 4\<rparr>"] exI [of _ "9000 :: u64"] exI [of _ "4 :: u32"] exI [of _ "1 :: u32"])
    (simp add: demo_system_def demo_buffer_def dw_layout_def getLengthAddr_def)

text \<open>The first buffer is offered, the offer lands, a message of 5 bytes is sent into it.\<close>

lemma demo_sends:
  "\<exists>s w. (dw_step 500)\<^sup>*\<^sup>* demo_system s \<and> ds_to_bufs s = [w] \<and> w_addr w = 2000 \<and>
     ds_sent s = [(2000, 5)] \<and> ds_recvd s = [] \<and> ds_held s = [demo_buffer 3000]"
proof -
  obtain ep st c1 ep1 m1 ws where
    op: "DirectWriteConnection_Free 500 (demo_buffer 2000) (ds_rcv demo_system) ep = Some (st, c1, ep1)" "status_ok st"
      "performs ep ep1 (ds_rmem demo_system) m1 ws"
    using Free_runs by blast
  note f = Free_performs [OF this]
  let ?s1 = "demo_system\<lparr>ds_rcv := c1, ds_rmem := m1, ds_to_table := ws, ds_held := [demo_buffer 3000], ds_freed := [(2000, 7)]\<rparr>"
  have s1: "dw_step 500 demo_system ?s1"
    using dw_free [OF _ op] by (simp add: demo_system_def demo_buffer_def)
  obtain w where w: "ws = [w]" "w_addr w = 1016" "w_length w = 16" "w_data w 0 = 2000" "w_data w 12 = 1"
    using f(2,3) by (simp add: demo_system_def demo_buffer_def DirectWriteConnection_def getLengthAddr_def)
  let ?m2 = "(land w (ds_smem demo_system))(5004 := 5)"
  let ?s2 = "?s1\<lparr>ds_smem := land w (ds_smem demo_system), ds_to_table := []\<rparr>" and ?s3 = "?s1\<lparr>ds_smem := ?m2, ds_to_table := []\<rparr>"
  have s2: "dw_step 500 ?s1 ?s2" using dw_free_lands [of ?s1 w "[]" 500] by (simp add: w(1))
  have s3: "dw_step 500 ?s2 ?s3"
    using dw_sender_app [of ?s2 5004 500 5] by (simp add: in_table_def demo_system_def DirectWriteConnection_def)
  have e: "target_entry (dw_next_id (ds_snd demo_system)) (ds_snd demo_system) = 1016"
    by (simp add: target_entry_def demo_system_def DirectWriteConnection_def)
  have m2: "?m2 1016 = 2000" "?m2 1028 = 1" "?m2 5004 = 5" using w by (simp_all add: land_def)
  then have "(ucast (?m2 (target_entry (dw_next_id (ds_snd demo_system)) (ds_snd demo_system) + 12)) :: u8) \<noteq> 0"
    by (simp add: e)
  from SendAsync_runs [where m = ?m2, OF this] obtain ep sid c4 ep4 m4 vs where
    op4: "DirectWriteConnection_SendAsync (demo_buffer 5000) (ds_snd demo_system) ep = Some (Inr sid, c4, ep4)"
      "performs ep ep4 ?m2 m4 vs" by blast
  have vs: "length vs = 1" "w_addr (hd vs) = 2000"
    using SendAsync_performs(5) [OF op4] m2 by (simp_all add: e)
  then obtain v where v: "vs = [v]" "w_addr v = 2000" by (cases vs) auto
  let ?s4 = "?s3\<lparr>ds_snd := c4, ds_smem := m4, ds_to_bufs := [v], ds_sent := [(2000, 5)]\<rparr>"
  have s4: "dw_step 500 ?s3 ?s4"
    using dw_send [of "demo_buffer 5000" ?s3 ep sid c4 ep4 m4 vs 5004 5 500] op4 v m2
    by (simp add: in_table_def demo_system_def demo_buffer_def DirectWriteConnection_def getLengthAddr_def)
  have "(dw_step 500)\<^sup>*\<^sup>* demo_system ?s4"
    using s1 s2 s3 s4 by (meson rtranclp.rtrancl_into_rtrancl rtranclp.rtrancl_refl)
  then show ?thesis using v by (intro exI [of _ ?s4] exI [of _ v]) (simp add: demo_system_def)
qed

lemma direct_write_order_witness:
  "\<exists>s. (dw_step 500)\<^sup>*\<^sup>* demo_system s \<and> ds_recvd s = [(2000, 5)] \<and> take 1 (ds_sent s) = [(2000, 5)]"
proof -
  obtain s1 w where s1: "(dw_step 500)\<^sup>*\<^sup>* demo_system s1" "ds_sent s1 = [(2000, 5)]" "ds_recvd s1 = []"
    using demo_sends by blast
  obtain n bs tb where "dw_inv 500 n bs tb (map reg_addr (ds_held demo_system)) s1" by (rule runs_inv [OF demo_starts s1(1)])
  from receive_next [OF this] s1(2,3) obtain s2 where s2: "dw_delivery\<^sup>*\<^sup>* s1 s2" "ds_recvd s2 = [(2000, 5)]" by auto
  then have "(dw_step 500)\<^sup>*\<^sup>* demo_system s2" using s1(1) delivery_steps by (meson rtranclp_trans)
  with direct_write_order [OF demo_starts this] s2(2) show ?thesis by auto
qed

lemma direct_write_no_overwrite_witness:
  "\<exists>s w. ds_to_bufs s = [w] \<and> w_addr w = 2000 \<and> ds_held s = [demo_buffer 3000] \<and> 2000 \<in> set (live s)"
proof -
  obtain s w where s: "(dw_step 500)\<^sup>*\<^sup>* demo_system s" "ds_to_bufs s = [w]" "w_addr w = 2000" "ds_held s = [demo_buffer 3000]"
    using demo_sends by blast
  with direct_write_no_overwrite [OF demo_starts s(1,2)] show ?thesis by auto
qed

lemma direct_write_progress_witness:
  "\<exists>s s'. ds_recvd s = [] \<and> dw_delivery\<^sup>*\<^sup>* s s' \<and> ds_recvd s' = [(2000, 5)]"
proof -
  obtain s where s: "(dw_step 500)\<^sup>*\<^sup>* demo_system s" "ds_sent s = [(2000, 5)]" "ds_recvd s = []"
    using demo_sends by blast
  with direct_write_progress [OF demo_starts s(1)] show ?thesis by auto
qed

text \<open>
  Why the application must not hold all the buffers when it receives: with two buffers given back
  and a message of 5 bytes in each, the third \<open>Receive\<close> returns the first message once more.
\<close>

fun receive_addrs :: "nat \<Rightarrow> direct_write \<Rightarrow> endpoint \<Rightarrow> u64 list option" where
  "receive_addrs 0 c ep = Some []"
| "receive_addrs (Suc k) c ep = do {
     (r, c, ep) \<leftarrow> DirectWriteConnection_Receive c ep;
     as \<leftarrow> receive_addrs k c ep;
     (case r of Inl s \<Rightarrow> None | Inr region \<Rightarrow> Some (reg_addr region # as)) }"

lemma held_message_again:
  "receive_addrs 3
     ((ds_rcv demo_system)\<lparr>dw_rcv_buffers := [1 \<mapsto> \<lparr>db_addr = 2000, db_rkey = 7, db_valid = True\<rparr>,
        0 \<mapsto> \<lparr>db_addr = 3000, db_rkey = 7, db_valid = True\<rparr>]\<rparr>)
     ((demo_send_ep [])\<lparr>loads := [5, 5, 5, 5, 5, 5]\<rparr>) = Some [2000, 3000, 2000]"
  by (simp add: numeral_3_eq_3 demo_system_def DirectWriteConnection_def DirectWriteConnection_Receive_def
      Let_def poll_word.simps sys_load_def dw_next_def)

end
