(* ===== verification/Write_Atomic.thy ===== *)
theory Write_Atomic
  imports Send_Receive Read_Connection Magic_Buffer "HOL-Library.AList"
begin

text \<open>
  \<^verbatim>\<open>tests/write_atomic/write_atomic.{hpp,cpp}\<close>: many senders write into one buffer. A sender reserves
  its place by a remote fetch-and-add on the tail, waits until the place is free, and writes with
  immediate data that tell the receiver the place. Messages come and are freed in any order; the
  head moves over the regions that were freed without a gap.
\<close>

section \<open>Data\<close>

text \<open>
  An instance is the receiving side. \<open>buf_meta_\<close> points to the head and the tail in memory; the head
  is only written by the instance, its value is \<open>wi_head\<close>. Null pointers are 0 or \<open>None\<close>; a queue
  in \<open>rqs_\<close> is kept with its endpoint. The list of all connections, which nothing reads, and the
  device context, of which there is one, are left out.
\<close>

record write_atomic_instance =
  wi_pd :: u64
  wi_rcv_cq :: u64
  wi_listener :: "cm_id option"
  wi_use_srq :: bool
  wi_srq :: "shared_receive_queue option"
  wi_rqs :: "(u32, receive_queue \<times> endpoint) map"
  wi_buf_mr :: "ibv_mr option"
  wi_buf_size :: u32
  wi_freed_regions :: "(u64 \<times> u64) list"
  wi_acked_head :: u64
  wi_use_dm :: bool
  wi_buf_meta_dm :: u64
  wi_buf_meta_mr :: "ibv_mr option"
  wi_buf_meta :: u64
  wi_head :: u64

record write_atomic_conn =
  wac_ackd_id :: u64
  wac_next_id :: u64
  wac_rbuf_vaddr :: u64
  wac_rbuf_rkey :: u32
  wac_rbuf_size :: u32
  wac_rbuf_meta_vaddr :: u64
  wac_rbuf_meta_rkey :: u32
  wac_rbuf_meta_mr :: ibv_mr

record write_atomic_inst_opts =
  io_buf_size :: u32
  io_use_dm :: bool
  io_use_srq :: bool

definition default_write_atomic_inst_opts :: write_atomic_inst_opts where
  "default_write_atomic_inst_opts = \<lparr>io_buf_size = 10 * 1024 * 1024, io_use_dm = True, io_use_srq = False\<rparr>"

definition WriteAtomicInstance :: "write_atomic_inst_opts \<Rightarrow> write_atomic_instance" where
  "WriteAtomicInstance opts = \<lparr>wi_pd = 0, wi_rcv_cq = 0, wi_listener = None, wi_use_srq = io_use_srq opts,
     wi_srq = None, wi_rqs = Map.empty, wi_buf_mr = None, wi_buf_size = io_buf_size opts,
     wi_freed_regions = [], wi_acked_head = 0, wi_use_dm = io_use_dm opts, wi_buf_meta_dm = 0,
     wi_buf_meta_mr = None, wi_buf_meta = 0, wi_head = 0\<rparr>"

text \<open>The parameter for the address of the remote meta data has 32 bits.\<close>

definition WriteAtomicConnection :: "u64 \<Rightarrow> u32 \<Rightarrow> u32 \<Rightarrow> u32 \<Rightarrow> u32 \<Rightarrow> ibv_mr \<Rightarrow> write_atomic_conn" where
  "WriteAtomicConnection rbuf_vaddr rbuf_rkey rbuf_size rbuf_meta_vaddr rbuf_meta_rkey rbuf_meta_mr =
     \<lparr>wac_ackd_id = 0, wac_next_id = 1, wac_rbuf_vaddr = rbuf_vaddr, wac_rbuf_rkey = rbuf_rkey,
      wac_rbuf_size = rbuf_size, wac_rbuf_meta_vaddr = ucast rbuf_meta_vaddr,
      wac_rbuf_meta_rkey = rbuf_meta_rkey, wac_rbuf_meta_mr = rbuf_meta_mr\<rparr>"

definition write_atomic_outstanding :: u32 where
  "write_atomic_outstanding = 30"

definition default_write_atomic_options :: Options where
  "default_write_atomic_options = \<lparr>o_pd = 0, o_srq = 0, o_send_cq = 0, o_recv_cq = 0,
     o_max_send_wr = write_atomic_outstanding, o_max_recv_wr = 1024, o_max_send_sge = 1, o_max_recv_sge = 1,
     o_max_inline_data = 0, o_use_srq = False, o_private_data = [], o_src = None,
     o_responder_resources = 15, o_initiator_depth = 15, o_flow_control = 0,
     o_retry_count = 5, o_rnr_retry_count = 0, o_native_qp = False, o_inline_recv = 0\<rparr>"

section \<open>The buffer and its meta data\<close>

text \<open>The meta data are two words; in device memory they are copied from the zeroed local ones.\<close>

definition init_meta :: "write_atomic_instance \<Rightarrow> 'e env_scheme \<Rightarrow> (status \<times> write_atomic_instance \<times> 'e env_scheme) option" where
  "init_meta w e = (
     if wi_use_dm w then do {
       (dm, e) \<leftarrow> sys_addr (Alloc_dm 16) e;
       let w = w\<lparr>wi_buf_meta_dm := dm\<rparr>;
       if dm = 0 then Some (Status Internal ''Error registering device memory '', w, e)
       else do {
         (mr, e) \<leftarrow> sys_mr (Reg_dm_mr dm 16) e;
         let w = w\<lparr>wi_buf_meta_mr := mr\<rparr>;
         if mr = None then Some (Status Internal ''Error registering device memory MR'', w, e)
         else do {
           (ret, e) \<leftarrow> sys (Memcpy_to_dm dm 0 [wi_head w, 0]) e;
           Some (if ret \<noteq> 0 then Status Internal ''Error initialzing device memory'' else Status0, w, e) } } }
     else do {
       (mr, e) \<leftarrow> sys_mr (Reg_mr (wi_buf_meta w) 16) e;
       Some (Status0, w\<lparr>wi_buf_meta_mr := mr\<rparr>, e) })"

definition init_srq :: "write_atomic_instance \<Rightarrow> 'e env_scheme \<Rightarrow> (status \<times> write_atomic_instance \<times> 'e env_scheme) option" where
  "init_srq w e = (
     if wi_use_srq w then do {
       (srq_s, e) \<leftarrow> GetSharedReceiveQueue (wi_pd w) 1 1024 e;
       Some (case srq_s of
           Inl s \<Rightarrow> (Wrap ''error getting srq'' s, w, e)
         | Inr srq \<Rightarrow> (Status0, w\<lparr>wi_srq := Some srq\<rparr>, e)) }
     else Some (Status0, w, e))"

text \<open>\<open>2 * buf_size_\<close> is computed in 32 bits.\<close>

definition WriteAtomicInstance_Init ::
    "u64 \<Rightarrow> write_atomic_instance \<Rightarrow> 'e env_scheme \<Rightarrow> (status \<times> write_atomic_instance \<times> 'e env_scheme) option" where
  "WriteAtomicInstance_Init pd w e = (let w = w\<lparr>wi_pd := pd\<rparr> in do {
     (magic_stat, e) \<leftarrow> GetMagicBuffer (ucast (wi_buf_size w)) e;
     (case magic_stat of
        Inl s \<Rightarrow> Some (Wrap ''error initialzing magic buffer'' s, w, e)
      | Inr buf \<Rightarrow> do {
          (mr, e) \<leftarrow> sys_mr (Reg_mr buf (ucast (2 * wi_buf_size w))) e;
          (meta, e) \<leftarrow> sys_addr (Malloc 16) e;
          let e = sys_void (Memset meta 16) e;
          (st, w, e) \<leftarrow> init_meta (w\<lparr>wi_buf_mr := mr, wi_buf_meta := meta, wi_head := 0\<rparr>) e;
          if \<not> status_ok st then Some (st, w, e)
          else do {
            (st, w, e) \<leftarrow> init_srq w e;
            if \<not> status_ok st then Some (st, w, e)
            else do {
              (cq, e) \<leftarrow> sys_addr (Create_cq (10 * 1024)) e;
              Some (Status0, w\<lparr>wi_rcv_cq := cq\<rparr>, e) } } }) })"

text \<open>What the calls report is dropped; the region's address is read after it was released.\<close>

definition WriteAtomicInstance_Close ::
    "write_atomic_instance \<Rightarrow> 'e env_scheme \<Rightarrow> (status \<times> 'e env_scheme) option" where
  "WriteAtomicInstance_Close w e = do {
     mr \<leftarrow> wi_buf_mr w;
     meta_mr \<leftarrow> wi_buf_meta_mr w;
     (_, e) \<leftarrow> sys (Dereg_mr (mr_addr mr)) e;
     (_, e) \<leftarrow> sys (Dereg_mr (mr_addr meta_mr)) e;
     (_, e) \<leftarrow> (if wi_use_dm w then sys (Free_dm (wi_buf_meta_dm w)) e else Some (0, e));
     FreeMagicBuffer (mr_addr mr) (ucast (wi_buf_size w)) e }"

section \<open>Connecting\<close>

text \<open>What the sides tell each other: 32 bytes, the last four of them padding.\<close>

record connectionInfo =
  ci_buf_addr :: u64
  ci_buf_key :: u32
  ci_buf_size :: u32
  ci_meta_addr :: u64
  ci_meta_key :: u32

definition info_bytes :: "u8 list \<Rightarrow> connectionInfo \<Rightarrow> u8 list" where
  "info_bytes pad ci = concat (map le32 [ucast (ci_buf_addr ci), ucast (drop_bit 32 (ci_buf_addr ci)),
     ci_buf_key ci, ci_buf_size ci, ucast (ci_meta_addr ci), ucast (drop_bit 32 (ci_meta_addr ci)),
     ci_meta_key ci]) @ pad"

definition read_info :: "u8 list \<Rightarrow> connectionInfo option" where
  "read_info bs = (if length bs < 28 then None else Some
     \<lparr>ci_buf_addr = ucast (un_le32 bs) OR push_bit 32 (ucast (un_le32 (drop 4 bs))),
      ci_buf_key = un_le32 (drop 8 bs), ci_buf_size = un_le32 (drop 12 bs),
      ci_meta_addr = ucast (un_le32 (drop 16 bs)) OR push_bit 32 (ucast (un_le32 (drop 20 bs))),
      ci_meta_key = un_le32 (drop 24 bs)\<rparr>)"

definition local_info :: "write_atomic_instance \<Rightarrow> connectionInfo option" where
  "local_info w = do {
     mr \<leftarrow> wi_buf_mr w;
     meta_mr \<leftarrow> wi_buf_meta_mr w;
     Some \<lparr>ci_buf_addr = mr_addr mr, ci_buf_key = mr_lkey mr, ci_buf_size = wi_buf_size w,
           ci_meta_addr = (if wi_use_dm w then 0 else wi_buf_meta w), ci_meta_key = mr_lkey meta_mr\<rparr> }"

text \<open>A shared queue that should be used and is not there is a null pointer that is dereferenced.\<close>

definition wa_opts :: "u8 list \<Rightarrow> bool \<Rightarrow> connectionInfo \<Rightarrow> write_atomic_instance \<Rightarrow> Options \<Rightarrow> Options option" where
  "wa_opts pad standalone_receive ci w opts = do {
     srq \<leftarrow> (if wi_use_srq w then map_option SharedReceiveQueue_GetSRQ (wi_srq w) else Some (o_srq opts));
     Some (opts\<lparr>o_private_data := info_bytes pad ci, o_srq := srq,
                o_recv_cq := (if standalone_receive then o_recv_cq opts else wi_rcv_cq w)\<rparr>) }"

definition wa_connected ::
    "write_atomic_instance \<Rightarrow> endpoint \<Rightarrow>
     ((write_atomic_conn \<times> endpoint) status_or \<times> write_atomic_instance \<times> env) option" where
  "wa_connected w ep = do {
     ri \<leftarrow> read_info (Endpoint_GetConnectionInfo ep);
     (rbuf_meta, ep) \<leftarrow> sys_addr (Malloc 16) ep;
     (rbuf_meta_mr, ep) \<leftarrow> sys_mr (Reg_mr rbuf_meta 16) (sys_void (Memset rbuf_meta 16) ep);
     (st, w, ep) \<leftarrow> (if wi_use_srq w then Some (Status0, w, ep)
       else do {
         (rq_stat, ep) \<leftarrow> GetReceiveQueue 1 256 ep;
         Some (case rq_stat of
             Inl s \<Rightarrow> (Wrap ''error creating receive queue while accepting'' s, w, ep)
           | Inr trq \<Rightarrow> (Status0, w\<lparr>wi_rqs := (wi_rqs w)(Endpoint_GetQpNum ep \<mapsto> (trq, ep))\<rparr>, ep)) });
     if \<not> status_ok st then Some (Inl st, w, env.truncate ep)
     else do {
       meta_mr \<leftarrow> rbuf_meta_mr;
       Some (Inr (WriteAtomicConnection (ci_buf_addr ri) (ci_buf_key ri) (ci_buf_size ri)
         (ucast (ci_meta_addr ri)) (ci_meta_key ri) meta_mr, ep), w, env.truncate ep) } }"

definition WriteAtomicInstance_Listen ::
    "string \<Rightarrow> int \<Rightarrow> write_atomic_instance \<Rightarrow> env \<Rightarrow> (status \<times> write_atomic_instance \<times> env) option" where
  "WriteAtomicInstance_Listen ip port w e = (
     if wi_listener w \<noteq> None then Some (Status InvalidArgument ''the instance is already listening'', w, e)
     else if wi_pd w \<noteq> 0 then Some (Status NotImplemented ''listening after dial is not supported'', w, e)
     else do {
       (ln_stat, e) \<leftarrow> Listen ip (if port = 0 then 18515 else port) e;
       (case ln_stat of Inl s \<Rightarrow> Some (s, w, e) | Inr ln \<Rightarrow> do {
         pd \<leftarrow> Listener_GetPd ln;
         (st, w, e) \<leftarrow> WriteAtomicInstance_Init pd (w\<lparr>wi_listener := Some ln\<rparr>) e;
         Some (Wrap ''error initalizing instance'' st, w, e) }) })"

definition WriteAtomicInstance_Accept ::
    "u8 list \<Rightarrow> bool \<Rightarrow> write_atomic_instance \<Rightarrow> env \<Rightarrow>
     ((write_atomic_conn \<times> endpoint) status_or \<times> write_atomic_instance \<times> env) option" where
  "WriteAtomicInstance_Accept pad standalone_receive w e = (case wi_listener w of
     None \<Rightarrow> Some (Inl (Status InvalidArgument ''the instance is not listening''), w, e)
   | Some ln \<Rightarrow> do {
       ci \<leftarrow> local_info w;
       opts \<leftarrow> wa_opts pad standalone_receive ci w default_write_atomic_options;
       (epStatus, e) \<leftarrow> Listener_Accept opts ln e;
       (case epStatus of Inl s \<Rightarrow> Some (Inl s, w, e) | Inr ep \<Rightarrow> wa_connected w ep) })"

text \<open>The result of \<open>Init\<close> is not looked at.\<close>

definition WriteAtomicInstance_Dial ::
    "u8 list \<Rightarrow> string \<Rightarrow> int \<Rightarrow> bool \<Rightarrow> write_atomic_instance \<Rightarrow> env \<Rightarrow>
     ((write_atomic_conn \<times> endpoint) status_or \<times> write_atomic_instance \<times> env) option" where
  "WriteAtomicInstance_Dial pad ip port standalone_receive w e = do {
     let conn_opts = default_write_atomic_options\<lparr>o_pd := wi_pd w\<rparr>;
     (ep_s, e) \<leftarrow> Create ip port conn_opts e;
     (case ep_s of Inl s \<Rightarrow> Some (Inl (Wrap ''error creating ep'' s), w, e) | Inr ep \<Rightarrow> do {
       (_, w, ep) \<leftarrow> (if wi_pd w = 0 then WriteAtomicInstance_Init (Endpoint_GetPd ep) w ep
                      else Some (Status0, w, ep));
       ci \<leftarrow> local_info w;
       opts \<leftarrow> wa_opts pad standalone_receive ci w conn_opts;
       (stat, ep) \<leftarrow> Endpoint_Connect opts ep;
       if \<not> status_ok stat then Some (Inl (Wrap ''Error connecting to remote'' stat), w, env.truncate ep)
       else wa_connected w ep }) }"

section \<open>Receiving\<close>

text \<open>
  The place in the buffer becomes an offset that counts the whole stream: the one that is at or
  behind the head and agrees with it modulo the size. \<open>int32_t\<close> values are compared signed and
  extended with their sign.
\<close>

definition global_offset :: "u64 \<Rightarrow> u32 \<Rightarrow> u32 \<Rightarrow> u64" where
  "global_offset head buf_size local_off = (
     let local_head = ucast (head mod ucast buf_size) :: u32
     in if sint local_head \<le> sint local_off
        then (head div ucast buf_size) * ucast buf_size + scast local_off
        else (head div ucast buf_size + 1) * ucast buf_size + scast local_off)"

definition repost ::
    "ibv_wc \<Rightarrow> write_atomic_instance \<Rightarrow> env \<Rightarrow> (status \<times> write_atomic_instance \<times> env) option" where
  "repost wc w e = (
     if wi_use_srq w then do {
       srq \<leftarrow> wi_srq w;
       (st, srq, e) \<leftarrow> SharedReceiveQueue_PostMR (ucast (wc_wr_id wc)) srq e;
       Some (st, w\<lparr>wi_srq := Some srq\<rparr>, e) }
     else do {
       (rq, ep) \<leftarrow> wi_rqs w (wc_qp_num wc);
       (st, rq, ep) \<leftarrow> ReceiveQueue_PostMR (ucast (wc_wr_id wc)) rq (env.extend e (env.more ep));
       Some (st, w\<lparr>wi_rqs := (wi_rqs w)(wc_qp_num wc \<mapsto> (rq, ep))\<rparr>, env.truncate ep) })"

text \<open>\<open>None\<close> also when the poll fails and leaves the completion uninitialised; \<open>lkey\<close> is not set.\<close>

definition WriteAtomicInstance_Receive ::
    "write_atomic_instance \<Rightarrow> env \<Rightarrow> (ReceiveRegion status_or \<times> write_atomic_instance \<times> env) option" where
  "WriteAtomicInstance_Receive w e = (
     if wi_rcv_cq w = 0 then None
     else do {
       (wc, ps) \<leftarrow> poll_recv_one (recv_polls e);
       wc \<leftarrow> wc;
       let e = e\<lparr>recv_polls := ps\<rparr>;
       if wc_status wc \<noteq> 0 then Some (Inl (Status Internal (''error '' @ to_string (wc_status wc) @
         '' polling recv cq'' @ [CHR 0x0A] @ status_str e (wc_status wc))), w, e)
       else do {
         (stat, w, e) \<leftarrow> repost wc w e;
         if \<not> status_ok stat then Some (Inl (Wrap ''error reposing receive buffer'' stat), w, e)
         else do {
           mr \<leftarrow> wi_buf_mr w;
           if wi_buf_meta w = 0 \<or> wi_buf_size w = 0 then None
           else Some (Inr \<lparr>reg_context = global_offset (wi_head w) (wi_buf_size w) (wc_imm wc),
             reg_addr = mr_addr mr + scast (wc_imm wc), reg_length = wc_byte_len wc, reg_lkey = 0\<rparr>, w, e) } } })"

section \<open>Freeing\<close>

text \<open>Freed regions that start where this one ends are joined to it.\<close>

function join_freed :: "(u64 \<times> u64) list \<Rightarrow> u64 \<Rightarrow> (u64 \<times> u64) list \<times> u64" where
  "join_freed m global_end = (case map_of m global_end of
     None \<Rightarrow> (m, global_end)
   | Some tmp \<Rightarrow> join_freed (AList.delete global_end m) tmp)"
  by pat_completeness auto

lemma delete_present: "map_of m k = Some v \<Longrightarrow> length (AList.delete k m) < length m"
  by (induction m) (auto simp: le_imp_less_Suc length_delete_le split: if_splits)

termination join_freed
  by (relation "measure (length \<circ> fst)") (auto simp: delete_present)

declare join_freed.simps [simp del]

definition WriteAtomicInstance_Free ::
    "ReceiveRegion \<Rightarrow> write_atomic_instance \<Rightarrow> env \<Rightarrow> (status \<times> write_atomic_instance \<times> env) option" where
  "WriteAtomicInstance_Free reg w e = (
     if wi_buf_meta w = 0 then None
     else let global_start = reg_context reg;
         (freed, global_end) = join_freed (wi_freed_regions w) (global_start + ucast (reg_length reg));
         w = w\<lparr>wi_freed_regions := freed\<rparr>
       in if global_start = wi_head w
       then let w = w\<lparr>wi_head := global_end\<rparr>; e = sys_void (Store (wi_buf_meta w) global_end 8) e
         in if wi_use_dm w \<and> wi_acked_head w + 10 * 1024 < wi_head w
         then do {
           (ret, e) \<leftarrow> sys (Memcpy_to_dm (wi_buf_meta_dm w) 0 [wi_head w]) e;
           Some (if ret \<noteq> 0 then Status Internal ''Error initialzing device memory'' else Status0, w, e) }
         else Some (Status0, w, e)
       else Some (Status0, w\<lparr>wi_freed_regions := AList.update global_start global_end freed\<rparr>, e))"

section \<open>The sender\<close>

definition WriteAtomicConnection_Close :: "'e env_scheme \<Rightarrow> (status \<times> 'e env_scheme) option" where
  "WriteAtomicConnection_Close e = Some (Status NotImplemented [], e)"

definition WriteAtomicConnection_GetMemoryRegion ::
    "u64 \<Rightarrow> 'e env_scheme \<Rightarrow> (SendRegion status_or \<times> 'e env_scheme) option" where
  "WriteAtomicConnection_GetMemoryRegion = DumbAllocator_Alloc"

definition WriteAtomicConnection_Free_send :: "SendRegion \<Rightarrow> 'e env_scheme \<Rightarrow> (status \<times> 'e env_scheme) option" where
  "WriteAtomicConnection_Free_send = DumbAllocator_Free"

definition WriteAtomicConnection_Wait ::
    "u64 \<Rightarrow> write_atomic_conn \<Rightarrow> endpoint \<Rightarrow> (status \<times> write_atomic_conn \<times> endpoint) option" where
  "WriteAtomicConnection_Wait wid c ep = do {
     (st, ackd, ep) \<leftarrow> wait_loop keep_last wid (wac_ackd_id c) ep;
     Some (st, c\<lparr>wac_ackd_id := ackd\<rparr>, ep) }"

text \<open>
  Waiting for the head to pass: the local copies of head and tail are compared, and the head is read
  again. It is the result of the fetch-and-add that is checked there, which was good. The pause
  between two reads is left out.
\<close>

partial_function (option) wait_for_space ::
    "u32 \<Rightarrow> write_atomic_conn \<Rightarrow> endpoint \<Rightarrow> (status \<times> write_atomic_conn \<times> endpoint) option" where
  "wait_for_space len c ep = (let meta = mr_addr (wac_rbuf_meta_mr c) in do {
     (head, ep) \<leftarrow> sys_load meta ep;
     (tail, ep) \<leftarrow> sys_load (meta + 8) ep;
     if tail + ucast len < head + ucast (wac_rbuf_size c) then Some (Status0, c, ep)
     else (let i = wac_next_id c; c = c\<lparr>wac_next_id := i + 1\<rparr> in do {
       (_, ep) \<leftarrow> Endpoint_PostRead i (mr_lkey (wac_rbuf_meta_mr c)) meta 8
         (wac_rbuf_meta_vaddr c) (wac_rbuf_meta_rkey c) ep;
       (stat, c, ep) \<leftarrow> WriteAtomicConnection_Wait i c ep;
       if \<not> status_ok stat then Some (stat, c, ep) else wait_for_space len c ep }) })"

lemmas [code] = wait_for_space.simps

definition write_reserved ::
    "SendRegion \<Rightarrow> write_atomic_conn \<Rightarrow> endpoint \<Rightarrow> (u64 status_or \<times> write_atomic_conn \<times> endpoint) option" where
  "write_reserved region c ep = do {
     (tail, ep) \<leftarrow> sys_load (mr_addr (wac_rbuf_meta_mr c) + 8) ep;
     if wac_rbuf_size c = 0 then None
     else (let local_off = tail mod ucast (wac_rbuf_size c); i = wac_next_id c; c = c\<lparr>wac_next_id := i + 1\<rparr> in do {
       (send_stat, ep) \<leftarrow> Endpoint_PostWriteWithImmidate i (reg_lkey region) (reg_addr region)
         (ucast (reg_length region)) (wac_rbuf_vaddr c + local_off) (wac_rbuf_rkey c) (ucast local_off) ep;
       Some (if \<not> status_ok send_stat then Inl send_stat else Inr i, c, ep) }) }"

definition WriteAtomicConnection_SendAsync ::
    "SendRegion \<Rightarrow> write_atomic_conn \<Rightarrow> endpoint \<Rightarrow> (u64 status_or \<times> write_atomic_conn \<times> endpoint) option" where
  "WriteAtomicConnection_SendAsync region c ep = (
     if wac_rbuf_size c \<le> reg_length region then Some (Inl (Status InvalidArgument ''message too large''), c, ep)
     else let i = wac_next_id c; c = c\<lparr>wac_next_id := i + 1\<rparr>; meta_mr = wac_rbuf_meta_mr c in do {
       (fetch_stat, ep) \<leftarrow> Endpoint_PostFetchAndAdd i (ucast (reg_length region)) (mr_lkey meta_mr)
         (mr_addr meta_mr + 8) (wac_rbuf_meta_vaddr c + 8) (wac_rbuf_meta_rkey c) ep;
       if \<not> status_ok fetch_stat then Some (Inl fetch_stat, c, ep)
       else do {
         (stat, c, ep) \<leftarrow> WriteAtomicConnection_Wait i c ep;
         if \<not> status_ok stat then Some (Inl stat, c, ep)
         else do {
           (stat, c, ep) \<leftarrow> wait_for_space (reg_length region) c ep;
           if \<not> status_ok stat then Some (Inl stat, c, ep) else write_reserved region c ep } } })"

definition WriteAtomicConnection_Send ::
    "SendRegion \<Rightarrow> write_atomic_conn \<Rightarrow> endpoint \<Rightarrow> (status \<times> write_atomic_conn \<times> endpoint) option" where
  "WriteAtomicConnection_Send region c ep = do {
     (id_stat, c, ep) \<leftarrow> WriteAtomicConnection_SendAsync region c ep;
     (case id_stat of Inl s \<Rightarrow> Some (s, c, ep) | Inr wid \<Rightarrow> WriteAtomicConnection_Wait wid c ep) }"

definition WriteAtomicConnection_Receive :: "'e env_scheme \<Rightarrow> (ReceiveRegion status_or \<times> 'e env_scheme) option" where
  "WriteAtomicConnection_Receive e = Some (Inl (Status NotImplemented []), e)"

definition WriteAtomicConnection_Free :: "ReceiveRegion \<Rightarrow> 'e env_scheme \<Rightarrow> (status \<times> 'e env_scheme) option" where
  "WriteAtomicConnection_Free region e = Some (Status NotImplemented [], e)"

end
