(* ===== verification/Atomic_Free.thy ===== *)
theory Atomic_Free
  imports Write_Atomic
begin

text \<open>
  Freeing in any order: the head of an instance is the first byte that was not freed.
\<close>

section \<open>The map of freed regions\<close>

definition span :: "u64 \<times> u64 \<Rightarrow> nat set" where
  "span p = {unat (fst p)..<unat (snd p)}"

definition spans :: "(u64 \<times> u64) list \<Rightarrow> nat set" where
  "spans m = \<Union> (span ` set m)"

definition apart :: "(u64 \<times> u64) list \<Rightarrow> bool" where
  "apart m \<longleftrightarrow> distinct (map fst m) \<and> (\<forall>p\<in>set m. fst p < snd p) \<and>
     (\<forall>p\<in>set m. \<forall>q\<in>set m. p \<noteq> q \<longrightarrow> span p \<inter> span q = {})"

lemma apart_subset: "apart m \<Longrightarrow> set m' \<subseteq> set m \<Longrightarrow> distinct (map fst m') \<Longrightarrow> apart m'"
  unfolding apart_def by blast

lemma delete_set: "distinct (map fst m) \<Longrightarrow> map_of m k = Some v \<Longrightarrow> set (AList.delete k m) = set m - {(k, v)}"
  by (auto simp: AList.delete_eq dest: map_of_SomeD eq_key_imp_eq_value)

lemma join_freed_spec:
  assumes "join_freed m x = (m', x')" and "apart m"
  shows "set m' \<subseteq> set m \<and> distinct (map fst m') \<and> x \<le> x' \<and> spans m = spans m' \<union> {unat x..<unat x'} \<and>
    spans m' \<inter> {unat x..<unat x'} = {} \<and> x' \<notin> fst ` set m'"
  using assms
proof (induction m x arbitrary: m' x' rule: join_freed.induct)
  case (1 m x)
  show ?case
  proof (cases "map_of m x")
    case None
    then have "x \<notin> fst ` set m" by (simp add: map_of_eq_None_iff)
    with None 1(2,3) show ?thesis by (auto simp: join_freed.simps [of m] apart_def)
  next
    case (Some t)
    let ?d = "AList.delete x m"
    have ap: "distinct (map fst m)" and mem: "(x, t) \<in> set m"
      using 1(3) Some by (auto simp: apart_def dest: map_of_SomeD)
    have d: "set ?d = set m - {(x, t)}" by (rule delete_set [OF ap Some])
    have "distinct (map fst ?d)" using ap by (rule distinct_delete)
    then have apd: "apart ?d" using apart_subset [OF 1(3)] d by blast
    have "join_freed ?d t = (m', x')" using 1(2) Some by (simp add: join_freed.simps [of m])
    from 1(1) [OF Some this apd]
    have IH: "set m' \<subseteq> set ?d" "distinct (map fst m')" "t \<le> x'" "spans ?d = spans m' \<union> {unat t..<unat x'}"
      "spans m' \<inter> {unat t..<unat x'} = {}" "x' \<notin> fst ` set m'" by blast+
    have lt: "x < t" using 1(3) mem by (auto simp: apart_def)
    have "spans m = spans ?d \<union> span (x, t)" using mem unfolding spans_def d by blast
    moreover have "spans ?d \<inter> span (x, t) = {}" using 1(3) mem unfolding spans_def d apart_def by blast
    moreover have "span (x, t) \<union> {unat t..<unat x'} = {unat x..<unat x'}"
      using lt IH(3) by (auto simp: span_def word_less_nat_alt word_le_nat_alt)
    ultimately show ?thesis using IH lt d by auto
  qed
qed

section \<open>One region freed\<close>

definition region_bytes :: "ReceiveRegion \<Rightarrow> nat set" where
  "region_bytes r = {unat (reg_context r)..<unat (reg_context r) + unat (reg_length r)}"

definition region_ok :: "ReceiveRegion \<Rightarrow> bool" where
  "region_ok r \<longleftrightarrow> 0 < unat (reg_length r) \<and> unat (reg_context r) + unat (reg_length r) < 2 ^ 64"

text \<open>\<open>bs\<close> are the bytes freed so far.\<close>

definition freed_ok :: "nat set \<Rightarrow> write_atomic_instance \<Rightarrow> bool" where
  "freed_ok bs w \<longleftrightarrow> apart (wi_freed_regions w) \<and> (\<forall>p\<in>set (wi_freed_regions w). wi_head w < fst p) \<and>
     bs = {..<unat (wi_head w)} \<union> spans (wi_freed_regions w)"

lemma freed_head:
  assumes "freed_ok bs w"
  shows "{..<unat (wi_head w)} \<subseteq> bs" and "unat (wi_head w) \<notin> bs" and "unat (wi_head w) = (LEAST x. x \<notin> bs)"
proof -
  show sub: "{..<unat (wi_head w)} \<subseteq> bs" using assms by (auto simp: freed_ok_def)
  show out: "unat (wi_head w) \<notin> bs"
    using assms by (fastforce simp: freed_ok_def spans_def span_def word_less_nat_alt)
  show "unat (wi_head w) = (LEAST x. x \<notin> bs)"
    using sub out by (intro Least_equality [symmetric]) (auto simp: not_less [symmetric])
qed

lemma Free_keeps:
  assumes "WriteAtomicInstance_Free r w e = Some (st, w', e')" and "freed_ok bs w" and "region_ok r"
    and "region_bytes r \<inter> bs = {}"
  shows "freed_ok (bs \<union> region_bytes r) w'" and "wi_buf_size w' = wi_buf_size w" and "wi_buf_mr w' = wi_buf_mr w"
    and "wi_buf_meta w' = wi_buf_meta w" and "wi_head w \<le> wi_head w'"
proof -
  let ?s = "reg_context r" and ?e = "reg_context r + ucast (reg_length r)"
  obtain m x where j: "join_freed (wi_freed_regions w) ?e = (m, x)" by (cases "join_freed (wi_freed_regions w) ?e")
  have e: "unat ?e = unat ?s + unat (reg_length r)" "?s < ?e"
    using assms(3) by (auto simp: region_ok_def unat_word_ariths word_less_nat_alt)
  have ap: "apart (wi_freed_regions w)" and above: "\<forall>p\<in>set (wi_freed_regions w). wi_head w < fst p"
    and bs: "bs = {..<unat (wi_head w)} \<union> spans (wi_freed_regions w)"
    using assms(2) by (simp_all add: freed_ok_def)
  from join_freed_spec [OF j ap] have m: "set m \<subseteq> set (wi_freed_regions w)" "distinct (map fst m)" "?e \<le> x"
    "spans (wi_freed_regions w) = spans m \<union> {unat ?e..<unat x}" "spans m \<inter> {unat ?e..<unat x} = {}" "x \<notin> fst ` set m"
    by blast+
  have apm: "apart m" using ap m(1,2) by (rule apart_subset)
  have sx: "?s < x" using e(2) m(3) by simp
  have rb: "region_bytes r = {unat ?s..<unat ?e}" by (simp add: region_bytes_def e)
  have all: "{unat ?s..<unat x} = region_bytes r \<union> {unat ?e..<unat x}"
    using e m(3) by (auto simp: rb word_le_nat_alt)
  have sm: "spans m \<inter> {unat ?s..<unat x} = {}" using assms(4) m(4,5) unfolding all bs by blast
  have "unat ?s \<in> region_bytes r" using assms(3) by (simp add: region_bytes_def region_ok_def)
  then have start: "unat ?s \<notin> bs" using assms(4) by blast
  have ge: "wi_head w \<le> ?s" using start bs by (auto simp: word_le_nat_alt)
  have out: "fst p \<notin> {?s..<x}" if "p \<in> set m" for p
  proof -
    have "unat (fst p) \<in> spans m" using that apm by (force simp: spans_def span_def apart_def word_less_nat_alt)
    then show ?thesis using sm by (auto simp: word_less_nat_alt word_le_nat_alt)
  qed
  have w': "w' = (if ?s = wi_head w then w\<lparr>wi_freed_regions := m, wi_head := x\<rparr>
      else w\<lparr>wi_freed_regions := AList.update ?s x m\<rparr>)"
    using assms(1) j by (auto simp: WriteAtomicInstance_Free_def Let_def elim!: bindE split: if_splits)
  then show "wi_buf_size w' = wi_buf_size w" "wi_buf_mr w' = wi_buf_mr w" "wi_buf_meta w' = wi_buf_meta w"
    "wi_head w \<le> wi_head w'"
    using ge sx by auto
  show "freed_ok (bs \<union> region_bytes r) w'"
  proof (cases "?s = wi_head w")
    case True
    have "x < fst p" if "p \<in> set m" for p
    proof -
      have "?s < fst p" unfolding True using that m(1) above by blast
      moreover have "fst p \<noteq> x" using m(6) that by blast
      moreover from \<open>?s < fst p\<close> have "\<not> fst p < x" using out [OF that] by (simp add: less_imp_le)
      ultimately show ?thesis by order
    qed
    moreover have "bs \<union> region_bytes r = {..<unat x} \<union> spans m"
    proof -
      have "{..<unat ?s} \<union> {unat ?s..<unat x} = {..<unat x}" using sx by (auto simp: word_less_nat_alt)
      moreover have "bs \<union> region_bytes r = ({..<unat ?s} \<union> (region_bytes r \<union> {unat ?e..<unat x})) \<union> spans m"
        unfolding bs m(4) True by (simp only: Un_ac)
      ultimately show ?thesis by (simp only: all [symmetric])
    qed
    ultimately show ?thesis using apm by (simp add: freed_ok_def w' True)
  next
    case False
    have new: "?s \<notin> fst ` set m" using out sx by force
    have set_u: "set (AList.update ?s x m) = insert (?s, x) (set m)"
      using new by (induction m) auto
    have "distinct (map fst (AList.update ?s x m))" using m(2) by (rule distinct_update)
    moreover have "\<forall>p\<in>insert (?s, x) (set m). fst p < snd p" using apm sx by (auto simp: apart_def)
    moreover have "span (?s, x) \<inter> span p = {}" if "p \<in> set m" for p
    proof -
      have "span p \<subseteq> spans m" using that unfolding spans_def by blast
      then show ?thesis using sm by (auto simp: span_def [of "(?s, x)"])
    qed
    then have "\<forall>p\<in>insert (?s, x) (set m). \<forall>q\<in>insert (?s, x) (set m). p \<noteq> q \<longrightarrow> span p \<inter> span q = {}"
      using apm unfolding apart_def by blast
    ultimately have "apart (AList.update ?s x m)" by (simp add: apart_def set_u)
    moreover have "\<forall>p\<in>insert (?s, x) (set m). wi_head w < fst p" using above m(1) ge False by auto
    moreover have "spans (AList.update ?s x m) = spans m \<union> {unat ?s..<unat x}"
      by (auto simp: spans_def set_u span_def)
    then have "bs \<union> region_bytes r = {..<unat (wi_head w)} \<union> spans (AList.update ?s x m)"
      unfolding bs m(4) all by (simp only: Un_ac)
    ultimately show ?thesis using False by (simp add: freed_ok_def w' set_u)
  qed
qed

lemma Free_returns:
  assumes "wi_buf_meta w \<noteq> 0" and "rets e = z # zs"
  shows "\<exists>st w' e'. WriteAtomicInstance_Free r w e = Some (st, w', e') \<and> rets e' \<in> {rets e, zs}"
  using assms by (auto simp: WriteAtomicInstance_Free_def Let_def sys_def sys_void_def split: prod.splits)

section \<open>Any order\<close>

fun free_all :: "ReceiveRegion list \<Rightarrow> write_atomic_instance \<Rightarrow> env \<Rightarrow> (write_atomic_instance \<times> env) option" where
  "free_all [] w e = Some (w, e)"
| "free_all (r # rs) w e = do {
     (_, w, e) \<leftarrow> WriteAtomicInstance_Free r w e;
     free_all rs w e }"

lemma free_all_keeps:
  assumes "freed_ok bs w" and "wi_buf_meta w \<noteq> 0" and "length rs \<le> length (rets e)"
    and "\<forall>r\<in>set rs. region_ok r \<and> region_bytes r \<inter> bs = {}"
    and "sorted_wrt (\<lambda>r q. region_bytes r \<inter> region_bytes q = {}) rs"
  shows "\<exists>w' e'. free_all rs w e = Some (w', e') \<and> freed_ok (bs \<union> (\<Union>r\<in>set rs. region_bytes r)) w'"
  using assms
proof (induction rs arbitrary: w e bs)
  case (Cons r rs)
  obtain z zs where z: "rets e = z # zs" using Cons.prems(3) by (cases "rets e") auto
  then obtain st w1 e1 where f: "WriteAtomicInstance_Free r w e = Some (st, w1, e1)" "rets e1 \<in> {rets e, zs}"
    using Free_returns [OF Cons.prems(2) z] by blast
  have r: "region_ok r" "region_bytes r \<inter> bs = {}" using Cons.prems(4) by auto
  note k = Free_keeps [OF f(1) Cons.prems(1) r]
  have "\<exists>w' e'. free_all rs w1 e1 = Some (w', e') \<and> freed_ok ((bs \<union> region_bytes r) \<union> (\<Union>r\<in>set rs. region_bytes r)) w'"
  proof (rule Cons.IH [OF k(1)])
    show "wi_buf_meta w1 \<noteq> 0" using k(4) Cons.prems(2) by simp
    show "length rs \<le> length (rets e1)" using f(2) z Cons.prems(3) by auto
    show "\<forall>q\<in>set rs. region_ok q \<and> region_bytes q \<inter> (bs \<union> region_bytes r) = {}"
      using Cons.prems(4,5) by auto
    show "sorted_wrt (\<lambda>r q. region_bytes r \<inter> region_bytes q = {}) rs" using Cons.prems(5) by simp
  qed
  then show ?case using f(1) by (simp add: Un_assoc)
qed simp

text \<open>
  C14: However the regions come back, in whatever order, with gaps between them and joined in
  whatever way: the head is the first byte of the stream that no freed region has.
\<close>

theorem atomic_head_least:
  assumes "wi_buf_meta w \<noteq> 0" and "wi_head w = 0" and "wi_freed_regions w = []"
    and "\<forall>r\<in>set rs. region_ok r" and "sorted_wrt (\<lambda>r q. region_bytes r \<inter> region_bytes q = {}) rs"
    and "length rs \<le> length (rets e)"
  shows "\<exists>w' e'. free_all rs w e = Some (w', e') \<and>
    unat (wi_head w') = (LEAST x. x \<notin> (\<Union>r\<in>set rs. region_bytes r))"
proof -
  have "freed_ok {} w" using assms(2,3) by (simp add: freed_ok_def apart_def spans_def)
  from free_all_keeps [OF this assms(1,6) _ assms(5)] assms(4)
  obtain w' e' where "free_all rs w e = Some (w', e')" "freed_ok (\<Union>r\<in>set rs. region_bytes r) w'" by auto
  then show ?thesis using freed_head(3) by blast
qed

definition demo_instance :: write_atomic_instance where
  "demo_instance = (WriteAtomicInstance \<lparr>io_buf_size = 1000, io_use_dm = True, io_use_srq = False\<rparr>)\<lparr>wi_buf_meta := 64\<rparr>"

definition demo_part :: "u64 \<Rightarrow> u32 \<Rightarrow> ReceiveRegion" where
  "demo_part off len = \<lparr>reg_context = off, reg_addr = 0, reg_length = len, reg_lkey = 0\<rparr>"

text \<open>Four regions freed out of order; the one at 60 is still held.\<close>

lemma atomic_head_least_witness:
  "\<exists>w' e'. free_all [demo_part 30 30, demo_part 100 5, demo_part 10 20, demo_part 0 10] demo_instance
     (demo_env\<lparr>rets := [0, 0, 0, 0]\<rparr>) = Some (w', e') \<and> unat (wi_head w') = 60 \<and> wi_freed_regions w' = [(100, 105)]"
proof -
  let ?rs = "[demo_part 30 30, demo_part 100 5, demo_part 10 20, demo_part 0 10]"
  have "\<exists>w' e'. free_all ?rs demo_instance (demo_env\<lparr>rets := [0, 0, 0, 0]\<rparr>) = Some (w', e') \<and>
      unat (wi_head w') = (LEAST x. x \<notin> (\<Union>r\<in>set ?rs. region_bytes r))"
    by (rule atomic_head_least) (auto simp: demo_instance_def WriteAtomicInstance_def region_ok_def demo_part_def region_bytes_def)
  moreover have "map_option (\<lambda>p. wi_freed_regions (fst p) = [(100, 105)])
      (free_all ?rs demo_instance (demo_env\<lparr>rets := [0, 0, 0, 0]\<rparr>)) = Some True"
    by code_simp
  moreover have "(LEAST x. x \<notin> (\<Union>r\<in>set ?rs. region_bytes r)) = 60"
    by (rule Least_equality) (auto simp: region_bytes_def demo_part_def)
  ultimately show ?thesis by auto
qed

end
