(* ===== verification/Atomic_Ring.thy ===== *)
theory Atomic_Ring
  imports Atomic_Free Remote_Memory
begin

text \<open>
  Many senders and one receiver over the common buffer: reservations, writes, receives and frees in
  any order. Every receive recovers the place of its message in the stream, and no two messages that
  are written and not freed share a byte of the buffer.
\<close>

section \<open>The offset of a message\<close>

lemma div_in_window:
  fixes h t s :: nat
  assumes "0 < s" "h \<le> t" "t < h + s"
  shows "t div s = (if h mod s \<le> t mod s then h div s else Suc (h div s))"
proof -
  have t: "t = t div s * s + t mod s" and h: "h = h div s * s + h mod s" by simp_all
  have lt: "t mod s < s" "h mod s < s" using assms(1) by simp_all
  have le: "h div s \<le> t div s" using assms(2) by (rule div_le_mono)
  have "t div s \<le> (h + s) div s" using assms(3) by (intro div_le_mono) simp
  moreover have "(h + s) div s = Suc (h div s)" using assms(1) by (simp add: div_add_self2)
  ultimately have up: "t div s \<le> Suc (h div s)" by simp
  show ?thesis
  proof (cases "h mod s \<le> t mod s")
    case True
    have "t div s \<noteq> Suc (h div s)"
    proof
      assume "t div s = Suc (h div s)"
      then have "t = h div s * s + s + t mod s" using t by (metis add.commute mult_Suc)
      with True h assms(3) show False by linarith
    qed
    with le up True show ?thesis by simp
  next
    case False
    have "t div s \<noteq> h div s"
    proof
      assume "t div s = h div s"
      then have "t = h div s * s + t mod s" using t by metis
      with False h assms(2) show False by linarith
    qed
    with le up False show ?thesis by simp
  qed
qed

lemma sint_small:
  assumes "unat x < 2 ^ 31"
  shows "sint (x :: u32) = int (unat x)"
proof -
  have "int (unat x) < int (2 ^ 31)" using assms by (simp only: of_nat_less_iff)
  then have "uint x < 2 ^ 31" by simp
  moreover have "- (2 ^ 31) \<le> uint x" by (rule order_trans [OF _ uint_ge_0]) simp
  ultimately have "signed_take_bit 31 (uint x) = uint x" by (intro signed_take_bit_int_eq_self) simp_all
  then show ?thesis by (simp add: sint_uint)
qed

lemma scast_small: "unat x < 2 ^ 31 \<Longrightarrow> scast (x :: u32) = (of_nat (unat x) :: u64)"
  by (simp add: scast_eq sint_small)

lemma global_offset_recovers:
  assumes "0 < unat bsz" "unat bsz < 2 ^ 31" "unat head \<le> unat t" "unat t < unat head + unat bsz"
  shows "global_offset head bsz (ucast (t mod ucast bsz)) = t"
proof -
  let ?S = "unat bsz" and ?H = "unat head" and ?T = "unat t"
  have m: "unat (t mod ucast bsz) = ?T mod ?S" "unat (head mod ucast bsz) = ?H mod ?S"
    "unat (head div ucast bsz) = ?H div ?S"
    by (simp_all add: unat_mod unat_div)
  have lt: "?T mod ?S < 2 ^ 31" "?H mod ?S < 2 ^ 31"
    using assms(1,2) mod_less_divisor [of ?S ?T] mod_less_divisor [of ?S ?H] by linarith+
  have c: "unat (ucast (t mod ucast bsz) :: u32) = ?T mod ?S" "unat (ucast (head mod ucast bsz) :: u32) = ?H mod ?S"
    using lt m by (simp_all add: unsigned_ucast_eq unsigned_take_bit_eq take_bit_nat_eq_self)
  have dv: "head div ucast bsz = of_nat (?H div ?S)" by (simp flip: m(3))
  have sz: "(ucast bsz :: u64) = of_nat ?S" by simp
  have t: "t = of_nat (?T div ?S * ?S + ?T mod ?S)" by simp
  have d: "?T div ?S = (if ?H mod ?S \<le> ?T mod ?S then ?H div ?S else Suc (?H div ?S))"
    by (rule div_in_window [OF assms(1,3,4)])
  let ?l = "ucast (t mod ucast bsz) :: u32"
  have g: "global_offset head bsz ?l = (if ?H mod ?S \<le> ?T mod ?S then of_nat (?H div ?S) * of_nat ?S + of_nat (?T mod ?S)
      else (of_nat (?H div ?S) + 1) * of_nat ?S + of_nat (?T mod ?S))"
    using lt by (simp only: global_offset_def Let_def dv sz [symmetric] sint_small scast_small c) (simp add: c)
  show ?thesis
    by (subst t, subst d) (simp add: g algebra_simps)
qed

section \<open>A send\<close>

lemma FetchAndAdd_frame:
  "Endpoint_PostFetchAndAdd ctx add lkey addr remote_addr rkey ep = Some (st, ep') \<Longrightarrow>
    \<exists>fa. calls ep' = calls ep @ [Post_send [fa]] \<and> loads ep' = loads ep \<and> swr_opcode fa = WR_ATOMIC_FETCH_AND_ADD \<and>
      swr_add fa = add \<and> swr_remote_addr fa = remote_addr \<and> sge_addr (swr_sge fa) = addr"
  unfolding Endpoint_PostFetchAndAdd_def by (drule PostSendRaw_frame) (auto simp: send_wr0_def sge_def)

lemma Read_frame:
  "Endpoint_PostRead ctx lkey addr sz remote_addr rkey ep = Some (st, ep') \<Longrightarrow>
    \<exists>rd. calls ep' = calls ep @ [Post_send [rd]] \<and> loads ep' = loads ep"
  unfolding Endpoint_PostRead_def by (drule PostSendRaw_frame) auto

lemma wait_loop_loads:
  assumes "wait_loop upd wid a ep = Some (st, a', ep')"
  shows "loads ep' = loads ep"
proof -
  define P where "P = (\<lambda>(upd :: u64 \<Rightarrow> u64 \<Rightarrow> u64) (wid :: u64) (a :: u64) (ep :: endpoint)
    (r :: status \<times> u64 \<times> endpoint). loads (snd (snd r)) = loads ep)"
  have "P upd wid a ep (st, a', ep')"
  proof (rule wait_loop.raw_induct [where P = P, OF _ assms])
    fix f upd wid a ep r
    assume IH: "\<And>upd wid a ep r. f upd wid a ep = Some r \<Longrightarrow> P upd wid a ep r"
      and step: "(if a < wid then Endpoint_PollSendCq ep \<bind> (\<lambda>(wc_s, ep). case wc_s of
           Inl s \<Rightarrow> Some (s, a, ep)
         | Inr wc \<Rightarrow> f upd wid (upd a (wc_wr_id wc)) ep) else Some (Status0, a, ep)) = Some r"
    show "P upd wid a ep r"
      using step by (auto simp: P_def elim!: bindE dest!: PollSendCq_loads IH split: if_splits sum.splits)
  qed
  then show ?thesis by (simp add: P_def)
qed

lemma Wait_frame:
  "WriteAtomicConnection_Wait i c ep = Some (st, c', ep') \<Longrightarrow> calls ep' = calls ep \<and> loads ep' = loads ep \<and>
    wac_rbuf_size c' = wac_rbuf_size c \<and> wac_rbuf_vaddr c' = wac_rbuf_vaddr c \<and> wac_rbuf_meta_mr c' = wac_rbuf_meta_mr c"
  by (auto simp: WriteAtomicConnection_Wait_def elim!: bindE dest: wait_loop_calls wait_loop_loads)

text \<open>The addresses loaded by a list of calls.\<close>

definition loaded :: "call list \<Rightarrow> u64 list" where
  "loaded cs = concat (map (\<lambda>c. case c of Load a \<Rightarrow> [a] | _ \<Rightarrow> []) cs)"

lemma loaded_simps [simp]:
  "loaded [] = []" "loaded (Load a # cs) = a # loaded cs" "loaded (Post_send wrs # cs) = loaded cs"
  "loaded (cs @ cs') = loaded cs @ loaded cs'"
  by (simp_all add: loaded_def)

text \<open>A wait that is over has last loaded a head and a tail with room for the message.\<close>

definition waited :: "u32 \<Rightarrow> write_atomic_conn \<Rightarrow> endpoint \<Rightarrow> write_atomic_conn \<Rightarrow> endpoint \<Rightarrow> bool" where
  "waited len c ep c' ep' \<longleftrightarrow> (\<exists>cs ls h t meta. meta = mr_addr (wac_rbuf_meta_mr c) \<and>
     calls ep' = calls ep @ cs @ [Load meta, Load (meta + 8)] \<and> loads ep = ls @ h # t # loads ep' \<and>
     length ls = length (loaded cs) \<and> t + ucast len < h + ucast (wac_rbuf_size c) \<and>
     wac_rbuf_size c' = wac_rbuf_size c \<and> wac_rbuf_vaddr c' = wac_rbuf_vaddr c \<and>
     wac_rbuf_meta_mr c' = wac_rbuf_meta_mr c)"

lemma wait_for_space_waited:
  assumes "wait_for_space len c ep = Some (st, c', ep')" and "status_ok st"
  shows "waited len c ep c' ep'"
proof -
  define P where "P = (\<lambda>(len :: u32) (c :: write_atomic_conn) (ep :: endpoint)
    (r :: status \<times> write_atomic_conn \<times> endpoint). status_ok (fst r) \<longrightarrow> waited len c ep (fst (snd r)) (snd (snd r)))"
  have "P len c ep (st, c', ep')"
  proof (rule wait_for_space.raw_induct [where P = P, OF _ assms(1)])
    fix f len c ep r
    assume IH: "\<And>len c ep r. f len c ep = Some r \<Longrightarrow> P len c ep r"
      and step: "(let meta = mr_addr (wac_rbuf_meta_mr c) in sys_load meta ep \<bind> (\<lambda>(head, ep).
         sys_load (meta + 8) ep \<bind> (\<lambda>(tail, ep).
         if tail + ucast len < head + ucast (wac_rbuf_size c) then Some (Status0, c, ep)
         else (let i = wac_next_id c; c = c\<lparr>wac_next_id := i + 1\<rparr> in
           Endpoint_PostRead i (mr_lkey (wac_rbuf_meta_mr c)) meta 8
             (wac_rbuf_meta_vaddr c) (wac_rbuf_meta_rkey c) ep \<bind> (\<lambda>(_, ep).
           WriteAtomicConnection_Wait i c ep \<bind> (\<lambda>(stat, c, ep).
           if \<not> status_ok stat then Some (stat, c, ep) else f len c ep)))))) = Some r"
    let ?m = "mr_addr (wac_rbuf_meta_mr c)" and ?c = "c\<lparr>wac_next_id := wac_next_id c + 1\<rparr>"
    obtain h ep1 where l1: "sys_load ?m ep = Some (h, ep1)" and s1: "sys_load (?m + 8) ep1 \<bind> (\<lambda>(tail, ep).
         if tail + ucast len < h + ucast (wac_rbuf_size c) then Some (Status0, c, ep)
         else Endpoint_PostRead (wac_next_id c) (mr_lkey (wac_rbuf_meta_mr ?c)) ?m 8
             (wac_rbuf_meta_vaddr ?c) (wac_rbuf_meta_rkey ?c) ep \<bind> (\<lambda>(_, ep).
           WriteAtomicConnection_Wait (wac_next_id c) ?c ep \<bind> (\<lambda>(stat, c, ep).
           if \<not> status_ok stat then Some (stat, c, ep) else f len c ep))) = Some r"
      using step unfolding Let_def by (rule bindE) (simp only: split_paired_all prod.case)
    obtain t ep2 where l2: "sys_load (?m + 8) ep1 = Some (t, ep2)" and s2:
        "(if t + ucast len < h + ucast (wac_rbuf_size c) then Some (Status0, c, ep2)
         else Endpoint_PostRead (wac_next_id c) (mr_lkey (wac_rbuf_meta_mr ?c)) ?m 8
             (wac_rbuf_meta_vaddr ?c) (wac_rbuf_meta_rkey ?c) ep2 \<bind> (\<lambda>(_, ep).
           WriteAtomicConnection_Wait (wac_next_id c) ?c ep \<bind> (\<lambda>(stat, c, ep).
           if \<not> status_ok stat then Some (stat, c, ep) else f len c ep))) = Some r"
      using s1 by (rule bindE) (simp only: split_paired_all prod.case)
    have two: "calls ep2 = calls ep @ [Load ?m, Load (?m + 8)]" "loads ep = h # t # loads ep2"
      using load_frame [OF l1] load_frame [OF l2] by simp_all
    show "P len c ep r"
    proof (cases "t + ucast len < h + ucast (wac_rbuf_size c)")
      case True
      with s2 have "r = (Status0, c, ep2)" by simp
      moreover have "waited len c ep c ep2" unfolding waited_def using two True
        by (intro exI [of _ "[]"] exI [of _ h] exI [of _ t] exI [of _ ?m]) simp
      ultimately show ?thesis by (simp add: P_def)
    next
      case False
      with s2 obtain rs ep3 where rd: "Endpoint_PostRead (wac_next_id c) (mr_lkey (wac_rbuf_meta_mr ?c)) ?m 8
             (wac_rbuf_meta_vaddr ?c) (wac_rbuf_meta_rkey ?c) ep2 = Some (rs, ep3)" and s3:
           "WriteAtomicConnection_Wait (wac_next_id c) ?c ep3 \<bind> (\<lambda>(stat, c, ep).
           if \<not> status_ok stat then Some (stat, c, ep) else f len c ep) = Some r"
        by (simp only: if_False) (erule bindE, simp only: split_paired_all prod.case)
      obtain stat c4 ep4 where wt: "WriteAtomicConnection_Wait (wac_next_id c) ?c ep3 = Some (stat, c4, ep4)" and s4:
           "(if \<not> status_ok stat then Some (stat, c4, ep4) else f len c4 ep4) = Some r"
        using s3 by (rule bindE) (simp only: split_paired_all prod.case)
      note w4 = Wait_frame [OF wt, simplified]
      from Read_frame [OF rd] w4 obtain wr where three: "calls ep4 = calls ep2 @ [Post_send [wr]]" "loads ep4 = loads ep2" by auto
      show ?thesis
      proof (cases "status_ok stat")
        case False
        with s4 show ?thesis by (auto simp: P_def)
      next
        case True
        with s4 have "P len c4 ep4 r" by (simp add: IH)
        moreover have "waited len c ep c' ep'" if "waited len c4 ep4 c' ep'" for c' ep'
        proof -
          from that w4 obtain cs ls h' t' where q: "calls ep' = calls ep4 @ cs @ [Load ?m, Load (?m + 8)]"
            "loads ep4 = ls @ h' # t' # loads ep'" "length ls = length (loaded cs)"
            "t' + ucast len < h' + ucast (wac_rbuf_size c)"
            "wac_rbuf_size c' = wac_rbuf_size c" "wac_rbuf_vaddr c' = wac_rbuf_vaddr c" "wac_rbuf_meta_mr c' = wac_rbuf_meta_mr c"
            unfolding waited_def by auto
          show ?thesis unfolding waited_def
            using q two three by (intro exI [of _ "[Load ?m, Load (?m + 8), Post_send [wr]] @ cs"] exI [of _ "h # t # ls"]
              exI [of _ h'] exI [of _ t'] exI [of _ ?m]) simp
        qed
        ultimately show ?thesis by (simp add: P_def)
      qed
    qed
  qed
  with assms(2) show ?thesis by (simp add: P_def)
qed

lemma SendAsync_sent:
  assumes "WriteAtomicConnection_SendAsync region c ep = Some (Inr wid, c', ep')"
  defines "meta \<equiv> mr_addr (wac_rbuf_meta_mr c)" and "bsz \<equiv> wac_rbuf_size c"
  shows "\<exists>fa cs wr ls h t t'.
    calls ep' = calls ep @ Post_send [fa] # cs @ [Load meta, Load (meta + 8), Load (meta + 8), Post_send [wr]] \<and>
    loads ep = ls @ h # t # t' # loads ep' \<and> length ls = length (loaded cs) \<and>
    swr_opcode fa = WR_ATOMIC_FETCH_AND_ADD \<and> swr_add fa = ucast (reg_length region) \<and>
    t + ucast (reg_length region) < h + ucast bsz \<and> reg_length region < bsz \<and>
    swr_opcode wr = WR_RDMA_WRITE_WITH_IMM \<and> swr_remote_addr wr = wac_rbuf_vaddr c + t' mod ucast bsz \<and>
    swr_imm wr = ucast (t' mod ucast bsz) \<and> sge_length (swr_sge wr) = reg_length region"
proof -
  let ?c = "c\<lparr>wac_next_id := wac_next_id c + 1\<rparr>"
  have s0: "\<not> wac_rbuf_size c \<le> reg_length region"
    using assms(1) by (auto simp: WriteAtomicConnection_SendAsync_def)
  from assms(1) s0 obtain fst0 ep1 where f: "Endpoint_PostFetchAndAdd (wac_next_id c) (ucast (reg_length region))
      (mr_lkey (wac_rbuf_meta_mr ?c)) (mr_addr (wac_rbuf_meta_mr ?c) + 8) (wac_rbuf_meta_vaddr ?c + 8)
      (wac_rbuf_meta_rkey ?c) ep = Some (fst0, ep1)"
    and s1: "(if \<not> status_ok fst0 then Some (Inl fst0, ?c, ep1)
       else WriteAtomicConnection_Wait (wac_next_id c) ?c ep1 \<bind> (\<lambda>(stat, c, ep).
         if \<not> status_ok stat then Some (Inl stat, c, ep)
         else wait_for_space (reg_length region) c ep \<bind> (\<lambda>(stat, c, ep).
           if \<not> status_ok stat then Some (Inl stat, c, ep) else write_reserved region c ep))) = Some (Inr wid, c', ep')"
    unfolding WriteAtomicConnection_SendAsync_def Let_def
    by (simp only: if_False) (erule bindE, simp only: split_paired_all prod.case)
  have ok0: "status_ok fst0" using s1 by (cases "status_ok fst0") simp_all
  obtain st1 c1 ep2 where w: "WriteAtomicConnection_Wait (wac_next_id c) ?c ep1 = Some (st1, c1, ep2)"
    and s2: "(if \<not> status_ok st1 then Some (Inl st1, c1, ep2)
         else wait_for_space (reg_length region) c1 ep2 \<bind> (\<lambda>(stat, c, ep).
           if \<not> status_ok stat then Some (Inl stat, c, ep) else write_reserved region c ep)) = Some (Inr wid, c', ep')"
    using s1 ok0 by (simp only: not_True_eq_False if_False) (erule bindE, simp only: split_paired_all prod.case)
  have ok1: "status_ok st1" using s2 by (cases "status_ok st1") simp_all
  obtain st2 c2 ep3 where sp: "wait_for_space (reg_length region) c1 ep2 = Some (st2, c2, ep3)"
    and s3: "(if \<not> status_ok st2 then Some (Inl st2, c2, ep3) else write_reserved region c2 ep3) = Some (Inr wid, c', ep')"
    using s2 ok1 by (simp only: not_True_eq_False if_False) (erule bindE, simp only: split_paired_all prod.case)
  have ok2: "status_ok st2" using s3 by (cases "status_ok st2") simp_all
  have wr0: "write_reserved region c2 ep3 = Some (Inr wid, c', ep')" using s3 ok2 by simp
  note w1 = Wait_frame [OF w, simplified]
  from wait_for_space_waited [OF sp ok2] w1 obtain cs ls h t where q:
    "calls ep3 = calls ep2 @ cs @ [Load meta, Load (meta + 8)]" "loads ep2 = ls @ h # t # loads ep3"
    "length ls = length (loaded cs)" "t + ucast (reg_length region) < h + ucast bsz"
    "wac_rbuf_size c2 = bsz" "wac_rbuf_vaddr c2 = wac_rbuf_vaddr c" "mr_addr (wac_rbuf_meta_mr c2) = meta"
    unfolding waited_def meta_def bsz_def by auto
  from FetchAndAdd_frame [OF f] obtain fa where fa: "calls ep1 = calls ep @ [Post_send [fa]]" "loads ep1 = loads ep"
    "swr_opcode fa = WR_ATOMIC_FETCH_AND_ADD" "swr_add fa = ucast (reg_length region)" by blast
  have upd: "wac_rbuf_vaddr (c2\<lparr>wac_next_id := n\<rparr>) = wac_rbuf_vaddr c2" "wac_rbuf_rkey (c2\<lparr>wac_next_id := n\<rparr>) = wac_rbuf_rkey c2" for n
    by simp_all
  obtain t' ep4 where l: "sys_load (mr_addr (wac_rbuf_meta_mr c2) + 8) ep3 = Some (t', ep4)" and s4:
      "(if wac_rbuf_size c2 = 0 then None
     else Endpoint_PostWriteWithImmidate (wac_next_id c2) (reg_lkey region) (reg_addr region)
         (ucast (reg_length region)) (wac_rbuf_vaddr c2 + t' mod ucast (wac_rbuf_size c2)) (wac_rbuf_rkey c2)
         (ucast (t' mod ucast (wac_rbuf_size c2))) ep4 \<bind> (\<lambda>(send_stat, ep).
       Some (if \<not> status_ok send_stat then Inl send_stat else Inr (wac_next_id c2), c2\<lparr>wac_next_id := wac_next_id c2 + 1\<rparr>, ep))) =
       Some (Inr wid, c', ep')"
    using wr0 unfolding write_reserved_def Let_def upd
    by (rule bindE) (simp only: split_paired_all prod.case)
  obtain sst where ps: "Endpoint_PostWriteWithImmidate (wac_next_id c2) (reg_lkey region) (reg_addr region)
         (ucast (reg_length region)) (wac_rbuf_vaddr c2 + t' mod ucast (wac_rbuf_size c2)) (wac_rbuf_rkey c2)
         (ucast (t' mod ucast (wac_rbuf_size c2))) ep4 = Some (sst, ep')"
    using s4 by (cases "wac_rbuf_size c2 = 0") (auto elim!: bindE)
  note pw = post_write [OF ps [unfolded Endpoint_PostWriteWithImmidate_def]]
  then obtain wr where wr: "calls ep' = calls ep4 @ [Post_send [wr]]" "loads ep' = loads ep4"
    "swr_opcode wr = WR_RDMA_WRITE_WITH_IMM" "swr_remote_addr wr = wac_rbuf_vaddr c + t' mod ucast bsz"
    "swr_imm wr = ucast (t' mod ucast bsz)" "sge_length (swr_sge wr) = reg_length region"
    using q(5,6) by (simp add: send_wr0_def sge_def)
  show ?thesis
    using fa wr w1 q load_frame [OF l] s0
    by (intro exI [of _ fa] exI [of _ cs] exI [of _ wr] exI [of _ ls] exI [of _ h] exI [of _ t] exI [of _ t']) (simp add: bsz_def)
qed

section \<open>All parties together\<close>

text \<open>
  \<open>as_resv\<close> are the reservations in the order of the fetch-and-adds, \<open>as_heads\<close> the values the head
  has had, \<open>as_msgs\<close> the writes that were posted, by reservation,
  and \<open>as_got\<close> the regions the receiver returned for them.
\<close>

record atomic_system =
  as_inst :: write_atomic_instance
  as_tail :: u64
  as_resv :: "(u64 \<times> u32) list"
  as_heads :: "u64 list"
  as_msgs :: "nat \<rightharpoonup> send_wr"
  as_got :: "nat \<rightharpoonup> ReceiveRegion"
  as_freed :: "nat set"

text \<open>
  A send runs from its reservation to its write, on a connection that has the address of the
  receiver's buffer. What it loads from its copies of head and tail is some value the head has had
  and its place; the completion of a write brings the immediate data and the length. The stream does not grow to \<open>2^64\<close> bytes; messages are not empty.
\<close>

inductive atomic_step :: "atomic_system \<Rightarrow> atomic_system \<Rightarrow> bool" where
  reserve: "len \<noteq> 0 \<Longrightarrow> unat (as_tail s) + unat len + 2 ^ 33 < 2 ^ 64 \<Longrightarrow>
    atomic_step s (s\<lparr>as_tail := as_tail s + ucast len, as_resv := as_resv s @ [(as_tail s, len)]\<rparr>)"
| send: "i < length (as_resv s) \<Longrightarrow> as_msgs s i = None \<Longrightarrow>
    WriteAtomicConnection_SendAsync region c ep = Some (Inr wid, c', ep') \<Longrightarrow>
    wac_rbuf_size c = wi_buf_size (as_inst s) \<Longrightarrow> wi_buf_mr (as_inst s) = Some mr \<Longrightarrow>
    wac_rbuf_vaddr c = mr_addr mr \<Longrightarrow> meta = mr_addr (wac_rbuf_meta_mr c) \<Longrightarrow>
    calls ep' = calls ep @ Post_send [fa] # cs @ [Post_send [wr]] \<Longrightarrow>
    swr_add fa = ucast (snd (as_resv s ! i)) \<Longrightarrow> loads ep = ls @ loads ep' \<Longrightarrow>
    list_all2 (\<lambda>a v. (a = meta \<longrightarrow> v \<in> set (as_heads s)) \<and> (a = meta + 8 \<longrightarrow> v = fst (as_resv s ! i))) (loaded cs) ls \<Longrightarrow>
    atomic_step s (s\<lparr>as_msgs := (as_msgs s)(i \<mapsto> wr)\<rparr>)"
| receive: "as_msgs s i = Some wr \<Longrightarrow> as_got s i = None \<Longrightarrow>
    recv_polls e = (1, [wc]) # ps \<Longrightarrow> wc_status wc = 0 \<Longrightarrow> wc_imm wc = swr_imm wr \<Longrightarrow>
    wc_byte_len wc = sge_length (swr_sge wr) \<Longrightarrow>
    WriteAtomicInstance_Receive (as_inst s) e = Some (Inr region, w', e') \<Longrightarrow>
    atomic_step s (s\<lparr>as_inst := w', as_got := (as_got s)(i \<mapsto> region)\<rparr>)"
| free: "as_got s i = Some region \<Longrightarrow> i \<notin> as_freed s \<Longrightarrow>
    WriteAtomicInstance_Free region (as_inst s) e = Some (st, w', e') \<Longrightarrow>
    atomic_step s (s\<lparr>as_inst := w', as_heads := as_heads s @ [wi_head w'], as_freed := insert i (as_freed s)\<rparr>)"

definition atomic_start :: "atomic_system \<Rightarrow> bool" where
  "atomic_start s \<longleftrightarrow> 0 < unat (wi_buf_size (as_inst s)) \<and> unat (wi_buf_size (as_inst s)) < 2 ^ 31 \<and>
     wi_head (as_inst s) = 0 \<and> wi_freed_regions (as_inst s) = [] \<and> as_tail s = 0 \<and> as_resv s = [] \<and>
     as_heads s = [0] \<and> as_msgs s = Map.empty \<and> as_got s = Map.empty \<and> as_freed s = {}"

section \<open>The invariant\<close>

definition place :: "atomic_system \<Rightarrow> nat \<Rightarrow> nat" where
  "place s i = unat (fst (as_resv s ! i))"

definition extent :: "atomic_system \<Rightarrow> nat \<Rightarrow> nat" where
  "extent s i = unat (snd (as_resv s ! i))"

definition stream_bytes :: "atomic_system \<Rightarrow> nat \<Rightarrow> nat set" where
  "stream_bytes s i = {place s i..<place s i + extent s i}"

definition inv_resv :: "atomic_system \<Rightarrow> bool" where
  "inv_resv s \<longleftrightarrow> unat (as_tail s) + 2 ^ 33 < 2 ^ 64 \<and>
     (\<forall>i < length (as_resv s). 0 < extent s i \<and> place s i + extent s i \<le> unat (as_tail s)) \<and>
     (\<forall>j < length (as_resv s). \<forall>i < j. place s i + extent s i \<le> place s j)"

text \<open>The write of a message is posted for the place reserved, within the buffer.\<close>

definition posted_for :: "u32 \<Rightarrow> ibv_mr option \<Rightarrow> u64 \<times> u32 \<Rightarrow> send_wr \<Rightarrow> bool" where
  "posted_for bsz buf r wr \<longleftrightarrow> sge_length (swr_sge wr) = snd r \<and> snd r < bsz \<and>
     swr_imm wr = ucast (fst r mod ucast bsz) \<and>
     (\<exists>mr. buf = Some mr \<and> swr_remote_addr wr = mr_addr mr + fst r mod ucast bsz)"

definition inv_msgs :: "u32 \<Rightarrow> ibv_mr option \<Rightarrow> atomic_system \<Rightarrow> bool" where
  "inv_msgs bsz buf s \<longleftrightarrow> (\<forall>h\<in>set (as_heads s). h \<le> wi_head (as_inst s)) \<and>
     (\<forall>i wr. as_msgs s i = Some wr \<longrightarrow> i < length (as_resv s) \<and> posted_for bsz buf (as_resv s ! i) wr \<and>
        place s i + extent s i < unat (wi_head (as_inst s)) + unat bsz)"

definition inv_got :: "u32 \<Rightarrow> ibv_mr option \<Rightarrow> atomic_system \<Rightarrow> bool" where
  "inv_got bsz buf s \<longleftrightarrow> (\<forall>i r. as_got s i = Some r \<longrightarrow> as_msgs s i \<noteq> None \<and> reg_context r = fst (as_resv s ! i) \<and>
     reg_length r = snd (as_resv s ! i) \<and> (\<exists>mr. buf = Some mr \<and> reg_addr r = mr_addr mr + fst (as_resv s ! i) mod ucast bsz))"

definition inv_inst :: "u32 \<Rightarrow> ibv_mr option \<Rightarrow> atomic_system \<Rightarrow> bool" where
  "inv_inst bsz buf s \<longleftrightarrow> wi_buf_size (as_inst s) = bsz \<and> wi_buf_mr (as_inst s) = buf \<and>
     as_freed s \<subseteq> dom (as_got s) \<and> freed_ok (\<Union>i\<in>as_freed s. stream_bytes s i) (as_inst s)"

definition atomic_inv :: "u32 \<Rightarrow> ibv_mr option \<Rightarrow> atomic_system \<Rightarrow> bool" where
  "atomic_inv bsz buf s \<longleftrightarrow> 0 < unat bsz \<and> unat bsz < 2 ^ 31 \<and> inv_resv s \<and> inv_msgs bsz buf s \<and> inv_got bsz buf s \<and> inv_inst bsz buf s"

text \<open>The places only depend on the reservations.\<close>

lemma place_frames [simp]:
  "place (s\<lparr>as_msgs := m\<rparr>) = place s" "extent (s\<lparr>as_msgs := m\<rparr>) = extent s" "stream_bytes (s\<lparr>as_msgs := m\<rparr>) = stream_bytes s"
  "place (s\<lparr>as_inst := w, as_got := g\<rparr>) = place s" "extent (s\<lparr>as_inst := w, as_got := g\<rparr>) = extent s"
  "stream_bytes (s\<lparr>as_inst := w, as_got := g\<rparr>) = stream_bytes s"
  "place (s\<lparr>as_inst := w, as_heads := h, as_freed := f\<rparr>) = place s" "extent (s\<lparr>as_inst := w, as_heads := h, as_freed := f\<rparr>) = extent s"
  "stream_bytes (s\<lparr>as_inst := w, as_heads := h, as_freed := f\<rparr>) = stream_bytes s"
  by (auto simp: place_def extent_def stream_bytes_def fun_eq_iff)

lemma msgsD:
  "inv_msgs bsz buf s \<Longrightarrow> as_msgs s i = Some wr \<Longrightarrow> i < length (as_resv s) \<and>
     posted_for bsz buf (as_resv s ! i) wr \<and> place s i + extent s i < unat (wi_head (as_inst s)) + unat bsz"
  by (auto simp: inv_msgs_def)

lemma got_reserved: "atomic_inv bsz buf s \<Longrightarrow> as_got s i = Some r \<Longrightarrow> i < length (as_resv s)"
  unfolding atomic_inv_def inv_got_def inv_msgs_def by (cases "as_msgs s i") fastforce+

lemma freed_reserved: "atomic_inv bsz buf s \<Longrightarrow> i \<in> as_freed s \<Longrightarrow> i < length (as_resv s)"
  using got_reserved by (fastforce simp: atomic_inv_def inv_inst_def)

lemma places_apart:
  assumes "inv_resv s" "i < length (as_resv s)" "j < length (as_resv s)" "i \<noteq> j"
  shows "stream_bytes s i \<inter> stream_bytes s j = {}"
proof (cases "i < j")
  case True
  then have "place s i + extent s i \<le> place s j" using assms by (simp add: inv_resv_def)
  then show ?thesis by (auto simp: stream_bytes_def)
next
  case False
  then have "place s j + extent s j \<le> place s i" using assms by (simp add: inv_resv_def)
  then show ?thesis by (auto simp: stream_bytes_def)
qed

lemma unfreed_apart:
  assumes "atomic_inv bsz buf s" "i < length (as_resv s)" "i \<notin> as_freed s"
  shows "stream_bytes s i \<inter> (\<Union>j\<in>as_freed s. stream_bytes s j) = {}"
proof -
  have "stream_bytes s i \<inter> stream_bytes s j = {}" if "j \<in> as_freed s" for j
    using places_apart [of s i j] assms that freed_reserved [OF assms(1) that] by (auto simp: atomic_inv_def)
  then show ?thesis by blast
qed

text \<open>What was not freed is at or behind the head, and the head is not behind the tail.\<close>

lemma below_head_freed:
  assumes "atomic_inv bsz buf s"
  shows "{..<unat (wi_head (as_inst s))} \<subseteq> (\<Union>j\<in>as_freed s. stream_bytes s j)"
proof -
  have "freed_ok (\<Union>j\<in>as_freed s. stream_bytes s j) (as_inst s)" using assms by (simp add: atomic_inv_def inv_inst_def)
  then show ?thesis by (rule freed_head(1))
qed

lemma unfreed_behind_head:
  assumes "atomic_inv bsz buf s" "i < length (as_resv s)" "i \<notin> as_freed s"
  shows "unat (wi_head (as_inst s)) \<le> place s i"
proof (rule ccontr)
  assume "\<not> unat (wi_head (as_inst s)) \<le> place s i"
  then have "place s i \<in> (\<Union>j\<in>as_freed s. stream_bytes s j)"
    using below_head_freed [OF assms(1)] by (simp add: subset_eq)
  moreover have "place s i \<in> stream_bytes s i"
    using assms by (simp add: stream_bytes_def atomic_inv_def inv_resv_def)
  ultimately show False using unfreed_apart [OF assms] by blast
qed

lemma head_le_tail:
  assumes "atomic_inv bsz buf s"
  shows "unat (wi_head (as_inst s)) \<le> unat (as_tail s)"
proof (rule ccontr)
  assume "\<not> unat (wi_head (as_inst s)) \<le> unat (as_tail s)"
  then have "unat (as_tail s) \<in> (\<Union>j\<in>as_freed s. stream_bytes s j)"
    using below_head_freed [OF assms] by (simp add: subset_eq)
  then obtain j where "j \<in> as_freed s" "unat (as_tail s) < place s j + extent s j" by (auto simp: stream_bytes_def)
  with freed_reserved [OF assms this(1)] assms show False
    by (fastforce simp: atomic_inv_def inv_resv_def)
qed

section \<open>Every step keeps it\<close>

lemma atomic_reserve_inv:
  assumes inv: "atomic_inv bsz buf s" and len: "len \<noteq> 0" "unat (as_tail s) + unat len + 2 ^ 33 < 2 ^ 64"
  shows "atomic_inv bsz buf (s\<lparr>as_tail := as_tail s + ucast len, as_resv := as_resv s @ [(as_tail s, len)]\<rparr>)"
    (is "atomic_inv _ _ ?s")
proof -
  let ?n = "length (as_resv s)"
  have old: "place ?s i = place s i" "extent ?s i = extent s i" "stream_bytes ?s i = stream_bytes s i"
    "as_resv ?s ! i = as_resv s ! i" if "i < ?n" for i
    using that by (simp_all add: place_def extent_def stream_bytes_def nth_append)
  have new: "place ?s ?n = unat (as_tail s)" "extent ?s ?n = unat len"
    by (simp_all add: place_def extent_def)
  have t: "unat (as_tail ?s) = unat (as_tail s) + unat len"
    using len(2) by (simp add: unat_word_ariths)
  have pos: "0 < unat len" using len(1) by (simp add: unat_gt_0)
  have r: "inv_resv s" using inv by (simp add: atomic_inv_def)
  have "inv_resv ?s" unfolding inv_resv_def t
  proof (intro conjI allI impI)
    show "unat (as_tail s) + unat len + 2 ^ 33 < 2 ^ 64" by (rule len(2))
    fix i assume i: "i < length (as_resv ?s)"
    have "0 < extent ?s i \<and> place ?s i + extent ?s i \<le> unat (as_tail s) + unat len"
    proof (cases "i = ?n")
      case True then show ?thesis using pos new by simp
    next
      case False
      with i have "i < ?n" by simp
      then show ?thesis using r old [of i] by (simp add: inv_resv_def trans_le_add1)
    qed
    then show "0 < extent ?s i" "place ?s i + extent ?s i \<le> unat (as_tail s) + unat len" by simp_all
  next
    fix i j assume i: "j < length (as_resv ?s)" "i < j"
    show "place ?s i + extent ?s i \<le> place ?s j"
      using i r old [of i] old [of j] new by (cases "j = ?n") (auto simp: inv_resv_def)
  qed
  moreover have "inv_msgs bsz buf ?s"
  proof -
    have m: "inv_msgs bsz buf s" using inv by (simp add: atomic_inv_def)
    have "i < length (as_resv ?s) \<and> posted_for bsz buf (as_resv ?s ! i) wr \<and>
        place ?s i + extent ?s i < unat (wi_head (as_inst s)) + unat bsz" if "as_msgs s i = Some wr" for i wr
      using msgsD [OF m that] old [of i] by simp
    moreover have "\<forall>h\<in>set (as_heads s). h \<le> wi_head (as_inst s)" using m by (simp add: inv_msgs_def)
    ultimately show ?thesis by (simp add: inv_msgs_def)
  qed
  moreover have "inv_got bsz buf ?s"
    using inv got_reserved [OF inv] old unfolding atomic_inv_def inv_got_def by simp
  moreover have "(\<Union>i\<in>as_freed s. stream_bytes ?s i) = (\<Union>i\<in>as_freed s. stream_bytes s i)"
    using freed_reserved [OF inv] old(3) by auto
  then have "inv_inst bsz buf ?s" using inv by (simp add: atomic_inv_def inv_inst_def)
  ultimately show ?thesis using inv by (simp add: atomic_inv_def)
qed

lemma atomic_send_inv:
  assumes inv: "atomic_inv bsz buf s" and i: "i < length (as_resv s)" "as_msgs s i = None"
    and op: "WriteAtomicConnection_SendAsync region c ep = Some (Inr wid, c', ep')"
    and sz: "wac_rbuf_size c = wi_buf_size (as_inst s)" and mr: "wi_buf_mr (as_inst s) = Some mr"
    and va: "wac_rbuf_vaddr c = mr_addr mr" and meta: "meta = mr_addr (wac_rbuf_meta_mr c)"
    and cs: "calls ep' = calls ep @ Post_send [fa] # cs @ [Post_send [wr]]"
    and fa: "swr_add fa = ucast (snd (as_resv s ! i))" and ls: "loads ep = ls @ loads ep'"
    and vals: "list_all2 (\<lambda>a v. (a = meta \<longrightarrow> v \<in> set (as_heads s)) \<and> (a = meta + 8 \<longrightarrow> v = fst (as_resv s ! i))) (loaded cs) ls"
  shows "atomic_inv bsz buf (s\<lparr>as_msgs := (as_msgs s)(i \<mapsto> wr)\<rparr>)"
    (is "atomic_inv _ _ ?s")
proof -
  let ?t = "fst (as_resv s ! i)" and ?len = "snd (as_resv s ! i)"
  have bsz: "wac_rbuf_size c = bsz" "buf = Some mr"
    using sz mr inv by (simp_all add: atomic_inv_def inv_inst_def)
  from SendAsync_sent [OF op] obtain fa' cs' wr' ls' h t t' where q:
    "calls ep' = calls ep @ Post_send [fa'] # cs' @ [Load meta, Load (meta + 8), Load (meta + 8), Post_send [wr']]"
    "loads ep = ls' @ h # t # t' # loads ep'" "length ls' = length (loaded cs')"
    "swr_add fa' = ucast (reg_length region)" "t + ucast (reg_length region) < h + ucast bsz"
    "swr_imm wr' = ucast (t' mod ucast bsz)" "sge_length (swr_sge wr') = reg_length region"
    "reg_length region < bsz" "swr_remote_addr wr' = mr_addr mr + t' mod ucast bsz"
    unfolding meta bsz va by blast
  from cs q(1) have "cs @ [Post_send [wr]] = (cs' @ [Load meta, Load (meta + 8), Load (meta + 8)]) @ [Post_send [wr']]"
    and fe: "fa = fa'" by simp_all
  then have ce: "cs = cs' @ [Load meta, Load (meta + 8), Load (meta + 8)]" and we: "wr = wr'"
    by (simp_all only: append1_eq_conv) simp_all
  from ls q(2) have "ls = ls' @ [h, t, t']" by simp
  with vals ce q(3) have v: "h \<in> set (as_heads s)" "t = ?t" "t' = ?t" by (simp_all add: list_all2_append)
  have len: "reg_length region = ?len"
    using fa fe q(4) by (metis ucast_32_64_inj)
  have hle: "unat h \<le> unat (wi_head (as_inst s))"
    using v(1) inv by (auto simp: atomic_inv_def inv_msgs_def word_le_nat_alt)
  have bounds: "place s i + extent s i \<le> unat (as_tail s)" "unat (as_tail s) + 2 ^ 33 < 2 ^ 64"
    using inv i by (auto simp: atomic_inv_def inv_resv_def)
  have b2: "unat bsz < 2 ^ 31" using inv by (simp add: atomic_inv_def)
  have "unat (?t + ucast ?len) = place s i + extent s i"
    using bounds by (simp add: place_def extent_def unat_word_ariths)
  moreover have "unat (h + ucast bsz) = unat h + unat bsz"
    using hle head_le_tail [OF inv] bounds b2 by (simp add: unat_word_ariths)
  ultimately have lim: "place s i + extent s i < unat (wi_head (as_inst s)) + unat bsz"
    using q(5) hle by (simp add: v(2) len word_less_nat_alt)
  have "posted_for bsz buf (as_resv s ! i) wr"
    using q(6-9) by (simp add: posted_for_def we v(3) len bsz(2))
  then have "inv_msgs bsz buf ?s"
    using inv i lim by (auto simp: atomic_inv_def inv_msgs_def)
  moreover have "inv_got bsz buf ?s"
    using inv by (auto simp: atomic_inv_def inv_got_def)
  ultimately show ?thesis using inv by (simp add: atomic_inv_def inv_resv_def inv_inst_def)
qed

lemma repost_frame:
  "repost wc w e = Some (st, w', e') \<Longrightarrow> wi_head w' = wi_head w \<and> wi_freed_regions w' = wi_freed_regions w \<and>
     wi_buf_size w' = wi_buf_size w \<and> wi_buf_mr w' = wi_buf_mr w \<and> wi_buf_meta w' = wi_buf_meta w"
  by (auto simp: repost_def elim!: bindE split: if_splits)

lemma Receive_region:
  assumes "recv_polls e = (1, [wc]) # ps" "wc_status wc = 0"
    and "WriteAtomicInstance_Receive w e = Some (Inr region, w', e')"
  shows "reg_context region = global_offset (wi_head w) (wi_buf_size w) (wc_imm wc)" "reg_length region = wc_byte_len wc"
    "\<exists>mr. wi_buf_mr w = Some mr \<and> reg_addr region = mr_addr mr + scast (wc_imm wc)"
    and "wi_head w' = wi_head w" "wi_freed_regions w' = wi_freed_regions w" "wi_buf_size w' = wi_buf_size w"
    "wi_buf_mr w' = wi_buf_mr w"
proof -
  from assms obtain st mr where f: "repost wc w (e\<lparr>recv_polls := ps\<rparr>) = Some (st, w', e')" and m: "wi_buf_mr w' = Some mr"
    and r: "region = \<lparr>reg_context = global_offset (wi_head w') (wi_buf_size w') (wc_imm wc),
      reg_addr = mr_addr mr + scast (wc_imm wc), reg_length = wc_byte_len wc, reg_lkey = 0\<rparr>"
    by (auto simp: WriteAtomicInstance_Receive_def Let_def elim!: bindE split: if_splits)
  note k = repost_frame [OF f]
  from k m have m': "wi_buf_mr w = Some mr" by simp
  show "reg_context region = global_offset (wi_head w) (wi_buf_size w) (wc_imm wc)" "reg_length region = wc_byte_len wc"
    "\<exists>mr. wi_buf_mr w = Some mr \<and> reg_addr region = mr_addr mr + scast (wc_imm wc)"
    using k m' by (simp_all add: r)
  show "wi_head w' = wi_head w" "wi_freed_regions w' = wi_freed_regions w" "wi_buf_size w' = wi_buf_size w"
    "wi_buf_mr w' = wi_buf_mr w"
    using k by simp_all
qed

lemma atomic_receive_inv:
  assumes inv: "atomic_inv bsz buf s" and i: "as_msgs s i = Some wr" "as_got s i = None"
    and op: "recv_polls e = (1, [wc]) # ps" "wc_status wc = 0" "wc_imm wc = swr_imm wr"
      "wc_byte_len wc = sge_length (swr_sge wr)"
      "WriteAtomicInstance_Receive (as_inst s) e = Some (Inr region, w', e')"
  shows "atomic_inv bsz buf (s\<lparr>as_inst := w', as_got := (as_got s)(i \<mapsto> region)\<rparr>)" (is "atomic_inv _ _ ?s")
proof -
  let ?t = "fst (as_resv s ! i)" and ?h = "wi_head (as_inst s)" and ?imm = "swr_imm wr"
  have b: "0 < unat bsz" "unat bsz < 2 ^ 31" "wi_buf_size (as_inst s) = bsz" "wi_buf_mr (as_inst s) = buf"
    using inv by (simp_all add: atomic_inv_def inv_inst_def)
  have m: "i < length (as_resv s)" "sge_length (swr_sge wr) = snd (as_resv s ! i)" "?imm = ucast (?t mod ucast bsz)"
    "place s i + extent s i < unat ?h + unat bsz"
    using inv i(1) by (auto simp: atomic_inv_def inv_msgs_def posted_for_def)
  have nf: "i \<notin> as_freed s" using inv i(2) by (auto simp: atomic_inv_def inv_inst_def)
  note r = Receive_region [OF op(1,2,5), unfolded op(3,4) b]
  have "global_offset ?h bsz ?imm = ?t"
    unfolding m(3) using b unfreed_behind_head [OF inv m(1) nf] m(4)
    by (intro global_offset_recovers) (auto simp: place_def)
  moreover have "scast ?imm = (?t mod ucast bsz :: u64)"
  proof -
    have lt: "unat (?t mod ucast bsz) < 2 ^ 31"
      using less_trans [OF mod_less_divisor [OF b(1)] b(2), of "unat ?t"] by (simp add: unat_mod)
    then have "unat ?imm = unat (?t mod ucast bsz)"
      by (simp add: m(3) unsigned_ucast_eq unsigned_take_bit_eq take_bit_nat_eq_self)
    with lt show ?thesis by (simp add: scast_small)
  qed
  ultimately have "inv_got bsz buf ?s"
    using inv i(1) r(1-3) m(2) b(4) by (auto simp: atomic_inv_def inv_got_def)
  moreover have "inv_msgs bsz buf ?s" using inv r(4) by (simp add: atomic_inv_def inv_msgs_def)
  moreover have "inv_inst bsz buf ?s"
    using inv r(4-7) b by (auto simp: atomic_inv_def inv_inst_def freed_ok_def)
  ultimately show ?thesis using inv by (simp add: atomic_inv_def inv_resv_def)
qed

lemma atomic_free_inv:
  assumes inv: "atomic_inv bsz buf s" and i: "as_got s i = Some region" "i \<notin> as_freed s"
    and op: "WriteAtomicInstance_Free region (as_inst s) e = Some (st, w', e')"
  shows "atomic_inv bsz buf (s\<lparr>as_inst := w', as_heads := as_heads s @ [wi_head w'], as_freed := insert i (as_freed s)\<rparr>)"
    (is "atomic_inv _ _ ?s")
proof -
  let ?B = "\<Union>j\<in>as_freed s. stream_bytes s j"
  have n: "i < length (as_resv s)" by (rule got_reserved [OF inv i(1)])
  have fo: "freed_ok ?B (as_inst s)" using inv by (simp add: atomic_inv_def inv_inst_def)
  have r: "reg_context region = fst (as_resv s ! i)" "reg_length region = snd (as_resv s ! i)"
    using inv i(1) by (auto simp: atomic_inv_def inv_got_def)
  have bytes: "region_bytes region = stream_bytes s i"
    by (simp add: region_bytes_def stream_bytes_def place_def extent_def r)
  have ok: "region_ok region"
  proof -
    have "0 < extent s i" "place s i + extent s i \<le> unat (as_tail s)" "unat (as_tail s) + 2 ^ 33 < 2 ^ 64"
      using inv n by (auto simp: atomic_inv_def inv_resv_def)
    then show ?thesis by (simp add: region_ok_def r place_def extent_def)
  qed
  note k = Free_keeps [OF op fo ok, unfolded bytes, OF unfreed_apart [OF inv n i(2)]]
  have le: "unat (wi_head (as_inst s)) \<le> unat (wi_head w')" using k(5) by (simp add: word_le_nat_alt)
  have "inv_msgs bsz buf ?s"
    using inv k(5) le by (fastforce simp: atomic_inv_def inv_msgs_def)
  moreover have "inv_inst bsz buf ?s"
    using inv i(1) k(1-3) by (auto simp: atomic_inv_def inv_inst_def Un_commute)
  ultimately show ?thesis using inv by (simp add: atomic_inv_def inv_resv_def inv_got_def)
qed

lemma atomic_step_inv: "atomic_step s s' \<Longrightarrow> atomic_inv bsz buf s \<Longrightarrow> atomic_inv bsz buf s'"
  by (induction rule: atomic_step.induct)
    (auto intro: atomic_reserve_inv atomic_send_inv atomic_receive_inv atomic_free_inv)

lemma atomic_start_inv:
  assumes "atomic_start s"
  shows "atomic_inv (wi_buf_size (as_inst s)) (wi_buf_mr (as_inst s)) s"
  using assms
  by (simp add: atomic_start_def atomic_inv_def inv_resv_def inv_msgs_def inv_got_def inv_inst_def freed_ok_def
      apart_def spans_def)

lemma atomic_runs_inv:
  assumes "atomic_start s0" and "atomic_step\<^sup>*\<^sup>* s0 s"
  shows "atomic_inv (wi_buf_size (as_inst s0)) (wi_buf_mr (as_inst s0)) s"
  using assms(2,1) by (induction rule: rtranclp_induct) (auto intro: atomic_start_inv atomic_step_inv)

section \<open>What holds of every run\<close>

text \<open>
  The bytes of the buffer that a posted write fills. The buffer is mapped twice, the second time
  right behind the first: a byte in the second half is the byte one size below.
\<close>

definition mapped_offset :: "ibv_mr \<Rightarrow> send_wr \<Rightarrow> nat" where
  "mapped_offset mr wr = unat (swr_remote_addr wr - mr_addr mr)"

definition written_bytes :: "ibv_mr \<Rightarrow> nat \<Rightarrow> send_wr \<Rightarrow> nat set" where
  "written_bytes mr n wr =
     (\<lambda>x. x mod n) ` {mapped_offset mr wr..<mapped_offset mr wr + unat (sge_length (swr_sge wr))}"

lemma written_stream:
  assumes "atomic_inv bsz (Some mr) s" and "as_msgs s i = Some wr"
  shows "written_bytes mr (unat bsz) wr = (\<lambda>x. x mod unat bsz) ` stream_bytes s i" and
    "mapped_offset mr wr + unat (sge_length (swr_sge wr)) < 2 * unat bsz"
proof -
  let ?b = "unat bsz" and ?p = "place s i"
  have p: "posted_for bsz (Some mr) (as_resv s ! i) wr"
    using assms by (auto simp: atomic_inv_def inv_msgs_def)
  have b: "0 < ?b" using assms(1) by (simp add: atomic_inv_def)
  have o: "mapped_offset mr wr = ?p mod ?b" and l: "unat (sge_length (swr_sge wr)) = extent s i"
    using p by (auto simp: mapped_offset_def posted_for_def place_def extent_def unat_mod)
  have "?p mod ?b < ?b" using b by simp
  moreover have "extent s i < ?b" using p by (simp add: posted_for_def extent_def word_less_nat_alt)
  ultimately show "mapped_offset mr wr + unat (sge_length (swr_sge wr)) < 2 * ?b"
    unfolding o l by linarith
  have "(\<lambda>x. x mod ?b) ` {?p mod ?b..<?p mod ?b + n} = (\<lambda>x. x mod ?b) ` {?p..<?p + n}" for n
  proof -
    have shift: "{?p..<?p + n} = (+) (?b * (?p div ?b)) ` {?p mod ?b..<?p mod ?b + n}"
      by (simp add: add.assoc [symmetric])
    show ?thesis unfolding shift image_image by simp
  qed
  then show "written_bytes mr ?b wr = (\<lambda>x. x mod ?b) ` stream_bytes s i"
    by (simp add: written_bytes_def stream_bytes_def o l)
qed

text \<open>
  C12: Whatever the senders and the receiver interleave: every write that was posted lies, from its
  remote address to its length, inside the doubly mapped buffer, and two that were posted and whose
  regions are not freed have no byte of the buffer in common. So no message overwrites another one
  that is still held or unread. This is for a buffer below 2 GiB, messages that are not empty and a
  stream below 2^64 - 2^33 bytes; the fetch-and-add of a send is one step, its waiting for space
  and its write another.
\<close>

theorem atomic_no_overwrite:
  assumes "atomic_start s0" and "atomic_step\<^sup>*\<^sup>* s0 s" and "wi_buf_mr (as_inst s0) = Some mr"
    and "as_msgs s i = Some wr" and "as_msgs s j = Some wr'" and "i \<noteq> j" and "i \<notin> as_freed s" and "j \<notin> as_freed s"
  shows "mapped_offset mr wr + unat (sge_length (swr_sge wr)) < 2 * unat (wi_buf_size (as_inst s0)) \<and>
    written_bytes mr (unat (wi_buf_size (as_inst s0))) wr \<inter>
    written_bytes mr (unat (wi_buf_size (as_inst s0))) wr' = {}"
proof -
  let ?b = "unat (wi_buf_size (as_inst s0))" and ?h = "unat (wi_head (as_inst s))"
  have inv: "atomic_inv (wi_buf_size (as_inst s0)) (Some mr) s"
    using atomic_runs_inv [OF assms(1,2)] by (simp add: assms(3))
  have n: "k < length (as_resv s)" "place s k + extent s k < ?h + ?b" if "as_msgs s k = Some w" for k w
    using inv that by (fastforce simp: atomic_inv_def inv_msgs_def)+
  have win: "?h \<le> x \<and> x < ?h + ?b" if "as_msgs s k = Some w" "k \<notin> as_freed s" "x \<in> stream_bytes s k" for k w x
    using n [OF that(1)] unfreed_behind_head [OF inv _ that(2)] that(3) by (fastforce simp: stream_bytes_def)
  have ap: "stream_bytes s i \<inter> stream_bytes s j = {}"
    using inv n assms(4-6) by (intro places_apart) (auto simp: atomic_inv_def)
  have "x mod ?b \<noteq> y mod ?b" if "x \<in> stream_bytes s i" "y \<in> stream_bytes s j" for x y
  proof
    assume eq: "x mod ?b = y mod ?b"
    have "x = y"
      using win [OF assms(4,7) that(1)] win [OF assms(5,8) that(2)] by (intro mod_window_inj' [OF eq]) linarith+
    with that ap show False by blast
  qed
  then have "(\<lambda>x. x mod ?b) ` stream_bytes s i \<inter> (\<lambda>x. x mod ?b) ` stream_bytes s j = {}" by blast
  then show ?thesis
    using written_stream [OF inv assms(4)] written_stream(1) [OF inv assms(5)] by simp
qed

text \<open>
  C13: Every region the receiver returns is the one its sender reserved: the place in the stream, the
  length and the address in the buffer, from the 32 bits of immediate data alone.
\<close>

theorem atomic_receive_recovers:
  assumes "atomic_start s0" and "atomic_step\<^sup>*\<^sup>* s0 s" and "as_got s i = Some r" and "wi_buf_mr (as_inst s0) = Some mr"
  shows "reg_context r = fst (as_resv s ! i) \<and> reg_length r = snd (as_resv s ! i) \<and>
    reg_addr r = mr_addr mr + fst (as_resv s ! i) mod ucast (wi_buf_size (as_inst s0))"
  using atomic_runs_inv [OF assms(1,2)] assms(3,4) by (auto simp: atomic_inv_def inv_got_def)

section \<open>A run of two senders\<close>

definition demo_receiver :: write_atomic_instance where
  "demo_receiver = (WriteAtomicInstance \<lparr>io_buf_size = 1000, io_use_dm = False, io_use_srq = False\<rparr>)
     \<lparr>wi_buf_mr := Some \<lparr>mr_addr = 8192, mr_length = 2000, mr_lkey = 3\<rparr>, wi_buf_meta := 64, wi_rcv_cq := 9,
      wi_rqs := [0 \<mapsto> (ReceiveQueue_new 0 \<lparr>mr_addr = 4096, mr_length = 256, mr_lkey = 5\<rparr> 1, demo_send_ep [])]\<rparr>"

definition demo_atomic :: atomic_system where
  "demo_atomic = \<lparr>as_inst = demo_receiver, as_tail = 0, as_resv = [], as_heads = [0], as_msgs = Map.empty,
     as_got = Map.empty, as_freed = {}\<rparr>"

lemma demo_atomic_starts: "atomic_start demo_atomic"
  by (simp add: atomic_start_def demo_atomic_def demo_receiver_def WriteAtomicInstance_def)

text \<open>A send that finds room at its first look posts its write.\<close>

lemma SendAsync_room:
  assumes "reg_length region < bsz" and "t + ucast (reg_length region) < h + ucast bsz"
  shows "\<exists>c' ep' fa wr. WriteAtomicConnection_SendAsync region (WriteAtomicConnection a k bsz ma mk mr)
      ((demo_send_ep [(1, demo_wc 1)])\<lparr>loads := [h, t, t]\<rparr>) = Some (Inr 2, c', ep') \<and> loads ep' = [] \<and>
    calls ep' = Post_send [fa] # [Load (mr_addr mr), Load (mr_addr mr + 8), Load (mr_addr mr + 8)] @ [Post_send [wr]] \<and>
    swr_add fa = ucast (reg_length region) \<and> swr_imm wr = ucast (t mod ucast bsz) \<and> sge_length (swr_sge wr) = reg_length region \<and>
    swr_remote_addr wr = a + t mod ucast bsz"
proof -
  have "\<not> bsz \<le> reg_length region" "bsz \<noteq> 0" using assms(1) by auto
  then show ?thesis
    using assms(2)
    by (simp add: WriteAtomicConnection_SendAsync_def WriteAtomicConnection_def Let_def Endpoint_PostFetchAndAdd_def
      Endpoint_PostSendRaw_def sys_def WriteAtomicConnection_Wait_def wait_loop.simps keep_last_def
      Endpoint_PollSendCq_def poll_send_def demo_wc_def wait_for_space.simps sys_load_def write_reserved_def
      Endpoint_PostWriteWithImmidate_def send_wr0_def sge_def)
qed

lemma send_can:
  assumes "i < length (as_resv s)" "as_msgs s i = None" "h \<in> set (as_heads s)" "as_resv s ! i = (t, len)"
    and "len < wi_buf_size (as_inst s)" and "t + ucast len < h + ucast (wi_buf_size (as_inst s))"
    and "wi_buf_mr (as_inst s) = Some mr"
  obtains wr where "atomic_step s (s\<lparr>as_msgs := (as_msgs s)(i \<mapsto> wr)\<rparr>)"
    "swr_imm wr = ucast (t mod ucast (wi_buf_size (as_inst s)))" "sge_length (swr_sge wr) = len"
    "swr_remote_addr wr = mr_addr mr + t mod ucast (wi_buf_size (as_inst s))"
proof -
  let ?b = "wi_buf_size (as_inst s)" and ?mr = "\<lparr>mr_addr = 64, mr_length = 16, mr_lkey = 1\<rparr>"
  let ?region = "\<lparr>reg_context = 0, reg_addr = 128, reg_length = len, reg_lkey = 0\<rparr> :: SendRegion"
  let ?c = "WriteAtomicConnection (mr_addr mr) 0 ?b 0 0 ?mr" and ?ep = "(demo_send_ep [(1, demo_wc 1)])\<lparr>loads := [h, t, t]\<rparr>"
  obtain c' ep' fa wr where op: "WriteAtomicConnection_SendAsync ?region ?c ?ep = Some (Inr 2, c', ep')" "loads ep' = []"
    "calls ep' = Post_send [fa] # [Load 64, Load (64 + 8), Load (64 + 8)] @ [Post_send [wr]]" "swr_add fa = ucast len"
    "swr_imm wr = ucast (t mod ucast ?b)" "sge_length (swr_sge wr) = len"
    "swr_remote_addr wr = mr_addr mr + t mod ucast ?b"
    using SendAsync_room [of ?region ?b t h "mr_addr mr" 0 0 0 ?mr] assms(5,6) by auto
  have "atomic_step s (s\<lparr>as_msgs := (as_msgs s)(i \<mapsto> wr)\<rparr>)"
  proof (rule atomic_step.send [OF assms(1,2) op(1)])
    show "calls ep' = calls ?ep @ Post_send [fa] # [Load 64, Load (64 + 8), Load (64 + 8)] @ [Post_send [wr]]"
      using op(3) by simp
    show "loads ?ep = [h, t, t] @ loads ep'" using op(2) by simp
    show "list_all2 (\<lambda>a v. (a = 64 \<longrightarrow> v \<in> set (as_heads s)) \<and> (a = 64 + 8 \<longrightarrow> v = fst (as_resv s ! i)))
        (loaded [Load 64, Load (64 + 8), Load (64 + 8)]) [h, t, t]"
      using assms(3,4) by simp
  qed (use assms op(4) in \<open>simp_all add: WriteAtomicConnection_def\<close>)
  then show thesis using op(5-7) by (rule that)
qed

lemma demo_atomic_receives:
  "\<exists>region w' e'. WriteAtomicInstance_Receive demo_receiver (demo_env\<lparr>recv_polls := [(1, [(demo_wc 0)\<lparr>wc_imm := 300, wc_byte_len := 200\<rparr>])]\<rparr>)
     = Some (Inr region, w', e')"
  by (simp add: WriteAtomicInstance_Receive_def demo_receiver_def WriteAtomicInstance_def demo_wc_def repost_def
      ReceiveQueue_PostMR_def fill_slot_def ReceiveQueue_new_def batch_size_def Let_def)

text \<open>Two reservations; the second message is written and received before the first is written.\<close>

lemma demo_atomic_run:
  "\<exists>s r wr wr'. atomic_step\<^sup>*\<^sup>* demo_atomic s \<and> as_resv s = [(0, 300), (300, 200)] \<and>
     as_msgs s 0 = Some wr \<and> as_msgs s 1 = Some wr' \<and> swr_remote_addr wr = 8192 \<and> swr_remote_addr wr' = 8492 \<and>
     as_freed s = {} \<and> as_got s 1 = Some r"
proof -
  let ?s1 = "demo_atomic\<lparr>as_tail := 300, as_resv := [(0, 300)]\<rparr>"
  let ?s2 = "demo_atomic\<lparr>as_tail := 500, as_resv := [(0, 300), (300, 200)]\<rparr>"
  have s1: "atomic_step demo_atomic ?s1"
    using atomic_step.reserve [of 300 demo_atomic] by (simp add: demo_atomic_def)
  have s2: "atomic_step ?s1 ?s2"
    using atomic_step.reserve [of 200 ?s1] by (simp add: demo_atomic_def)
  let ?mr = "\<lparr>mr_addr = 8192, mr_length = 2000, mr_lkey = 3\<rparr>"
  have i: "wi_buf_size (as_inst demo_atomic) = 1000" "wi_buf_mr (as_inst demo_atomic) = Some ?mr"
    by (simp_all add: demo_atomic_def demo_receiver_def WriteAtomicInstance_def)
  obtain wr where w3: "atomic_step ?s2 (?s2\<lparr>as_msgs := (as_msgs ?s2)(1 \<mapsto> wr)\<rparr>)"
    "swr_imm wr = 300" "sge_length (swr_sge wr) = 200" "swr_remote_addr wr = 8492"
    by (rule send_can [of 1 ?s2 0 300 200 ?mr]) (use i in \<open>simp_all add: demo_atomic_def\<close>)
  let ?s3 = "?s2\<lparr>as_msgs := [1 \<mapsto> wr]\<rparr>"
  have s3: "atomic_step ?s2 ?s3" using w3(1) by (simp add: demo_atomic_def)
  obtain region w' e' where r: "WriteAtomicInstance_Receive demo_receiver
      (demo_env\<lparr>recv_polls := [(1, [(demo_wc 0)\<lparr>wc_imm := 300, wc_byte_len := 200\<rparr>])]\<rparr>) = Some (Inr region, w', e')"
    using demo_atomic_receives by blast
  let ?s4 = "?s3\<lparr>as_inst := w', as_got := [1 \<mapsto> region]\<rparr>"
  have s4: "atomic_step ?s3 ?s4"
    using atomic_step.receive [of ?s3 1 wr "demo_env\<lparr>recv_polls := [(1, [(demo_wc 0)\<lparr>wc_imm := 300, wc_byte_len := 200\<rparr>])]\<rparr>"
      "(demo_wc 0)\<lparr>wc_imm := 300, wc_byte_len := 200\<rparr>" "[]" region w' e'] r w3
    by (simp add: demo_atomic_def demo_wc_def)
  have w: "wi_buf_size w' = 1000" "wi_buf_mr w' = Some ?mr"
    using Receive_region(6,7) [OF _ _ r] by (simp_all add: demo_wc_def demo_receiver_def WriteAtomicInstance_def)
  obtain wr0 where w5: "atomic_step ?s4 (?s4\<lparr>as_msgs := (as_msgs ?s4)(0 \<mapsto> wr0)\<rparr>)"
    "swr_remote_addr wr0 = 8192"
    by (rule send_can [of 0 ?s4 0 0 300 ?mr]) (use w in \<open>simp_all add: demo_atomic_def\<close>)
  let ?s5 = "?s4\<lparr>as_msgs := [1 \<mapsto> wr, 0 \<mapsto> wr0]\<rparr>"
  have s5: "atomic_step ?s4 ?s5" using w5(1) by simp
  have "atomic_step\<^sup>*\<^sup>* demo_atomic ?s5"
    using s1 s2 s3 s4 s5 by (meson rtranclp.rtrancl_into_rtrancl rtranclp.rtrancl_refl)
  then show ?thesis using w3(4) w5(2)
    by (intro exI [of _ ?s5] exI [of _ region] exI [of _ wr0] exI [of _ wr]) (simp add: demo_atomic_def)
qed

lemma atomic_no_overwrite_witness:
  "\<exists>s wr wr' mr. atomic_step\<^sup>*\<^sup>* demo_atomic s \<and> as_msgs s 0 = Some wr \<and> as_msgs s 1 = Some wr' \<and>
     swr_remote_addr wr = 8192 \<and> swr_remote_addr wr' = 8492 \<and>
     written_bytes mr 1000 wr \<inter> written_bytes mr 1000 wr' = {}"
proof -
  obtain s wr wr' where s: "atomic_step\<^sup>*\<^sup>* demo_atomic s" "as_msgs s 0 = Some wr" "as_msgs s 1 = Some wr'"
    "as_freed s = {}" "swr_remote_addr wr = 8192" "swr_remote_addr wr' = 8492"
    using demo_atomic_run by blast
  let ?mr = "\<lparr>mr_addr = 8192, mr_length = 2000, mr_lkey = 3\<rparr>"
  have i: "wi_buf_mr (as_inst demo_atomic) = Some ?mr" "unat (wi_buf_size (as_inst demo_atomic)) = 1000"
    by (simp_all add: demo_atomic_def demo_receiver_def WriteAtomicInstance_def)
  from atomic_no_overwrite [OF demo_atomic_starts s(1) i(1) s(2,3)] s(4)
  have "written_bytes ?mr 1000 wr \<inter> written_bytes ?mr 1000 wr' = {}" by (simp add: i(2))
  with s show ?thesis by blast
qed

lemma atomic_receive_recovers_witness:
  "\<exists>s r. atomic_step\<^sup>*\<^sup>* demo_atomic s \<and> as_got s 1 = Some r \<and> reg_context r = 300 \<and> reg_length r = 200 \<and> reg_addr r = 8492"
proof -
  obtain s r where s: "atomic_step\<^sup>*\<^sup>* demo_atomic s" "as_resv s = [(0, 300), (300, 200)]" "as_got s 1 = Some r"
    using demo_atomic_run by blast
  have i: "wi_buf_mr (as_inst demo_atomic) = Some \<lparr>mr_addr = 8192, mr_length = 2000, mr_lkey = 3\<rparr>"
    "wi_buf_size (as_inst demo_atomic) = 1000"
    by (simp_all add: demo_atomic_def demo_receiver_def WriteAtomicInstance_def)
  from atomic_receive_recovers [OF demo_atomic_starts s(1,3) i(1)] s show ?thesis by (auto simp: i(2))
qed

end
