(* ===== verification/Buffered_Read.thy ===== *)
theory Buffered_Read
  imports Read_Connection Magic_Buffer
begin

text \<open>
  \<^verbatim>\<open>tests/buffered_read/buffered_read.{hpp,cpp}\<close>: the sender copies its messages into a ring in its own
  memory and counts the bytes in \<open>tail\<close>. The receiver reads the tail out of the sender's memory, then
  all new bytes at once into a ring of its own, and hands the messages out one by one. It writes the
  \<open>head\<close> back into the sender's memory now and then.
\<close>

section \<open>Data\<close>

text \<open>
  The counters \<open>head\<close> and \<open>tail\<close> of the sender, and the receiver's copies of them, are the two words
  of a registered region. The receive buffer is not checked for null when it is registered.
\<close>

record buffered_read =
  br_meta_data :: ibv_mr
  br_buffer :: ibv_mr
  br_length :: u32
  br_remote_meta_data :: ibv_mr
  br_remote_meta_rkey :: u32
  br_read_ptr :: u64
  br_acked_head :: u64
  br_remote_head_addr :: u64
  br_remote_tail_addr :: u64
  br_remote_buffer :: "ibv_mr option"
  br_remote_buf_len :: u32
  br_remote_buf_rkey :: u32
  br_remote_buf_addr :: u64
  br_sent_msgs :: u64
  br_sent_bytes :: u64
  br_outstanding :: "u64 list"

definition br_head :: "buffered_read \<Rightarrow> u64" where
  "br_head c = mr_addr (br_meta_data c)"

definition br_tail :: "buffered_read \<Rightarrow> u64" where
  "br_tail c = mr_addr (br_meta_data c) + 8"

definition br_remote_head :: "buffered_read \<Rightarrow> u64" where
  "br_remote_head c = mr_addr (br_remote_meta_data c)"

definition br_remote_tail :: "buffered_read \<Rightarrow> u64" where
  "br_remote_tail c = mr_addr (br_remote_meta_data c) + 8"

definition BufferedReadConnection ::
    "ibv_mr \<Rightarrow> ibv_mr \<Rightarrow> u32 \<Rightarrow> ibv_mr \<Rightarrow> u32 \<Rightarrow> u64 \<Rightarrow> u64 \<Rightarrow> ibv_mr option \<Rightarrow> u32 \<Rightarrow> u64 \<Rightarrow> u32 \<Rightarrow>
     'e env_scheme \<Rightarrow> buffered_read \<times> 'e env_scheme" where
  "BufferedReadConnection meta_data buffer buf_len remote_meta_data remote_meta_rkey remote_head_addr
     remote_tail_addr remote_buffer remote_buffer_rkey remote_buffer_addr remote_buffer_len e =
     (\<lparr>br_meta_data = meta_data, br_buffer = buffer, br_length = buf_len,
       br_remote_meta_data = remote_meta_data, br_remote_meta_rkey = remote_meta_rkey,
       br_read_ptr = 0, br_acked_head = 0, br_remote_head_addr = remote_head_addr,
       br_remote_tail_addr = remote_tail_addr, br_remote_buffer = remote_buffer,
       br_remote_buf_len = remote_buffer_len, br_remote_buf_rkey = remote_buffer_rkey,
       br_remote_buf_addr = remote_buffer_addr, br_sent_msgs = 0, br_sent_bytes = 0, br_outstanding = []\<rparr>,
      sys_void (Store (mr_addr meta_data + 8) 0 8) (sys_void (Store (mr_addr meta_data) 0 8) e))"

definition buffered_inflight :: u32 where
  "buffered_inflight = 200"

definition default_buffer_size :: u32 where
  "default_buffer_size = 8 * 1024 * 1024"

definition br_default_opts :: Options where
  "br_default_opts = \<lparr>o_pd = 0, o_srq = 0, o_send_cq = 0, o_recv_cq = 0,
     o_max_send_wr = buffered_inflight, o_max_recv_wr = buffered_inflight, o_max_send_sge = 1, o_max_recv_sge = 1,
     o_max_inline_data = 0, o_use_srq = False, o_private_data = [], o_src = None,
     o_responder_resources = 16, o_initiator_depth = 16, o_flow_control = 0,
     o_retry_count = 1, o_rnr_retry_count = 0, o_native_qp = False, o_inline_recv = 0\<rparr>"

definition BufferedReadConnection_GetMeanMsgSize :: "buffered_read \<Rightarrow> u64" where
  "BufferedReadConnection_GetMeanMsgSize c = (if br_sent_msgs c = 0 then 0 else br_sent_bytes c div br_sent_msgs c)"

section \<open>The sender\<close>

text \<open>Waiting for free space; all numbers are offsets into the ring.\<close>

partial_function (option) wait_free ::
    "u32 \<Rightarrow> u32 \<Rightarrow> buffered_read \<Rightarrow> endpoint \<Rightarrow> (status \<times> endpoint) option" where
  "wait_free len tail c ep = do {
     (h, ep) \<leftarrow> sys_load (br_head c) ep;
     (let head = ucast (h mod ucast (br_length c)) in
      if head = tail \<and> br_length c < len then Some (Status Unknown ''message larger then buffer'', ep)
      else if head < tail \<and> br_length c - tail + head \<le> len then wait_free len tail c ep
      else if tail < head \<and> head - tail \<le> len then wait_free len tail c ep
      else Some (Status0, ep)) }"

lemmas [code] = wait_free.simps

definition BufferedReadConnection_Send ::
    "u64 \<Rightarrow> u32 \<Rightarrow> buffered_read \<Rightarrow> endpoint \<Rightarrow> (status \<times> endpoint) option" where
  "BufferedReadConnection_Send buf len c ep = (if br_length c = 0 then None else do {
     (t, ep) \<leftarrow> sys_load (br_tail c) ep;
     (let tail = ucast (t mod ucast (br_length c)) in do {
       (st, ep) \<leftarrow> wait_free len tail c ep;
       if \<not> status_ok st then Some (st, ep)
       else (let addr = mr_addr (br_buffer c) + ucast tail;
               ep = sys_void (Memcpy (addr + 4) buf len) (sys_void (Store addr (ucast len) 4) ep) in do {
         (t, ep) \<leftarrow> sys_load (br_tail c) ep;
         Some (Status0, sys_void (Store (br_tail c) (t + (ucast len + 4)) 8) ep) }) }) })"

text \<open>The functions of the common interface. \<open>SendAsync\<close> turns the status into a result without value.\<close>

definition BufferedReadConnection_GetMemoryRegion ::
    "u64 \<Rightarrow> 'e env_scheme \<Rightarrow> (SendRegion status_or \<times> 'e env_scheme) option" where
  "BufferedReadConnection_GetMemoryRegion sz e = do {
     (a, e) \<leftarrow> sys_addr (Malloc sz) e;
     Some (Inr \<lparr>reg_context = 0, reg_addr = a, reg_length = ucast sz, reg_lkey = 0\<rparr>, sys_void (Memset a sz) e) }"

definition BufferedReadConnection_Free_send :: "SendRegion \<Rightarrow> 'e env_scheme \<Rightarrow> status \<times> 'e env_scheme" where
  "BufferedReadConnection_Free_send region e = (Status0, sys_void (Free_mem (reg_addr region)) e)"

definition BufferedReadConnection_Send_region ::
    "SendRegion \<Rightarrow> buffered_read \<Rightarrow> endpoint \<Rightarrow> (status \<times> endpoint) option" where
  "BufferedReadConnection_Send_region region = BufferedReadConnection_Send (reg_addr region) (reg_length region)"

definition BufferedReadConnection_SendAsync ::
    "SendRegion \<Rightarrow> buffered_read \<Rightarrow> endpoint \<Rightarrow> (u64 status_or \<times> endpoint) option" where
  "BufferedReadConnection_SendAsync region c ep =
     map_option (map_prod Inl id) (BufferedReadConnection_Send (reg_addr region) (reg_length region) c ep)"

definition BufferedReadConnection_Wait :: "u64 \<Rightarrow> status" where
  "BufferedReadConnection_Wait wid = Status0"

section \<open>The receiver\<close>

text \<open>Reading the sender's tail until it is ahead.\<close>

partial_function (option) fetch_tail :: "buffered_read \<Rightarrow> endpoint \<Rightarrow> (status \<times> endpoint) option" where
  "fetch_tail c ep = do {
     (t, ep) \<leftarrow> sys_load (br_remote_tail c) ep;
     if t \<noteq> br_read_ptr c then Some (Status0, ep)
     else do {
       (stat, ep) \<leftarrow> Endpoint_PostRead 8 (mr_lkey (br_remote_meta_data c)) (br_remote_tail c) 8
         (br_remote_tail_addr c) (br_remote_meta_rkey c) ep;
       if \<not> status_ok stat then Some (Wrap ''error posting read to get tail'' stat, ep)
       else do {
         (wc_s, ep) \<leftarrow> Endpoint_PollSendCq ep;
         (case wc_s of
            Inl s \<Rightarrow> Some (Wrap ''error polling send cq to get tail'' s, ep)
          | Inr _ \<Rightarrow> fetch_tail c ep) } } }"

lemmas [code] = fetch_tail.simps

text \<open>Reading everything up to the tail. The status of the post is not looked at.\<close>

definition fetch_data :: "buffered_read \<Rightarrow> endpoint \<Rightarrow> (status \<times> buffered_read \<times> endpoint) option" where
  "fetch_data c ep = do {
     (t, ep) \<leftarrow> sys_load (br_remote_tail c) ep;
     rbuf \<leftarrow> br_remote_buffer c;
     (let len = t - br_read_ptr c; offset = ucast (br_read_ptr c mod ucast (br_remote_buf_len c)) :: u32 in do {
       (_, ep) \<leftarrow> Endpoint_PostRead 8 (mr_lkey rbuf) (mr_addr rbuf + ucast offset) len
         (br_remote_buf_addr c + ucast offset) (br_remote_buf_rkey c) ep;
       (wc_s, ep) \<leftarrow> Endpoint_PollSendCq ep;
       Some (case wc_s of
           Inl s \<Rightarrow> (Wrap ''error polling send cq to move data'' s, c, ep)
         | Inr wc \<Rightarrow> (Status0, c\<lparr>br_sent_msgs := br_sent_msgs c + 1,
                                 br_sent_bytes := br_sent_bytes c + ucast (wc_byte_len wc)\<rparr>, ep)) }) }"

text \<open>The next message in the receiver's ring. \<open>lkey\<close> is 0.\<close>

definition take_message ::
    "buffered_read \<Rightarrow> endpoint \<Rightarrow> (ReceiveRegion status_or \<times> buffered_read \<times> endpoint) option" where
  "take_message c ep = do {
     rbuf \<leftarrow> br_remote_buffer c;
     (let offset = ucast (br_read_ptr c mod ucast (br_remote_buf_len c)) :: u32;
          addr = mr_addr rbuf + ucast offset in do {
       (l, ep) \<leftarrow> sys_load addr ep;
       (let len = ucast l in
        Some (Inr \<lparr>reg_context = addr, reg_addr = addr + 4, reg_length = len, reg_lkey = 0\<rparr>,
          c\<lparr>br_read_ptr := br_read_ptr c + (ucast len + 4), br_outstanding := br_outstanding c @ [addr]\<rparr>, ep)) }) }"

definition BufferedReadConnection_Receive ::
    "buffered_read \<Rightarrow> endpoint \<Rightarrow> (ReceiveRegion status_or \<times> buffered_read \<times> endpoint) option" where
  "BufferedReadConnection_Receive c ep = (if br_remote_buf_len c = 0 then None else do {
     (t, ep) \<leftarrow> sys_load (br_remote_tail c) ep;
     if t \<noteq> br_read_ptr c then take_message c ep
     else do {
       (st, ep) \<leftarrow> fetch_tail c ep;
       if \<not> status_ok st then Some (Inl st, c, ep)
       else do {
         (st, c, ep) \<leftarrow> fetch_data c ep;
         if \<not> status_ok st then Some (Inl st, c, ep) else take_message c ep } } })"

text \<open>
  The head becomes the next region that is not freed: its address, as \<open>outstanding_\<close> holds
  addresses, but the position \<open>read_ptr_\<close> when there is none. \<open>None\<close> when nothing is outstanding.
\<close>

definition free_front :: "u64 \<Rightarrow> buffered_read \<Rightarrow> endpoint \<Rightarrow> endpoint option" where
  "free_front reg_start c ep = (case br_outstanding c of
     [] \<Rightarrow> None
   | front # rest \<Rightarrow> Some (
       if reg_start = front
       then sys_void (Store (br_remote_head c) (case rest of [] \<Rightarrow> br_read_ptr c | a # _ \<Rightarrow> a) 8) ep
       else ep))"

definition BufferedReadConnection_Free ::
    "ReceiveRegion \<Rightarrow> buffered_read \<Rightarrow> endpoint \<Rightarrow> (status \<times> buffered_read \<times> endpoint) option" where
  "BufferedReadConnection_Free reg c ep = do {
     ep \<leftarrow> free_front (reg_context reg) c ep;
     (let c = c\<lparr>br_outstanding := removeAll (reg_context reg) (br_outstanding c)\<rparr> in do {
       (h, ep) \<leftarrow> sys_load (br_remote_head c) ep;
       if \<not> ucast (br_remote_buf_len c div 3) < h - br_acked_head c then Some (Status0, c, ep)
       else do {
         (stat, ep) \<leftarrow> Endpoint_PostWrite 16 (mr_lkey (br_remote_meta_data c)) (br_remote_head c) 8
           (br_remote_head_addr c) (br_remote_meta_rkey c) ep;
         if \<not> status_ok stat then Some (Wrap ''error updating head at remote'' stat, c, ep)
         else do {
           (wc_s, ep) \<leftarrow> Endpoint_PollSendCq ep;
           (case wc_s of
              Inl s \<Rightarrow> Some (Wrap ''error polling send cq to update heaupdate headd'' s, c, ep)
            | Inr _ \<Rightarrow> do {
                (h, ep) \<leftarrow> sys_load (br_remote_head c) ep;
                Some (Status0, c\<lparr>br_acked_head := h\<rparr>, ep) }) } } }) }"

section \<open>Closing\<close>

text \<open>
  The results of the deregistrations are dropped, and the address of the receive buffer is read
  after its region is gone.
\<close>

definition BufferedReadConnection_Close :: "buffered_read \<Rightarrow> endpoint \<Rightarrow> (status \<times> endpoint) option" where
  "BufferedReadConnection_Close c ep = do {
     (st, ep) \<leftarrow> Endpoint_Close ep;
     if \<not> status_ok st then Some (Wrap ''error closing endpoint'' st, ep)
     else do {
       (_, ep) \<leftarrow> sys (Dereg_mr (mr_addr (br_buffer c))) ep;
       (st, ep) \<leftarrow> FreeMagicBuffer (mr_addr (br_buffer c)) (ucast (br_length c)) ep;
       if \<not> status_ok st then Some (Wrap ''error freeing send buffer'' st, ep)
       else do {
         (_, ep) \<leftarrow> sys (Dereg_mr (mr_addr (br_meta_data c))) ep;
         let ep = sys_void (Free_mem (mr_addr (br_meta_data c))) ep;
         rbuf \<leftarrow> br_remote_buffer c;
         (_, ep) \<leftarrow> sys (Dereg_mr (mr_addr rbuf)) ep;
         (st, ep) \<leftarrow> FreeMagicBuffer (mr_addr rbuf) (ucast (br_remote_buf_len c)) ep;
         if \<not> status_ok st then Some (Wrap ''error freeing receive buffer'' st, ep)
         else do {
           (_, ep) \<leftarrow> sys (Dereg_mr (mr_addr (br_remote_meta_data c))) ep;
           Some (Status0, sys_void (Free_mem (mr_addr (br_remote_meta_data c))) ep) } } } }"

section \<open>Setting up\<close>

text \<open>The private data; \<open>p1\<close>, \<open>p2\<close>, \<open>p3\<close> are padding and not initialised.\<close>

record buffered_conn_details =
  cd_meta_rkey :: u32
  cd_head_addr :: u64
  cd_tail_addr :: u64
  cd_buffer_rkey :: u32
  cd_buffer_addr :: u64
  cd_buffer_len :: u32

definition buffered_details_bytes :: "u32 \<times> u32 \<times> u32 \<Rightarrow> buffered_conn_details \<Rightarrow> u8 list" where
  "buffered_details_bytes = (\<lambda>(p1, p2, p3) d. concat (map le32
     [cd_meta_rkey d, p1, ucast (cd_head_addr d), ucast (drop_bit 32 (cd_head_addr d)),
      ucast (cd_tail_addr d), ucast (drop_bit 32 (cd_tail_addr d)), cd_buffer_rkey d, p2,
      ucast (cd_buffer_addr d), ucast (drop_bit 32 (cd_buffer_addr d)), cd_buffer_len d, p3]))"

definition un_le64 :: "u8 list \<Rightarrow> u64" where
  "un_le64 bs = ucast (un_le32 bs) OR push_bit 32 (ucast (un_le32 (drop 4 bs)))"

definition read_buffered_details :: "u8 list \<Rightarrow> buffered_conn_details option" where
  "read_buffered_details bs = (if length bs < 44 then None else Some
     \<lparr>cd_meta_rkey = un_le32 bs, cd_head_addr = un_le64 (drop 8 bs), cd_tail_addr = un_le64 (drop 16 bs),
      cd_buffer_rkey = un_le32 (drop 24 bs), cd_buffer_addr = un_le64 (drop 32 bs),
      cd_buffer_len = un_le32 (drop 40 bs)\<rparr>)"

text \<open>The sender's side: the counters and the ring.\<close>

definition local_buffers :: "'e env_scheme \<Rightarrow> ((ibv_mr \<times> u64 \<times> ibv_mr) status_or \<times> 'e env_scheme) option" where
  "local_buffers e = do {
     (meta_buf, e) \<leftarrow> sys_addr (Malloc 16) e;
     (metadata, e) \<leftarrow> sys_mr (Reg_mr meta_buf 16) (sys_void (Memset meta_buf 16) e);
     (case metadata of
        None \<Rightarrow> Some (Inl (Status Internal (''error '' @ to_string (errno e) @ '' registering metadata MR'')), e)
      | Some md \<Rightarrow> do {
          (mbuf_s, e) \<leftarrow> GetMagicBuffer (ucast default_buffer_size) e;
          (case mbuf_s of
             Inl s \<Rightarrow> do {
               (_, e) \<leftarrow> sys (Dereg_mr (mr_addr md)) (sys_void (Free_mem meta_buf) e);
               Some (Inl (Wrap ''error allocating local send buffer'' s), e) }
           | Inr mbuf \<Rightarrow> do {
               (send_buffer, e) \<leftarrow> sys_mr (Reg_mr mbuf (ucast (2 * default_buffer_size))) e;
               (case send_buffer of
                  None \<Rightarrow> do {
                    (_, e) \<leftarrow> sys (Dereg_mr (mr_addr md)) (sys_void (Free_mem meta_buf) e);
                    (_, e) \<leftarrow> FreeMagicBuffer mbuf (ucast default_buffer_size) e;
                    Some (Inl (Status Internal (''error '' @ to_string (errno e) @ '' registering send buffer MR'')), e) }
                | Some sb \<Rightarrow> Some (Inr (md, mbuf, sb), e)) }) }) }"

definition local_details :: "ibv_mr \<Rightarrow> ibv_mr \<Rightarrow> buffered_conn_details" where
  "local_details md sb = \<lparr>cd_meta_rkey = mr_lkey md, cd_head_addr = mr_addr md, cd_tail_addr = mr_addr md + 8,
     cd_buffer_rkey = mr_lkey sb, cd_buffer_addr = mr_addr sb, cd_buffer_len = default_buffer_size\<rparr>"

definition br_opts :: "u32 \<times> u32 \<times> u32 \<Rightarrow> ibv_mr \<Rightarrow> ibv_mr \<Rightarrow> Options" where
  "br_opts pad md sb = br_default_opts\<lparr>o_private_data := buffered_details_bytes pad (local_details md sb)\<rparr>"

text \<open>
  The receiver's side. Its ring is allocated, but the region that is registered for it is the
  local send buffer \<open>mbuf\<close>. A null region for the counters is dereferenced: \<open>None\<close>.
\<close>

definition remote_buffers ::
    "ibv_mr \<Rightarrow> u64 \<Rightarrow> ibv_mr \<Rightarrow> endpoint \<Rightarrow> ((buffered_read \<times> endpoint) status_or \<times> env) option" where
  "remote_buffers md mbuf sb ep = do {
     d \<leftarrow> read_buffered_details (Endpoint_GetConnectionInfo ep);
     (rmeta_buf, ep) \<leftarrow> sys_addr (Malloc 16) ep;
     (remote_metadata, ep) \<leftarrow> sys_mr (Reg_mr rmeta_buf 16) (sys_void (Memset rmeta_buf 16) ep);
     (mrcvbuf_s, ep) \<leftarrow> GetMagicBuffer (ucast (cd_buffer_len d)) ep;
     (case mrcvbuf_s of
        Inl s \<Rightarrow> Some (Inl (Wrap ''error allocating local send buffer'' s), env.truncate ep)
      | Inr _ \<Rightarrow> do {
          (receive_buffer, ep) \<leftarrow> sys_mr (Reg_mr mbuf (ucast (2 * cd_buffer_len d))) ep;
          rmd \<leftarrow> remote_metadata;
          (let (c, ep) = BufferedReadConnection md sb default_buffer_size rmd (cd_meta_rkey d) (cd_head_addr d)
             (cd_tail_addr d) receive_buffer (cd_buffer_rkey d) (cd_buffer_addr d) (cd_buffer_len d) ep
           in Some (Inr (c, ep), env.truncate ep)) }) }"

definition DialBufferedRead ::
    "u32 \<times> u32 \<times> u32 \<Rightarrow> string \<Rightarrow> int \<Rightarrow> env \<Rightarrow> ((buffered_read \<times> endpoint) status_or \<times> env) option" where
  "DialBufferedRead pad ip port e = do {
     (ep_s, e) \<leftarrow> Create ip (if port = 0 then 18515 else port) br_default_opts e;
     (case ep_s of Inl s \<Rightarrow> Some (Inl (Wrap ''error setting up endpoint'' s), e) | Inr ep \<Rightarrow> do {
       (b, ep) \<leftarrow> local_buffers ep;
       (case b of Inl s \<Rightarrow> Some (Inl s, env.truncate ep) | Inr (md, mbuf, sb) \<Rightarrow> do {
         (stat, ep) \<leftarrow> Endpoint_Connect (br_opts pad md sb) ep;
         if \<not> status_ok stat then Some (Inl (Wrap ''error connecting to remote'' stat), env.truncate ep)
         else remote_buffers md mbuf sb ep }) }) }"

definition BufferedReadListener_Accept ::
    "u32 \<times> u32 \<times> u32 \<Rightarrow> cm_id \<Rightarrow> env \<Rightarrow> ((buffered_read \<times> endpoint) status_or \<times> env) option" where
  "BufferedReadListener_Accept pad lid e = do {
     _ \<leftarrow> Listener_GetPd lid;
     (b, e) \<leftarrow> local_buffers e;
     (case b of Inl s \<Rightarrow> Some (Inl s, e) | Inr (md, mbuf, sb) \<Rightarrow> do {
       (ep_s, e) \<leftarrow> Listener_Accept (br_opts pad md sb) lid e;
       (case ep_s of
          Inl s \<Rightarrow> Some (Inl (Wrap ''error accepting'' s), e)
        | Inr ep \<Rightarrow> remote_buffers md mbuf sb ep) }) }"

definition ListenBufferedRead :: "string \<Rightarrow> int \<Rightarrow> env \<Rightarrow> (cm_id status_or \<times> env) option" where
  "ListenBufferedRead ip port e = Listen ip (if port = 0 then 18515 else port) e"

definition BufferedReadListener_Close :: "env \<Rightarrow> (status \<times> env) option" where
  "BufferedReadListener_Close = Listener_Close"

section \<open>What the sides know of each other\<close>

lemma un_le64_parts [simp]: "un_le64 (le32 (ucast w) @ le32 (ucast (drop_bit 32 w)) @ xs) = w"
  unfolding un_le64_def by (simp, rule bit_word_eqI) (auto simp: bit_simps)

lemma read_details_bytes [simp]: "read_buffered_details (buffered_details_bytes pad d @ rest) = Some d"
  by (cases pad) (simp add: read_buffered_details_def buffered_details_bytes_def)

text \<open>With what the other side sent, the new connection points to the counters and the ring there.\<close>

lemma remote_buffers_connection:
  assumes "remote_buffers md mbuf sb ep = Some (Inr (c, ep'), e)"
    and "Endpoint_GetConnectionInfo ep = buffered_details_bytes pad (local_details md' sb') @ rest"
  shows "br_meta_data c = md \<and> br_buffer c = sb \<and> br_length c = default_buffer_size \<and>
    br_remote_head_addr c = mr_addr md' \<and> br_remote_tail_addr c = mr_addr md' + 8 \<and>
    br_remote_buf_addr c = mr_addr sb' \<and> br_remote_buf_len c = default_buffer_size \<and>
    br_read_ptr c = 0 \<and> br_acked_head c = 0 \<and> br_outstanding c = []"
  using assms
  by (auto simp: remote_buffers_def BufferedReadConnection_def local_details_def elim!: bindE split: sum.splits)

end
