(* ===== verification/Byte_Memory.thy ===== *)
theory Byte_Memory
  imports Buffered_Read
begin

text \<open>
  Memory byte by byte, for a ring that is mapped twice. A host's memory is a map from physical
  addresses to bytes; a view translates the addresses of the program, so that the two halves of a
  mapped ring are the same bytes. The relation \<open>runs\<close> says what a list of calls does to memory.
\<close>

section \<open>Bytes\<close>

type_synonym bytes = "u64 \<Rightarrow> u8"

primrec put :: "(u64 \<Rightarrow> u64) \<Rightarrow> u64 \<Rightarrow> u8 list \<Rightarrow> bytes \<Rightarrow> bytes" where
  "put v a [] m = m"
| "put v a (x # xs) m = put v (a + 1) xs (m(v a := x))"

definition get :: "(u64 \<Rightarrow> u64) \<Rightarrow> u64 \<Rightarrow> nat \<Rightarrow> bytes \<Rightarrow> u8 list" where
  "get v a n m = map (\<lambda>i. m (v (a + of_nat i))) [0..<n]"

definition le64 :: "u64 \<Rightarrow> u8 list" where
  "le64 w = le32 (ucast w) @ le32 (ucast (drop_bit 32 w))"

definition mem_word :: "(u64 \<Rightarrow> u64) \<Rightarrow> u64 \<Rightarrow> bytes \<Rightarrow> u64" where
  "mem_word v a m = un_le64 (get v a 8 m)"

text \<open>A ring of \<open>L\<close> bytes at \<open>b\<close>, mapped once more right behind.\<close>

definition mirror :: "u64 \<Rightarrow> u64 \<Rightarrow> u64 \<Rightarrow> u64" where
  "mirror L b a = (if a - b < 2 * L then b + (a - b) mod L else a)"

lemma length_get [simp]: "length (get v a n m) = n"
  by (simp add: get_def)

lemma nth_get [simp]: "i < n \<Longrightarrow> get v a n m ! i = m (v (a + of_nat i))"
  by (simp add: get_def)

lemma get_cong: "(\<And>i. i < n \<Longrightarrow> m (v (a + of_nat i)) = m' (v (a + of_nat i))) \<Longrightarrow> get v a n m = get v a n m'"
  by (simp add: get_def)

lemma length_le64 [simp]: "length (le64 w) = 8"
  by (simp add: le64_def)

lemma un_le64_le64 [simp]: "un_le64 (le64 w @ xs) = w" "un_le64 (le64 w) = w"
proof -
  have "un_le64 (le64 w @ xs) = w" for xs
    unfolding un_le64_def le64_def
    by (simp, rule bit_word_eqI) (auto simp: bit_simps)
  from this [of xs] this [of "[]"] show "un_le64 (le64 w @ xs) = w" "un_le64 (le64 w) = w" by simp_all
qed

lemma take_le64: "take 4 (le64 (ucast (w :: u32))) = le32 w"
  by (simp add: le64_def)

lemma un_le64_low: "4 \<le> length bs \<Longrightarrow> ucast (un_le64 bs) = un_le32 bs"
  unfolding un_le64_def by (rule bit_word_eqI) (auto simp: bit_simps)

lemma un_le32_take: "un_le32 (le32 w @ xs) = w"
  by simp

lemma put_append: "put v a (xs @ ys) m = put v (a + of_nat (length xs)) ys (put v a xs m)"
  by (induction xs arbitrary: a m) (simp_all add: algebra_simps)

lemma put_other: "(\<And>i. i < length bs \<Longrightarrow> x \<noteq> v (a + of_nat i)) \<Longrightarrow> put v a bs m x = m x"
proof (induction bs arbitrary: a m)
  case (Cons y ys)
  have "put v (a + 1) ys (m(v a := y)) x = (m(v a := y)) x"
  proof (rule Cons.IH)
    fix i assume "i < length ys"
    then show "x \<noteq> v (a + 1 + of_nat i)" using Cons.prems [of "Suc i"] by (simp add: algebra_simps)
  qed
  with Cons.prems [of 0] show ?case by simp
qed simp

lemma put_same:
  assumes "i < length bs" and "\<And>j. j < length bs \<Longrightarrow> j \<noteq> i \<Longrightarrow> v (a + of_nat j) \<noteq> v (a + of_nat i)"
  shows "put v a bs m (v (a + of_nat i)) = bs ! i"
  using assms
proof (induction bs arbitrary: a m i)
  case (Cons y ys)
  show ?case
  proof (cases i)
    case 0
    have "put v (a + 1) ys (m(v a := y)) (v a) = (m(v a := y)) (v a)"
    proof (rule put_other)
      fix j assume "j < length ys"
      then show "v a \<noteq> v (a + 1 + of_nat j)"
        using Cons.prems(2) [of "Suc j"] 0 by (simp add: algebra_simps)
    qed
    with 0 show ?thesis by simp
  next
    case (Suc k)
    have "put v (a + 1) ys (m(v a := y)) (v (a + 1 + of_nat k)) = ys ! k"
    proof (rule Cons.IH)
      show "k < length ys" using Cons.prems(1) Suc by simp
      fix j assume "j < length ys" "j \<noteq> k"
      then show "v (a + 1 + of_nat j) \<noteq> v (a + 1 + of_nat k)"
        using Cons.prems(2) [of "Suc j"] Suc by (simp add: algebra_simps)
    qed
    with Suc show ?thesis by (simp add: algebra_simps)
  qed
qed simp

lemma get_put_same:
  assumes "\<And>i j. i < length bs \<Longrightarrow> j < length bs \<Longrightarrow> i \<noteq> j \<Longrightarrow> v (a + of_nat i) \<noteq> v (a + of_nat j)"
  shows "get v a (length bs) (put v a bs m) = bs"
  using assms by (intro nth_equalityI) (auto intro!: put_same)

section \<open>What calls do\<close>

text \<open>
  \<open>runs v cs ls m rs ws m'\<close>: the calls \<open>cs\<close> on memory \<open>m\<close>, with \<open>ls\<close> the values loaded, leave \<open>m'\<close>.
  \<open>rs\<close> is what the other host's memory held when each read of it was served, and \<open>ws\<close> are the
  bytes written to the other host. Every posted read and write takes effect.
\<close>

fun quiet :: "call \<Rightarrow> bool" where
  "quiet (Load _) = False"
| "quiet (Store _ _ _) = False"
| "quiet (Memcpy _ _ _) = False"
| "quiet (Memset _ _) = False"
| "quiet (Post_send _) = False"
| "quiet _ = True"

definition sge_of :: "send_wr \<Rightarrow> u64 \<times> nat" where
  "sge_of w = (sge_addr (swr_sge w), unat (sge_length (swr_sge w)))"

inductive runs :: "(u64 \<Rightarrow> u64) \<Rightarrow> call list \<Rightarrow> u64 list \<Rightarrow> bytes \<Rightarrow> (u64 \<Rightarrow> u8) list \<Rightarrow> (u64 \<times> u8 list) list \<Rightarrow>
    bytes \<Rightarrow> bool" for v where
  runs_Nil: "runs v [] [] m [] [] m"
| runs_Load: "runs v cs ls m rs ws m' \<Longrightarrow> runs v (Load a # cs) (mem_word v a m # ls) m rs ws m'"
| runs_Store: "runs v cs ls (put v a (take n (le64 x)) m) rs ws m' \<Longrightarrow> runs v (Store a x n # cs) ls m rs ws m'"
| runs_Memcpy: "runs v cs ls (put v d (get v s (unat n) m) m) rs ws m' \<Longrightarrow>
    runs v (Memcpy d s n # cs) ls m rs ws m'"
| runs_Read: "swr_opcode w = WR_RDMA_READ \<Longrightarrow> sge_of w = (a, n) \<Longrightarrow>
    runs v cs ls (put v a (get id (swr_remote_addr w) n r) m) rs ws m' \<Longrightarrow>
    runs v (Post_send [w] # cs) ls m (r # rs) ws m'"
| runs_Write: "swr_opcode w = WR_RDMA_WRITE \<Longrightarrow> sge_of w = (a, n) \<Longrightarrow> runs v cs ls m rs ws m' \<Longrightarrow>
    runs v (Post_send [w] # cs) ls m rs ((swr_remote_addr w, get v a n m) # ws) m'"
| runs_quiet: "quiet c \<Longrightarrow> runs v cs ls m rs ws m' \<Longrightarrow> runs v (c # cs) ls m rs ws m'"

inductive_simps runs_Nil_iff: "runs v [] ls m rs ws m'"
  and runs_Load_iff: "runs v (Load a # cs) ls m rs ws m'"
  and runs_Store_iff: "runs v (Store a x n # cs) ls m rs ws m'"
  and runs_Memcpy_iff: "runs v (Memcpy d s n # cs) ls m rs ws m'"
  and runs_Post_iff: "runs v (Post_send [w] # cs) ls m rs ws m'"

lemmas runs_iffs = runs_Nil_iff runs_Load_iff runs_Store_iff runs_Memcpy_iff runs_Post_iff

definition acts :: "(u64 \<Rightarrow> u64) \<Rightarrow> 'e env_scheme \<Rightarrow> 'e env_scheme \<Rightarrow> bytes \<Rightarrow> (u64 \<Rightarrow> u8) list \<Rightarrow>
    (u64 \<times> u8 list) list \<Rightarrow> bytes \<Rightarrow> bool" where
  "acts v ep ep' m rs ws m' \<longleftrightarrow>
     (\<exists>cs ls. calls ep' = calls ep @ cs \<and> loads ep = ls @ loads ep' \<and> runs v cs ls m rs ws m')"

lemma actsD:
  "acts v ep ep' m rs ws m' \<Longrightarrow> calls ep' = calls ep @ cs \<Longrightarrow> loads ep = ls @ loads ep' \<Longrightarrow>
     runs v cs ls m rs ws m'"
  by (auto simp: acts_def)

lemma runs_waiting:
  "runs v (replicate (length us) (Load a) @ cs) (us @ ls) m rs ws m' \<longleftrightarrow>
     us = replicate (length us) (mem_word v a m) \<and> runs v cs ls m rs ws m'"
proof (induction us)
  case (Cons u us)
  then show ?case by (auto simp: runs_Load_iff)
qed simp

end
