(* ===== verification/Buffered_Read_Calls.thy ===== *)
theory Buffered_Read_Calls
  imports Byte_Memory Remote_Memory
begin

text \<open>
  What the operations of a buffered read connection do to the memory of their host, read off from
  their calls.
\<close>

section \<open>Frames\<close>

lemma runs_Read_D:
  "runs v (Post_send [w] # cs) ls m rs ws m' \<Longrightarrow> swr_opcode w = WR_RDMA_READ \<Longrightarrow> sge_of w = (a, n) \<Longrightarrow>
     swr_remote_addr w = ra \<Longrightarrow> \<exists>r rs'. rs = r # rs' \<and> runs v cs ls (put v a (get id ra n r) m) rs' ws m'"
  by (erule runs.cases) auto

lemma runs_Read_I:
  "swr_opcode w = WR_RDMA_READ \<Longrightarrow> sge_of w = (a, n) \<Longrightarrow> swr_remote_addr w = ra \<Longrightarrow>
    runs v cs ls (put v a (get id ra n r) m) rs ws m' \<Longrightarrow> runs v (Post_send [w] # cs) ls m (r # rs) ws m'"
  by (rule runs_Read) simp_all

lemma runs_Write_D:
  "runs v (Post_send [w] # cs) ls m rs ws m' \<Longrightarrow> swr_opcode w = WR_RDMA_WRITE \<Longrightarrow> sge_of w = (a, n) \<Longrightarrow>
     swr_remote_addr w = ra \<Longrightarrow> \<exists>ws'. ws = (ra, get v a n m) # ws' \<and> runs v cs ls m rs ws' m'"
  by (erule runs.cases) auto

lemma PostSendRaw_one:
  "Endpoint_PostSendRaw [w] ep = Some (st, ep') \<Longrightarrow> calls ep' = calls ep @ [Post_send [w]] \<and> loads ep' = loads ep"
  by (rule PostSendRaw_frame)

lemma PostRead_frame:
  assumes "Endpoint_PostRead ctx lkey addr sz remote_addr rkey ep = Some (st, ep')"
  obtains w where "calls ep' = calls ep @ [Post_send [w]]" "loads ep' = loads ep" "swr_opcode w = WR_RDMA_READ"
    "sge_of w = (addr, unat (ucast sz :: u32))" "swr_remote_addr w = remote_addr"
  using PostSendRaw_one [OF assms [unfolded Endpoint_PostRead_def]]
  by (intro that) (auto simp: sge_of_def send_wr0_def sge_def)

lemma PostWrite_frame:
  assumes "Endpoint_PostWrite ctx lkey addr sz remote_addr rkey ep = Some (st, ep')"
  obtains w where "calls ep' = calls ep @ [Post_send [w]]" "loads ep' = loads ep" "swr_opcode w = WR_RDMA_WRITE"
    "sge_of w = (addr, unat (ucast sz :: u32))" "swr_remote_addr w = remote_addr"
  using PostSendRaw_one [OF assms [unfolded Endpoint_PostWrite_def]]
  by (intro that) (auto simp: sge_of_def send_wr0_def sge_def)

lemma PollSendCq_frame: "Endpoint_PollSendCq ep = Some (wc, ep') \<Longrightarrow> calls ep' = calls ep \<and> loads ep' = loads ep"
  by (simp add: PollSendCq_calls PollSendCq_loads)

lemma PollSendCq_error: "Endpoint_PollSendCq ep = Some (Inl s, ep') \<Longrightarrow> \<not> status_ok s"
  by (auto simp: Endpoint_PollSendCq_def Let_def send_cq_error_def elim!: bindE split: if_splits)

section \<open>Sending\<close>

text \<open>The condition on the offsets of head and tail under which a message is written.\<close>

definition ring_has_room :: "u32 \<Rightarrow> u32 \<Rightarrow> u32 \<Rightarrow> u32 \<Rightarrow> bool" where
  "ring_has_room L head tail len \<longleftrightarrow> \<not> (head = tail \<and> L < len) \<and> \<not> (head < tail \<and> L - tail + head \<le> len) \<and>
     \<not> (tail < head \<and> head - tail \<le> len)"

lemma wait_free_turns:
  assumes "wait_free len tail c ep = Some (st, ep')" and "status_ok st"
  shows "\<exists>us u. calls ep' = calls ep @ replicate (length us) (Load (br_head c)) @ [Load (br_head c)] \<and>
    loads ep = us @ u # loads ep' \<and> ring_has_room (br_length c) (ucast (u mod ucast (br_length c))) tail len"
proof -
  define P where "P = (\<lambda>(len :: u32) (tail :: u32) (c :: buffered_read) (ep :: endpoint) (r :: status \<times> endpoint).
    status_ok (fst r) \<longrightarrow>
    (\<exists>us u. calls (snd r) = calls ep @ replicate (length us) (Load (br_head c)) @ [Load (br_head c)] \<and>
      loads ep = us @ u # loads (snd r) \<and> ring_has_room (br_length c) (ucast (u mod ucast (br_length c))) tail len))"
  have "P len tail c ep (st, ep')"
  proof (rule wait_free.raw_induct [where P = P, OF _ assms(1)])
    fix f len tail c ep r
    assume IH: "\<And>len tail c ep r. f len tail c ep = Some r \<Longrightarrow> P len tail c ep r"
      and step: "sys_load (br_head c) ep \<bind> (\<lambda>(h, ep).
        let head = ucast (h mod ucast (br_length c)) in
        if head = tail \<and> br_length c < len then Some (Status Unknown ''message larger then buffer'', ep)
        else if head < tail \<and> br_length c - tail + head \<le> len then f len tail c ep
        else if tail < head \<and> head - tail \<le> len then f len tail c ep
        else Some (Status0, ep)) = Some r"
    obtain h ep1 where l: "sys_load (br_head c) ep = Some (h, ep1)"
      and s: "(let head = ucast (h mod ucast (br_length c)) in
        if head = tail \<and> br_length c < len then Some (Status Unknown ''message larger then buffer'', ep1)
        else if head < tail \<and> br_length c - tail + head \<le> len then f len tail c ep1
        else if tail < head \<and> head - tail \<le> len then f len tail c ep1
        else Some (Status0, ep1)) = Some r"
      using step by (rule bindE) (simp only: split_paired_all prod.case)
    note lf = load_frame [OF l]
    define hd where "hd = (ucast (h mod ucast (br_length c)) :: u32)"
    show "P len tail c ep r"
    proof (cases "ring_has_room (br_length c) hd tail len")
      case True
      with s have "r = (Status0, ep1)" by (auto simp: ring_has_room_def hd_def Let_def split: if_splits)
      with True lf show ?thesis unfolding P_def hd_def by (intro impI exI [of _ "[]"] exI [of _ h]) simp
    next
      case False
      show ?thesis
      proof (cases "hd = tail \<and> br_length c < len")
        case True
        with s show ?thesis by (auto simp: P_def hd_def [symmetric] Let_def)
      next
        case False
        with \<open>\<not> ring_has_room _ _ _ _\<close> s have "f len tail c ep1 = Some r"
          by (auto simp: ring_has_room_def hd_def [symmetric] Let_def split: if_splits)
        then have "P len tail c ep1 r" by (rule IH)
        then show ?thesis unfolding P_def
        proof (intro impI, elim impE exE conjE)
          fix us u
          assume q: "calls (snd r) = calls ep1 @ replicate (length us) (Load (br_head c)) @ [Load (br_head c)]"
            "loads ep1 = us @ u # loads (snd r)" "ring_has_room (br_length c) (ucast (u mod ucast (br_length c))) tail len"
          show "\<exists>us u. calls (snd r) = calls ep @ replicate (length us) (Load (br_head c)) @ [Load (br_head c)] \<and>
            loads ep = us @ u # loads (snd r) \<and> ring_has_room (br_length c) (ucast (u mod ucast (br_length c))) tail len"
            using q lf by (intro exI [of _ "h # us"] exI [of _ u]) simp
        qed
      qed
    qed
  qed
  with assms(2) show ?thesis by (simp add: P_def)
qed

lemma Send_runs:
  assumes "BufferedReadConnection_Send buf len c ep = Some (st, ep')" and "status_ok st"
    and "acts v ep ep' m rs ws m'"
  defines "t \<equiv> mem_word v (br_tail c) m"
  defines "tail \<equiv> ucast (t mod ucast (br_length c)) :: u32"
  defines "a \<equiv> mr_addr (br_buffer c) + ucast tail"
  defines "m1 \<equiv> put v a (le32 len) m"
  defines "m2 \<equiv> put v (a + 4) (get v buf (unat len) m1) m1"
  shows "ring_has_room (br_length c) (ucast (mem_word v (br_head c) m mod ucast (br_length c))) tail len"
    and "m' = put v (br_tail c) (le64 (mem_word v (br_tail c) m2 + (ucast len + 4))) m2"
    and "rs = []" and "ws = []"
proof -
  have L: "br_length c \<noteq> 0" using assms(1) by (auto simp: BufferedReadConnection_Send_def)
  from assms(1) L obtain t0 ep1 where l1: "sys_load (br_tail c) ep = Some (t0, ep1)" and s1:
    "(let tail = ucast (t0 mod ucast (br_length c)) in do {
       (st, ep) \<leftarrow> wait_free len tail c ep1;
       if \<not> status_ok st then Some (st, ep)
       else (let addr = mr_addr (br_buffer c) + ucast tail;
               ep = sys_void (Memcpy (addr + 4) buf len) (sys_void (Store addr (ucast len) 4) ep) in do {
         (t, ep) \<leftarrow> sys_load (br_tail c) ep;
         Some (Status0, sys_void (Store (br_tail c) (t + (ucast len + 4)) 8) ep) }) }) = Some (st, ep')"
    unfolding BufferedReadConnection_Send_def by (simp only: if_False) (erule bindE, simp only: split_paired_all prod.case)
  define tl where "tl = (ucast (t0 mod ucast (br_length c)) :: u32)"
  define ad where "ad = mr_addr (br_buffer c) + ucast tl"
  from s1 obtain st2 ep2 where w: "wait_free len tl c ep1 = Some (st2, ep2)" and s2:
    "(if \<not> status_ok st2 then Some (st2, ep2)
       else do {
         (t, ep) \<leftarrow> sys_load (br_tail c) (sys_void (Memcpy (ad + 4) buf len) (sys_void (Store ad (ucast len) 4) ep2));
         Some (Status0, sys_void (Store (br_tail c) (t + (ucast len + 4)) 8) ep) }) = Some (st, ep')"
    unfolding Let_def tl_def ad_def by (rule bindE) (simp only: split_paired_all prod.case)
  have ok2: "status_ok st2" using s2 assms(2) by (cases "status_ok st2") auto
  with s2 obtain t2 ep3 where l2: "sys_load (br_tail c) (sys_void (Memcpy (ad + 4) buf len) (sys_void (Store ad (ucast len) 4) ep2)) = Some (t2, ep3)"
    and e: "ep' = sys_void (Store (br_tail c) (t2 + (ucast len + 4)) 8) ep3"
    by (auto elim!: bindE)
  obtain us u where wf: "calls ep2 = calls ep1 @ replicate (length us) (Load (br_head c)) @ [Load (br_head c)]"
    "loads ep1 = us @ u # loads ep2" "ring_has_room (br_length c) (ucast (u mod ucast (br_length c))) tl len"
    using wait_free_turns [OF w ok2] by blast
  have cs: "calls ep' = calls ep @ (Load (br_tail c) # (replicate (length us) (Load (br_head c)) @
      (Load (br_head c) # [Store ad (ucast len) 4, Memcpy (ad + 4) buf len, Load (br_tail c),
       Store (br_tail c) (t2 + (ucast len + 4)) 8])))"
    using load_frame [OF l1] load_frame [OF l2] wf(1) e by simp
  have ls: "loads ep = (t0 # (us @ (u # [t2]))) @ loads ep'"
    using load_frame [OF l1] load_frame [OF l2] wf(2) e by simp
  from actsD [OF assms(3) cs ls] have r: "t0 = mem_word v (br_tail c) m" "u = mem_word v (br_head c) m"
     "runs v [Load (br_tail c), Store (br_tail c) (t2 + (ucast len + 4)) 8] [t2]
        (put v (ad + 4) (get v buf (unat len) (put v ad (le32 len) m)) (put v ad (le32 len) m)) rs ws m'"
    by (auto simp: runs_Load_iff runs_waiting runs_Store_iff runs_Memcpy_iff take_le64)
  have tl: "tl = tail" "ad = a" by (simp_all add: tl_def tail_def t_def r(1) ad_def a_def)
  show "ring_has_room (br_length c) (ucast (mem_word v (br_head c) m mod ucast (br_length c))) tail len"
    using wf(3) r(2) tl by simp
  from r(3) [unfolded tl, folded m1_def, folded m2_def]
  show "m' = put v (br_tail c) (le64 (mem_word v (br_tail c) m2 + (ucast len + 4))) m2" and "rs = []" and "ws = []"
    by (auto simp: runs_iffs)
qed

section \<open>Receiving\<close>

text \<open>
  After \<open>fetch_tail\<close>, with the calls \<open>cs2\<close> still to come: only the copy of the tail has changed. It is
  the old one, or what the last read of the other side's tail has brought.
\<close>

definition tail_fetched ::
    "buffered_read \<Rightarrow> (u64 \<Rightarrow> u64) \<Rightarrow> bytes \<Rightarrow> (u64 \<Rightarrow> u8) list \<Rightarrow> bytes \<Rightarrow> bool" where
  "tail_fetched c v m rs m1 \<longleftrightarrow> mem_word v (br_remote_tail c) m1 \<noteq> br_read_ptr c \<and>
     (\<forall>x. (\<forall>i < 8. x \<noteq> v (br_remote_tail c + of_nat i)) \<longrightarrow> m1 x = m x) \<and>
     (rs = [] \<and> m1 = m \<or> (\<exists>rs0 r m0. rs = rs0 @ [r] \<and>
        m1 = put v (br_remote_tail c) (get id (br_remote_tail_addr c) 8 r) m0))"

definition tail_continues :: "buffered_read \<Rightarrow> call list \<Rightarrow> u64 list \<Rightarrow> bool" where
  "tail_continues c cs ls \<longleftrightarrow> (\<forall>cs2 ls2 v m rs ws m'. runs v (cs @ cs2) (ls @ ls2) m rs ws m' \<longrightarrow>
     (\<exists>m1 rs1 rs2. rs = rs1 @ rs2 \<and> tail_fetched c v m rs1 m1 \<and> runs v cs2 ls2 m1 rs2 ws m'))"

lemma tail_continues_ready:
  assumes "t \<noteq> br_read_ptr c"
  shows "tail_continues c [Load (br_remote_tail c)] [t]"
  unfolding tail_continues_def
proof (intro allI impI)
  fix cs2 ls2 v m rs ws m'
  assume "runs v ([Load (br_remote_tail c)] @ cs2) ([t] @ ls2) m rs ws m'"
  with assms show "\<exists>m1 rs1 rs2. rs = rs1 @ rs2 \<and> tail_fetched c v m rs1 m1 \<and> runs v cs2 ls2 m1 rs2 ws m'"
    by (intro exI [of _ m] exI [of _ "[]"] exI [of _ rs]) (auto simp: runs_Load_iff tail_fetched_def)
qed

lemma tail_continues_again:
  assumes "tail_continues c cs ls" and "swr_opcode w = WR_RDMA_READ" "sge_of w = (br_remote_tail c, 8)"
    "swr_remote_addr w = br_remote_tail_addr c"
  shows "tail_continues c (Load (br_remote_tail c) # Post_send [w] # cs) (t # ls)"
  unfolding tail_continues_def
proof (intro allI impI)
  fix cs2 ls2 v m rs ws m'
  let ?new = "\<lambda>r. put v (br_remote_tail c) (get id (br_remote_tail_addr c) 8 r) m"
  assume "runs v ((Load (br_remote_tail c) # Post_send [w] # cs) @ cs2) ((t # ls) @ ls2) m rs ws m'"
  then have "runs v (Post_send [w] # cs @ cs2) (ls @ ls2) m rs ws m'"
    by (simp add: runs_Load_iff)
  from runs_Read_D [OF this assms(2-4)]
  obtain r rs' where rs: "rs = r # rs'" and n: "runs v (cs @ cs2) (ls @ ls2) (?new r) rs' ws m'" by blast
  from assms(1) [unfolded tail_continues_def, rule_format, OF n]
  obtain m1 rs1 rs2 where i: "rs' = rs1 @ rs2" "tail_fetched c v (?new r) rs1 m1" "runs v cs2 ls2 m1 rs2 ws m'" by blast
  have "tail_fetched c v m (r # rs1) m1"
    unfolding tail_fetched_def
  proof (intro conjI allI impI)
    show "mem_word v (br_remote_tail c) m1 \<noteq> br_read_ptr c" using i(2) by (simp add: tail_fetched_def)
    fix x assume "\<forall>i < 8. x \<noteq> v (br_remote_tail c + of_nat i)"
    moreover from this have "?new r x = m x" by (intro put_other) simp
    ultimately show "m1 x = m x" using i(2) unfolding tail_fetched_def by metis
  next
    have "(rs1 = [] \<and> m1 = ?new r) \<or> (\<exists>rs0 r m0. rs1 = rs0 @ [r] \<and>
        m1 = put v (br_remote_tail c) (get id (br_remote_tail_addr c) 8 r) m0)"
      using i(2) by (simp only: tail_fetched_def)
    then show "r # rs1 = [] \<and> m1 = m \<or> (\<exists>rs0 r' m0. r # rs1 = rs0 @ [r'] \<and>
        m1 = put v (br_remote_tail c) (get id (br_remote_tail_addr c) 8 r') m0)"
      by (metis append_Cons append_Nil)
  qed
  with rs i show "\<exists>m1 rs1 rs2. rs = rs1 @ rs2 \<and> tail_fetched c v m rs1 m1 \<and> runs v cs2 ls2 m1 rs2 ws m'"
    by (intro exI [of _ m1] exI [of _ "r # rs1"] exI [of _ rs2]) simp
qed

lemma fetch_tail_turns:
  assumes "fetch_tail c ep = Some (st, ep')" and "status_ok st"
  shows "\<exists>cs ls. calls ep' = calls ep @ cs \<and> loads ep = ls @ loads ep' \<and> tail_continues c cs ls"
proof -
  define P where "P = (\<lambda>(c :: buffered_read) (ep :: endpoint) (r :: status \<times> endpoint). status_ok (fst r) \<longrightarrow>
    (\<exists>cs ls. calls (snd r) = calls ep @ cs \<and> loads ep = ls @ loads (snd r) \<and> tail_continues c cs ls))"
  have "P c ep (st, ep')"
  proof (rule fetch_tail.raw_induct [where P = P, OF _ assms(1)])
    fix f c ep r
    assume IH: "\<And>c ep r. f c ep = Some r \<Longrightarrow> P c ep r"
      and step: "sys_load (br_remote_tail c) ep \<bind> (\<lambda>(t, ep).
        if t \<noteq> br_read_ptr c then Some (Status0, ep)
        else Endpoint_PostRead 8 (mr_lkey (br_remote_meta_data c)) (br_remote_tail c) 8
               (br_remote_tail_addr c) (br_remote_meta_rkey c) ep \<bind> (\<lambda>(stat, ep).
          if \<not> status_ok stat then Some (Wrap ''error posting read to get tail'' stat, ep)
          else Endpoint_PollSendCq ep \<bind> (\<lambda>(wc_s, ep). case wc_s of
             Inl s \<Rightarrow> Some (Wrap ''error polling send cq to get tail'' s, ep)
           | Inr _ \<Rightarrow> f c ep))) = Some r"
    obtain t ep1 where l: "sys_load (br_remote_tail c) ep = Some (t, ep1)"
      and s1: "(if t \<noteq> br_read_ptr c then Some (Status0, ep1)
        else Endpoint_PostRead 8 (mr_lkey (br_remote_meta_data c)) (br_remote_tail c) 8
               (br_remote_tail_addr c) (br_remote_meta_rkey c) ep1 \<bind> (\<lambda>(stat, ep).
          if \<not> status_ok stat then Some (Wrap ''error posting read to get tail'' stat, ep)
          else Endpoint_PollSendCq ep \<bind> (\<lambda>(wc_s, ep). case wc_s of
             Inl s \<Rightarrow> Some (Wrap ''error polling send cq to get tail'' s, ep)
           | Inr _ \<Rightarrow> f c ep))) = Some r"
      using step by (rule bindE) (simp only: split_paired_all prod.case)
    note lf = load_frame [OF l]
    show "P c ep r"
    proof (cases "t = br_read_ptr c")
      case False
      with s1 lf tail_continues_ready [OF False] show ?thesis
        by (auto simp: P_def intro!: exI [of _ "[Load (br_remote_tail c)]"] exI [of _ "[t]"])
    next
      case True
      with s1 obtain stat ep2 where pr: "Endpoint_PostRead 8 (mr_lkey (br_remote_meta_data c)) (br_remote_tail c) 8
               (br_remote_tail_addr c) (br_remote_meta_rkey c) ep1 = Some (stat, ep2)"
        and s2: "(if \<not> status_ok stat then Some (Wrap ''error posting read to get tail'' stat, ep2)
          else Endpoint_PollSendCq ep2 \<bind> (\<lambda>(wc_s, ep). case wc_s of
             Inl s \<Rightarrow> Some (Wrap ''error polling send cq to get tail'' s, ep)
           | Inr _ \<Rightarrow> f c ep)) = Some r"
        by (simp only: simp_thms if_False) (erule bindE, simp only: split_paired_all prod.case)
      obtain w where w: "calls ep2 = calls ep1 @ [Post_send [w]]" "loads ep2 = loads ep1" "swr_opcode w = WR_RDMA_READ"
        "sge_of w = (br_remote_tail c, 8)" "swr_remote_addr w = br_remote_tail_addr c"
        by (rule PostRead_frame [OF pr], rule that) simp_all
      show ?thesis
      proof (cases "status_ok stat")
        case False
        with s2 show ?thesis by (auto simp: P_def)
      next
        case True
        with s2 obtain wc_s ep3 where p: "Endpoint_PollSendCq ep2 = Some (wc_s, ep3)"
          and s3: "(case wc_s of Inl s \<Rightarrow> Some (Wrap ''error polling send cq to get tail'' s, ep3) | Inr _ \<Rightarrow> f c ep3) = Some r"
          by (simp only: simp_thms if_False) (erule bindE, simp only: split_paired_all prod.case)
        note pf = PollSendCq_frame [OF p]
        show ?thesis unfolding P_def
        proof (cases wc_s)
          case (Inl s)
          with s3 PollSendCq_error [OF p [unfolded Inl]] show "status_ok (fst r) \<longrightarrow> (\<exists>cs ls. calls (snd r) = calls ep @ cs \<and>
            loads ep = ls @ loads (snd r) \<and> tail_continues c cs ls)" by auto
        next
          case (Inr wc)
          with s3 have "P c ep3 r" by (simp add: IH)
          then show "status_ok (fst r) \<longrightarrow> (\<exists>cs ls. calls (snd r) = calls ep @ cs \<and>
            loads ep = ls @ loads (snd r) \<and> tail_continues c cs ls)"
            unfolding P_def
          proof (intro impI, elim impE exE conjE)
            fix cs ls
            assume q: "calls (snd r) = calls ep3 @ cs" "loads ep3 = ls @ loads (snd r)" "tail_continues c cs ls"
            show "\<exists>cs ls. calls (snd r) = calls ep @ cs \<and> loads ep = ls @ loads (snd r) \<and> tail_continues c cs ls"
              using q(1,2) lf w(1,2) pf tail_continues_again [OF q(3) w(3-5), of t]
              by (intro exI [of _ "Load (br_remote_tail c) # Post_send [w] # cs"] exI [of _ "t # ls"]) simp
          qed
        qed
      qed
    qed
  qed
  with assms(2) show ?thesis by (simp add: P_def)
qed

definition ring_addr :: "ibv_mr \<Rightarrow> buffered_read \<Rightarrow> u64" where
  "ring_addr rbuf c = mr_addr rbuf + ucast (ucast (br_read_ptr c mod ucast (br_remote_buf_len c)) :: u32)"

lemma take_message_calls:
  assumes "take_message c ep = Some (Inr region, c', ep')" and "br_remote_buffer c = Some rbuf"
  shows "\<exists>l. calls ep' = calls ep @ [Load (ring_addr rbuf c)] \<and> loads ep = l # loads ep' \<and>
    region = \<lparr>reg_context = ring_addr rbuf c, reg_addr = ring_addr rbuf c + 4, reg_length = ucast l, reg_lkey = 0\<rparr> \<and>
    c' = c\<lparr>br_read_ptr := br_read_ptr c + (ucast (ucast l :: u32) + 4),
           br_outstanding := br_outstanding c @ [ring_addr rbuf c]\<rparr>"
  using assms by (auto simp: take_message_def ring_addr_def Let_def elim!: bindE dest!: load_frame)

text \<open>What is read of the sender's ring goes to the same offset of the receiver's.\<close>

lemma fetch_data_calls:
  assumes "fetch_data c ep = Some (st, c', ep')" and "status_ok st" and "br_remote_buffer c = Some rbuf"
  shows "\<exists>t w n b. calls ep' = calls ep @ [Load (br_remote_tail c), Post_send [w]] \<and> loads ep = t # loads ep' \<and>
    swr_opcode w = WR_RDMA_READ \<and> sge_of w = (ring_addr rbuf c, unat (ucast (t - br_read_ptr c) :: u32)) \<and>
    swr_remote_addr w = ring_addr (rbuf\<lparr>mr_addr := br_remote_buf_addr c\<rparr>) c \<and>
    c' = c\<lparr>br_sent_msgs := n, br_sent_bytes := b\<rparr>"
proof -
  let ?off = "ucast (br_read_ptr c mod ucast (br_remote_buf_len c)) :: u32"
  from assms(1,3) obtain t ep1 where l: "sys_load (br_remote_tail c) ep = Some (t, ep1)" and s1:
    "do { (_, ep) \<leftarrow> Endpoint_PostRead 8 (mr_lkey rbuf) (mr_addr rbuf + ucast ?off) (t - br_read_ptr c)
           (br_remote_buf_addr c + ucast ?off) (br_remote_buf_rkey c) ep1;
         (wc_s, ep) \<leftarrow> Endpoint_PollSendCq ep;
         Some (case wc_s of
           Inl s \<Rightarrow> (Wrap ''error polling send cq to move data'' s, c, ep)
         | Inr wc \<Rightarrow> (Status0, c\<lparr>br_sent_msgs := br_sent_msgs c + 1,
                                 br_sent_bytes := br_sent_bytes c + ucast (wc_byte_len wc)\<rparr>, ep)) } = Some (st, c', ep')"
    unfolding fetch_data_def Let_def by (auto elim!: bindE)
  from s1 obtain p ep2 where pr: "Endpoint_PostRead 8 (mr_lkey rbuf) (mr_addr rbuf + ucast ?off) (t - br_read_ptr c)
           (br_remote_buf_addr c + ucast ?off) (br_remote_buf_rkey c) ep1 = Some (p, ep2)" and s2:
     "do { (wc_s, ep) \<leftarrow> Endpoint_PollSendCq ep2;
         Some (case wc_s of
           Inl s \<Rightarrow> (Wrap ''error polling send cq to move data'' s, c, ep)
         | Inr wc \<Rightarrow> (Status0, c\<lparr>br_sent_msgs := br_sent_msgs c + 1,
                                 br_sent_bytes := br_sent_bytes c + ucast (wc_byte_len wc)\<rparr>, ep)) } = Some (st, c', ep')"
    by (rule bindE) (simp only: split_paired_all prod.case)
  from s2 assms(2) obtain wc where po: "Endpoint_PollSendCq ep2 = Some (Inr wc, ep')"
    and c': "c' = c\<lparr>br_sent_msgs := br_sent_msgs c + 1, br_sent_bytes := br_sent_bytes c + ucast (wc_byte_len wc)\<rparr>"
    using PollSendCq_error by (fastforce elim!: bindE split: sum.splits)
  obtain w where w: "calls ep2 = calls ep1 @ [Post_send [w]]" "loads ep2 = loads ep1" "swr_opcode w = WR_RDMA_READ"
    "sge_of w = (mr_addr rbuf + ucast ?off, unat (ucast (t - br_read_ptr c) :: u32))"
    "swr_remote_addr w = br_remote_buf_addr c + ucast ?off"
    by (rule PostRead_frame [OF pr])
  show ?thesis
    using load_frame [OF l] w PollSendCq_frame [OF po] c'
    by (intro exI [of _ t] exI [of _ w] exI [of _ "br_sent_msgs c + 1"] exI [of _ "br_sent_bytes c + ucast (wc_byte_len wc)"])
       (simp add: ring_addr_def)
qed

text \<open>
  \<open>fetched\<close>: the receiver's memory before and after, with \<open>r1\<close> the sender's memory when the tail was
  read and \<open>r2\<close> when the data were.
\<close>

definition fetched ::
    "buffered_read \<Rightarrow> ibv_mr \<Rightarrow> (u64 \<Rightarrow> u64) \<Rightarrow> bytes \<Rightarrow> (u64 \<Rightarrow> u8) \<Rightarrow> (u64 \<Rightarrow> u8) \<Rightarrow> bytes \<Rightarrow> bool" where
  "fetched c rbuf v m r1 r2 m' \<longleftrightarrow> (\<exists>m0 m1. m1 = put v (br_remote_tail c) (get id (br_remote_tail_addr c) 8 r1) m0 \<and>
     (\<forall>x. (\<forall>i < 8. x \<noteq> v (br_remote_tail c + of_nat i)) \<longrightarrow> m1 x = m x) \<and>
     mem_word v (br_remote_tail c) m1 \<noteq> br_read_ptr c \<and>
     m' = put v (ring_addr rbuf c) (get id (ring_addr (rbuf\<lparr>mr_addr := br_remote_buf_addr c\<rparr>) c)
       (unat (ucast (mem_word v (br_remote_tail c) m1 - br_read_ptr c) :: u32)) r2) m1)"

lemma Receive_acts:
  assumes "BufferedReadConnection_Receive c ep = Some (Inr region, c', ep')" and "acts v ep ep' m rs ws m'"
    and "br_remote_buffer c = Some rbuf"
  defines "a \<equiv> ring_addr rbuf c"
  defines "len \<equiv> ucast (mem_word v a m') :: u32"
  shows "ws = []" and "region = \<lparr>reg_context = a, reg_addr = a + 4, reg_length = len, reg_lkey = 0\<rparr>"
    and "\<exists>x y. c' = c\<lparr>br_sent_msgs := x, br_sent_bytes := y, br_read_ptr := br_read_ptr c + (ucast len + 4),
      br_outstanding := br_outstanding c @ [a]\<rparr>"
    and "if mem_word v (br_remote_tail c) m = br_read_ptr c
      then \<exists>rs0 r1 r2. rs = rs0 @ [r1, r2] \<and> fetched c rbuf v m r1 r2 m' else rs = [] \<and> m' = m"
proof -
  have L: "br_remote_buf_len c \<noteq> 0" using assms(1) by (auto simp: BufferedReadConnection_Receive_def)
  from assms(1) L obtain t ep1 where l: "sys_load (br_remote_tail c) ep = Some (t, ep1)" and s1:
    "(if t \<noteq> br_read_ptr c then take_message c ep1
     else do {
       (st, ep) \<leftarrow> fetch_tail c ep1;
       if \<not> status_ok st then Some (Inl st, c, ep)
       else do {
         (st, c, ep) \<leftarrow> fetch_data c ep;
         if \<not> status_ok st then Some (Inl st, c, ep) else take_message c ep } }) = Some (Inr region, c', ep')"
    unfolding BufferedReadConnection_Receive_def by (simp only: if_False) (erule bindE, simp only: split_paired_all prod.case)
  note lf = load_frame [OF l]
  let ?goal = "ws = [] \<and> region = \<lparr>reg_context = a, reg_addr = a + 4, reg_length = len, reg_lkey = 0\<rparr> \<and>
    (\<exists>x y. c' = c\<lparr>br_sent_msgs := x, br_sent_bytes := y, br_read_ptr := br_read_ptr c + (ucast len + 4),
      br_outstanding := br_outstanding c @ [a]\<rparr>) \<and>
    (if mem_word v (br_remote_tail c) m = br_read_ptr c
      then \<exists>rs0 r1 r2. rs = rs0 @ [r1, r2] \<and> fetched c rbuf v m r1 r2 m' else rs = [] \<and> m' = m)"
  have ?goal
  proof (cases "t = br_read_ptr c")
    case False
    with s1 have "take_message c ep1 = Some (Inr region, c', ep')" by simp
    from take_message_calls [OF this assms(3)] obtain x where tm: "calls ep' = calls ep1 @ [Load a]" "loads ep1 = x # loads ep'"
      "region = \<lparr>reg_context = a, reg_addr = a + 4, reg_length = ucast x, reg_lkey = 0\<rparr>"
      "c' = c\<lparr>br_read_ptr := br_read_ptr c + (ucast (ucast x :: u32) + 4), br_outstanding := br_outstanding c @ [a]\<rparr>"
      unfolding a_def by blast
    have "calls ep' = calls ep @ [Load (br_remote_tail c), Load a]" "loads ep = [t, x] @ loads ep'" using tm lf by simp_all
    from actsD [OF assms(2) this] have "t = mem_word v (br_remote_tail c) m" "x = mem_word v a m'" "rs = []" "ws = []" "m' = m"
      by (auto simp: runs_Load_iff runs_Nil_iff)
    with tm(3,4) False show ?thesis
      by (auto simp: len_def intro!: exI [of _ "br_sent_msgs c", OF exI [of _ "br_sent_bytes c"]])
  next
    case True
    with s1 obtain st2 ep2 where ft: "fetch_tail c ep1 = Some (st2, ep2)" and s2:
      "(if \<not> status_ok st2 then Some (Inl st2, c, ep2)
       else do {
         (st, c, ep) \<leftarrow> fetch_data c ep2;
         if \<not> status_ok st then Some (Inl st, c, ep) else take_message c ep }) = Some (Inr region, c', ep')"
      by (simp only: simp_thms if_False) (erule bindE, simp only: split_paired_all prod.case)
    have ok2: "status_ok st2" using s2 by (cases "status_ok st2") simp_all
    with s2 obtain st3 c3 ep3 where fd: "fetch_data c ep2 = Some (st3, c3, ep3)" and s3:
      "(if \<not> status_ok st3 then Some (Inl st3, c3, ep3) else take_message c3 ep3) = Some (Inr region, c', ep')"
      by (simp only: simp_thms if_False) (erule bindE, simp only: split_paired_all prod.case)
    have ok3: "status_ok st3" using s3 by (cases "status_ok st3") simp_all
    from fetch_tail_turns [OF ft ok2] obtain cs ls where tt: "calls ep2 = calls ep1 @ cs" "loads ep1 = ls @ loads ep2"
      "tail_continues c cs ls" by blast
    from fetch_data_calls [OF fd ok3 assms(3)] obtain u w nn bb where d: "calls ep3 = calls ep2 @ [Load (br_remote_tail c), Post_send [w]]"
      "loads ep2 = u # loads ep3" "swr_opcode w = WR_RDMA_READ" "sge_of w = (a, unat (ucast (u - br_read_ptr c) :: u32))"
      "swr_remote_addr w = ring_addr (rbuf\<lparr>mr_addr := br_remote_buf_addr c\<rparr>) c"
      "c3 = c\<lparr>br_sent_msgs := nn, br_sent_bytes := bb\<rparr>" unfolding a_def by blast
    have a3: "ring_addr rbuf c3 = a" and b3: "br_remote_buffer c3 = Some rbuf"
      using d(6) assms(3) by (simp_all add: a_def ring_addr_def)
    from s3 ok3 have "take_message c3 ep3 = Some (Inr region, c', ep')" by simp
    from take_message_calls [OF this b3] obtain x where tm: "calls ep' = calls ep3 @ [Load a]" "loads ep3 = x # loads ep'"
      "region = \<lparr>reg_context = a, reg_addr = a + 4, reg_length = ucast x, reg_lkey = 0\<rparr>"
      "c' = c3\<lparr>br_read_ptr := br_read_ptr c3 + (ucast (ucast x :: u32) + 4), br_outstanding := br_outstanding c3 @ [a]\<rparr>"
      unfolding a3 by blast
    have "calls ep' = calls ep @ (Load (br_remote_tail c) # (cs @ [Load (br_remote_tail c), Post_send [w], Load a]))"
      "loads ep = (t # (ls @ [u, x])) @ loads ep'" using tm lf tt d by simp_all
    from actsD [OF assms(2) this] have t: "t = mem_word v (br_remote_tail c) m"
      and r: "runs v (cs @ [Load (br_remote_tail c), Post_send [w], Load a]) (ls @ [u, x]) m rs ws m'"
      by (auto simp: runs_Load_iff)
    from tt(3) [unfolded tail_continues_def, rule_format, OF r]
    obtain m1 rs1 rs2 where i: "rs = rs1 @ rs2" "tail_fetched c v m rs1 m1"
      "runs v [Load (br_remote_tail c), Post_send [w], Load a] [u, x] m1 rs2 ws m'" by blast
    from i(3) have u: "u = mem_word v (br_remote_tail c) m1" and r2: "runs v [Post_send [w], Load a] [x] m1 rs2 ws m'"
      by (auto simp: runs_Load_iff)
    from runs_Read_D [OF r2 d(3-5)] obtain r rs3 where rs2: "rs2 = r # rs3" and r3: "runs v [Load a] [x]
      (put v a (get id (ring_addr (rbuf\<lparr>mr_addr := br_remote_buf_addr c\<rparr>) c) (unat (ucast (u - br_read_ptr c) :: u32)) r) m1) rs3 ws m'"
      by blast
    then have x: "x = mem_word v a m'" and e: "rs3 = []" "ws = []" and m': "m' = put v a
      (get id (ring_addr (rbuf\<lparr>mr_addr := br_remote_buf_addr c\<rparr>) c) (unat (ucast (u - br_read_ptr c) :: u32)) r) m1"
      by (auto simp: runs_Load_iff runs_Nil_iff)
    have tq: "mem_word v (br_remote_tail c) m = br_read_ptr c" using True t by simp
    from i(2) obtain rs0 r1 m0 where f: "rs1 = rs0 @ [r1]" "m1 = put v (br_remote_tail c) (get id (br_remote_tail_addr c) 8 r1) m0"
      unfolding tail_fetched_def using tq by blast
    have "fetched c rbuf v m r1 r m'"
      unfolding fetched_def using f(2) i(2) m' by (intro exI [of _ m0] exI [of _ m1]) (simp add: tail_fetched_def a_def u)
    moreover have "rs = rs0 @ [r1, r]" using i(1) f(1) rs2 e by simp
    moreover have "\<exists>x y. c' = c\<lparr>br_sent_msgs := x, br_sent_bytes := y, br_read_ptr := br_read_ptr c + (ucast len + 4),
      br_outstanding := br_outstanding c @ [a]\<rparr>"
      using tm(4) d(6) x by (intro exI [of _ nn] exI [of _ bb]) (simp add: len_def)
    ultimately show ?thesis using tq e tm(3) x by (auto simp: len_def)
  qed
  then show "ws = []" "region = \<lparr>reg_context = a, reg_addr = a + 4, reg_length = len, reg_lkey = 0\<rparr>"
    "\<exists>x y. c' = c\<lparr>br_sent_msgs := x, br_sent_bytes := y, br_read_ptr := br_read_ptr c + (ucast len + 4),
      br_outstanding := br_outstanding c @ [a]\<rparr>"
    "if mem_word v (br_remote_tail c) m = br_read_ptr c
      then \<exists>rs0 r1 r2. rs = rs0 @ [r1, r2] \<and> fetched c rbuf v m r1 r2 m' else rs = [] \<and> m' = m" by auto
qed

section \<open>Freeing\<close>

text \<open>Freeing the only region that is out.\<close>

lemma Free_acts:
  assumes "BufferedReadConnection_Free reg c ep = Some (st, c', ep')" and "status_ok st"
    and "acts v ep ep' m rs ws m'" and "br_outstanding c = [reg_context reg]"
  defines "h \<equiv> mem_word v (br_remote_head c) m'"
  defines "far \<equiv> ucast (br_remote_buf_len c div 3) < h - br_acked_head c"
  shows "m' = put v (br_remote_head c) (le64 (br_read_ptr c)) m" and "rs = []"
    and "ws = (if far then [(br_remote_head_addr c, get v (br_remote_head c) 8 m')] else [])"
    and "c' = c\<lparr>br_outstanding := [], br_acked_head := (if far then h else br_acked_head c)\<rparr>"
proof -
  let ?hd = "br_remote_head c" and ?c = "c\<lparr>br_outstanding := []\<rparr>"
  let ?ep = "sys_void (Store ?hd (br_read_ptr c) 8) ep"
  have fr: "free_front (reg_context reg) c ep = Some ?ep" "removeAll (reg_context reg) (br_outstanding c) = []"
    using assms(4) by (simp_all add: free_front_def)
  have sel: "br_remote_meta_data ?c = br_remote_meta_data c" "br_acked_head ?c = br_acked_head c"
    "br_remote_buf_len ?c = br_remote_buf_len c" "br_remote_head ?c = ?hd"
    "br_remote_head_addr ?c = br_remote_head_addr c" "br_remote_meta_rkey ?c = br_remote_meta_rkey c"
    by (simp_all add: br_remote_head_def)
  from assms(1) have "do { (h1, ep1) \<leftarrow> sys_load ?hd ?ep;
      (if \<not> ucast (br_remote_buf_len c div 3) < h1 - br_acked_head c then Some (Status0, ?c, ep1)
       else do {
         (stat, ep) \<leftarrow> Endpoint_PostWrite 16 (mr_lkey (br_remote_meta_data c)) ?hd 8
           (br_remote_head_addr c) (br_remote_meta_rkey c) ep1;
         if \<not> status_ok stat then Some (Wrap ''error updating head at remote'' stat, ?c, ep)
         else do {
           (wc_s, ep) \<leftarrow> Endpoint_PollSendCq ep;
           (case wc_s of
              Inl s \<Rightarrow> Some (Wrap ''error polling send cq to update heaupdate headd'' s, ?c, ep)
            | Inr _ \<Rightarrow> do {
                (h, ep) \<leftarrow> sys_load ?hd ep;
                Some (Status0, ?c\<lparr>br_acked_head := h\<rparr>, ep) }) } }) } = Some (st, c', ep')"
    unfolding BufferedReadConnection_Free_def Let_def fr Option.bind.simps(2) sel .
  then obtain h1 ep1 where l: "sys_load ?hd ?ep = Some (h1, ep1)" and s1:
    "(if \<not> ucast (br_remote_buf_len c div 3) < h1 - br_acked_head c then Some (Status0, ?c, ep1)
       else do {
         (stat, ep) \<leftarrow> Endpoint_PostWrite 16 (mr_lkey (br_remote_meta_data c)) ?hd 8
           (br_remote_head_addr c) (br_remote_meta_rkey c) ep1;
         if \<not> status_ok stat then Some (Wrap ''error updating head at remote'' stat, ?c, ep)
         else do {
           (wc_s, ep) \<leftarrow> Endpoint_PollSendCq ep;
           (case wc_s of
              Inl s \<Rightarrow> Some (Wrap ''error polling send cq to update heaupdate headd'' s, ?c, ep)
            | Inr _ \<Rightarrow> do {
                (h, ep) \<leftarrow> sys_load ?hd ep;
                Some (Status0, ?c\<lparr>br_acked_head := h\<rparr>, ep) }) } }) = Some (st, c', ep')"
    by (rule bindE) (simp only: split_paired_all prod.case)
  note lf = load_frame [OF l]
  let ?goal = "m' = put v ?hd (le64 (br_read_ptr c)) m \<and> rs = [] \<and>
    ws = (if far then [(br_remote_head_addr c, get v ?hd 8 m')] else []) \<and>
    c' = c\<lparr>br_outstanding := [], br_acked_head := (if far then h else br_acked_head c)\<rparr>"
  have ?goal
  proof (cases "ucast (br_remote_buf_len c div 3) < h1 - br_acked_head c")
    case False
    with s1 have e: "ep' = ep1" "c' = ?c" by auto
    have "calls ep' = calls ep @ [Store ?hd (br_read_ptr c) 8, Load ?hd]" "loads ep = [h1] @ loads ep'" using lf e by simp_all
    from actsD [OF assms(3) this] have "m' = put v ?hd (le64 (br_read_ptr c)) m" "h1 = h" "rs = []" "ws = []"
      by (auto simp: runs_Store_iff runs_Load_iff runs_Nil_iff h_def)
    with False e show ?thesis by (simp add: far_def)
  next
    case True
    with s1 obtain stat ep2 where pw: "Endpoint_PostWrite 16 (mr_lkey (br_remote_meta_data c)) ?hd 8
           (br_remote_head_addr c) (br_remote_meta_rkey c) ep1 = Some (stat, ep2)" and s2:
      "(if \<not> status_ok stat then Some (Wrap ''error updating head at remote'' stat, ?c, ep2)
         else do {
           (wc_s, ep) \<leftarrow> Endpoint_PollSendCq ep2;
           (case wc_s of
              Inl s \<Rightarrow> Some (Wrap ''error polling send cq to update heaupdate headd'' s, ?c, ep)
            | Inr _ \<Rightarrow> do {
                (h, ep) \<leftarrow> sys_load ?hd ep;
                Some (Status0, ?c\<lparr>br_acked_head := h\<rparr>, ep) }) }) = Some (st, c', ep')"
      by (simp only: simp_thms if_False) (erule bindE, simp only: split_paired_all prod.case)
    have ok: "status_ok stat" using s2 assms(2) by (cases "status_ok stat") auto
    with s2 obtain wc_s ep3 where po: "Endpoint_PollSendCq ep2 = Some (wc_s, ep3)" and s3:
      "(case wc_s of
          Inl s \<Rightarrow> Some (Wrap ''error polling send cq to update heaupdate headd'' s, ?c, ep3)
        | Inr _ \<Rightarrow> do {
            (h, ep) \<leftarrow> sys_load ?hd ep3;
            Some (Status0, ?c\<lparr>br_acked_head := h\<rparr>, ep) }) = Some (st, c', ep')"
      by (simp only: simp_thms if_False) (erule bindE, simp only: split_paired_all prod.case)
    obtain wc where wc: "wc_s = Inr wc" using s3 po PollSendCq_error assms(2) by (cases wc_s) auto
    with s3 obtain h2 where l2: "sys_load ?hd ep3 = Some (h2, ep')" and c': "c' = ?c\<lparr>br_acked_head := h2\<rparr>"
      by (auto elim!: bindE)
    obtain w where w: "calls ep2 = calls ep1 @ [Post_send [w]]" "loads ep2 = loads ep1" "swr_opcode w = WR_RDMA_WRITE"
      "sge_of w = (?hd, 8)" "swr_remote_addr w = br_remote_head_addr c"
      by (rule PostWrite_frame [OF pw], rule that) simp_all
    have "calls ep' = calls ep @ (Store ?hd (br_read_ptr c) 8 # Load ?hd # Post_send [w] # [Load ?hd])"
      "loads ep = [h1, h2] @ loads ep'"
      using lf w PollSendCq_frame [OF po] load_frame [OF l2] by simp_all
    from actsD [OF assms(3) this] have h1: "h1 = mem_word v ?hd (put v ?hd (le64 (br_read_ptr c)) m)" and
      r: "runs v (Post_send [w] # [Load ?hd]) [h2] (put v ?hd (le64 (br_read_ptr c)) m) rs ws m'"
      by (auto simp: runs_Store_iff runs_Load_iff)
    from runs_Write_D [OF r w(3-5)] have "m' = put v ?hd (le64 (br_read_ptr c)) m" "h2 = h" "rs = []"
      "ws = [(br_remote_head_addr c, get v ?hd 8 m')]"
      by (auto simp: runs_Load_iff runs_Nil_iff h_def)
    with h1 True c' show ?thesis by (simp add: far_def h_def)
  qed
  then show "m' = put v ?hd (le64 (br_read_ptr c)) m" "rs = []"
    "ws = (if far then [(br_remote_head_addr c, get v ?hd 8 m')] else [])"
    "c' = c\<lparr>br_outstanding := [], br_acked_head := (if far then h else br_acked_head c)\<rparr>" by auto
qed

end
