(* ===== verification/Buffered_Read_System.thy ===== *)
theory Buffered_Read_System
  imports Buffered_Read_Calls
begin

text \<open>
  The sender and the receiver of a buffered read connection, with the memories of their hosts, as a
  step relation with its invariant. While the receiver is in \<open>Receive\<close> the sender goes on: each read
  is served from the sender's memory at some moment of its run.
\<close>

section \<open>The two rings\<close>

definition ring_size :: nat where
  "ring_size = 8388608"

lemma ring_size_default: "unat default_buffer_size = ring_size" "ucast default_buffer_size = (8388608 :: u64)"
  by (simp_all add: ring_size_def default_buffer_size_def)

definition view :: "u64 \<Rightarrow> u64 \<Rightarrow> u64" where
  "view b = mirror 8388608 b"

text \<open>The byte of the ring at \<open>b\<close> that holds byte \<open>p\<close> of the stream.\<close>

definition ring_cell :: "u64 \<Rightarrow> nat \<Rightarrow> u64" where
  "ring_cell b p = b + of_nat (p mod ring_size)"

definition in_ring :: "u64 \<Rightarrow> u64 \<Rightarrow> bool" where
  "in_ring b a \<longleftrightarrow> a - b < 16777216"

lemma mod_ring [simp]: "p mod ring_size < ring_size"
  by (simp add: ring_size_def)

lemma unat_small64: "k < 2 * ring_size \<Longrightarrow> unat (of_nat k :: u64) = k"
  by (simp add: ring_size_def unat64_of_nat)

lemma in_ring_offset: "k < 2 * ring_size \<Longrightarrow> in_ring b (b + of_nat k)"
  by (simp add: in_ring_def word_less_nat_alt unat_small64) (simp add: ring_size_def)

lemma view_ring:
  assumes "k < 2 * ring_size"
  shows "view b (b + of_nat k) = ring_cell b k"
proof -
  have "(of_nat k :: u64) mod 8388608 = of_nat (k mod ring_size)"
    using assms by (simp add: word_unat_eq_iff unat_mod_distrib unat_small64) (simp add: ring_size_def unat_of_nat)
  with in_ring_offset [OF assms, of b] show ?thesis
    by (simp add: view_def mirror_def in_ring_def ring_cell_def)
qed

lemma view_out [simp]: "\<not> in_ring b a \<Longrightarrow> view b a = a"
  by (simp add: view_def mirror_def in_ring_def)

lemma ring_cell_in [simp]: "in_ring b (ring_cell b p)"
proof -
  have "p mod ring_size < 2 * ring_size" using mod_ring [of p] by linarith
  then show ?thesis unfolding ring_cell_def by (rule in_ring_offset)
qed

lemma ring_cell_eq: "ring_cell b p = ring_cell b q \<longleftrightarrow> p mod ring_size = q mod ring_size"
proof
  assume "ring_cell b p = ring_cell b q"
  then have "unat (of_nat (p mod ring_size) :: u64) = unat (of_nat (q mod ring_size) :: u64)"
    by (simp add: ring_cell_def)
  moreover have "p mod ring_size < 2 * ring_size" "q mod ring_size < 2 * ring_size"
    using mod_ring [of p] mod_ring [of q] by linarith+
  ultimately show "p mod ring_size = q mod ring_size" by (simp add: unat_small64)
qed (simp add: ring_cell_def)

lemma ring_cell_mod [simp]: "ring_cell b (p mod ring_size) = ring_cell b p"
  by (simp add: ring_cell_eq)

lemma ring_cell_mod_add [simp]: "ring_cell b (p mod ring_size + i) = ring_cell b (p + i)"
  by (simp add: ring_cell_eq mod_simps)

lemma ring_cell_near: "p < q \<Longrightarrow> q < p + ring_size \<Longrightarrow> ring_cell b p \<noteq> ring_cell b q"
  using mod_window_inj' [of p ring_size q] by (auto simp: ring_cell_eq)

text \<open>A block of the stream that starts at \<open>p\<close>, as the program addresses it.\<close>

lemma view_block:
  assumes "i < ring_size"
  shows "view b (ring_cell b p + of_nat i) = ring_cell b (p + i)"
proof -
  have "p mod ring_size + i < 2 * ring_size" using assms mod_ring [of p] by linarith
  from view_ring [OF this, of b] have "view b (b + of_nat (p mod ring_size + i)) = ring_cell b (p + i)"
    by (simp only: ring_cell_mod_add)
  then show ?thesis by (simp add: ring_cell_def add.assoc)
qed

lemma get_block:
  "n \<le> ring_size \<Longrightarrow> get (view b) (ring_cell b p) n m = map (\<lambda>i. m (ring_cell b (p + i))) [0..<n]"
  by (auto simp: get_def view_block)

lemma put_block:
  assumes "length bs \<le> ring_size"
  shows "i < length bs \<Longrightarrow> put (view b) (ring_cell b p) bs m (ring_cell b (p + i)) = bs ! i"
    and "q < p \<Longrightarrow> p + length bs \<le> q + ring_size \<Longrightarrow> put (view b) (ring_cell b p) bs m (ring_cell b q) = m (ring_cell b q)"
    and "\<not> in_ring b x \<Longrightarrow> put (view b) (ring_cell b p) bs m x = m x"
proof -
  have w: "view b (ring_cell b p + of_nat j) = ring_cell b (p + j)" if "j < length bs" for j
    using view_block that assms by (meson less_le_trans)
  have d: "ring_cell b (p + j) \<noteq> ring_cell b (p + i)" if "j < length bs" "i < length bs" "j \<noteq> i" for i j
    using ring_cell_near [of "p + j" "p + i" b] ring_cell_near [of "p + i" "p + j" b] that assms
    by (cases "j < i") auto
  show "put (view b) (ring_cell b p) bs m (ring_cell b (p + i)) = bs ! i" if "i < length bs"
  proof -
    have "put (view b) (ring_cell b p) bs m (view b (ring_cell b p + of_nat i)) = bs ! i"
      by (rule put_same [OF that]) (simp add: w d that)
    then show ?thesis by (simp add: w that)
  qed
  show "put (view b) (ring_cell b p) bs m (ring_cell b q) = m (ring_cell b q)" if "q < p" "p + length bs \<le> q + ring_size"
    using that by (intro put_other) (simp add: w ring_cell_near)
  show "put (view b) (ring_cell b p) bs m x = m x" if "\<not> in_ring b x"
    using that by (intro put_other) (auto simp: w)
qed

section \<open>Words outside the ring\<close>

definition outside :: "u64 \<Rightarrow> u64 \<Rightarrow> nat \<Rightarrow> bool" where
  "outside b a n \<longleftrightarrow> (\<forall>i < n. \<not> in_ring b (a + of_nat i))"

lemma outside_sub: "outside b a n \<Longrightarrow> k + l \<le> n \<Longrightarrow> outside b (a + of_nat k) l"
  unfolding outside_def
proof (intro allI impI)
  fix i assume h: "\<forall>i<n. \<not> in_ring b (a + of_nat i)" "k + l \<le> n" "i < l"
  from h(1) [rule_format, of "k + i"] h(2,3) show "\<not> in_ring b (a + of_nat k + of_nat i)"
    by (simp add: add.assoc)
qed

lemma get_outside: "outside b a n \<Longrightarrow> get (view b) a n m = map (\<lambda>i. m (a + of_nat i)) [0..<n]"
  by (auto simp: get_def outside_def)

lemma word_at_cong:
  assumes "outside b a 8" and "\<And>i. i < 8 \<Longrightarrow> m (a + of_nat i) = m' (a + of_nat i)"
  shows "mem_word (view b) a m = mem_word (view b) a m'"
  unfolding mem_word_def using assms by (intro arg_cong [where f = un_le64] get_cong) (simp add: outside_def)

lemma small_offsets:
  assumes "(of_nat i :: u64) = of_nat j" "i < 16777216" "j < 16777216"
  shows "i = j"
proof -
  from assms(1) have "unat (of_nat i :: u64) = unat (of_nat j :: u64)" by simp
  then show ?thesis using assms(2,3) by (simp add: unat_of_nat)
qed

lemma get_put_outside:
  assumes "outside b a (length bs)" "length bs < 16777216"
  shows "get (view b) a (length bs) (put (view b) a bs m) = bs"
proof (rule get_put_same)
  fix i j assume ij: "i < length bs" "j < length bs" "i \<noteq> j"
  then have "(of_nat i :: u64) \<noteq> of_nat j" using small_offsets [of i j] assms(2) by auto
  then show "view b (a + of_nat i) \<noteq> view b (a + of_nat j)" using ij assms(1) by (simp add: outside_def)
qed

lemma word_put [simp]: "outside b a 8 \<Longrightarrow> mem_word (view b) a (put (view b) a (le64 w) m) = w"
  using get_put_outside [of b a "le64 w" m] by (simp add: mem_word_def)

lemma put_outside_other:
  assumes "outside b a (length bs)"
  shows "in_ring b x \<Longrightarrow> put (view b) a bs m x = m x"
    and "\<not> x - a < of_nat (length bs) \<Longrightarrow> length bs < 16777216 \<Longrightarrow> put (view b) a bs m x = m x"
proof -
  show "put (view b) a bs m x = m x" if "in_ring b x"
    using assms that by (intro put_other) (auto simp: outside_def)
  show "put (view b) a bs m x = m x" if "\<not> x - a < of_nat (length bs)" "length bs < 16777216"
  proof (rule put_other)
    fix i assume "i < length bs"
    with that(2) have "unat (of_nat i :: u64) < unat (of_nat (length bs) :: u64)" by (simp add: unat_of_nat)
    then have "(a + of_nat i) - a < (of_nat (length bs) :: u64)" by (simp add: word_less_nat_alt)
    with that(1) show "x \<noteq> view b (a + of_nat i)" using assms \<open>i < length bs\<close> by (auto simp: outside_def)
  qed
qed

section \<open>The system\<close>

text \<open>
  The messages sent and the contents of the regions received are recorded in \<open>bs_sent\<close> and \<open>bs_got\<close>;
  \<open>bs_held\<close> is the region that the receiving application has not freed.
\<close>

record br_system =
  bs_snd :: buffered_read
  bs_smem :: bytes
  bs_sent :: "u8 list list"
  bs_rcv :: buffered_read
  bs_rmem :: bytes
  bs_held :: "ReceiveRegion option"
  bs_got :: "u8 list list"

definition sring :: "buffered_read \<Rightarrow> u64" where
  "sring c = mr_addr (br_buffer c)"

definition rring :: "buffered_read \<Rightarrow> u64" where
  "rring c = (case br_remote_buffer c of Some rbuf \<Rightarrow> mr_addr rbuf | None \<Rightarrow> 0)"

text \<open>
  Messages have \<open>n\<close> bytes and lie outside the ring. Each application writes to its own memory, but
  not to the ring and the counters.
\<close>

inductive br_sends :: "nat \<Rightarrow> br_system \<Rightarrow> br_system \<Rightarrow> bool" for n where
  br_send: "BufferedReadConnection_Send buf len (bs_snd s) ep = Some (st, ep') \<Longrightarrow> status_ok st \<Longrightarrow>
    acts (view (sring (bs_snd s))) ep ep' (bs_smem s) rs ws m' \<Longrightarrow> unat len = n \<Longrightarrow> outside (sring (bs_snd s)) buf n \<Longrightarrow>
    br_sends n s (s\<lparr>bs_smem := m', bs_sent := bs_sent s @ [get (view (sring (bs_snd s))) buf n (bs_smem s)]\<rparr>)"
| br_sender_app: "\<not> in_ring (sring (bs_snd s)) a \<Longrightarrow> \<not> a - br_head (bs_snd s) < 16 \<Longrightarrow>
    br_sends n s (s\<lparr>bs_smem := (bs_smem s)(a := x)\<rparr>)"

text \<open>A run of the sender that serves reads of its memory.\<close>

inductive br_serves :: "nat \<Rightarrow> br_system \<Rightarrow> (u64 \<Rightarrow> u8) list \<Rightarrow> br_system \<Rightarrow> bool" for n where
  br_serves_Nil: "br_serves n s [] s"
| br_serves_step: "br_sends n s s1 \<Longrightarrow> br_serves n s1 rs s' \<Longrightarrow> br_serves n s rs s'"
| br_serves_read: "br_serves n s rs s' \<Longrightarrow> br_serves n s ((\<lambda>a. bs_smem s (view (sring (bs_snd s)) a)) # rs) s'"

definition deliver :: "(u64 \<Rightarrow> u64) \<Rightarrow> (u64 \<times> u8 list) list \<Rightarrow> bytes \<Rightarrow> bytes" where
  "deliver v ws m = fold (\<lambda>(a, bs). put v a bs) ws m"

text \<open>The receiving application frees each region before it receives the next message.\<close>

inductive br_step :: "nat \<Rightarrow> br_system \<Rightarrow> br_system \<Rightarrow> bool" for n where
  br_sender: "br_sends n s s' \<Longrightarrow> br_step n s s'"
| br_receive: "bs_held s = None \<Longrightarrow> BufferedReadConnection_Receive (bs_rcv s) ep = Some (Inr region, c', ep') \<Longrightarrow>
    acts (view (rring (bs_rcv s))) ep ep' (bs_rmem s) rs ws m' \<Longrightarrow> br_serves n s rs s' \<Longrightarrow>
    br_step n s (s'\<lparr>bs_rcv := c', bs_rmem := m', bs_held := Some region,
      bs_got := bs_got s @ [get (view (rring (bs_rcv s))) (reg_addr region) (unat (reg_length region)) m']\<rparr>)"
| br_free: "bs_held s = Some region \<Longrightarrow> BufferedReadConnection_Free region (bs_rcv s) ep = Some (st, c', ep') \<Longrightarrow>
    status_ok st \<Longrightarrow> acts (view (rring (bs_rcv s))) ep ep' (bs_rmem s) rs ws m' \<Longrightarrow>
    br_step n s (s\<lparr>bs_rcv := c', bs_rmem := m', bs_held := None,
      bs_smem := deliver (view (sring (bs_snd s))) ws (bs_smem s)\<rparr>)"
| br_receiver_app: "\<not> in_ring (rring (bs_rcv s)) a \<Longrightarrow> \<not> a - br_remote_head (bs_rcv s) < 16 \<Longrightarrow>
    br_step n s (s\<lparr>bs_rmem := (bs_rmem s)(a := x)\<rparr>)"

text \<open>The two connections belong together, and the counters are not in the rings.\<close>

definition br_linked :: "buffered_read \<Rightarrow> buffered_read \<Rightarrow> bool" where
  "br_linked sc rc \<longleftrightarrow> br_length sc = default_buffer_size \<and> outside (sring sc) (br_head sc) 16 \<and>
     br_remote_buffer rc \<noteq> None \<and> br_remote_buf_len rc = default_buffer_size \<and>
     br_remote_head_addr rc = br_head sc \<and> br_remote_tail_addr rc = br_tail sc \<and>
     br_remote_buf_addr rc = sring sc \<and> outside (rring rc) (br_remote_head rc) 16"

text \<open>What \<open>remote_buffers\<close> makes on the two sides belongs together.\<close>

lemma setup_linked:
  assumes "remote_buffers md mbuf sb ep = Some (Inr (c, ep1), e1)"
    and "Endpoint_GetConnectionInfo ep = buffered_details_bytes pad (local_details md' sb') @ rest"
    and "remote_buffers md' mbuf' sb' ep' = Some (Inr (c', ep2), e2)"
    and "Endpoint_GetConnectionInfo ep' = buffered_details_bytes pad' (local_details md sb) @ rest'"
    and "br_remote_buffer c' \<noteq> None" "outside (mr_addr sb) (mr_addr md) 16" "outside (rring c') (br_remote_head c') 16"
  shows "br_linked c c'"
  using remote_buffers_connection [OF assms(1,2)] remote_buffers_connection [OF assms(3,4)] assms(5-7)
  by (simp add: br_linked_def sring_def br_head_def br_tail_def)

definition br_start :: "br_system \<Rightarrow> bool" where
  "br_start s \<longleftrightarrow> br_linked (bs_snd s) (bs_rcv s) \<and> br_read_ptr (bs_rcv s) = 0 \<and> br_acked_head (bs_rcv s) = 0 \<and>
     br_outstanding (bs_rcv s) = [] \<and>
     mem_word (view (sring (bs_snd s))) (br_head (bs_snd s)) (bs_smem s) = 0 \<and>
     mem_word (view (sring (bs_snd s))) (br_tail (bs_snd s)) (bs_smem s) = 0 \<and>
     mem_word (view (rring (bs_rcv s))) (br_remote_tail (bs_rcv s)) (bs_rmem s) = 0 \<and>
     bs_sent s = [] \<and> bs_got s = [] \<and> bs_held s = None"

text \<open>
  Message sizes for which the free space between head and tail, always a multiple of a record short of
  the ring, is never just too small for a record but large enough for the check of \<open>Send\<close>, which
  forgets the four bytes of the length.
\<close>

definition safe_size :: "nat \<Rightarrow> bool" where
  "safe_size n \<longleftrightarrow> n < ring_size \<and> 0 < ring_size mod (n + 4) \<and> ring_size mod (n + 4) \<le> n"

section \<open>Room in the ring\<close>

lemma unat_offset: "unat (ucast ((of_nat p :: u64) mod ucast default_buffer_size) :: u32) = p mod ring_size"
proof -
  have "unat ((of_nat p :: u64) mod ucast default_buffer_size) = (p mod 2 ^ 64) mod ring_size"
    by (simp add: unat_mod_distrib ring_size_default unat_of_nat) (simp add: ring_size_def)
  also have "\<dots> = p mod ring_size" by (rule mod_mod_cancel) (simp add: ring_size_def)
  finally have "unat ((of_nat p :: u64) mod ucast default_buffer_size) = p mod ring_size" .
  moreover have "p mod ring_size < 2 ^ 32" using mod_ring [of p] by (simp add: ring_size_def)
  ultimately show ?thesis by (simp add: unsigned_ucast_eq take_bit_nat_eq_self del: mod_ring)
qed

lemma ring_cell_offset: "b + ucast (ucast ((of_nat p :: u64) mod ucast default_buffer_size) :: u32) = ring_cell b p"
proof -
  have "p mod ring_size < 2 * ring_size" using mod_ring [of p] by linarith
  then have "unat (ucast (ucast ((of_nat p :: u64) mod ucast default_buffer_size) :: u32) :: u64) =
      unat (of_nat (p mod ring_size) :: u64)"
    by (simp only: unat_ucast_32_64 unat_offset unat_small64)
  then show ?thesis by (simp only: ring_cell_def word_unat_eq_iff [symmetric])
qed

lemma has_room_nat:
  assumes "ring_has_room default_buffer_size x y len" "unat x < ring_size" "unat y < ring_size"
  shows "unat x < unat y \<Longrightarrow> unat len < ring_size - unat y + unat x"
    and "unat y < unat x \<Longrightarrow> unat len < unat x - unat y"
    and "unat x = unat y \<Longrightarrow> unat len \<le> ring_size"
proof -
  have d: "unat (default_buffer_size - y) = ring_size - unat y"
    using assms(3) by (simp add: unat_sub_le ring_size_default)
  have "unat (default_buffer_size - y) + unat x < 4294967296" using assms(2) d by (simp add: ring_size_def)
  then have s: "unat (default_buffer_size - y + x) = ring_size - unat y + unat x" by (simp add: unat32_add d)
  show "unat len < ring_size - unat y + unat x" if "unat x < unat y"
    using assms(1) that s by (auto simp: ring_has_room_def word_less_nat_alt word_le_nat_alt)
  show "unat len < unat x - unat y" if "unat y < unat x"
    using assms(1) that by (auto simp: ring_has_room_def word_less_nat_alt word_le_nat_alt unat_sub_le)
  show "unat len \<le> ring_size" if "unat x = unat y"
    using assms(1) that by (auto simp: ring_has_room_def word_less_nat_alt word_unat_eq_iff ring_size_default not_less)
qed

lemma room_free:
  assumes "ring_has_room default_buffer_size x y len" and "unat x = H mod ring_size" "unat y = T mod ring_size"
    and "H \<le> T" "T - H < ring_size"
  shows "T = H \<or> unat len < ring_size - (T - H)"
proof (cases "T = H")
  case False
  define h d where "h = H mod ring_size" and "d = T - H"
  have b: "h < ring_size" "0 < d" "d < ring_size" using assms(4,5) False by (simp_all add: h_def d_def)
  have "T = H + d" using assms(4) by (simp add: d_def)
  then have "T mod ring_size = (h + d) mod ring_size" by (simp add: h_def mod_simps)
  then have t: "unat y = (if h + d < ring_size then h + d else h + d - ring_size)"
    using assms(3) b by (simp add: mod_if)
  have "unat x < ring_size" "unat y < ring_size" using assms(2,3) by simp_all
  note hr = has_room_nat [OF assms(1) this]
  show ?thesis
    using hr t assms(2) b by (cases "h + d < ring_size") (auto simp: h_def [symmetric] d_def [symmetric])
qed simp

lemma room_safe:
  assumes "safe_size n" "H \<le> T" "T - H < ring_size" "n + 4 dvd H" "n + 4 dvd T"
    and "T = H \<or> n < ring_size - (T - H)"
  shows "T - H + (n + 4) < ring_size"
proof (rule ccontr)
  assume big: "\<not> T - H + (n + 4) < ring_size"
  have "n + 4 dvd T - H" using assms(4,5) by (intro dvd_diff_nat)
  then obtain k where k: "T - H = (n + 4) * k" ..
  define x where "x = ring_size - (T - H)"
  have x: "ring_size = (n + 4) * k + x" "x \<le> n + 4" "0 < x" using big assms(3) k by (simp_all add: x_def)
  have m: "ring_size mod (n + 4) = x mod (n + 4)" by (simp add: x(1))
  have nx: "n < x"
  proof (cases "T = H")
    case True
    then have "x = ring_size" by (simp add: x_def)
    with assms(1) show ?thesis by (simp add: safe_size_def)
  next
    case False
    with assms(6) show ?thesis by (simp add: x_def)
  qed
  show False
  proof (cases "x = n + 4")
    case True
    with m assms(1) show False by (simp add: safe_size_def)
  next
    case False
    with x(2) m have "ring_size mod (n + 4) = x" by simp
    with nx assms(1) show False by (simp add: safe_size_def)
  qed
qed

end
