(* ===== verification/Buffered_Read_Safety.thy ===== *)
theory Buffered_Read_Safety
  imports Buffered_Read_System
begin

text \<open>
  The invariant of the system of \<^verbatim>\<open>Buffered_Read_System\<close>: the ring of the sender holds the stream from the
  head on, the ring of the receiver what it has fetched and not handed out. From it: messages arrive
  complete and in order, and what was not received is not overwritten.
\<close>

section \<open>The stream\<close>

definition stream :: "nat \<Rightarrow> u8 list list \<Rightarrow> u8 list" where
  "stream n ms = concat (map (\<lambda>x. le32 (of_nat n) @ x) ms)"

definition sized :: "nat \<Rightarrow> u8 list list \<Rightarrow> bool" where
  "sized n ms \<longleftrightarrow> (\<forall>x\<in>set ms. length x = n)"

lemma stream_append [simp]: "stream n (as @ bs) = stream n as @ stream n bs"
  by (simp add: stream_def)

lemma length_stream: "sized n ms \<Longrightarrow> length (stream n ms) = (n + 4) * length ms"
  by (induction ms) (simp_all add: stream_def sized_def)

lemma stream_record:
  "sized n ms \<Longrightarrow> k < length ms \<Longrightarrow> i < n + 4 \<Longrightarrow> stream n ms ! ((n + 4) * k + i) = (le32 (of_nat n) @ ms ! k) ! i"
proof (induction ms arbitrary: k)
  case (Cons x xs)
  have l: "length (le32 (of_nat n) @ x) = n + 4" using Cons.prems(1) by (simp add: sized_def)
  have c: "stream n (x # xs) = (le32 (of_nat n) @ x) @ stream n xs" by (simp add: stream_def)
  show ?case
  proof (cases k)
    case 0
    have "stream n (x # xs) ! i = (le32 (of_nat n) @ x) ! i"
      unfolding c by (rule nth_append_left) (use l Cons.prems(3) in simp)
    with 0 show ?thesis by simp
  next
    case (Suc j)
    have "stream n (x # xs) ! ((n + 4) * Suc j + i) = stream n xs ! ((n + 4) * j + i)"
      unfolding c using l by (simp add: nth_append)
    with Suc Cons show ?thesis by (simp add: sized_def)
  qed
qed simp

lemma stream_prefix: "sized n ms \<Longrightarrow> p < (n + 4) * length ms \<Longrightarrow> (stream n ms @ xs) ! p = stream n ms ! p"
  by (simp add: nth_append length_stream)

section \<open>The sender\<close>

definition sender_ok :: "nat \<Rightarrow> nat \<Rightarrow> buffered_read \<Rightarrow> bytes \<Rightarrow> u8 list list \<Rightarrow> bool" where
  "sender_ok n H c m ms \<longleftrightarrow> sized n ms \<and>
     mem_word (view (sring c)) (br_tail c) m = of_nat ((n + 4) * length ms) \<and>
     mem_word (view (sring c)) (br_head c) m = of_nat H \<and>
     H \<le> (n + 4) * length ms \<and> (n + 4) * length ms - H < ring_size \<and> n + 4 dvd H \<and>
     (\<forall>p. H \<le> p \<and> p < (n + 4) * length ms \<longrightarrow> m (ring_cell (sring c) p) = stream n ms ! p)"

lemma linked_tail: "br_linked c rc \<Longrightarrow> outside (sring c) (br_tail c) 8 \<and> outside (sring c) (br_head c) 8"
  using outside_sub [of "sring c" "br_head c" 16 8 8] outside_sub [of "sring c" "br_head c" 16 0 8]
  by (simp add: br_linked_def br_tail_def br_head_def)

lemma near_words:
  fixes a x :: u64
  assumes "i < 8"
  shows "a + of_nat i - a < 16" "a + 8 + of_nat i - a < 16" "\<not> a + of_nat i - (a + 8) < 8" "\<not> a + 8 + of_nat i - a < 8"
proof -
  have i: "unat (of_nat i :: u64) = i" using assms by (simp add: unat_of_nat)
  show "a + of_nat i - a < 16" using assms i by (simp add: word_less_nat_alt)
  have "unat (8 + of_nat i :: u64) = 8 + i" using assms i by (simp add: unat_word_ariths)
  moreover have "a + 8 + of_nat i - a = 8 + of_nat i" by simp
  ultimately show "a + 8 + of_nat i - a < 16" "\<not> a + 8 + of_nat i - a < 8" using assms
    by (simp_all add: word_less_nat_alt)
  have "a + of_nat i - (a + 8) = of_nat i - 8" by simp
  moreover have "unat (of_nat i - 8 :: u64) = 2 ^ 64 + i - 8" using assms i by (simp add: unat_sub_if')
  ultimately show "\<not> a + of_nat i - (a + 8) < 8" using assms by (simp add: word_less_nat_alt)
qed

lemma put_word_other: "outside b a 8 \<Longrightarrow> \<not> x - a < 8 \<Longrightarrow> put (view b) a (le64 w) m x = m x"
  using put_outside_other(2) [of b a "le64 w" x m] by simp

lemma words_of_sender:
  assumes "br_linked c rc"
  shows "mem_word (view (sring c)) (br_head c) (put (view (sring c)) (br_tail c) (le64 w) m) = mem_word (view (sring c)) (br_head c) m"
    and "mem_word (view (sring c)) (br_tail c) (put (view (sring c)) (br_head c) (le64 w) m) = mem_word (view (sring c)) (br_tail c) m"
proof -
  note o = linked_tail [OF assms]
  show "mem_word (view (sring c)) (br_head c) (put (view (sring c)) (br_tail c) (le64 w) m) = mem_word (view (sring c)) (br_head c) m"
    using o unfolding br_tail_def br_head_def by (intro word_at_cong put_word_other near_words(3)) simp_all
  show "mem_word (view (sring c)) (br_tail c) (put (view (sring c)) (br_head c) (le64 w) m) = mem_word (view (sring c)) (br_tail c) m"
    using o unfolding br_tail_def br_head_def by (intro word_at_cong put_word_other near_words(4)) simp_all
qed

lemma word_at_put_block:
  assumes "outside b a 8" "length bs \<le> ring_size"
  shows "mem_word (view b) a (put (view b) (ring_cell b p) bs m) = mem_word (view b) a m"
  using assms by (intro word_at_cong) (auto simp: put_block(3) outside_def)

text \<open>Length and data of a message are one block.\<close>

lemma put_record:
  assumes "outside b buf n" "n + 4 \<le> ring_size"
  shows "put (view b) (ring_cell b p + 4) (get (view b) buf n (put (view b) (ring_cell b p) (le32 w) m)) (put (view b) (ring_cell b p) (le32 w) m)
    = put (view b) (ring_cell b p) (le32 w @ get (view b) buf n m) m"
proof -
  have "get (view b) buf n (put (view b) (ring_cell b p) (le32 w) m) = get (view b) buf n m"
    using assms by (intro get_cong) (auto simp: put_block(3) outside_def)
  then show ?thesis by (simp add: put_append)
qed

lemma safe_size_fits: "safe_size n \<Longrightarrow> n + 4 \<le> ring_size"
proof (rule ccontr)
  assume a: "safe_size n" "\<not> n + 4 \<le> ring_size"
  then have "ring_size mod (n + 4) = ring_size" by simp
  with a(1) show False by (auto simp: safe_size_def)
qed

text \<open>A send: what it checked, the new counters, and the new contents of the ring.\<close>

lemma send_effect:
  assumes "br_linked c rc" "BufferedReadConnection_Send buf len c ep = Some (st, ep')" "status_ok st"
    and "acts (view (sring c)) ep ep' m rs ws m'" "unat len = n" "outside (sring c) buf n" "n + 4 \<le> ring_size"
    and wt: "mem_word (view (sring c)) (br_tail c) m = of_nat T"
  defines "m2 \<equiv> put (view (sring c)) (ring_cell (sring c) T) (le32 (of_nat n) @ get (view (sring c)) buf n m) m"
  shows "ring_has_room default_buffer_size (ucast (mem_word (view (sring c)) (br_head c) m mod ucast default_buffer_size))
      (ucast ((of_nat T :: u64) mod ucast default_buffer_size)) len"
    and "mem_word (view (sring c)) (br_tail c) m' = of_nat (T + (n + 4))"
    and "mem_word (view (sring c)) (br_head c) m' = mem_word (view (sring c)) (br_head c) m"
    and "\<And>p. m' (ring_cell (sring c) p) = m2 (ring_cell (sring c) p)"
proof -
  let ?v = "view (sring c)"
  note o = linked_tail [OF assms(1)]
  have lc: "br_length c = default_buffer_size" using assms(1) by (simp add: br_linked_def)
  note sr = Send_runs [OF assms(2-4), unfolded wt lc]
  show "ring_has_room default_buffer_size (ucast (mem_word ?v (br_head c) m mod ucast default_buffer_size))
      (ucast ((of_nat T :: u64) mod ucast default_buffer_size)) len" by (rule sr(1))
  have len: "len = of_nat n" using assms(5) by auto
  have a: "mr_addr (br_buffer c) + ucast (ucast ((of_nat T :: u64) mod ucast default_buffer_size) :: u32) = ring_cell (sring c) T"
    unfolding sring_def by (rule ring_cell_offset)
  have m': "m' = put ?v (br_tail c) (le64 (mem_word ?v (br_tail c) m2 + (ucast len + 4))) m2"
    using sr(2) [unfolded a assms(5), unfolded put_record [OF assms(6,7)]] unfolding m2_def len .
  have w2: "mem_word ?v a m2 = mem_word ?v a m" if "outside (sring c) a 8" for a
    unfolding m2_def using that assms(7) by (intro word_at_put_block) simp_all
  have "(ucast len :: u64) = of_nat n" by (simp flip: assms(5))
  then show "mem_word ?v (br_tail c) m' = of_nat (T + (n + 4))"
    using o w2 wt by (simp add: m' algebra_simps)
  show "mem_word ?v (br_head c) m' = mem_word ?v (br_head c) m"
    using w2 o words_of_sender(1) [OF assms(1)] by (simp add: m')
  show "m' (ring_cell (sring c) p) = m2 (ring_cell (sring c) p)" for p
    unfolding m' using o by (intro put_outside_other(1)) simp_all
qed

lemma br_send_ok:
  assumes "sender_ok n H c m ms" "br_linked c rc" "safe_size n"
    and "BufferedReadConnection_Send buf len c ep = Some (st, ep')" "status_ok st"
    and "acts (view (sring c)) ep ep' m rs ws m'" "unat len = n" "outside (sring c) buf n"
  shows "sender_ok n H c m' (ms @ [get (view (sring c)) buf n m])"
proof -
  let ?v = "view (sring c)" and ?T = "(n + 4) * length ms" and ?x = "get (view (sring c)) buf n m"
  have sz: "sized n ms" and wt: "mem_word ?v (br_tail c) m = of_nat ?T" and wh: "mem_word ?v (br_head c) m = of_nat H"
    and le: "H \<le> ?T" "?T - H < ring_size" "n + 4 dvd H"
    and ring: "\<And>p. H \<le> p \<Longrightarrow> p < ?T \<Longrightarrow> m (ring_cell (sring c) p) = stream n ms ! p"
    using assms(1) by (auto simp: sender_ok_def)
  note ef = send_effect [OF assms(2,4-8) safe_size_fits [OF assms(3)] wt, unfolded wh]
  have room: "?T - H + (n + 4) < ring_size"
  proof (rule room_safe [OF assms(3) le])
    show "?T = H \<or> n < ring_size - (?T - H)"
      using room_free [OF ef(1) unat_offset unat_offset le(1,2)] assms(7) by simp
  qed simp
  let ?bs = "le32 (of_nat n) @ ?x"
  have fits: "length ?bs \<le> ring_size" using room by simp
  have cell: "m' (ring_cell (sring c) p) = stream n (ms @ [?x]) ! p" if "H \<le> p" "p < (n + 4) * length (ms @ [?x])" for p
  proof (cases "p < ?T")
    case True
    have "put ?v (ring_cell (sring c) ?T) ?bs m (ring_cell (sring c) p) = m (ring_cell (sring c) p)"
      using fits True that room by (intro put_block(2)) simp_all
    with True that ring sz ef(4) show ?thesis by (simp add: stream_prefix)
  next
    case False
    then obtain i where i: "p = ?T + i" using le_Suc_ex not_less by blast
    with that have il: "i < length ?bs" by (simp add: algebra_simps)
    have "m' (ring_cell (sring c) p) = ?bs ! i"
      unfolding ef(4) i by (rule put_block(1) [OF fits il])
    moreover have "stream n (ms @ [?x]) ! p = ?bs ! i"
      using stream_record [of n "ms @ [?x]" "length ms" i] sz il i by (simp add: sized_def)
    ultimately show ?thesis by simp
  qed
  have "sized n (ms @ [?x])" using sz by (simp add: sized_def)
  with ef(2,3) cell le room show ?thesis unfolding sender_ok_def by (auto simp: algebra_simps)
qed

lemma sender_app_ok:
  assumes "sender_ok n H c m ms" "br_linked c rc" "\<not> in_ring (sring c) a" "\<not> a - br_head c < 16"
  shows "sender_ok n H c (m(a := x)) ms"
proof -
  note o = linked_tail [OF assms(2)]
  have "mem_word (view (sring c)) (br_head c) (m(a := x)) = mem_word (view (sring c)) (br_head c) m"
    "mem_word (view (sring c)) (br_tail c) (m(a := x)) = mem_word (view (sring c)) (br_tail c) m"
    using o assms(4) near_words(1,2) [of _ "br_head c"]
    by (auto intro!: word_at_cong simp: br_tail_def br_head_def)
  moreover have "ring_cell (sring c) p \<noteq> a" for p using assms(3) ring_cell_in [of "sring c" p] by auto
  ultimately show ?thesis using assms(1) by (auto simp: sender_ok_def)
qed

section \<open>A run of the sender\<close>

definition br_inv :: "nat \<Rightarrow> nat \<Rightarrow> nat \<Rightarrow> br_system \<Rightarrow> bool" where
  "br_inv n H F s \<longleftrightarrow> br_linked (bs_snd s) (bs_rcv s) \<and> sender_ok n H (bs_snd s) (bs_smem s) (bs_sent s) \<and>
     mem_word (view (rring (bs_rcv s))) (br_remote_tail (bs_rcv s)) (bs_rmem s) = of_nat F \<and>
     (n + 4) * length (bs_got s) \<le> F \<and> F \<le> (n + 4) * length (bs_sent s) \<and> n + 4 dvd F \<and>
     (\<forall>p. (n + 4) * length (bs_got s) \<le> p \<and> p < F \<longrightarrow>
        bs_rmem s (ring_cell (rring (bs_rcv s)) p) = stream n (bs_sent s) ! p) \<and>
     bs_got s = take (length (bs_got s)) (bs_sent s) \<and>
     br_read_ptr (bs_rcv s) = of_nat ((n + 4) * length (bs_got s)) \<and> br_acked_head (bs_rcv s) = of_nat H \<and>
     (case bs_held s of
        None \<Rightarrow> br_outstanding (bs_rcv s) = [] \<and> H \<le> (n + 4) * length (bs_got s) \<and>
          (n + 4) * length (bs_got s) - H \<le> ring_size div 3
      | Some reg \<Rightarrow> br_outstanding (bs_rcv s) = [reg_context reg] \<and> H + (n + 4) \<le> (n + 4) * length (bs_got s))"

text \<open>What a run of the sender alone does: it appends to the stream.\<close>

definition sender_ran :: "br_system \<Rightarrow> br_system \<Rightarrow> bool" where
  "sender_ran s s' \<longleftrightarrow> (\<exists>xs. bs_sent s' = bs_sent s @ xs) \<and> bs_snd s' = bs_snd s \<and> bs_rcv s' = bs_rcv s \<and>
     bs_rmem s' = bs_rmem s \<and> bs_held s' = bs_held s \<and> bs_got s' = bs_got s"

lemma sender_ran_refl: "sender_ran s s"
  by (simp add: sender_ran_def)

lemma sender_ran_trans: "sender_ran s s1 \<Longrightarrow> sender_ran s1 s2 \<Longrightarrow> sender_ran s s2"
  by (auto simp: sender_ran_def)

lemma sends_ok:
  assumes "br_sends n s s'" "sender_ok n H (bs_snd s) (bs_smem s) (bs_sent s)" "br_linked (bs_snd s) (bs_rcv s)" "safe_size n"
  shows "sender_ran s s' \<and> sender_ok n H (bs_snd s') (bs_smem s') (bs_sent s')"
  using assms(1)
proof cases
  case (br_send buf len ep st ep' rs ws m')
  then show ?thesis
    using br_send_ok [OF assms(2,3,4) br_send(2-6)] by (auto simp: sender_ran_def)
next
  case (br_sender_app a x)
  then show ?thesis
    using sender_app_ok [OF assms(2,3)] by (auto simp: sender_ran_def)
qed

lemma serves_ok:
  assumes "br_serves n s rs s'" "sender_ok n H (bs_snd s) (bs_smem s) (bs_sent s)" "br_linked (bs_snd s) (bs_rcv s)" "safe_size n"
  shows "sender_ran s s' \<and> sender_ok n H (bs_snd s') (bs_smem s') (bs_sent s')"
  using assms(1-3)
proof (induction rule: br_serves.induct)
  case (br_serves_step s s1 rs s')
  from sends_ok [OF br_serves_step(1,4,5) assms(4)] have r: "sender_ran s s1"
    "sender_ok n H (bs_snd s1) (bs_smem s1) (bs_sent s1)" by auto
  then have "br_linked (bs_snd s1) (bs_rcv s1)" using br_serves_step(5) by (auto simp: sender_ran_def)
  with br_serves_step(3) r show ?case by (auto intro: sender_ran_trans)
qed (auto intro: sender_ran_refl)

lemma serves_append:
  "br_serves n s ls s' \<Longrightarrow> ls = rs @ rs' \<Longrightarrow> \<exists>s1. br_serves n s rs s1 \<and> br_serves n s1 rs' s'"
proof (induction arbitrary: rs rule: br_serves.induct)
  case (br_serves_Nil s)
  then show ?case by (auto intro: br_serves.intros)
next
  case (br_serves_step s s1 ls s')
  then show ?case by (blast intro: br_serves.intros)
next
  case (br_serves_read s ls s')
  show ?case
  proof (cases rs)
    case Nil
    with br_serves_read show ?thesis by (auto intro: br_serves.intros)
  next
    case (Cons r rs0)
    with br_serves_read.prems br_serves_read.IH [of rs0] show ?thesis by (auto intro: br_serves.intros)
  qed
qed

lemma serves_one:
  "br_serves n s ls s' \<Longrightarrow> ls = [r] \<Longrightarrow> \<exists>s1. br_serves n s [] s1 \<and> br_serves n s1 [] s' \<and>
     r = (\<lambda>a. bs_smem s1 (view (sring (bs_snd s1)) a))"
proof (induction rule: br_serves.induct)
  case (br_serves_step s s1 ls s')
  then show ?case by (blast intro: br_serves.intros)
qed (auto intro: br_serves.intros)

lemma serves_trans: "br_serves n s rs s1 \<Longrightarrow> br_serves n s1 rs' s' \<Longrightarrow> br_serves n s (rs @ rs') s'"
  by (induction rule: br_serves.induct) (auto intro: br_serves.intros)

lemma serves_two:
  assumes "br_serves n s (rs @ [r1, r2]) s'"
  shows "\<exists>s1 s2. br_serves n s rs s1 \<and> br_serves n s1 [] s2 \<and> br_serves n s2 [] s' \<and>
    r1 = (\<lambda>a. bs_smem s1 (view (sring (bs_snd s1)) a)) \<and> r2 = (\<lambda>a. bs_smem s2 (view (sring (bs_snd s2)) a))"
proof -
  have "br_serves n s (rs @ [r1] @ [r2]) s'" using assms by simp
  from serves_append [OF this refl] obtain sa where a: "br_serves n s rs sa" "br_serves n sa ([r1] @ [r2]) s'" by blast
  from serves_append [OF a(2) refl] obtain sb where b: "br_serves n sa [r1] sb" "br_serves n sb [r2] s'" by blast
  from serves_one [OF b(1) refl] obtain s1 where s1: "br_serves n sa [] s1" "br_serves n s1 [] sb"
    "r1 = (\<lambda>a. bs_smem s1 (view (sring (bs_snd s1)) a))" by blast
  from serves_one [OF b(2) refl] obtain s2 where s2: "br_serves n sb [] s2" "br_serves n s2 [] s'"
    "r2 = (\<lambda>a. bs_smem s2 (view (sring (bs_snd s2)) a))" by blast
  have "br_serves n s (rs @ []) s1" using a(1) s1(1) by (rule serves_trans)
  moreover have "br_serves n s1 ([] @ []) s2" using s1(2) s2(1) by (rule serves_trans)
  ultimately show ?thesis using s1 s2 by auto
qed

section \<open>The receiver\<close>

lemma linked_remote: "br_linked sc c \<Longrightarrow>
    outside (rring c) (br_remote_tail c) 8 \<and> outside (rring c) (br_remote_head c) 8"
  using outside_sub [of "rring c" "br_remote_head c" 16 8 8] outside_sub [of "rring c" "br_remote_head c" 16 0 8]
  by (simp add: br_linked_def br_remote_tail_def br_remote_head_def)

lemma ring_addr_cell:
  assumes "br_read_ptr c = of_nat R" "br_remote_buf_len c = default_buffer_size"
  shows "ring_addr rbuf c = ring_cell (mr_addr rbuf) R"
  unfolding ring_addr_def assms by (rule ring_cell_offset)

lemma of_nat_near:
  assumes "(of_nat a :: u64) = of_nat b" "a \<le> b" "b - a < ring_size"
  shows "a = b"
proof -
  have "(of_nat (b - a) :: u64) = 0" using assms(1,2) by (simp add: of_nat_diff)
  moreover have "unat (of_nat (b - a) :: u64) = b - a" using assms(3) by (intro unat_small64) simp
  ultimately have "b - a = 0" by simp
  with assms(2) show ?thesis by simp
qed

lemma distance32:
  assumes "R \<le> T" "T - R < ring_size"
  shows "unat (ucast ((of_nat T :: u64) - of_nat R) :: u32) = T - R"
proof -
  have e: "(of_nat T :: u64) - of_nat R = of_nat (T - R)" using assms(1) by (simp add: of_nat_diff)
  have "unat (of_nat (T - R) :: u64) = T - R" using assms(2) by (intro unat_small64) simp
  moreover have "T - R < 2 ^ 32" using assms(2) by (simp add: ring_size_def)
  ultimately show ?thesis unfolding e by (simp add: unsigned_ucast_eq take_bit_nat_eq_self)
qed

lemma fetched_ok:
  assumes "fetched c rbuf (view (rring c)) m r1 r2 m'" "br_linked sc c" "br_remote_buffer c = Some rbuf"
    and "sender_ok n H sc ma as" "r1 = (\<lambda>a. ma (view (sring sc) a))"
    and "sender_ok n H sc mb (as @ bs)" "r2 = (\<lambda>a. mb (view (sring sc) a))"
    and "br_read_ptr c = of_nat R" "R \<le> (n + 4) * length as" "H \<le> R"
  defines "T \<equiv> (n + 4) * length as"
  shows "mem_word (view (rring c)) (br_remote_tail c) m' = of_nat T" and "R < T"
    and "\<And>p. R \<le> p \<Longrightarrow> p < T \<Longrightarrow> m' (ring_cell (rring c) p) = stream n (as @ bs) ! p"
proof -
  let ?v = "view (rring c)" and ?tl = "br_remote_tail c"
  obtain m0 m1 where m1: "m1 = put ?v ?tl (get id (br_remote_tail_addr c) 8 r1) m0"
    and ne: "mem_word ?v ?tl m1 \<noteq> br_read_ptr c"
    and m': "m' = put ?v (ring_addr rbuf c) (get id (ring_addr (rbuf\<lparr>mr_addr := br_remote_buf_addr c\<rparr>) c)
       (unat (ucast (mem_word ?v ?tl m1 - br_read_ptr c) :: u32)) r2) m1"
    using assms(1) unfolding fetched_def by blast
  have l: "br_remote_buf_len c = default_buffer_size" "br_remote_tail_addr c = br_tail sc" "br_remote_buf_addr c = sring sc"
    "rring c = mr_addr rbuf" using assms(2,3) by (auto simp: br_linked_def rring_def)
  have ot: "outside (rring c) ?tl 8" using linked_remote [OF assms(2)] by simp
  have "get id (br_remote_tail_addr c) 8 r1 = get (view (sring sc)) (br_tail sc) 8 ma"
    by (simp add: get_def assms(5) l)
  then have "mem_word ?v ?tl m1 = un_le64 (get (view (sring sc)) (br_tail sc) 8 ma)"
    using get_put_outside [of "rring c" ?tl "get (view (sring sc)) (br_tail sc) 8 ma" m0] ot by (simp add: m1 mem_word_def)
  also have "\<dots> = of_nat T" using assms(4) by (simp add: sender_ok_def mem_word_def T_def)
  finally have w: "mem_word ?v ?tl m1 = of_nat T" .
  have "R \<noteq> T" using ne w assms(8) by auto
  then show RT: "R < T" using assms(9) by (simp add: T_def)
  have near: "T - R < ring_size" using assms(4,10) RT unfolding sender_ok_def T_def by linarith
  define data where "data = get (view (sring sc)) (ring_cell (sring sc) R) (T - R) mb"
  have ra: "ring_addr rbuf c = ring_cell (rring c) R"
    "ring_addr (rbuf\<lparr>mr_addr := br_remote_buf_addr c\<rparr>) c = ring_cell (sring sc) R"
    using ring_addr_cell [OF assms(8) l(1)] l by simp_all
  have "get id (ring_cell (sring sc) R) (T - R) r2 = data" by (simp add: get_def assms(7) data_def)
  then have m'2: "m' = put ?v (ring_cell (rring c) R) data m1"
    using m' distance32 [of R T] RT near unfolding ra w assms(8) by simp
  have ld: "length data = T - R" "length data \<le> ring_size" using near by (simp_all add: data_def)
  show "mem_word ?v ?tl m' = of_nat T"
    unfolding m'2 using word_at_put_block [OF ot ld(2)] w by simp
  show "m' (ring_cell (rring c) p) = stream n (as @ bs) ! p" if pp: "R \<le> p" "p < T" for p
  proof -
    have "m' (ring_cell (rring c) (R + (p - R))) = data ! (p - R)"
      unfolding m'2 using pp ld by (intro put_block(1)) simp_all
    also have "\<dots> = mb (ring_cell (sring sc) p)"
    proof -
      obtain i where i: "p = R + i" using le_Suc_ex [OF pp(1)] by blast
      moreover from i pp(2) have "i < T - R" by simp
      moreover from this near have "i < ring_size" by linarith
      ultimately show ?thesis by (simp add: data_def view_block)
    qed
    also have "\<dots> = stream n (as @ bs) ! p"
    proof -
      have "p < (n + 4) * length (as @ bs)" using pp(2) by (simp add: T_def algebra_simps)
      moreover have "H \<le> p" using assms(10) pp(1) by simp
      ultimately show ?thesis using assms(6) by (simp only: sender_ok_def)
    qed
    finally show ?thesis using pp by simp
  qed
qed

text \<open>The message at the front of the receiver's ring.\<close>

lemma front_message:
  assumes "sized n ms" "k < length ms" "n + 4 \<le> ring_size"
    and "\<And>p. (n + 4) * k \<le> p \<Longrightarrow> p < (n + 4) * Suc k \<Longrightarrow> m (ring_cell b p) = stream n ms ! p"
  defines "a \<equiv> ring_cell b ((n + 4) * k)"
  shows "ucast (mem_word (view b) a m) = (of_nat n :: u32)" and "get (view b) (a + 4) n m = ms ! k"
proof -
  have r: "m (view b (a + of_nat i)) = (le32 (of_nat n) @ ms ! k) ! i" if "i < n + 4" for i
  proof -
    have "view b (a + of_nat i) = ring_cell b ((n + 4) * k + i)" unfolding a_def using that assms(3) by (intro view_block) simp
    moreover have "m (ring_cell b ((n + 4) * k + i)) = stream n ms ! ((n + 4) * k + i)" using that by (intro assms(4)) simp_all
    ultimately show ?thesis using stream_record [OF assms(1,2) that] by simp
  qed
  have "take 4 (get (view b) a 8 m) = le32 (of_nat n)"
    by (rule nth_equalityI) (simp_all add: r nth_append)
  then have "un_le32 (get (view b) a 8 m) = un_le32 (le32 (of_nat n) @ drop 4 (get (view b) a 8 m))"
    by (metis append_take_drop_id)
  then show "ucast (mem_word (view b) a m) = (of_nat n :: u32)"
    by (simp add: mem_word_def un_le64_low)
  show "get (view b) (a + 4) n m = ms ! k"
  proof (rule nth_equalityI)
    show "length (get (view b) (a + 4) n m) = length (ms ! k)" using assms(1,2) by (simp add: sized_def)
    fix i assume "i < length (get (view b) (a + 4) n m)"
    then have i: "i < n" by simp
    with r [of "4 + i"] show "get (view b) (a + 4) n m ! i = ms ! k ! i"
      by (simp add: nth_append add.assoc)
  qed
qed

lemma br_receive_ok:
  assumes inv: "br_inv n H F s" and "safe_size n" and held: "bs_held s = None"
    and rec: "BufferedReadConnection_Receive (bs_rcv s) ep = Some (Inr region, c', ep')"
    and act: "acts (view (rring (bs_rcv s))) ep ep' (bs_rmem s) rs ws m'" and srv: "br_serves n s rs s'"
  defines "s'' \<equiv> s'\<lparr>bs_rcv := c', bs_rmem := m', bs_held := Some region,
      bs_got := bs_got s @ [get (view (rring (bs_rcv s))) (reg_addr region) (unat (reg_length region)) m']\<rparr>"
  shows "\<exists>F'. br_inv n H F' s''"
proof -
  let ?c = "bs_rcv s" and ?v = "view (rring (bs_rcv s))" and ?k = "length (bs_got s)" and ?R = "(n + 4) * length (bs_got s)"
  have lk: "br_linked (bs_snd s) ?c" and so: "sender_ok n H (bs_snd s) (bs_smem s) (bs_sent s)"
    and tl: "mem_word ?v (br_remote_tail ?c) (bs_rmem s) = of_nat F"
    and F: "?R \<le> F" "F \<le> (n + 4) * length (bs_sent s)" "n + 4 dvd F"
    and ring: "\<And>p. ?R \<le> p \<Longrightarrow> p < F \<Longrightarrow> bs_rmem s (ring_cell (rring ?c) p) = stream n (bs_sent s) ! p"
    and got: "bs_got s = take ?k (bs_sent s)" and rp: "br_read_ptr ?c = of_nat ?R" and ack: "br_acked_head ?c = of_nat H"
    and out: "br_outstanding ?c = []" and HR: "H \<le> ?R"
    using inv held by (auto simp: br_inv_def)
  obtain rbuf where rb: "br_remote_buffer ?c = Some rbuf" using lk by (auto simp: br_linked_def)
  have rr: "rring ?c = mr_addr rbuf" using rb by (simp add: rring_def)
  have ra: "ring_addr rbuf ?c = ring_cell (rring ?c) ?R"
    unfolding rr by (rule ring_addr_cell [OF rp]) (use lk in \<open>simp add: br_linked_def\<close>)
  note ac = Receive_acts [OF rec act rb, unfolded ra]
  from serves_ok [OF srv so lk assms(2)] have ran: "sender_ran s s'"
    and so': "sender_ok n H (bs_snd s') (bs_smem s') (bs_sent s')" by auto
  then obtain xs where xs: "bs_sent s' = bs_sent s @ xs" and same: "bs_snd s' = bs_snd s"
    by (auto simp: sender_ran_def)
  have sz: "sized n (bs_sent s')" using so' by (simp add: sender_ok_def)
  have sz0: "sized n (bs_sent s)" using so by (simp add: sender_ok_def)
  have "\<exists>F'. mem_word ?v (br_remote_tail ?c) m' = of_nat F' \<and> ?R + (n + 4) \<le> F' \<and> F' \<le> (n + 4) * length (bs_sent s') \<and>
    n + 4 dvd F' \<and> (\<forall>p. ?R \<le> p \<and> p < F' \<longrightarrow> m' (ring_cell (rring ?c) p) = stream n (bs_sent s') ! p)"
  proof (cases "mem_word ?v (br_remote_tail ?c) (bs_rmem s) = br_read_ptr ?c")
    case True
    with ac(4) obtain rs0 r1 r2 where rs: "rs = rs0 @ [r1, r2]" and fe: "fetched ?c rbuf ?v (bs_rmem s) r1 r2 m'" by auto
    from serves_two [OF srv [unfolded rs]] obtain s1 s2 where sv: "br_serves n s rs0 s1" "br_serves n s1 [] s2" "br_serves n s2 [] s'"
      "r1 = (\<lambda>a. bs_smem s1 (view (sring (bs_snd s1)) a))" "r2 = (\<lambda>a. bs_smem s2 (view (sring (bs_snd s2)) a))" by blast
    from serves_ok [OF sv(1) so lk assms(2)] have ran1: "sender_ran s s1"
      and so1: "sender_ok n H (bs_snd s1) (bs_smem s1) (bs_sent s1)" by auto
    then have lk1: "br_linked (bs_snd s1) (bs_rcv s1)" using lk by (auto simp: sender_ran_def)
    from serves_ok [OF sv(2) so1 lk1 assms(2)] have ran2: "sender_ran s1 s2"
      and so2: "sender_ok n H (bs_snd s2) (bs_smem s2) (bs_sent s2)" by auto
    then have lk2: "br_linked (bs_snd s2) (bs_rcv s2)" using lk1 by (auto simp: sender_ran_def)
    from serves_ok [OF sv(3) so2 lk2 assms(2)] have ran3: "sender_ran s2 s'" by auto
    obtain ys zs us where e: "bs_sent s1 = bs_sent s @ us" "bs_sent s2 = bs_sent s1 @ ys" "bs_sent s' = bs_sent s2 @ zs"
      "bs_snd s1 = bs_snd s" "bs_snd s2 = bs_snd s" using ran1 ran2 ran3 by (auto simp: sender_ran_def)
    have "?R \<le> (n + 4) * length (bs_sent s1)" using F e by (simp add: algebra_simps)
    note fo = fetched_ok [OF fe lk rb so1 [unfolded e(4)] sv(4) [unfolded e(4)] so2 [unfolded e(2,5)]
        sv(5) [unfolded e(5)] rp this HR]
    let ?F = "(n + 4) * length (bs_sent s1)"
    have "n + 4 dvd ?F - ?R" by (intro dvd_diff_nat) simp_all
    then have "n + 4 \<le> ?F - ?R" using fo(2) by (intro dvd_imp_le) simp_all
    moreover have "stream n (bs_sent s1 @ ys) ! p = stream n (bs_sent s') ! p" if "p < ?F" for p
    proof -
      have "sized n (bs_sent s2)" using so2 by (simp add: sender_ok_def)
      then have "stream n (bs_sent s') ! p = stream n (bs_sent s2) ! p"
        using that unfolding e(3) stream_append by (intro stream_prefix) (simp_all add: e algebra_simps)
      with e(2) show ?thesis by simp
    qed
    moreover have "?F \<le> (n + 4) * length (bs_sent s')" by (simp add: e)
    ultimately show ?thesis using fo(1,2,3) by (intro exI [of _ ?F] conjI allI impI) auto
  next
    case False
    with ac(4) have m': "m' = bs_rmem s" by simp
    have "F \<noteq> ?R" using False tl rp by auto
    moreover have "n + 4 dvd F - ?R" using F(3) by (intro dvd_diff_nat) simp_all
    ultimately have "n + 4 \<le> F - ?R" using F(1) by (intro dvd_imp_le) simp_all
    with \<open>F \<noteq> ?R\<close> F(1) have "?R + (n + 4) \<le> F" by simp
    moreover have "m' (ring_cell (rring ?c) p) = stream n (bs_sent s') ! p" if "?R \<le> p" "p < F" for p
    proof -
      have "stream n (bs_sent s') ! p = stream n (bs_sent s) ! p"
        using that F(2) sz0 unfolding xs stream_append by (intro stream_prefix) simp_all
      with ring that m' show ?thesis by simp
    qed
    moreover have "F \<le> (n + 4) * length (bs_sent s')" using F(2) xs by (simp add: algebra_simps)
    ultimately show ?thesis using tl F(3) m' by (intro exI [of _ F] conjI allI impI) auto
  qed
  then obtain F' where F': "mem_word ?v (br_remote_tail ?c) m' = of_nat F'" "?R + (n + 4) \<le> F'"
    "F' \<le> (n + 4) * length (bs_sent s')" "n + 4 dvd F'"
    "\<And>p. ?R \<le> p \<Longrightarrow> p < F' \<Longrightarrow> m' (ring_cell (rring ?c) p) = stream n (bs_sent s') ! p" by blast
  have "(n + 4) * ?k < (n + 4) * length (bs_sent s')" using F'(2,3) by linarith
  then have k: "?k < length (bs_sent s')" by (metis mult_less_cancel1)
  have nr: "n + 4 \<le> ring_size" using assms(2) by (rule safe_size_fits)
  have msg: "ucast (mem_word ?v (ring_cell (rring ?c) ?R) m') = (of_nat n :: u32)"
    "get ?v (ring_cell (rring ?c) ?R + 4) n m' = bs_sent s' ! ?k"
    using F' by (auto intro!: front_message [OF sz k nr])
  have nu: "unat (of_nat n :: u32) = n" using nr by (simp add: ring_size_def unat_of_nat)
  have reg: "region = \<lparr>reg_context = ring_cell (rring ?c) ?R, reg_addr = ring_cell (rring ?c) ?R + 4, reg_length = of_nat n, reg_lkey = 0\<rparr>"
    using ac(2) by (simp add: msg)
  have "?k \<le> length (bs_sent s)" using got by (metis length_take min.cobounded1)
  then have "take ?k (bs_sent s') = bs_got s" using got xs by simp
  then have got'': "bs_got s'' = take (Suc ?k) (bs_sent s')" using msg(2) nu
    by (simp add: s''_def reg take_Suc_conv_app_nth [OF k])
  have "(ucast (of_nat n :: u32) :: u64) = of_nat n" by (simp add: word_unat_eq_iff nu) (use nr in \<open>simp add: unat_of_nat ring_size_def\<close>)
  with ac(3) rp obtain x y where c': "c' = ?c\<lparr>br_sent_msgs := x, br_sent_bytes := y, br_read_ptr := of_nat (?R + (n + 4)),
      br_outstanding := [ring_cell (rring ?c) ?R]\<rparr>"
    by (auto simp: msg out)
  have k'': "length (bs_got s'') = Suc ?k" by (simp add: s''_def)
  have "br_inv n H F' s''"
    unfolding br_inv_def k'' got''
    using F' lk so' HR ack same reg k
    by (auto simp: s''_def c' rring_def br_linked_def br_remote_tail_def br_remote_head_def algebra_simps)
  then show ?thesis by blast
qed

text \<open>A region that comes back moves the head to the read position, here and perhaps at the sender.\<close>

lemma head_told_ok:
  assumes "sender_ok n H c m ms" "br_linked c rc" "H \<le> R" "R \<le> (n + 4) * length ms" "n + 4 dvd R"
  shows "sender_ok n R c (put (view (sring c)) (br_head c) (le64 (of_nat R)) m) ms"
proof -
  note o = linked_tail [OF assms(2)]
  have "put (view (sring c)) (br_head c) (le64 (of_nat R)) m (ring_cell (sring c) p) = m (ring_cell (sring c) p)" for p
    using o by (intro put_outside_other(1)) simp_all
  with assms o words_of_sender(2) [OF assms(2)] show ?thesis by (auto simp: sender_ok_def)
qed

lemma br_free_ok:
  assumes inv: "br_inv n H F s" and held: "bs_held s = Some region"
    and fr: "BufferedReadConnection_Free region (bs_rcv s) ep = Some (st, c', ep')" "status_ok st"
    and act: "acts (view (rring (bs_rcv s))) ep ep' (bs_rmem s) rs ws m'"
  defines "s' \<equiv> s\<lparr>bs_rcv := c', bs_rmem := m', bs_held := None,
      bs_smem := deliver (view (sring (bs_snd s))) ws (bs_smem s)\<rparr>"
  shows "\<exists>H'. br_inv n H' F s'"
proof -
  let ?c = "bs_rcv s" and ?v = "view (rring (bs_rcv s))" and ?R = "(n + 4) * length (bs_got s)"
  have lk: "br_linked (bs_snd s) ?c" and so: "sender_ok n H (bs_snd s) (bs_smem s) (bs_sent s)"
    and out: "br_outstanding ?c = [reg_context region]" and HR: "H \<le> ?R" and rp: "br_read_ptr ?c = of_nat ?R"
    and FR: "?R \<le> (n + 4) * length (bs_sent s)"
    using inv held by (auto simp: br_inv_def)
  note fa = Free_acts [OF fr act out, unfolded rp]
  have o: "outside (rring ?c) (br_remote_head ?c) 8" "outside (rring ?c) (br_remote_tail ?c) 8" using linked_remote [OF lk] by auto
  have w: "mem_word ?v (br_remote_head ?c) m' = of_nat ?R" unfolding fa(1) using o(1) by simp
  have g: "get ?v (br_remote_head ?c) 8 m' = le64 (of_nat ?R)"
    unfolding fa(1) using get_put_outside [of "rring ?c" "br_remote_head ?c" "le64 (of_nat ?R)"] o(1) by simp
  have ring: "m' (ring_cell (rring ?c) p) = bs_rmem s (ring_cell (rring ?c) p)" for p
    unfolding fa(1) using o by (intro put_outside_other(1)) simp_all
  have tail: "mem_word ?v (br_remote_tail ?c) m' = mem_word ?v (br_remote_tail ?c) (bs_rmem s)"
    unfolding fa(1) using o unfolding br_remote_tail_def br_remote_head_def
    by (intro word_at_cong put_word_other near_words(4)) simp_all
  have ha: "br_remote_head_addr ?c = br_head (bs_snd s)" using lk by (simp add: br_linked_def)
  define far where "far = (ucast (br_remote_buf_len ?c div 3) < (of_nat ?R :: u64) - br_acked_head ?c)"
  let ?H = "if far then ?R else H"
  have c': "c' = ?c\<lparr>br_outstanding := [], br_acked_head := of_nat ?H\<rparr>"
    using fa(4) inv unfolding w far_def [symmetric] by (auto simp: br_inv_def)
  have "bs_smem s' = (if far then put (view (sring (bs_snd s))) (br_head (bs_snd s)) (le64 (of_nat ?R)) (bs_smem s) else bs_smem s)"
    using fa(3) unfolding w far_def [symmetric] g ha by (simp add: s'_def deliver_def)
  then have so': "sender_ok n ?H (bs_snd s) (bs_smem s') (bs_sent s)"
    using so head_told_ok [OF so lk HR FR] by simp
  have lag: "?R - H \<le> ring_size div 3" if "\<not> far"
  proof -
    have "?R - H < ring_size" using so FR HR unfolding sender_ok_def by linarith
    then have d: "unat (of_nat (?R - H) :: u64) = ?R - H" by (intro unat_small64) simp
    have e: "(of_nat ?R :: u64) - of_nat H = of_nat (?R - H)" using HR by (simp add: of_nat_diff)
    have a: "br_acked_head ?c = of_nat H" "br_remote_buf_len ?c = default_buffer_size"
      using inv lk by (simp_all add: br_inv_def br_linked_def)
    have "unat (default_buffer_size div 3) = ring_size div 3" by (simp add: default_buffer_size_def ring_size_def)
    then show ?thesis
      using that unfolding far_def a e by (simp add: word_less_nat_alt d not_less)
  qed
  have "br_inv n ?H F s'"
    using inv so' HR ring tail lag
    by (auto simp: br_inv_def s'_def c' rring_def br_linked_def br_remote_tail_def br_remote_head_def)
  then show ?thesis by blast
qed

lemma receiver_app_ok:
  assumes "br_inv n H F s" "\<not> in_ring (rring (bs_rcv s)) a" "\<not> a - br_remote_head (bs_rcv s) < 16"
  shows "br_inv n H F (s\<lparr>bs_rmem := (bs_rmem s)(a := x)\<rparr>)"
proof -
  let ?c = "bs_rcv s"
  have lk: "br_linked (bs_snd s) ?c" using assms(1) by (simp add: br_inv_def)
  have "mem_word (view (rring ?c)) (br_remote_tail ?c) ((bs_rmem s)(a := x)) = mem_word (view (rring ?c)) (br_remote_tail ?c) (bs_rmem s)"
    using linked_remote [OF lk] assms(3) near_words(2) [of _ "br_remote_head ?c"]
    by (auto intro!: word_at_cong simp: br_remote_tail_def br_remote_head_def)
  moreover have "ring_cell (rring ?c) p \<noteq> a" for p using assms(2) ring_cell_in [of "rring ?c" p] by auto
  ultimately show ?thesis using assms(1) by (auto simp: br_inv_def split: option.splits)
qed

lemma sender_ran_inv:
  assumes "br_inv n H F s" "sender_ran s s'" "sender_ok n H (bs_snd s') (bs_smem s') (bs_sent s')"
  shows "br_inv n H F s'"
proof -
  have e: "bs_snd s' = bs_snd s" "bs_rcv s' = bs_rcv s" "bs_rmem s' = bs_rmem s" "bs_held s' = bs_held s" "bs_got s' = bs_got s"
    using assms(2) by (simp_all add: sender_ran_def)
  obtain xs where xs: "bs_sent s' = bs_sent s @ xs" using assms(2) by (auto simp: sender_ran_def)
  have sz: "sized n (bs_sent s)" using assms(1) by (simp add: br_inv_def sender_ok_def)
  have F: "F \<le> (n + 4) * length (bs_sent s)" using assms(1) by (simp add: br_inv_def)
  then have st: "stream n (bs_sent s') ! p = stream n (bs_sent s) ! p" if "p < F" for p
    using that sz unfolding xs stream_append by (intro stream_prefix) simp_all
  have k: "bs_got s = take (length (bs_got s)) (bs_sent s)" using assms(1) by (simp add: br_inv_def)
  then have "length (bs_got s) \<le> length (bs_sent s)" by (metis length_take min.cobounded1)
  with k have "bs_got s = take (length (bs_got s)) (bs_sent s')" by (simp add: xs)
  moreover have "F \<le> (n + 4) * length (bs_sent s')" using F by (simp add: xs algebra_simps)
  ultimately show ?thesis using assms(1,3) st unfolding br_inv_def e by auto
qed

lemma br_step_inv:
  assumes "br_step n s s'" "br_inv n H F s" "safe_size n"
  shows "\<exists>H F. br_inv n H F s'"
  using assms(1)
proof cases
  case br_sender
  moreover have "br_linked (bs_snd s) (bs_rcv s)" "sender_ok n H (bs_snd s) (bs_smem s) (bs_sent s)"
    using assms(2) by (simp_all add: br_inv_def)
  ultimately show ?thesis using sends_ok sender_ran_inv [OF assms(2)] assms(3) by blast
next
  case (br_receive ep region c' ep' rs ws m' s1)
  then show ?thesis using br_receive_ok [OF assms(2,3)] by blast
next
  case (br_free region ep st c' ep' rs ws m')
  then show ?thesis using br_free_ok [OF assms(2)] by blast
next
  case (br_receiver_app a x)
  then show ?thesis using receiver_app_ok [OF assms(2)] by blast
qed

lemma br_start_inv: "br_start s \<Longrightarrow> safe_size n \<Longrightarrow> br_inv n 0 0 s"
  by (auto simp: br_start_def br_inv_def sender_ok_def sized_def safe_size_def)

lemma br_runs_inv:
  assumes "(br_step n)\<^sup>*\<^sup>* s0 s" "br_start s0" "safe_size n"
  shows "\<exists>H F. br_inv n H F s"
  using assms(1,2)
proof (induction rule: rtranclp_induct)
  case base
  then show ?case using br_start_inv assms(3) by blast
next
  case (step s s')
  then show ?case using br_step_inv assms(3) by blast
qed

section \<open>Going on\<close>

lemma poll_ok: "send_polls ep = (1, wc) # ps \<Longrightarrow> wc_status wc = 0 \<Longrightarrow>
    Endpoint_PollSendCq ep = Some (Inr wc, ep\<lparr>send_polls := ps\<rparr>)"
  by (simp add: Endpoint_PollSendCq_def)

text \<open>A message that was fetched can be handed out.\<close>

lemma Receive_ready:
  assumes "br_remote_buf_len c \<noteq> 0" "br_remote_buffer c = Some rbuf" "mem_word v (br_remote_tail c) m \<noteq> br_read_ptr c"
  shows "\<exists>ep region c' ep'. BufferedReadConnection_Receive c ep = Some (Inr region, c', ep') \<and> acts v ep ep' m [] [] m"
proof -
  define ep where "ep = (undefined :: endpoint)\<lparr>calls := [], loads := [mem_word v (br_remote_tail c) m, mem_word v (ring_addr rbuf c) m]\<rparr>"
  let ?ep' = "ep\<lparr>calls := [Load (br_remote_tail c), Load (ring_addr rbuf c)], loads := []\<rparr>"
  have "runs v [Load (br_remote_tail c), Load (ring_addr rbuf c)] [mem_word v (br_remote_tail c) m, mem_word v (ring_addr rbuf c) m] m [] [] m"
    by (intro runs.intros)
  then have "acts v ep ?ep' m [] [] m" unfolding acts_def by (simp add: ep_def)
  moreover have "\<exists>region c'. BufferedReadConnection_Receive c ep = Some (Inr region, c', ?ep')"
    using assms by (simp add: BufferedReadConnection_Receive_def take_message_def ring_addr_def Let_def sys_load_def ep_def)
  ultimately show ?thesis by blast
qed

text \<open>When all that was fetched is handed out, the new tail and the data are read.\<close>

lemma Receive_fetching:
  assumes "br_remote_buf_len c \<noteq> 0" "br_remote_buffer c = Some rbuf" "mem_word v (br_remote_tail c) m = br_read_ptr c"
    and "mem_word v (br_remote_tail c) (put v (br_remote_tail c) (get id (br_remote_tail_addr c) 8 r) m) \<noteq> br_read_ptr c"
  shows "\<exists>ep region c' ep' m'. BufferedReadConnection_Receive c ep = Some (Inr region, c', ep') \<and> acts v ep ep' m [r, r] [] m'"
proof -
  let ?tl = "br_remote_tail c" and ?a = "ring_addr rbuf c"
  let ?m1 = "put v ?tl (get id (br_remote_tail_addr c) 8 r) m"
  let ?t = "mem_word v ?tl ?m1"
  let ?n = "unat (ucast (?t - br_read_ptr c) :: u32)"
  let ?ra = "ring_addr (rbuf\<lparr>mr_addr := br_remote_buf_addr c\<rparr>) c"
  let ?m2 = "put v ?a (get id ?ra ?n r) ?m1"
  define w1 where "w1 = (send_wr0 8 (sge ?tl 8 (mr_lkey (br_remote_meta_data c))) WR_RDMA_READ [SEND_SIGNALED])
    \<lparr>swr_remote_addr := br_remote_tail_addr c, swr_rkey := br_remote_meta_rkey c\<rparr>"
  define w2 where "w2 = (send_wr0 8 (sge ?a (?t - br_read_ptr c) (mr_lkey rbuf)) WR_RDMA_READ [SEND_SIGNALED])
    \<lparr>swr_remote_addr := ?ra, swr_rkey := br_remote_buf_rkey c\<rparr>"
  define wc where "wc = (undefined :: ibv_wc)\<lparr>wc_status := 0\<rparr>"
  define cs where "cs = [Load ?tl, Load ?tl, Post_send [w1], Load ?tl, Load ?tl, Post_send [w2], Load ?a]"
  define ls where "ls = [br_read_ptr c, br_read_ptr c, ?t, ?t, mem_word v ?a ?m2]"
  define ep where "ep = (undefined :: endpoint)\<lparr>calls := [], replied := [], loads := ls, rets := [0, 0], send_polls := [(1, wc), (1, wc)]\<rparr>"
  let ?ep' = "ep\<lparr>calls := cs, replied := [(Post_send [w1], 0), (Post_send [w2], 0)], loads := [], rets := [], send_polls := []\<rparr>"
  have o: "swr_opcode w1 = WR_RDMA_READ" "sge_of w1 = (?tl, 8)" "swr_remote_addr w1 = br_remote_tail_addr c"
    "swr_opcode w2 = WR_RDMA_READ" "sge_of w2 = (?a, ?n)" "swr_remote_addr w2 = ?ra"
    by (simp_all add: w1_def w2_def sge_of_def send_wr0_def sge_def)
  have "runs v [Load ?tl, Load ?tl, Post_send [w1], Load ?tl, Load ?tl, Post_send [w2], Load ?a]
      [mem_word v ?tl m, mem_word v ?tl m, ?t, ?t, mem_word v ?a ?m2] m [r, r] [] ?m2"
    by (intro runs_Load runs_Read_I [OF o(1-3)] runs_Read_I [OF o(4-6)] runs_Nil)
  then have "acts v ep ?ep' m [r, r] [] ?m2" unfolding acts_def using assms(3)
    by (intro exI [of _ cs] exI [of _ ls]) (simp add: ep_def cs_def ls_def)
  moreover have "\<exists>region c'. BufferedReadConnection_Receive c ep = Some (Inr region, c', ?ep')"
    using assms(1,2,4)
    by (simp add: BufferedReadConnection_Receive_def fetch_tail.simps fetch_data_def take_message_def Let_def ring_addr_def
      sys_load_def Endpoint_PostRead_def Endpoint_PostSendRaw_def sys_def poll_ok ep_def wc_def cs_def ls_def w1_def w2_def)
  ultimately show ?thesis by blast
qed

lemma wait_free_room:
  assumes "loads ep = h # ls" "ring_has_room (br_length c) (ucast (h mod ucast (br_length c))) tail len"
  shows "wait_free len tail c ep = Some (Status0, ep\<lparr>calls := calls ep @ [Load (br_head c)], loads := ls\<rparr>)"
  using assms by (subst wait_free.simps) (auto simp: sys_load_def ring_has_room_def Let_def)

lemma Send_ready:
  assumes "br_length c \<noteq> 0"
    and "ring_has_room (br_length c) (ucast (mem_word v (br_head c) m mod ucast (br_length c)))
      (ucast (mem_word v (br_tail c) m mod ucast (br_length c))) len"
  shows "\<exists>ep ep' m'. BufferedReadConnection_Send buf len c ep = Some (Status0, ep') \<and> acts v ep ep' m [] [] m'"
proof -
  let ?tl = "br_tail c" and ?hd = "br_head c"
  define a where "a = mr_addr (br_buffer c) + ucast (ucast (mem_word v ?tl m mod ucast (br_length c)) :: u32)"
  let ?m1 = "put v a (le32 len) m"
  let ?m2 = "put v (a + 4) (get v buf (unat len) ?m1) ?m1"
  let ?t = "mem_word v ?tl ?m2"
  let ?m3 = "put v ?tl (take 8 (le64 (?t + (ucast len + 4)))) ?m2"
  define ep where "ep = (undefined :: endpoint)\<lparr>calls := [], loads := [mem_word v ?tl m, mem_word v ?hd m, ?t]\<rparr>"
  let ?cs = "[Load ?tl, Load ?hd, Store a (ucast len) 4, Memcpy (a + 4) buf len, Load ?tl, Store ?tl (?t + (ucast len + 4)) 8]"
  let ?ep' = "ep\<lparr>calls := ?cs, loads := []\<rparr>"
  have "runs v ?cs [mem_word v ?tl m, mem_word v ?hd m, ?t] m [] [] ?m3"
  proof (intro runs_Load runs_Store)
    show "runs v [Memcpy (a + 4) buf len, Load ?tl, Store ?tl (?t + (ucast len + 4)) 8] [?t] (put v a (take 4 (le64 (ucast len))) m) [] [] ?m3"
      unfolding take_le64 by (intro runs.intros)
  qed
  then have "acts v ep ?ep' m [] [] ?m3" unfolding acts_def by (simp add: ep_def)
  moreover have "BufferedReadConnection_Send buf len c ep = Some (Status0, ?ep')"
    using assms by (simp add: BufferedReadConnection_Send_def Let_def sys_load_def ep_def wait_free_room sys_void_def a_def)
  ultimately show ?thesis by blast
qed

text \<open>With everything freed, at most a third of the ring is not yet told to the sender.\<close>

lemma drained_room:
  assumes "H \<le> T" "T - H \<le> ring_size div 3" "n + 4 dvd H" "n + 4 dvd T" "unat len = n" "n + 4 \<le> ring_size"
    and "unat x = H mod ring_size" "unat y = T mod ring_size"
  shows "ring_has_room default_buffer_size x y len"
proof -
  define h d where "h = H mod ring_size" and "d = T - H"
  have b: "h < ring_size" "3 * d \<le> ring_size" "d < ring_size" using assms(2) by (simp_all add: h_def d_def ring_size_def)
  have "n + 4 dvd d" unfolding d_def using assms(3,4) by (intro dvd_diff_nat)
  then have small: "n + 4 \<le> d" if "0 < d" using that by (intro dvd_imp_le)
  have "T = H + d" using assms(1) by (simp add: d_def)
  then have "T mod ring_size = (h + d) mod ring_size" by (simp add: h_def mod_simps)
  then have t: "unat y = (if h + d < ring_size then h + d else h + d - ring_size)"
    using assms(8) b by (simp add: mod_if)
  have x: "unat x = h" using assms(7) by (simp add: h_def)
  have yr: "unat y < ring_size" using assms(8) by simp
  have d1: "unat (default_buffer_size - y) = ring_size - unat y"
    using yr by (simp add: unat_sub_le ring_size_default)
  have "unat (default_buffer_size - y) + unat x < 4294967296" using b(1) x d1 by (simp add: ring_size_def)
  then have s: "unat (default_buffer_size - y + x) = ring_size - unat y + unat x" by (simp add: unat32_add d1)
  have 1: "\<not> (x = y \<and> default_buffer_size < len)"
    using assms(5,6) by (simp add: word_less_nat_alt ring_size_default)
  have 2: "\<not> (x < y \<and> default_buffer_size - y + x \<le> len)"
    using t b small x by (auto simp: word_less_nat_alt word_le_nat_alt s assms(5) split: if_splits)
  have 3: "\<not> (y < x \<and> x - y \<le> len)"
    using t b small x by (auto simp: word_less_nat_alt word_le_nat_alt unat_sub_le assms(5) split: if_splits)
  from 1 2 3 show ?thesis by (simp add: ring_has_room_def)
qed

lemma receive_enabled:
  assumes "br_inv n H F s" "bs_held s = None" "length (bs_got s) < length (bs_sent s)"
  shows "\<exists>ep region c' ep' rs m'. BufferedReadConnection_Receive (bs_rcv s) ep = Some (Inr region, c', ep') \<and>
    acts (view (rring (bs_rcv s))) ep ep' (bs_rmem s) rs [] m' \<and> br_serves n s rs s"
proof -
  let ?c = "bs_rcv s" and ?v = "view (rring (bs_rcv s))" and ?R = "(n + 4) * length (bs_got s)" and ?T = "(n + 4) * length (bs_sent s)"
  have lk: "br_linked (bs_snd s) ?c" and so: "sender_ok n H (bs_snd s) (bs_smem s) (bs_sent s)"
    and rp: "br_read_ptr ?c = of_nat ?R" and HR: "H \<le> ?R"
    using assms(1,2) by (simp_all add: br_inv_def)
  obtain rbuf where rb: "br_remote_buffer ?c = Some rbuf" using lk by (auto simp: br_linked_def)
  have l: "br_remote_buf_len ?c \<noteq> 0" using lk by (simp add: br_linked_def default_buffer_size_def)
  show ?thesis
  proof (cases "mem_word ?v (br_remote_tail ?c) (bs_rmem s) = br_read_ptr ?c")
    case False
    from Receive_ready [OF l rb False] show ?thesis using br_serves_Nil by blast
  next
    case True
    let ?r = "\<lambda>a. bs_smem s (view (sring (bs_snd s)) a)"
    have RT: "?R < ?T" using assms(3) by simp
    have "get id (br_remote_tail_addr ?c) 8 ?r = get (view (sring (bs_snd s))) (br_tail (bs_snd s)) 8 (bs_smem s)"
      using lk by (simp add: get_def br_linked_def)
    then have "mem_word ?v (br_remote_tail ?c) (put ?v (br_remote_tail ?c) (get id (br_remote_tail_addr ?c) 8 ?r) (bs_rmem s)) =
        mem_word (view (sring (bs_snd s))) (br_tail (bs_snd s)) (bs_smem s)"
      using get_put_outside [of "rring ?c" "br_remote_tail ?c" "get id (br_remote_tail_addr ?c) 8 ?r"] linked_remote [OF lk]
      by (simp add: mem_word_def)
    also have "\<dots> = of_nat ?T" using so by (simp add: sender_ok_def)
    finally have w: "mem_word ?v (br_remote_tail ?c) (put ?v (br_remote_tail ?c) (get id (br_remote_tail_addr ?c) 8 ?r) (bs_rmem s)) = of_nat ?T" .
    have near: "?T - ?R < ring_size" using so HR RT unfolding sender_ok_def by linarith
    have "(of_nat ?R :: u64) \<noteq> of_nat ?T" using of_nat_near [of ?R ?T] RT near by auto
    with w rp have "mem_word ?v (br_remote_tail ?c) (put ?v (br_remote_tail ?c) (get id (br_remote_tail_addr ?c) 8 ?r) (bs_rmem s)) \<noteq> br_read_ptr ?c"
      by metis
    note fe = Receive_fetching [OF l rb True this]
    have "br_serves n s [?r, ?r] s" by (intro br_serves_read br_serves_Nil)
    with fe show ?thesis by blast
  qed
qed

lemma send_enabled:
  assumes "br_inv n H F s" "bs_held s = None" "\<not> length (bs_got s) < length (bs_sent s)" "n + 4 \<le> ring_size"
  shows "\<exists>ep ep' m' len. BufferedReadConnection_Send buf len (bs_snd s) ep = Some (Status0, ep') \<and> unat len = n \<and>
    acts (view (sring (bs_snd s))) ep ep' (bs_smem s) [] [] m'"
proof -
  let ?c = "bs_snd s" and ?v = "view (sring (bs_snd s))" and ?T = "(n + 4) * length (bs_sent s)" and ?len = "of_nat n :: u32"
  have lk: "br_linked ?c (bs_rcv s)" and so: "sender_ok n H ?c (bs_smem s) (bs_sent s)"
    and lag: "(n + 4) * length (bs_got s) - H \<le> ring_size div 3" and F: "(n + 4) * length (bs_got s) \<le> F" "F \<le> ?T"
    using assms(1,2) by (simp_all add: br_inv_def)
  have "(n + 4) * length (bs_got s) \<le> ?T" using F by linarith
  then have "length (bs_got s) = length (bs_sent s)" using assms(3) by simp
  with lag have lag: "?T - H \<le> ring_size div 3" by simp
  have u: "unat ?len = n" using assms(4) by (simp add: ring_size_def unat_of_nat)
  have "ring_has_room default_buffer_size (ucast ((of_nat H :: u64) mod ucast default_buffer_size))
      (ucast ((of_nat ?T :: u64) mod ucast default_buffer_size)) ?len"
    using so lag by (intro drained_room [OF _ _ _ _ u assms(4) unat_offset unat_offset]) (auto simp: sender_ok_def)
  moreover have "br_length ?c = default_buffer_size" "default_buffer_size \<noteq> 0" using lk by (simp_all add: br_linked_def default_buffer_size_def)
  moreover have "mem_word ?v (br_head ?c) (bs_smem s) = of_nat H" "mem_word ?v (br_tail ?c) (bs_smem s) = of_nat ?T"
    using so by (simp_all add: sender_ok_def)
  ultimately show ?thesis using Send_ready [of ?c ?v "bs_smem s" ?len buf] u by metis
qed

lemma br_goes_on:
  assumes "br_inv n H F s" "bs_held s = None" "outside (sring (bs_snd s)) buf n" "n + 4 \<le> ring_size"
  shows "if length (bs_got s) < length (bs_sent s)
    then \<exists>s'. br_step n s s' \<and> length (bs_got s') = Suc (length (bs_got s))
    else \<exists>m'. br_step n s (s\<lparr>bs_smem := m', bs_sent := bs_sent s @ [get (view (sring (bs_snd s))) buf n (bs_smem s)]\<rparr>)"
proof (cases "length (bs_got s) < length (bs_sent s)")
  case True
  from receive_enabled [OF assms(1,2) True] obtain ep region c' ep' rs m' where
    "BufferedReadConnection_Receive (bs_rcv s) ep = Some (Inr region, c', ep')"
    "acts (view (rring (bs_rcv s))) ep ep' (bs_rmem s) rs [] m'" "br_serves n s rs s" by blast
  from br_receive [OF assms(2) this] show ?thesis using True by (auto intro!: exI)
next
  case False
  from send_enabled [OF assms(1,2) False assms(4)] obtain ep ep' m' len where
    "BufferedReadConnection_Send buf len (bs_snd s) ep = Some (Status0, ep')" "unat len = n"
    "acts (view (sring (bs_snd s))) ep ep' (bs_smem s) [] [] m'" by blast
  from br_sender [OF br_send [OF this(1) _ this(3,2) assms(3)]] show ?thesis using False by auto
qed

section \<open>Without a safe size\<close>

text \<open>
  Records that fill the ring exactly: every number of free bytes that the sender can see is larger than
  the message, so it never waits, whatever was received.
\<close>

lemma full_ring_room:
  assumes "n + 4 dvd ring_size" "n + 4 dvd H" "n + 4 dvd T" "unat len = n"
    and "unat x = H mod ring_size" "unat y = T mod ring_size"
  shows "ring_has_room default_buffer_size x y len"
proof -
  have d: "n + 4 dvd unat x" "n + 4 dvd unat y" using assms by (simp_all add: dvd_mod)
  have lt: "unat x < ring_size" "unat y < ring_size" using assms(5,6) by simp_all
  have le: "n + 4 \<le> ring_size" using assms(1) by (intro dvd_imp_le) (simp_all add: ring_size_def)
  have d1: "unat (default_buffer_size - y) = ring_size - unat y" using lt by (simp add: unat_sub_le ring_size_default)
  have "unat (default_buffer_size - y) + unat x < 4294967296" if "unat x < unat y" using lt d1 that by (simp add: ring_size_def)
  then have s: "unat x < unat y \<Longrightarrow> unat (default_buffer_size - y + x) = ring_size - unat y + unat x"
    by (simp add: unat32_add d1)
  have 1: "\<not> (x = y \<and> default_buffer_size < len)" using assms(4) le by (simp add: word_less_nat_alt ring_size_default)
  have "n + 4 \<le> ring_size - unat y" using lt d assms(1) by (intro dvd_imp_le dvd_diff_nat) simp_all
  then have 2: "\<not> (x < y \<and> default_buffer_size - y + x \<le> len)"
    using s assms(4) by (auto simp: word_less_nat_alt word_le_nat_alt)
  have "n + 4 \<le> unat x - unat y" if "unat y < unat x" using that d by (intro dvd_imp_le dvd_diff_nat) simp_all
  then have 3: "\<not> (y < x \<and> x - y \<le> len)"
    using assms(4) by (force simp: word_less_nat_alt word_le_nat_alt unat_sub_le)
  from 1 2 3 show ?thesis by (simp add: ring_has_room_def)
qed

lemma unread_run:
  assumes "br_start s0" "n + 4 dvd ring_size" "outside (sring (bs_snd s0)) buf n"
  shows "\<exists>s. (br_step n)\<^sup>*\<^sup>* s0 s \<and> length (bs_sent s) = k \<and> bs_got s = [] \<and> bs_snd s = bs_snd s0 \<and> bs_rcv s = bs_rcv s0 \<and>
    mem_word (view (sring (bs_snd s0))) (br_head (bs_snd s0)) (bs_smem s) = 0 \<and>
    mem_word (view (sring (bs_snd s0))) (br_tail (bs_snd s0)) (bs_smem s) = of_nat ((n + 4) * k)"
proof (induction k)
  case 0
  then show ?case using assms(1) by (intro exI [of _ s0]) (simp add: br_start_def)
next
  case (Suc k)
  then obtain s where s: "(br_step n)\<^sup>*\<^sup>* s0 s" "length (bs_sent s) = k" "bs_got s = []" "bs_snd s = bs_snd s0" "bs_rcv s = bs_rcv s0"
    and w: "mem_word (view (sring (bs_snd s0))) (br_head (bs_snd s0)) (bs_smem s) = of_nat 0"
      "mem_word (view (sring (bs_snd s0))) (br_tail (bs_snd s0)) (bs_smem s) = of_nat ((n + 4) * k)" by auto
  let ?c = "bs_snd s0" and ?v = "view (sring (bs_snd s0))" and ?len = "of_nat n :: u32"
  have lk: "br_linked ?c (bs_rcv s0)" using assms(1) by (simp add: br_start_def)
  have le: "n + 4 \<le> ring_size" using assms(2) by (intro dvd_imp_le) (simp_all add: ring_size_def)
  then have u: "unat ?len = n" by (simp add: ring_size_def unat_of_nat)
  have "ring_has_room default_buffer_size (ucast ((of_nat 0 :: u64) mod ucast default_buffer_size))
      (ucast ((of_nat ((n + 4) * k) :: u64) mod ucast default_buffer_size)) ?len"
    by (intro full_ring_room [OF assms(2) _ _ u unat_offset unat_offset]) simp_all
  moreover have "br_length ?c = default_buffer_size" "default_buffer_size \<noteq> 0" using lk by (simp_all add: br_linked_def default_buffer_size_def)
  ultimately obtain ep ep' m' where snd: "BufferedReadConnection_Send buf ?len ?c ep = Some (Status0, ep')"
    "acts ?v ep ep' (bs_smem s) [] [] m'" using Send_ready [of ?c ?v "bs_smem s" ?len buf] w by metis
  note ef = send_effect [OF lk snd(1) _ snd(2) u assms(3) le w(2)]
  let ?s = "s\<lparr>bs_smem := m', bs_sent := bs_sent s @ [get ?v buf n (bs_smem s)]\<rparr>"
  have "br_step n s ?s" using br_sender [OF br_send [of buf ?len s ep Status0 ep' "[]" "[]" m' n]] snd u assms(3) s(4) by simp
  with s(1) have "(br_step n)\<^sup>*\<^sup>* s0 ?s" by simp
  moreover have "mem_word ?v (br_tail ?c) m' = of_nat ((n + 4) * Suc k)" using ef(2) by (simp add: algebra_simps)
  ultimately show ?case using s(2-5) w(1) ef(3) by (intro exI [of _ ?s]) simp
qed

section \<open>An example\<close>

definition example_sender :: buffered_read where
  "example_sender = \<lparr>br_meta_data = \<lparr>mr_addr = 256, mr_length = 16, mr_lkey = 1\<rparr>,
     br_buffer = \<lparr>mr_addr = 268435456, mr_length = 16777216, mr_lkey = 2\<rparr>, br_length = default_buffer_size,
     br_remote_meta_data = \<lparr>mr_addr = 512, mr_length = 16, mr_lkey = 3\<rparr>, br_remote_meta_rkey = 0,
     br_read_ptr = 0, br_acked_head = 0, br_remote_head_addr = 1024, br_remote_tail_addr = 1032,
     br_remote_buffer = None, br_remote_buf_len = default_buffer_size, br_remote_buf_rkey = 0,
     br_remote_buf_addr = 0, br_sent_msgs = 0, br_sent_bytes = 0, br_outstanding = []\<rparr>"

definition example_receiver :: buffered_read where
  "example_receiver = \<lparr>br_meta_data = \<lparr>mr_addr = 1024, mr_length = 16, mr_lkey = 4\<rparr>,
     br_buffer = \<lparr>mr_addr = 536870912, mr_length = 16777216, mr_lkey = 5\<rparr>, br_length = default_buffer_size,
     br_remote_meta_data = \<lparr>mr_addr = 2048, mr_length = 16, mr_lkey = 6\<rparr>, br_remote_meta_rkey = 1,
     br_read_ptr = 0, br_acked_head = 0, br_remote_head_addr = 256, br_remote_tail_addr = 264,
     br_remote_buffer = Some \<lparr>mr_addr = 536870912, mr_length = 16777216, mr_lkey = 7\<rparr>,
     br_remote_buf_len = default_buffer_size, br_remote_buf_rkey = 2, br_remote_buf_addr = 268435456,
     br_sent_msgs = 0, br_sent_bytes = 0, br_outstanding = []\<rparr>"

definition br_example :: br_system where
  "br_example = \<lparr>bs_snd = example_sender, bs_smem = (\<lambda>_. 0), bs_sent = [], bs_rcv = example_receiver,
     bs_rmem = (\<lambda>_. 0), bs_held = None, bs_got = []\<rparr>"

lemma outside_far:
  assumes "16777216 \<le> unat (a - b)" "unat (a - b) + n \<le> 18446744073709551616"
  shows "outside b a n"
  unfolding outside_def in_ring_def
proof (intro allI impI)
  fix i assume "i < n"
  then have "unat (of_nat i :: u64) = i" using assms(2) by (intro unat64_of_nat) linarith
  then have "unat ((a - b) + of_nat i) = unat (a - b) + i"
    using unat64_add [of "a - b" "of_nat i"] assms(2) \<open>i < n\<close> by simp
  moreover have "a + of_nat i - b = (a - b) + of_nat i" by simp
  ultimately show "\<not> a + of_nat i - b < 16777216" using assms(1) by (simp only: word_less_nat_alt) simp
qed

lemma zero_word [simp]: "mem_word v a (\<lambda>_. 0) = 0"
  by (simp add: mem_word_def get_def un_le64_def upt_rec)

lemma example_linked: "br_linked example_sender example_receiver"
  by (simp add: br_linked_def example_sender_def example_receiver_def sring_def rring_def br_head_def br_tail_def
    br_remote_head_def outside_far)

lemma example_start: "br_start br_example"
  using example_linked by (simp add: br_start_def br_example_def) (simp add: example_receiver_def)

lemma example_safe: "safe_size 8"
  by (simp add: safe_size_def ring_size_def)

lemma example_buf: "outside (sring (bs_snd br_example)) 4096 8"
  by (simp add: br_example_def example_sender_def sring_def outside_far)

lemma example_run:
  "\<exists>s. (br_step 8)\<^sup>*\<^sup>* br_example s \<and> bs_held s = None \<and> bs_got s = [] \<and> length (bs_sent s) = 1 \<and>
     bs_snd s = bs_snd br_example"
proof -
  have inv: "br_inv 8 0 0 br_example" using example_start example_safe by (rule br_start_inv)
  have "8 + 4 \<le> ring_size" using example_safe by (rule safe_size_fits)
  from br_goes_on [OF inv _ example_buf this] obtain m' where
    "br_step 8 br_example (br_example\<lparr>bs_smem := m', bs_sent := [get (view (sring (bs_snd br_example))) 4096 8 (bs_smem br_example)]\<rparr>)"
    by (auto simp: br_example_def)
  then show ?thesis by (intro exI conjI, rule r_into_rtranclp) (auto simp: br_example_def)
qed

section \<open>Properties\<close>

text \<open>
  C15: Over any interleaving of the two sides, with the receiver's reads served while the sender goes on,
  the messages received are the messages sent, complete, in order and each once, for every message size
  that is safe.
\<close>

theorem buffered_read_order:
  assumes "br_start s0" and "safe_size n" and "(br_step n)\<^sup>*\<^sup>* s0 s"
  shows "bs_got s = take (length (bs_got s)) (bs_sent s)"
proof -
  obtain H F where "br_inv n H F s" using br_runs_inv [OF assms(3,1,2)] by blast
  then show ?thesis by (simp add: br_inv_def)
qed

theorem buffered_read_order_witness:
  "\<exists>s. (br_step 8)\<^sup>*\<^sup>* br_example s \<and> length (bs_got s) = 1 \<and> bs_got s = take (length (bs_got s)) (bs_sent s)"
proof -
  obtain s where s: "(br_step 8)\<^sup>*\<^sup>* br_example s" "bs_held s = None" "bs_got s = []" "length (bs_sent s) = 1"
    "bs_snd s = bs_snd br_example" using example_run by blast
  obtain H F where "br_inv 8 H F s" using br_runs_inv [OF s(1) example_start example_safe] by blast
  from br_goes_on [OF this s(2) _ safe_size_fits [OF example_safe]] example_buf s(3-5)
  obtain s' where s': "br_step 8 s s'" "length (bs_got s') = 1" by auto
  then have "(br_step 8)\<^sup>*\<^sup>* br_example s'" using s(1) by simp
  with s' buffered_read_order [OF example_start example_safe this] show ?thesis by blast
qed





text \<open>
  C18: When the records fill the ring exactly, as those of the benchmark's default of 60 bytes do, the
  sender never waits: it can send any number of messages although not one was received, and so writes
  over the first of them once the ring is full.
\<close>

theorem buffered_read_overruns:
  assumes "br_start s0" and "n + 4 dvd ring_size" and "outside (sring (bs_snd s0)) buf n"
  shows "\<exists>s. (br_step n)\<^sup>*\<^sup>* s0 s \<and> length (bs_sent s) = k \<and> bs_got s = []"
  using unread_run [OF assms] by blast

theorem buffered_read_overruns_witness:
  "\<exists>s. (br_step 60)\<^sup>*\<^sup>* br_example s \<and> length (bs_sent s) = 131073 \<and> bs_got s = []"
proof -
  have "outside (sring (bs_snd br_example)) 4096 60"
    by (simp add: br_example_def example_sender_def sring_def outside_far)
  then show ?thesis by (intro buffered_read_overruns [OF example_start]) (simp_all add: ring_size_def)
qed

end
