(* ===== verification/Reader_Writer_Queue.thy ===== *)
theory Reader_Writer_Queue
  imports Kym_Prelude
begin

text \<open>
  The single producer, single consumer queue of \<^verbatim>\<open>external/readerwriterqueue.h\<close>, through which
  the stubs of a shared receive queue hand buffers back: a ring of circular blocks. The memory
  holds the blocks, a pointer to a block is its index there. A slot of a block holds an element
  or none, a block of \<open>n\<close> slots is used up to \<open>n - 1\<close> elements. Each operation runs as a whole,
  so a memory fence does nothing; the shadow copies \<open>localTail\<close> and \<open>localFront\<close> of the other
  side's index may be stale and are modelled. \<open>None\<close> is a failed assertion or the use of an empty
  slot. The constructor aborts the program when memory runs out and is modelled when it does not.
\<close>

section \<open>Blocks\<close>

record 'a Block =
  b_front :: u64
  b_localTail :: u64
  b_tail :: u64
  b_localFront :: u64
  b_next :: nat
  b_data :: "'a option list"
  b_sizeMask :: u64

record 'a ReaderWriterQueue =
  q_blocks :: "'a Block list"
  q_frontBlock :: nat
  q_tailBlock :: nat
  q_largestBlockSize :: u64

definition make_block :: "u64 \<Rightarrow> 'a Block" where
  "make_block capacity = \<lparr>b_front = 0, b_localTail = 0, b_tail = 0, b_localFront = 0, b_next = 0,
     b_data = replicate (unat capacity) None, b_sizeMask = capacity - 1\<rparr>"

definition ceilToPow2 :: "u64 \<Rightarrow> u64" where
  "ceilToPow2 x = (
     let x = x - 1;
         x = x OR drop_bit 1 x;
         x = x OR drop_bit 2 x;
         x = x OR drop_bit 4 x;
         x = x OR drop_bit 8 x;
         x = x OR drop_bit 16 x;
         x = x OR drop_bit 32 x
     in x + 1)"

definition MAX_BLOCK_SIZE :: u64 where
  "MAX_BLOCK_SIZE = 512"

text \<open>
  The loop of the constructor: the block before points to the new one, and the new one back to
  the first block, which is block 0.
\<close>

fun add_blocks :: "nat \<Rightarrow> u64 \<Rightarrow> 'a Block list \<Rightarrow> 'a Block list" where
  "add_blocks 0 capacity bs = bs"
| "add_blocks (Suc n) capacity bs =
     (let bs = (if bs = [] then bs
                else bs[length bs - 1 := (bs ! (length bs - 1))\<lparr>b_next := length bs\<rparr>])
      in add_blocks n capacity (bs @ [make_block capacity]))"

definition ReaderWriterQueue_new :: "u64 \<Rightarrow> 'a ReaderWriterQueue" where
  "ReaderWriterQueue_new sz = (
     let largest = ceilToPow2 (sz + 1) in
     if MAX_BLOCK_SIZE * 2 < largest
     then (let initialBlockCount = (sz + MAX_BLOCK_SIZE * 2 - 3) div (MAX_BLOCK_SIZE - 1)
           in \<lparr>q_blocks = add_blocks (unat initialBlockCount) MAX_BLOCK_SIZE [], q_frontBlock = 0,
               q_tailBlock = 0, q_largestBlockSize = MAX_BLOCK_SIZE\<rparr>)
     else \<lparr>q_blocks = [make_block largest], q_frontBlock = 0, q_tailBlock = 0,
           q_largestBlockSize = largest\<rparr>)"

section \<open>The consumer\<close>

definition put_block :: "nat \<Rightarrow> 'a Block \<Rightarrow> 'a ReaderWriterQueue \<Rightarrow> 'a ReaderWriterQueue" where
  "put_block p b q = q\<lparr>q_blocks := (q_blocks q)[p := b]\<rparr>"

definition refresh_localTail :: "nat \<Rightarrow> 'a ReaderWriterQueue \<Rightarrow> 'a ReaderWriterQueue" where
  "refresh_localTail p q =
     (let b = q_blocks q ! p in put_block p (b\<lparr>b_localTail := b_tail b\<rparr>) q)"

definition nonempty_front :: "nat \<Rightarrow> 'a ReaderWriterQueue \<Rightarrow> bool" where
  "nonempty_front p q = (let b = q_blocks q ! p in b_front b \<noteq> b_localTail b)"

text \<open>Take the front element of a block and destroy it there.\<close>

definition dequeue_at :: "nat \<Rightarrow> 'a ReaderWriterQueue \<Rightarrow> ('a option \<times> 'a ReaderWriterQueue) option" where
  "dequeue_at p q = (let b = q_blocks q ! p in
     case b_data b ! unat (b_front b) of
       None \<Rightarrow> None
     | Some x \<Rightarrow> Some (Some x, put_block p
         (b\<lparr>b_data := (b_data b)[unat (b_front b) := None],
            b_front := (b_front b + 1) AND b_sizeMask b\<rparr>) q))"

text \<open>The result is the element, or none when the queue is empty.\<close>

definition try_dequeue :: "'a ReaderWriterQueue \<Rightarrow> ('a option \<times> 'a ReaderWriterQueue) option" where
  "try_dequeue q = (
     let p = q_frontBlock q in
     if nonempty_front p q then dequeue_at p q
     else (let q = refresh_localTail p q in
       if nonempty_front p q then dequeue_at p q
       else if p \<noteq> q_tailBlock q then
         (let p = q_frontBlock q; q = refresh_localTail p q in
          if nonempty_front p q then dequeue_at p q
          else (let n = b_next (q_blocks q ! p); q = refresh_localTail n q in
            if \<not> nonempty_front n q then None
            else dequeue_at n (q\<lparr>q_frontBlock := n\<rparr>)))
       else Some (None, q)))"

definition pop :: "'a ReaderWriterQueue \<Rightarrow> (bool \<times> 'a ReaderWriterQueue) option" where
  "pop q = map_option (\<lambda>(r, q). (r \<noteq> None, q)) (try_dequeue q)"

text \<open>A slot of an empty block would be read as a null pointer is: not at all.\<close>

definition peek_at :: "nat \<Rightarrow> 'a ReaderWriterQueue \<Rightarrow> ('a option \<times> 'a ReaderWriterQueue) option" where
  "peek_at p q = (let b = q_blocks q ! p in
     case b_data b ! unat (b_front b) of None \<Rightarrow> None | Some x \<Rightarrow> Some (Some x, q))"

definition peek :: "'a ReaderWriterQueue \<Rightarrow> ('a option \<times> 'a ReaderWriterQueue) option" where
  "peek q = (
     let p = q_frontBlock q in
     if nonempty_front p q then peek_at p q
     else (let q = refresh_localTail p q in
       if nonempty_front p q then peek_at p q
       else if p \<noteq> q_tailBlock q then
         (let p = q_frontBlock q; q = refresh_localTail p q in
          if nonempty_front p q then peek_at p q
          else (let n = b_next (q_blocks q ! p); nb = q_blocks q ! n in
            if b_front nb = b_tail nb then None else peek_at n q))
       else Some (None, q)))"

section \<open>The producer\<close>

definition has_room :: "nat \<Rightarrow> 'a ReaderWriterQueue \<Rightarrow> bool" where
  "has_room p q = (let b = q_blocks q ! p in (b_tail b + 1) AND b_sizeMask b \<noteq> b_localFront b)"

definition refresh_localFront :: "nat \<Rightarrow> 'a ReaderWriterQueue \<Rightarrow> 'a ReaderWriterQueue" where
  "refresh_localFront p q =
     (let b = q_blocks q ! p in put_block p (b\<lparr>b_localFront := b_front b\<rparr>) q)"

definition store_at :: "nat \<Rightarrow> 'a \<Rightarrow> 'a ReaderWriterQueue \<Rightarrow> 'a ReaderWriterQueue" where
  "store_at p x q = (let b = q_blocks q ! p in
     put_block p (b\<lparr>b_data := (b_data b)[unat (b_tail b) := Some x],
       b_tail := (b_tail b + 1) AND b_sizeMask b\<rparr>) q)"

text \<open>A new block behind the tail block, with its first element; it gets the next free index.\<close>

definition append_block :: "u64 \<Rightarrow> 'a \<Rightarrow> 'a ReaderWriterQueue \<Rightarrow> 'a ReaderWriterQueue" where
  "append_block newBlockSize x q = (
     let p = q_tailBlock q; n = length (q_blocks q); b = q_blocks q ! p; nb = make_block newBlockSize;
         nb = nb\<lparr>b_data := (b_data nb)[0 := Some x], b_tail := 1, b_localTail := 1, b_next := b_next b\<rparr>
     in q\<lparr>q_blocks := (q_blocks q)[p := b\<lparr>b_next := n\<rparr>] @ [nb], q_tailBlock := n,
          q_largestBlockSize := newBlockSize\<rparr>)"

text \<open>\<open>malloc_ok\<close>: whether \<open>make_block\<close> gets memory.\<close>

definition inner_enqueue ::
    "bool \<Rightarrow> bool \<Rightarrow> 'a \<Rightarrow> 'a ReaderWriterQueue \<Rightarrow> (bool \<times> 'a ReaderWriterQueue) option" where
  "inner_enqueue canAlloc malloc_ok x q = (
     let p = q_tailBlock q in
     if has_room p q then Some (True, store_at p x q)
     else (let q = refresh_localFront p q in
       if has_room p q then Some (True, store_at p x q)
       else (let n = b_next (q_blocks q ! p) in
         if n \<noteq> q_frontBlock q then
           (let q = refresh_localFront n q; nb = q_blocks q ! n in
            if b_localFront nb \<noteq> b_tail nb then None
            else Some (True, (store_at n x q)\<lparr>q_tailBlock := n\<rparr>))
         else if canAlloc then
           (let newBlockSize = (if MAX_BLOCK_SIZE \<le> q_largestBlockSize q then q_largestBlockSize q
                                else q_largestBlockSize q * 2)
            in if malloc_ok then Some (True, append_block newBlockSize x q) else Some (False, q))
         else Some (False, q))))"

definition try_enqueue :: "'a \<Rightarrow> 'a ReaderWriterQueue \<Rightarrow> (bool \<times> 'a ReaderWriterQueue) option" where
  "try_enqueue = inner_enqueue False False"

definition enqueue :: "bool \<Rightarrow> 'a \<Rightarrow> 'a ReaderWriterQueue \<Rightarrow> (bool \<times> 'a ReaderWriterQueue) option" where
  "enqueue = inner_enqueue True"

section \<open>Sizes\<close>

text \<open>The loop once around the ring.\<close>

partial_function (option) ring_sum ::
    "('a Block \<Rightarrow> u64) \<Rightarrow> 'a Block list \<Rightarrow> nat \<Rightarrow> nat \<Rightarrow> u64 \<Rightarrow> u64 option" where
  "ring_sum f bs start p acc = (let b = bs ! p; acc = acc + f b in
     if b_next b = start then Some acc else ring_sum f bs start (b_next b) acc)"

lemmas [code] = ring_sum.simps

definition size_approx :: "'a ReaderWriterQueue \<Rightarrow> u64 option" where
  "size_approx q = ring_sum (\<lambda>b. (b_tail b - b_front b) AND b_sizeMask b) (q_blocks q)
     (q_frontBlock q) (q_frontBlock q) 0"

definition max_capacity :: "'a ReaderWriterQueue \<Rightarrow> u64 option" where
  "max_capacity q = ring_sum b_sizeMask (q_blocks q) (q_frontBlock q) (q_frontBlock q) 0"

end
