(* ===== verification/Queue_Blocks.thy ===== *)
theory Queue_Blocks
  imports Reader_Writer_Queue
begin

text \<open>
  One block of the queue as a window of a stream: four positions that only grow, the cached front,
  the front, the cached tail and the tail, in this order and less than a block apart; the four
  index fields are their remainders. Stale copies are positions passed before, so every decision
  made with them is safe.
\<close>

section \<open>Indices modulo a power of two\<close>

lemma unat_and_mask: "unat (x AND mask k :: u64) = unat x mod 2 ^ k"
  by (simp only: take_bit_eq_mask [symmetric] unsigned_take_bit_eq) (simp add: take_bit_eq_mod)

lemma unat_next_index:
  assumes "k < 64" and "unat (i::u64) = n mod 2 ^ k"
  shows "unat ((i + 1) AND mask k) = Suc n mod 2 ^ k"
proof -
  have "(2::nat) ^ k < 2 ^ 64" using assms(1) by (intro power_strict_increasing) auto
  moreover have "unat i < 2 ^ k" using assms(2) by simp
  ultimately have "unat i + 1 < 18446744073709551616" by simp
  then have "unat (i + 1) = Suc (n mod 2 ^ k)" using unat64_add [of i 1] assms(2) by simp
  then show ?thesis by (simp add: unat_and_mask mod_Suc_eq)
qed

lemma unat_mask64: "k \<le> 64 \<Longrightarrow> unat (mask k :: u64) = 2 ^ k - 1"
  by (simp add: unat_eq_nat_uint uint_mask_eq nat_mask_eq) (simp add: mask_eq_exp_minus_1)

lemma unat_two_power:
  assumes "k < 64"
  shows "unat (2 ^ k :: u64) = 2 ^ k"
proof -
  have "(2::nat) ^ k < 2 ^ 64" using assms by (intro power_strict_increasing) auto
  then have "unat (word_of_nat (2 ^ k) :: u64) = 2 ^ k" by (simp only: unat_of_nat) simp
  then show ?thesis by simp
qed

section \<open>Blocks as windows\<close>

record positions =
  ps_k :: nat
  ps_lf :: nat
  ps_f :: nat
  ps_lt :: nat
  ps_t :: nat

definition window_ok :: "'a Block \<Rightarrow> 'a list \<Rightarrow> positions \<Rightarrow> bool" where
  "window_ok b xs ps \<longleftrightarrow>
     0 < ps_k ps \<and> ps_k ps < 64 \<and> b_sizeMask b = mask (ps_k ps) \<and> length (b_data b) = 2 ^ ps_k ps \<and>
     unat (b_localFront b) = ps_lf ps mod 2 ^ ps_k ps \<and> unat (b_front b) = ps_f ps mod 2 ^ ps_k ps \<and>
     unat (b_localTail b) = ps_lt ps mod 2 ^ ps_k ps \<and> unat (b_tail b) = ps_t ps mod 2 ^ ps_k ps \<and>
     ps_lf ps \<le> ps_f ps \<and> ps_f ps \<le> ps_lt ps \<and> ps_lt ps \<le> ps_t ps \<and> ps_t ps < ps_lf ps + 2 ^ ps_k ps \<and>
     ps_t ps = ps_f ps + length xs \<and>
     (\<forall>i<length xs. b_data b ! ((ps_f ps + i) mod 2 ^ ps_k ps) = Some (xs ! i))"

definition block_ok :: "'a Block \<Rightarrow> 'a list \<Rightarrow> bool" where
  "block_ok b xs \<longleftrightarrow> (\<exists>ps. window_ok b xs ps)"

lemma block_okI: "window_ok b xs ps \<Longrightarrow> block_ok b xs"
  by (auto simp: block_ok_def)

text \<open>Equal indices of positions in one window are equal positions.\<close>

lemma index_eq:
  assumes "unat (a::u64) = m mod (L::nat)" and "unat (b::u64) = n mod L" and "m < n + L" and "n < m + L"
  shows "a = b \<longleftrightarrow> m = n"
  using assms mod_window_inj' [of m L n] by (auto simp: word_unat_eq_iff)

lemma block_ok_next [simp]: "block_ok (b\<lparr>b_next := n\<rparr>) xs \<longleftrightarrow> block_ok b xs"
  by (simp add: block_ok_def window_ok_def)

lemma block_ok_refresh_tail:
  assumes "block_ok b xs"
  shows "block_ok (b\<lparr>b_localTail := b_tail b\<rparr>) xs"
proof -
  from assms obtain ps where "window_ok b xs ps" by (auto simp: block_ok_def)
  then have "window_ok (b\<lparr>b_localTail := b_tail b\<rparr>) xs (ps\<lparr>ps_lt := ps_t ps\<rparr>)" by (simp add: window_ok_def)
  then show ?thesis by (rule block_okI)
qed

lemma block_ok_refresh_front:
  assumes "block_ok b xs"
  shows "block_ok (b\<lparr>b_localFront := b_front b\<rparr>) xs"
proof -
  from assms obtain ps where "window_ok b xs ps" by (auto simp: block_ok_def)
  then have "window_ok (b\<lparr>b_localFront := b_front b\<rparr>) xs (ps\<lparr>ps_lf := ps_f ps\<rparr>)" by (simp add: window_ok_def)
  then show ?thesis by (rule block_okI)
qed

lemma block_ok_tail_empty:
  assumes "block_ok b xs"
  shows "b_front b = b_tail b \<longleftrightarrow> xs = []"
proof -
  from assms obtain ps where ps: "window_ok b xs ps" by (auto simp: block_ok_def)
  have "b_front b = b_tail b \<longleftrightarrow> ps_f ps = ps_t ps"
    by (rule index_eq [where L = "2 ^ ps_k ps"]) (use ps in \<open>auto simp: window_ok_def\<close>)
  then show ?thesis using ps by (auto simp: window_ok_def)
qed

text \<open>A cached tail that differs from the front shows that there is an element to take.\<close>

lemma block_ok_dequeue:
  assumes "block_ok b xs" and "b_front b \<noteq> b_localTail b"
  obtains x ys where "xs = x # ys" "b_data b ! unat (b_front b) = Some x"
    "block_ok (b\<lparr>b_data := (b_data b)[unat (b_front b) := None], b_front := (b_front b + 1) AND b_sizeMask b\<rparr>) ys"
proof -
  from assms(1) obtain ps where ps: "window_ok b xs ps" by (auto simp: block_ok_def)
  let ?L = "2 ^ ps_k ps :: nat"
  note w = ps [unfolded window_ok_def]
  have ne: "ps_f ps \<noteq> ps_lt ps" using assms(2) w by (metis word_unat_eq_iff)
  then obtain x ys where xs: "xs = x # ys" using w by (cases xs) auto
  have data: "b_data b ! unat (b_front b) = Some x" using w xs by force
  have rest: "(b_data b)[unat (b_front b) := None] ! ((Suc (ps_f ps) + i) mod ?L) = Some (ys ! i)"
    if i: "i < length ys" for i
  proof -
    have "(ps_f ps + Suc i) mod ?L \<noteq> ps_f ps mod ?L"
      using mod_window_inj [of "ps_f ps" ?L "ps_f ps + Suc i"] w xs i by auto
    moreover have "b_data b ! ((ps_f ps + Suc i) mod ?L) = Some (ys ! i)"
      using w xs i by (metis Suc_less_eq length_Cons nth_Cons_Suc)
    ultimately show ?thesis using w by simp
  qed
  have "window_ok (b\<lparr>b_data := (b_data b)[unat (b_front b) := None],
      b_front := (b_front b + 1) AND b_sizeMask b\<rparr>) ys (ps\<lparr>ps_f := Suc (ps_f ps)\<rparr>)"
    unfolding window_ok_def using w xs ne rest unat_next_index [of "ps_k ps" "b_front b" "ps_f ps"] by simp
  then show thesis using that xs data block_okI by blast
qed

text \<open>A cached front that differs from the next tail shows that a slot is free.\<close>

lemma block_ok_enqueue:
  assumes "block_ok b xs" and "(b_tail b + 1) AND b_sizeMask b \<noteq> b_localFront b"
  shows "block_ok (b\<lparr>b_data := (b_data b)[unat (b_tail b) := Some x],
    b_tail := (b_tail b + 1) AND b_sizeMask b\<rparr>) (xs @ [x])"
proof -
  from assms(1) obtain ps where ps: "window_ok b xs ps" by (auto simp: block_ok_def)
  let ?L = "2 ^ ps_k ps :: nat"
  note w = ps [unfolded window_ok_def]
  have nt: "unat ((b_tail b + 1) AND b_sizeMask b) = Suc (ps_t ps) mod ?L"
    using unat_next_index [of "ps_k ps" "b_tail b" "ps_t ps"] w by simp
  have "Suc (ps_t ps) \<noteq> ps_lf ps + ?L"
  proof
    assume "Suc (ps_t ps) = ps_lf ps + ?L"
    then have "unat ((b_tail b + 1) AND b_sizeMask b) = unat (b_localFront b)" using nt w by simp
    then show False using assms(2) by (simp add: word_unat_eq_iff)
  qed
  then have room: "Suc (ps_t ps) < ps_lf ps + ?L" using w by linarith
  have data: "(b_data b)[unat (b_tail b) := Some x] ! ((ps_f ps + i) mod ?L) = Some ((xs @ [x]) ! i)"
    if "i < length (xs @ [x])" for i
  proof (cases "i = length xs")
    case True
    then show ?thesis using w by simp
  next
    case False
    then have i: "i < length xs" using that by simp
    then have "(ps_f ps + i) mod ?L \<noteq> ps_t ps mod ?L"
      using mod_window_inj [of "ps_f ps + i" ?L "ps_t ps"] w by auto
    then show ?thesis using w i by (simp add: nth_append)
  qed
  have "window_ok (b\<lparr>b_data := (b_data b)[unat (b_tail b) := Some x],
      b_tail := (b_tail b + 1) AND b_sizeMask b\<rparr>) (xs @ [x]) (ps\<lparr>ps_t := Suc (ps_t ps)\<rparr>)"
    unfolding window_ok_def using w nt room data by simp
  then show ?thesis by (rule block_okI)
qed

lemma block_ok_room:
  assumes "block_ok b []" and "b_localFront b = b_front b"
  shows "(b_tail b + 1) AND b_sizeMask b \<noteq> b_localFront b"
proof
  assume eq: "(b_tail b + 1) AND b_sizeMask b = b_localFront b"
  from assms(1) obtain ps where ps: "window_ok b [] ps" by (auto simp: block_ok_def)
  let ?L = "2 ^ ps_k ps :: nat"
  note w = ps [unfolded window_ok_def]
  have L: "2 \<le> ?L" using w by (cases "ps_k ps") auto
  have "Suc (ps_t ps) mod ?L = ps_t ps mod ?L"
    using unat_next_index [of "ps_k ps" "b_tail b" "ps_t ps"] w eq assms(2) by simp
  then show False using mod_window_inj [of "ps_t ps" ?L "Suc (ps_t ps)"] L by auto
qed

text \<open>With the front up to date, no room means that all slots but one are in use.\<close>

lemma block_ok_full:
  assumes "block_ok b xs" and "b_localFront b = b_front b" and "(b_tail b + 1) AND b_sizeMask b = b_localFront b"
  shows "length xs = unat (b_sizeMask b)" and "xs \<noteq> []"
proof -
  from assms(1) obtain ps where ps: "window_ok b xs ps" by (auto simp: block_ok_def)
  let ?L = "2 ^ ps_k ps :: nat"
  note w = ps [unfolded window_ok_def]
  have L: "2 \<le> ?L" using w by (cases "ps_k ps") auto
  have f: "Suc (ps_t ps) mod ?L = ps_f ps mod ?L"
    using unat_next_index [of "ps_k ps" "b_tail b" "ps_t ps"] w assms(2,3) by simp
  have "Suc (ps_t ps) = ps_f ps + ?L"
  proof (rule ccontr)
    assume "Suc (ps_t ps) \<noteq> ps_f ps + ?L"
    then have "Suc (ps_t ps) < ps_f ps + ?L" "ps_f ps \<le> Suc (ps_t ps)" using w by linarith+
    then have "Suc (ps_t ps) = ps_f ps" using mod_window_inj [OF f [symmetric]] by simp
    then show False using w by linarith
  qed
  then have len: "length xs = ?L - 1" using w by linarith
  have "unat (b_sizeMask b) = ?L - 1" using w by (simp add: unat_mask64)
  then show "length xs = unat (b_sizeMask b)" using len by simp
  show "xs \<noteq> []" using len L by auto
qed

end
