(* ===== verification/Queue_Ring.thy ===== *)
theory Queue_Ring
  imports Queue_Blocks
begin

text \<open>
  The ring of blocks holds the queue: the contents are those of the blocks from the front block on,
  in ring order. Blocks behind the tail block are empty, those after the front block up to the
  tail block are not. Every operation of the consumer and the producer keeps this and does to the
  contents what a queue does.
\<close>

section \<open>The invariant\<close>

definition ring_ok :: "'a ReaderWriterQueue \<Rightarrow> nat list \<Rightarrow> nat \<Rightarrow> 'a list list \<Rightarrow> bool" where
  "ring_ok q rs t xss \<longleftrightarrow>
     distinct rs \<and> set rs = {..<length (q_blocks q)} \<and> t < length rs \<and>
     rs ! 0 = q_frontBlock q \<and> rs ! t = q_tailBlock q \<and> length xss = length rs \<and>
     (\<forall>i<length rs. b_next (q_blocks q ! (rs ! i)) = rs ! (Suc i mod length rs)) \<and>
     (\<forall>i<length rs. block_ok (q_blocks q ! (rs ! i)) (xss ! i)) \<and>
     (\<forall>i<length rs. t < i \<longrightarrow> xss ! i = []) \<and> (\<forall>i\<le>t. 0 < i \<longrightarrow> xss ! i \<noteq> []) \<and>
     (\<forall>i<t. 0 < i \<longrightarrow> length (xss ! i) = unat (b_sizeMask (q_blocks q ! (rs ! i)))) \<and>
     (\<exists>k. q_largestBlockSize q = 2 ^ k \<and> 0 < k \<and> k \<le> 10)"

definition queue_ok :: "'a ReaderWriterQueue \<Rightarrow> 'a list \<Rightarrow> bool" where
  "queue_ok q xs \<longleftrightarrow> (\<exists>rs t xss. ring_ok q rs t xss \<and> xs = concat xss)"

lemma queue_okI: "ring_ok q rs t xss \<Longrightarrow> xs = concat xss \<Longrightarrow> queue_ok q xs"
  by (auto simp: queue_ok_def)

lemma put_block_simps [simp]:
  "q_blocks (put_block p b q) = (q_blocks q)[p := b]"
  "q_frontBlock (put_block p b q) = q_frontBlock q"
  "q_tailBlock (put_block p b q) = q_tailBlock q"
  "q_largestBlockSize (put_block p b q) = q_largestBlockSize q"
  by (simp_all add: put_block_def)

lemma ring_ok_index:
  assumes "ring_ok q rs t xss" and "i < length rs"
  shows "rs ! i < length (q_blocks q)"
  using assms nth_mem [OF assms(2)] by (auto simp: ring_ok_def)

lemma ring_ok_block:
  "ring_ok q rs t xss \<Longrightarrow> i < length rs \<Longrightarrow> block_ok (q_blocks q ! (rs ! i)) (xss ! i)"
  by (simp add: ring_ok_def)

lemma ring_ok_next:
  "ring_ok q rs t xss \<Longrightarrow> i < length rs \<Longrightarrow> b_next (q_blocks q ! (rs ! i)) = rs ! (Suc i mod length rs)"
  by (simp add: ring_ok_def)

lemma ring_ok_nonempty: "ring_ok q rs t xss \<Longrightarrow> 0 < i \<Longrightarrow> i \<le> t \<Longrightarrow> xss ! i \<noteq> []"
  by (simp add: ring_ok_def)

lemma ring_ok_full:
  "ring_ok q rs t xss \<Longrightarrow> 0 < i \<Longrightarrow> i < t \<Longrightarrow> length (xss ! i) = unat (b_sizeMask (q_blocks q ! (rs ! i)))"
  by (simp add: ring_ok_def)

lemma ring_ok_ends:
  assumes "ring_ok q rs t xss"
  shows "t < length rs" and "0 < length rs" and "length xss = length rs" and "rs ! 0 = q_frontBlock q"
    and "rs ! t = q_tailBlock q" and "distinct rs"
  using assms by (auto simp: ring_ok_def)

text \<open>Changing one block in place.\<close>

lemma ring_ok_put:
  assumes "ring_ok q rs t xss" and "i < length rs" and "block_ok b ys"
    and "b_next b = b_next (q_blocks q ! (rs ! i))"
    and "t < i \<Longrightarrow> ys = []" and "0 < i \<Longrightarrow> i \<le> t \<Longrightarrow> ys \<noteq> []"
    and "0 < i \<Longrightarrow> i < t \<Longrightarrow> length ys = unat (b_sizeMask b)"
  shows "ring_ok (put_block (rs ! i) b q) rs t (xss[i := ys])"
proof -
  note r = assms(1) [unfolded ring_ok_def]
  have at: "(q_blocks q)[rs ! i := b] ! (rs ! j) = (if j = i then b else q_blocks q ! (rs ! j))"
    if "j < length rs" for j
    using that r assms(2) ring_ok_index [OF assms(1,2)] by (auto simp: nth_eq_iff_index_eq)
  show ?thesis
    unfolding ring_ok_def using r assms(2-7) at by (auto simp: nth_list_update)
qed

lemma ring_ok_refresh_tail:
  assumes "ring_ok q rs t xss" and "i < length rs"
  shows "ring_ok (refresh_localTail (rs ! i) q) rs t xss"
proof -
  have "ring_ok (refresh_localTail (rs ! i) q) rs t (xss[i := xss ! i])"
    unfolding refresh_localTail_def Let_def
    by (rule ring_ok_put [OF assms]) (use assms in \<open>auto simp: ring_ok_def intro: block_ok_refresh_tail\<close>)
  then show ?thesis by simp
qed

lemma ring_ok_refresh_front:
  assumes "ring_ok q rs t xss" and "i < length rs"
  shows "ring_ok (refresh_localFront (rs ! i) q) rs t xss"
proof -
  have "ring_ok (refresh_localFront (rs ! i) q) rs t (xss[i := xss ! i])"
    unfolding refresh_localFront_def Let_def
    by (rule ring_ok_put [OF assms]) (use assms in \<open>auto simp: ring_ok_def intro: block_ok_refresh_front\<close>)
  then show ?thesis by simp
qed

lemma refresh_simps [simp]:
  "q_frontBlock (refresh_localTail p q) = q_frontBlock q"
  "q_tailBlock (refresh_localTail p q) = q_tailBlock q"
  "q_frontBlock (refresh_localFront p q) = q_frontBlock q"
  "q_tailBlock (refresh_localFront p q) = q_tailBlock q"
  by (simp_all add: refresh_localTail_def refresh_localFront_def Let_def)

lemma nonempty_refresh:
  assumes "ring_ok q rs t xss" and "i < length rs"
  shows "nonempty_front (rs ! i) (refresh_localTail (rs ! i) q) \<longleftrightarrow> xss ! i \<noteq> []"
  using block_ok_tail_empty [OF ring_ok_block [OF assms]] ring_ok_index [OF assms]
  by (simp add: nonempty_front_def refresh_localTail_def Let_def)

section \<open>The consumer\<close>

lemma dequeue_at_front:
  assumes ring: "ring_ok q rs t xss" and ne: "nonempty_front (rs ! 0) q"
  obtains x ys q' where "xss ! 0 = x # ys" "dequeue_at (rs ! 0) q = Some (Some x, q')"
    "ring_ok q' rs t (xss[0 := ys])"
proof -
  have 0: "0 < length rs" using ring by (auto simp: ring_ok_def)
  let ?b = "q_blocks q ! (rs ! 0)"
  have "b_front ?b \<noteq> b_localTail ?b" using ne by (simp add: nonempty_front_def Let_def)
  from block_ok_dequeue [OF ring_ok_block [OF ring 0] this] obtain x ys where
    x: "xss ! 0 = x # ys" "b_data ?b ! unat (b_front ?b) = Some x" and
    ok: "block_ok (?b\<lparr>b_data := (b_data ?b)[unat (b_front ?b) := None],
      b_front := (b_front ?b + 1) AND b_sizeMask ?b\<rparr>) ys" by metis
  let ?q = "put_block (rs ! 0) (?b\<lparr>b_data := (b_data ?b)[unat (b_front ?b) := None],
      b_front := (b_front ?b + 1) AND b_sizeMask ?b\<rparr>) q"
  have "ring_ok ?q rs t (xss[0 := ys])"
    by (rule ring_ok_put [OF ring 0 ok]) simp_all
  moreover have "dequeue_at (rs ! 0) q = Some (Some x, ?q)"
    using x(2) by (simp add: dequeue_at_def Let_def)
  ultimately show thesis using that x(1) by blast
qed

lemma nth_rotate1_mod: "i < length xs \<Longrightarrow> rotate1 xs ! i = xs ! (Suc i mod length xs)"
  by (simp add: nth_rotate1)

text \<open>Leaving an empty front block turns the ring by one.\<close>

lemma ring_ok_advance:
  assumes ring: "ring_ok q rs t xss" and empty: "xss ! 0 = []" and t: "0 < t"
  shows "ring_ok (q\<lparr>q_frontBlock := rs ! 1\<rparr>) (rotate1 rs) (t - 1) (rotate1 xss)"
proof -
  note r = ring [unfolded ring_ok_def]
  have len: "1 < length rs" using r t by linarith
  have nth: "rotate1 rs ! i = rs ! (Suc i mod length rs)" "rotate1 xss ! i = xss ! (Suc i mod length rs)"
    if "i < length rs" for i using that r by (simp_all add: nth_rotate1_mod)
  have wrap: "Suc i mod length rs = (if i = length rs - 1 then 0 else Suc i)" if "i < length rs" for i
    using that by (auto simp: mod_Suc)
  have next': "b_next (q_blocks q ! (rotate1 rs ! i)) = rotate1 rs ! (Suc i mod length rs)" if i: "i < length rs" for i
  proof -
    have "0 < length rs" using len by linarith
    then have j: "Suc i mod length rs < length rs" by (rule mod_less_divisor)
    then have "b_next (q_blocks q ! (rs ! (Suc i mod length rs))) = rs ! (Suc (Suc i mod length rs) mod length rs)"
      by (rule ring_ok_next [OF ring])
    then show ?thesis by (simp only: nth(1) [OF i] nth(1) [OF j])
  qed
  have behind: "rotate1 xss ! i = []" if "i < length rs" "t - 1 < i" for i
    using that nth(2) wrap r empty by auto
  have filled: "rotate1 xss ! i \<noteq> []" if "i \<le> t - 1" for i
  proof -
    have i: "i < length rs" "Suc i < length rs" "Suc i \<le> t"
      using that t ring_ok_ends(1) [OF ring] by linarith+
    then have "rotate1 xss ! i = xss ! Suc i" using nth(2) [of i] by simp
    then show ?thesis using ring_ok_nonempty [OF ring _ i(3)] by simp
  qed
  have full: "length (rotate1 xss ! i) = unat (b_sizeMask (q_blocks q ! (rotate1 rs ! i)))"
    if "i < t - 1" "0 < i" for i
  proof -
    have i: "i < length rs" "Suc i < length rs" "Suc i < t"
      using that t ring_ok_ends(1) [OF ring] by linarith+
    then have "rotate1 xss ! i = xss ! Suc i" "rotate1 rs ! i = rs ! Suc i" using nth [of i] by simp_all
    then show ?thesis using ring_ok_full [OF ring _ i(3)] by simp
  qed
  have blocks: "block_ok (q_blocks q ! (rotate1 rs ! i)) (rotate1 xss ! i)" if i: "i < length rs" for i
  proof -
    have "0 < length rs" using len by linarith
    then have "Suc i mod length rs < length rs" by (rule mod_less_divisor)
    then show ?thesis unfolding nth(1) [OF i] nth(2) [OF i] by (rule ring_ok_block [OF ring])
  qed
  have front: "rotate1 rs ! 0 = rs ! 1" using nth(1) [of 0] len by fastforce
  have tail: "rotate1 rs ! (t - 1) = q_tailBlock q"
    using nth(1) [of "t - 1"] t ring_ok_ends(1,5) [OF ring] by simp
  have facts: "distinct rs" "set rs = {..<length (q_blocks q)}" "t - 1 < length rs" "length xss = length rs"
    "\<exists>k. q_largestBlockSize q = 2 ^ k \<and> 0 < k \<and> k \<le> 10"
    using ring by (auto simp: ring_ok_def)
  show ?thesis
    unfolding ring_ok_def
    by (intro conjI allI impI) (simp_all add: facts facts(3) [simplified] front tail tail [simplified] next' blocks behind filled full full [simplified])
qed

lemma concat_rotate1: "xss \<noteq> [] \<Longrightarrow> xss ! 0 = [] \<Longrightarrow> concat (rotate1 xss) = concat xss"
  by (cases xss) auto

lemma concat_front: "xss \<noteq> [] \<Longrightarrow> xss ! 0 = x # ys \<Longrightarrow> concat xss = x # concat (xss[0 := ys])"
  by (cases xss) auto

lemma dequeue_contents:
  assumes "ring_ok q rs t xss" and "nonempty_front (rs ! 0) q"
  shows "\<exists>x ys q'. concat xss = x # ys \<and> dequeue_at (rs ! 0) q = Some (Some x, q') \<and> queue_ok q' ys"
proof -
  obtain x ys q' where 1: "xss ! 0 = x # ys" "dequeue_at (rs ! 0) q = Some (Some x, q')"
    "ring_ok q' rs t (xss[0 := ys])" by (rule dequeue_at_front [OF assms])
  have "xss \<noteq> []" using assms(1) by (auto simp: ring_ok_def)
  then show ?thesis using concat_front [OF _ 1(1)] 1(2) queue_okI [OF 1(3)] by blast
qed

definition dequeue_spec :: "'a list \<Rightarrow> ('a option \<times> 'a ReaderWriterQueue) option \<Rightarrow> bool" where
  "dequeue_spec xs r \<longleftrightarrow> (case xs of
     [] \<Rightarrow> (\<exists>q. r = Some (None, q) \<and> queue_ok q [])
   | x # ys \<Rightarrow> (\<exists>q. r = Some (Some x, q) \<and> queue_ok q ys))"

lemma dequeue_spec_at:
  "ring_ok q rs t xss \<Longrightarrow> nonempty_front (rs ! 0) q \<Longrightarrow> dequeue_spec (concat xss) (dequeue_at (rs ! 0) q)"
  using dequeue_contents by (fastforce simp: dequeue_spec_def)

text \<open>When the front block is empty and not the tail block, the next one has an element.\<close>

lemma dequeue_spec_next:
  assumes ring: "ring_ok q rs t xss" and empty: "xss ! 0 = []" and t: "rs ! 0 \<noteq> q_tailBlock q"
  defines "n \<equiv> b_next (q_blocks q ! (rs ! 0))"
  shows "nonempty_front n (refresh_localTail n q) \<and>
    dequeue_spec (concat xss) (dequeue_at n ((refresh_localTail n q)\<lparr>q_frontBlock := n\<rparr>))"
proof -
  have pos: "0 < t" using ring_ok_ends(5) [OF ring] t by (metis gr0I)
  have len: "1 < length rs" using ring_ok_ends(1) [OF ring] pos by linarith
  have "b_next (q_blocks q ! (rs ! 0)) = rs ! (Suc 0 mod length rs)"
    using len by (intro ring_ok_next [OF ring]) linarith
  then have n: "n = rs ! 1" using len by (simp add: n_def)
  let ?q = "refresh_localTail n q"
  have ring': "ring_ok ?q rs t xss" using ring_ok_refresh_tail [OF ring len] n by simp
  have "xss ! 1 \<noteq> []" using pos by (intro ring_ok_nonempty [OF ring]) simp_all
  then have ne: "nonempty_front n ?q" unfolding n nonempty_refresh [OF ring len] .
  let ?q' = "?q\<lparr>q_frontBlock := rs ! 1\<rparr>"
  have turned: "ring_ok ?q' (rotate1 rs) (t - 1) (rotate1 xss)"
    by (rule ring_ok_advance [OF ring' empty pos])
  have "rotate1 rs ! 0 = rs ! (Suc 0 mod length rs)" by (rule nth_rotate1_mod) (use len in linarith)
  then have hd: "rotate1 rs ! 0 = n" using n len by simp
  have "nonempty_front (rotate1 rs ! 0) ?q'" using ne hd by (simp add: nonempty_front_def)
  from dequeue_spec_at [OF turned this] show ?thesis
    using ne hd n concat_rotate1 [OF _ empty] ring_ok_ends(2,3) [OF ring] by (cases xss) auto
qed

theorem try_dequeue_spec:
  assumes "queue_ok q xs"
  shows "dequeue_spec xs (try_dequeue q)"
proof -
  from assms obtain rs t xss where ring: "ring_ok q rs t xss" and xs: "xs = concat xss"
    by (auto simp: queue_ok_def)
  note r = ring [unfolded ring_ok_def]
  have 0: "0 < length rs" using r by auto
  let ?p = "rs ! 0" and ?q1 = "refresh_localTail (rs ! 0) q"
  let ?q2 = "refresh_localTail (rs ! 0) ?q1"
  have ring1: "ring_ok ?q1 rs t xss" by (rule ring_ok_refresh_tail [OF ring 0])
  have ring2: "ring_ok ?q2 rs t xss" by (rule ring_ok_refresh_tail [OF ring1 0])
  have ne: "nonempty_front ?p ?q1 \<longleftrightarrow> xss ! 0 \<noteq> []" "nonempty_front ?p ?q2 \<longleftrightarrow> xss ! 0 \<noteq> []"
    using nonempty_refresh [OF ring 0] nonempty_refresh [OF ring1 0] by auto
  have front: "q_frontBlock q = ?p" using r by simp
  show ?thesis
  proof (cases "nonempty_front ?p q \<or> xss ! 0 \<noteq> []")
    case True
    then show ?thesis
      using dequeue_spec_at [OF ring] dequeue_spec_at [OF ring1] ne
      by (auto simp: try_dequeue_def front xs Let_def)
  next
    case False
    show ?thesis
    proof (cases "?p = q_tailBlock q")
      case True
      then have "t = 0" using r 0 by (metis nth_eq_iff_index_eq)
      then have empty: "concat xss = []" using r False by (auto simp: all_set_conv_all_nth)
      have "queue_ok ?q1 []" by (rule queue_okI [OF ring1 empty [symmetric]])
      then have "dequeue_spec [] (try_dequeue q)"
        using False True ne by (auto simp: try_dequeue_def front Let_def dequeue_spec_def)
      then show ?thesis by (simp only: xs empty)
    next
      case False2: False
      then have tail2: "?p \<noteq> q_tailBlock ?q2" by simp
      from dequeue_spec_next [OF ring2 _ tail2] False
      show ?thesis using False2 ne
        by (simp add: try_dequeue_def front xs Let_def)
    qed
  qed
qed

end
