(* ===== verification/Queue_Producer.thy ===== *)
theory Queue_Producer
  imports Queue_Ring
begin

text \<open>
  The producer keeps the ring and appends to the contents; it refuses an element only when every
  block but the front one is full.
\<close>

section \<open>Storing in the tail block\<close>

lemma ring_ok_store:
  assumes ring: "ring_ok q rs t xss" and room: "has_room (rs ! t) q"
  shows "ring_ok (store_at (rs ! t) x q) rs t (xss[t := xss ! t @ [x]])"
proof -
  let ?b = "q_blocks q ! (rs ! t)"
  have t: "t < length rs" by (rule ring_ok_ends [OF ring])
  have "block_ok (?b\<lparr>b_data := (b_data ?b)[unat (b_tail ?b) := Some x],
      b_tail := (b_tail ?b + 1) AND b_sizeMask ?b\<rparr>) (xss ! t @ [x])"
    by (rule block_ok_enqueue [OF ring_ok_block [OF ring t]])
      (use room in \<open>simp add: has_room_def Let_def\<close>)
  from ring_ok_put [OF ring t this] show ?thesis by (simp add: store_at_def Let_def)
qed

lemma concat_tail:
  assumes "ring_ok q rs t xss"
  shows "concat (xss[t := xss ! t @ [x]]) = concat xss @ [x]"
proof -
  have t: "t < length xss" using ring_ok_ends(1,3) [OF assms] by simp
  have "concat (drop (Suc t) xss) = []"
    using assms by (auto simp: ring_ok_def in_set_conv_nth)
  moreover have "xss = take t xss @ xss ! t # drop (Suc t) xss" using t by (rule id_take_nth_drop)
  ultimately show ?thesis
    using t by (metis append.assoc append_Nil2 concat.simps(2) concat_append upd_conv_take_nth_drop)
qed

lemma room_refresh:
  assumes ring: "ring_ok q rs t xss" and i: "i < length rs"
    and no: "\<not> has_room (rs ! i) (refresh_localFront (rs ! i) q)"
  shows "length (xss ! i) = unat (b_sizeMask (q_blocks q ! (rs ! i)))" and "xss ! i \<noteq> []"
proof -
  let ?b = "(q_blocks q ! (rs ! i))\<lparr>b_localFront := b_front (q_blocks q ! (rs ! i))\<rparr>"
  have at: "q_blocks (refresh_localFront (rs ! i) q) ! (rs ! i) = ?b"
    using ring_ok_index [OF ring i] by (simp add: refresh_localFront_def Let_def)
  have "block_ok ?b (xss ! i)" by (rule block_ok_refresh_front [OF ring_ok_block [OF ring i]])
  moreover have "(b_tail ?b + 1) AND b_sizeMask ?b = b_localFront ?b"
    using no by (simp only: has_room_def at Let_def not_not)
  ultimately show "length (xss ! i) = unat (b_sizeMask (q_blocks q ! (rs ! i)))" "xss ! i \<noteq> []"
    using block_ok_full [of ?b "xss ! i"] by simp_all
qed

section \<open>Moving to the next block\<close>

lemma ring_ok_put_tail:
  assumes ring: "ring_ok q rs t xss" and i: "Suc t < length rs" and ok: "block_ok b [x]"
    and b: "b_next b = b_next (q_blocks q ! (rs ! Suc t))"
    and full: "length (xss ! t) = unat (b_sizeMask (q_blocks q ! (rs ! t)))" and ne: "xss ! t \<noteq> []"
  shows "ring_ok ((put_block (rs ! Suc t) b q)\<lparr>q_tailBlock := rs ! Suc t\<rparr>) rs (Suc t) (xss[Suc t := [x]])"
proof -
  note r = ring [unfolded ring_ok_def]
  have at: "(q_blocks q)[rs ! Suc t := b] ! (rs ! j) = (if j = Suc t then b else q_blocks q ! (rs ! j))"
    if "j < length rs" for j
    using that r i ring_ok_index [OF ring i] by (auto simp: nth_eq_iff_index_eq)
  have filled: "xss[Suc t := [x]] ! j \<noteq> []" if "j \<le> Suc t" "0 < j" for j
    using that ring_ok_nonempty [OF ring, of j] ring_ok_ends(3) [OF ring] i by (cases "j = Suc t") auto
  have fulls: "length (xss[Suc t := [x]] ! j) = unat (b_sizeMask ((q_blocks q)[rs ! Suc t := b] ! (rs ! j)))"
    if "j < Suc t" "0 < j" for j
  proof -
    have "j < length rs" using that i by linarith
    then show ?thesis using that at full ring_ok_full [OF ring, of j] by (cases "j = t") auto
  qed
  have facts: "distinct rs" "set rs = {..<length (q_blocks q)}" "rs ! 0 = q_frontBlock q"
    "length xss = length rs" "\<exists>k. q_largestBlockSize q = 2 ^ k \<and> 0 < k \<and> k \<le> 10"
    "\<And>j. j < length rs \<Longrightarrow> b_next (q_blocks q ! (rs ! j)) = rs ! (Suc j mod length rs)"
    "\<And>j. j < length rs \<Longrightarrow> block_ok (q_blocks q ! (rs ! j)) (xss ! j)"
    "\<And>j. j < length rs \<Longrightarrow> t < j \<Longrightarrow> xss ! j = []"
    using ring by (auto simp: ring_ok_def)
  have next': "b_next ((q_blocks q)[rs ! Suc t := b] ! (rs ! j)) = rs ! (Suc j mod length rs)"
    if "j < length rs" for j using that at b facts(6) by simp
  show ?thesis
    unfolding ring_ok_def
    by (intro conjI allI impI) (use facts(1-5,7,8) i ok at filled fulls next' in \<open>simp_all add: nth_list_update\<close>)
qed

lemma concat_next_tail:
  assumes "ring_ok q rs t xss" and "Suc t < length rs"
  shows "concat (xss[Suc t := [x]]) = concat xss @ [x]"
proof -
  have t: "Suc t < length xss" using assms ring_ok_ends(3) [OF assms(1)] by simp
  have "concat (drop (Suc (Suc t)) xss) = []" "xss ! Suc t = []"
    using assms by (auto simp: ring_ok_def in_set_conv_nth)
  moreover have "xss = take (Suc t) xss @ xss ! Suc t # drop (Suc (Suc t)) xss" using t by (rule id_take_nth_drop)
  ultimately show ?thesis
    using t by (metis append_Nil append_Nil2 concat.simps(2) concat_append upd_conv_take_nth_drop)
qed

section \<open>A new block\<close>

lemma ring_ok_append:
  assumes ring: "ring_ok q rs t xss" and last: "Suc t = length rs"
    and k: "0 < k" "k \<le> 10"
    and full: "length (xss ! t) = unat (b_sizeMask (q_blocks q ! (rs ! t)))" and ne: "xss ! t \<noteq> []"
  shows "ring_ok (append_block (2 ^ k) x q) (rs @ [length (q_blocks q)]) (Suc t) (xss @ [[x]])"
proof -
  let ?n = "length (q_blocks q)" and ?b = "q_blocks q ! (rs ! t)"
  let ?nb = "(make_block (2 ^ k))\<lparr>b_data := (b_data (make_block (2 ^ k)))[0 := Some x], b_tail := 1,
    b_localTail := 1, b_next := b_next ?b\<rparr> :: 'a Block"
  have pow: "unat (2 ^ k :: u64) = 2 ^ k"
    using k by (intro unat_two_power) simp
  have one: "1 < (2::nat) ^ k" using k(1) by (rule one_less_power [rotated]) simp
  have "window_ok ?nb [x] \<lparr>ps_k = k, ps_lf = 0, ps_f = 0, ps_lt = 1, ps_t = 1\<rparr>"
    using k pow one one [simplified] by (simp add: window_ok_def make_block_def mask_eq_decr_exp)
  then have nb: "block_ok ?nb [x]" by (rule block_okI)
  let ?q = "append_block (2 ^ k) x q"
  have tail: "q_tailBlock q = rs ! t" using ring_ok_ends(5) [OF ring] by simp
  have blocks: "q_blocks ?q = (q_blocks q)[rs ! t := ?b\<lparr>b_next := ?n\<rparr>] @ [?nb]"
    "q_tailBlock ?q = ?n" "q_frontBlock ?q = q_frontBlock q" "q_largestBlockSize ?q = 2 ^ k"
    by (simp_all add: append_block_def Let_def tail)
  have lt: "rs ! j < ?n" if "j < length rs" for j by (rule ring_ok_index [OF ring that])
  have d: "distinct rs" and t: "t < length rs" using ring_ok_ends [OF ring] by auto
  have at: "q_blocks ?q ! (rs ! j) = (if j = t then ?b\<lparr>b_next := ?n\<rparr> else q_blocks q ! (rs ! j))"
    if "j < length rs" for j
    using that lt [OF that] d t by (auto simp: blocks nth_append nth_eq_iff_index_eq)
  have at_n: "q_blocks ?q ! ?n = ?nb" by (simp add: blocks nth_append)
  have len: "length (rs @ [?n]) = Suc (Suc t)" using last by simp
  have nb_next: "b_next ?b = rs ! 0" using ring_ok_next [OF ring t] last by simp
  have next': "b_next (q_blocks ?q ! ((rs @ [?n]) ! j)) = (rs @ [?n]) ! (Suc j mod length (rs @ [?n]))"
    if j: "j < length (rs @ [?n])" for j
  proof -
    consider "j < t" | "j = t" | "j = Suc t" using j len by linarith
    then show ?thesis
    proof cases
      case 1
      then have "b_next (q_blocks q ! (rs ! j)) = rs ! Suc j"
        using ring_ok_next [OF ring, of j] last by simp
      then show ?thesis using 1 last at by (simp add: nth_append)
    next
      case 2
      then show ?thesis using last at t by (simp add: nth_append)
    next
      case 3
      then show ?thesis using last at_n nb_next t by (cases rs) (simp_all add: nth_append)
    qed
  qed
  have ok: "block_ok (q_blocks ?q ! ((rs @ [?n]) ! j)) ((xss @ [[x]]) ! j)" if "j < length (rs @ [?n])" for j
    using that nb at at_n ring_ok_block [OF ring] ring_ok_ends(3) [OF ring] last
    by (cases "j = length rs") (auto simp: nth_append)
  have filled: "(xss @ [[x]]) ! j \<noteq> []" if "j \<le> Suc t" "0 < j" for j
    using that ring_ok_nonempty [OF ring, of j] ring_ok_ends(3) [OF ring] last
    by (cases "j = Suc t") (auto simp: nth_append)
  have fulls: "length ((xss @ [[x]]) ! j) = unat (b_sizeMask (q_blocks ?q ! ((rs @ [?n]) ! j)))"
    if "j < Suc t" "0 < j" for j
    using that ring_ok_full [OF ring, of j] ring_ok_ends(3) [OF ring] last at [of j] full
    by (cases "j = t") (auto simp: nth_append)
  have set': "set (rs @ [?n]) = {..<length (q_blocks ?q)}"
    using ring by (auto simp: ring_ok_def blocks)
  have fresh: "?n \<notin> set rs" using ring by (auto simp: ring_ok_def)
  show ?thesis
    unfolding ring_ok_def
  proof (intro conjI)
    show "\<exists>k'. q_largestBlockSize ?q = 2 ^ k' \<and> 0 < k' \<and> k' \<le> 10"
      using k by (intro exI [of _ k]) (simp add: blocks)
    show "\<forall>i<length (rs @ [?n]). Suc t < i \<longrightarrow> (xss @ [[x]]) ! i = []" using len by simp
    show "(rs @ [?n]) ! 0 = q_frontBlock ?q"
      using ring_ok_ends(4) [OF ring] t by (cases rs) (simp_all add: blocks)
    show "(rs @ [?n]) ! Suc t = q_tailBlock ?q" using last by (simp add: blocks nth_append)
  qed (use d fresh set' len next' ok filled fulls ring_ok_ends(3) [OF ring] in \<open>simp_all\<close>)
qed

section \<open>Enqueuing\<close>

definition same_blocks :: "'a ReaderWriterQueue \<Rightarrow> 'a ReaderWriterQueue \<Rightarrow> bool" where
  "same_blocks q q' \<longleftrightarrow> map b_sizeMask (q_blocks q') = map b_sizeMask (q_blocks q)"

text \<open>The elements a queue holds when it has no room: all blocks but the front one are full.\<close>

definition capacity_from :: "'a ReaderWriterQueue \<Rightarrow> nat \<Rightarrow> bool" where
  "capacity_from q n \<longleftrightarrow> (\<forall>p<length (q_blocks q).
     n \<le> (if length (q_blocks q) = 1 then unat (b_sizeMask (q_blocks q ! p))
          else (\<Sum>i\<in>{..<length (q_blocks q)} - {p}. unat (b_sizeMask (q_blocks q ! i)))))"

text \<open>
  \<open>xs\<close> is what the queue held: the element is appended, or the queue is full and keeps what it
  had.
\<close>

definition enqueue_spec ::
    "'a ReaderWriterQueue \<Rightarrow> 'a list \<Rightarrow> 'a \<Rightarrow> (bool \<times> 'a ReaderWriterQueue) option \<Rightarrow> bool" where
  "enqueue_spec q xs x r \<longleftrightarrow>
     (\<exists>q'. r = Some (True, q') \<and> queue_ok q' (xs @ [x])) \<or>
     (\<exists>q'. r = Some (False, q') \<and> queue_ok q' xs \<and> (\<forall>n. capacity_from q n \<longrightarrow> n \<le> length xs))"

lemma sum_ring:
  assumes "ring_ok q rs t xss" and "Suc t = length rs" and "0 < t"
    and "length (xss ! t) = unat (b_sizeMask (q_blocks q ! (rs ! t)))"
  shows "(\<Sum>i\<in>{..<length (q_blocks q)} - {rs ! 0}. unat (b_sizeMask (q_blocks q ! i))) \<le> length (concat xss)"
proof -
  let ?f = "\<lambda>i. unat (b_sizeMask (q_blocks q ! i))"
  obtain r0 rs' where rs: "rs = r0 # rs'" using ring_ok_ends(2) [OF assms(1)] by (cases rs) auto
  obtain x0 xss' where xss: "xss = x0 # xss'" using ring_ok_ends(2,3) [OF assms(1)] by (cases xss) auto
  have d: "distinct rs" "set rs = {..<length (q_blocks q)}" using assms(1) by (auto simp: ring_ok_def)
  have len: "length rs' = length xss'" using ring_ok_ends(3) [OF assms(1)] rs xss by simp
  have "length (xss' ! j) = ?f (rs' ! j)" if "j < length xss'" for j
  proof -
    have "length (xss ! Suc j) = ?f (rs ! Suc j)"
      using ring_ok_full [OF assms(1), of "Suc j"] assms(2,4) that len rs by (cases "Suc j = t") auto
    then show ?thesis by (simp add: rs xss)
  qed
  then have "map length xss' = map ?f rs'" using len by (intro nth_equalityI) auto
  moreover have "{..<length (q_blocks q)} - {rs ! 0} = set rs'" using d rs by auto
  moreover have "sum ?f (set rs') = sum_list (map ?f rs')" using d(1) rs by (simp add: sum_list_distinct_conv_sum_set)
  ultimately show ?thesis by (simp add: xss length_concat)
qed

lemma full_capacity:
  assumes ring: "ring_ok q rs t xss" and last: "Suc t = length rs"
    and full: "length (xss ! t) = unat (b_sizeMask (q_blocks q ! (rs ! t)))"
    and cap: "capacity_from q n"
  shows "n \<le> length (concat xss)"
proof -
  have blocks: "length (q_blocks q) = length rs"
    using ring distinct_card [of rs] by (auto simp: ring_ok_def)
  show ?thesis
  proof (cases "t = 0")
    case True
    obtain r0 where rs: "rs = [r0]" using True last by (cases rs) auto
    moreover obtain x0 where "xss = [x0]" using ring_ok_ends(3) [OF ring] rs by (cases xss) auto
    moreover have "r0 = 0" using ring rs blocks by (auto simp: ring_ok_def)
    ultimately show ?thesis using cap blocks full True by (simp add: capacity_from_def)
  next
    case False
    have "rs ! 0 < length (q_blocks q)" by (rule ring_ok_index [OF ring ring_ok_ends(2) [OF ring]])
    then show ?thesis
      using cap blocks last False sum_ring [OF ring last _ full] by (force simp: capacity_from_def)
  qed
qed

lemma refresh_masks [simp]:
  "map b_sizeMask (q_blocks (refresh_localFront p q)) = map b_sizeMask (q_blocks q)"
  by (simp add: refresh_localFront_def Let_def map_update)
    (metis length_map list_update_beyond list_update_id map_update nth_map not_le_imp_less)

lemma length_refresh [simp]: "length (q_blocks (refresh_localFront p q)) = length (q_blocks q)"
  by (simp add: refresh_localFront_def Let_def)

lemma capacity_cong:
  assumes "map b_sizeMask (q_blocks q') = map b_sizeMask (q_blocks q)"
  shows "capacity_from q' n \<longleftrightarrow> capacity_from q n"
proof -
  have len: "length (q_blocks q') = length (q_blocks q)" by (rule map_eq_imp_length_eq [OF assms])
  have at: "b_sizeMask (q_blocks q' ! i) = b_sizeMask (q_blocks q ! i)" if "i < length (q_blocks q)" for i
    using assms that len by (metis nth_map)
  have "(\<Sum>i\<in>{..<length (q_blocks q)} - {p}. unat (b_sizeMask (q_blocks q' ! i))) =
      (\<Sum>i\<in>{..<length (q_blocks q)} - {p}. unat (b_sizeMask (q_blocks q ! i)))" for p
    by (intro sum.cong) (auto simp: at)
  then show ?thesis by (simp add: capacity_from_def len at cong: if_cong)
qed

lemma mask_refresh [simp]:
  "i < length (q_blocks q) \<Longrightarrow> b_sizeMask (q_blocks (refresh_localFront p q) ! i) = b_sizeMask (q_blocks q ! i)"
  by (metis length_refresh nth_map refresh_masks)

text \<open>An empty block has room once its front is known.\<close>

lemma room_when_empty:
  assumes ring: "ring_ok q rs t xss" and i: "i < length rs" and empty: "xss ! i = []"
  shows "has_room (rs ! i) (refresh_localFront (rs ! i) q)"
  using room_refresh(2) [OF ring i] empty by blast

lemma enqueue_next_block:
  assumes ring: "ring_ok q rs t xss" and i: "Suc t < length rs"
    and full: "length (xss ! t) = unat (b_sizeMask (q_blocks q ! (rs ! t)))" and ne: "xss ! t \<noteq> []"
  defines "n \<equiv> rs ! Suc t" and "q1 \<equiv> refresh_localFront (rs ! Suc t) q"
  shows "b_localFront (q_blocks q1 ! n) = b_tail (q_blocks q1 ! n)"
    and "queue_ok ((store_at n x q1)\<lparr>q_tailBlock := n\<rparr>) (concat xss @ [x])"
proof -
  have ring1: "ring_ok q1 rs t xss" unfolding q1_def by (rule ring_ok_refresh_front [OF ring i])
  have empty: "xss ! Suc t = []" using ring i by (simp add: ring_ok_def)
  let ?b = "q_blocks q1 ! n"
  have b: "?b = (q_blocks q ! n)\<lparr>b_localFront := b_front (q_blocks q ! n)\<rparr>"
    using ring_ok_index [OF ring i] by (simp add: q1_def n_def refresh_localFront_def Let_def)
  have "block_ok ?b []" using ring_ok_block [OF ring1 i] empty by (simp add: n_def)
  then show assertion: "b_localFront ?b = b_tail ?b"
    using block_ok_tail_empty [of ?b "[]"] by (simp add: b)
  have room: "(b_tail ?b + 1) AND b_sizeMask ?b \<noteq> b_localFront ?b"
    by (rule block_ok_room [OF \<open>block_ok ?b []\<close>]) (simp add: b)
  have mask: "b_sizeMask (q_blocks q1 ! (rs ! t)) = b_sizeMask (q_blocks q ! (rs ! t))"
    using ring_ok_index [OF ring ring_ok_ends(1) [OF ring]] by (simp add: q1_def)
  have ok: "block_ok (?b\<lparr>b_data := (b_data ?b)[unat (b_tail ?b) := Some x],
      b_tail := (b_tail ?b + 1) AND b_sizeMask ?b\<rparr>) [x]"
    using block_ok_enqueue [OF \<open>block_ok ?b []\<close> room] by simp
  from ring_ok_put_tail [OF ring1 i ok] full ne mask
  have "ring_ok ((store_at n x q1)\<lparr>q_tailBlock := n\<rparr>) rs (Suc t) (xss[Suc t := [x]])"
    by (simp add: store_at_def Let_def n_def)
  then show "queue_ok ((store_at n x q1)\<lparr>q_tailBlock := n\<rparr>) (concat xss @ [x])"
    by (rule queue_okI) (simp add: concat_next_tail [OF ring i])
qed

lemma next_is_front:
  assumes "ring_ok q rs t xss" and "b_next (q_blocks q ! (rs ! t)) = q_frontBlock q"
  shows "Suc t = length rs"
proof (rule ccontr)
  assume "Suc t \<noteq> length rs"
  then have i: "Suc t < length rs" using ring_ok_ends(1) [OF assms(1)] by linarith
  then have "rs ! Suc t = rs ! 0"
    using ring_ok_next [OF assms(1) ring_ok_ends(1) [OF assms(1)]] assms(2) ring_ok_ends(4) [OF assms(1)] by simp
  then show False using i ring_ok_ends(2,6) [OF assms(1)] by (simp add: nth_eq_iff_index_eq)
qed

theorem inner_enqueue_spec:
  assumes "queue_ok q xs"
  shows "enqueue_spec q xs x (inner_enqueue canAlloc malloc_ok x q)"
proof -
  from assms obtain rs t xss where ring: "ring_ok q rs t xss" and xs: "xs = concat xss"
    by (auto simp: queue_ok_def)
  have t: "t < length rs" by (rule ring_ok_ends [OF ring])
  let ?p = "rs ! t"
  let ?q = "refresh_localFront ?p q"
  have tail: "q_tailBlock q = ?p" using ring_ok_ends(5) [OF ring] by simp
  have ring1: "ring_ok ?q rs t xss" by (rule ring_ok_refresh_front [OF ring t])
  have stored: "queue_ok (store_at ?p x q') (xs @ [x])" if "ring_ok q' rs t xss" "has_room ?p q'" for q'
    using ring_ok_store [OF that] concat_tail [OF ring] queue_okI xs by metis
  show ?thesis
  proof (cases "has_room ?p q \<or> has_room ?p ?q")
    case True
    then show ?thesis
      using stored [OF ring] stored [OF ring1] by (auto simp: inner_enqueue_def Let_def tail enqueue_spec_def)
  next
    case False
    then have full: "length (xss ! t) = unat (b_sizeMask (q_blocks q ! ?p))" and ne: "xss ! t \<noteq> []"
      using room_refresh [OF ring t] by auto
    have mask: "b_sizeMask (q_blocks ?q ! ?p) = b_sizeMask (q_blocks q ! ?p)"
      using ring_ok_index [OF ring t] by simp
    let ?n = "b_next (q_blocks ?q ! ?p)"
    show ?thesis
    proof (cases "?n = q_frontBlock q")
      case False2: False
      have "Suc t \<noteq> length rs"
      proof
        assume "Suc t = length rs"
        then have "?n = rs ! 0" using ring_ok_next [OF ring1 t] by simp
        then show False using False2 ring_ok_ends(4) [OF ring] by simp
      qed
      then have i: "Suc t < length rs" using t by linarith
      have n: "?n = rs ! Suc t" using ring_ok_next [OF ring1 t] i by simp
      from enqueue_next_block [OF ring1 i _ ne] full mask xs n show ?thesis
        using False False2 by (simp add: inner_enqueue_def Let_def tail enqueue_spec_def)
    next
      case True
      then have last: "Suc t = length rs" using next_is_front [OF ring1] by simp
      have refused: "\<forall>n. capacity_from q n \<longrightarrow> n \<le> length xs"
        using full_capacity [OF ring last full] xs by simp
      have kept: "queue_ok ?q xs" by (rule queue_okI [OF ring1 xs])
      define newsize where "newsize = (if MAX_BLOCK_SIZE \<le> q_largestBlockSize q then q_largestBlockSize q
        else q_largestBlockSize q * 2)"
      obtain k where k: "q_largestBlockSize q = 2 ^ k" "0 < k" "k \<le> 10" using ring by (auto simp: ring_ok_def)
      have "\<exists>k'. newsize = 2 ^ k' \<and> 0 < k' \<and> k' \<le> 10"
      proof (cases "k < 9")
        case True
        then show ?thesis using k by (intro exI [of _ "if MAX_BLOCK_SIZE \<le> q_largestBlockSize q then k else Suc k"])
          (auto simp: newsize_def)
      next
        case False
        then have "(2::nat) ^ 9 \<le> 2 ^ k" by (intro power_increasing) auto
        then have "MAX_BLOCK_SIZE \<le> q_largestBlockSize q"
          using k unat_two_power [of k] by (simp add: MAX_BLOCK_SIZE_def word_le_nat_alt)
        then show ?thesis using k by (auto simp: newsize_def)
      qed
      then obtain k' where k': "newsize = 2 ^ k'" "0 < k'" "k' \<le> 10" by auto
      have "queue_ok (append_block newsize x ?q) (xs @ [x])"
        unfolding k'(1)
        by (rule queue_okI [OF ring_ok_append [OF ring1 last k'(2,3) _ ne]]) (use full mask xs in simp_all)
      moreover have "q_largestBlockSize ?q = q_largestBlockSize q"
        by (simp add: refresh_localFront_def Let_def)
      ultimately show ?thesis
        using False True refused kept
        by (auto simp: inner_enqueue_def Let_def tail enqueue_spec_def newsize_def)
    qed
  qed
qed

end
