(* ===== verification/Queue_Capacity.thy ===== *)
theory Queue_Capacity
  imports Queue_Producer
begin

text \<open>
  The constructor of the queue: the power of two it computes, and that the blocks it builds are an
  empty ring with room for the number of elements asked for.
\<close>

section \<open>The smallest power of two\<close>

text \<open>
  Each line ors a shifted copy: bit \<open>n\<close> of the result tells whether one of the bits from \<open>n\<close> on,
  in a range that doubles, is set.
\<close>

definition smeared :: "nat \<Rightarrow> u64 \<Rightarrow> u64 \<Rightarrow> bool" where
  "smeared w x y \<longleftrightarrow> (\<forall>n. bit y n \<longleftrightarrow> (\<exists>m. n \<le> m \<and> m < n + w \<and> bit x m))"

lemma smeared_double:
  assumes "smeared w x y" and "0 < w"
  shows "smeared (2 * w) x (y OR drop_bit w y)"
  unfolding smeared_def
proof
  fix n
  have "(\<exists>m. n \<le> m \<and> m < n + 2 * w \<and> bit x m) \<longleftrightarrow>
      (\<exists>m. n \<le> m \<and> m < n + w \<and> bit x m) \<or> (\<exists>m. n + w \<le> m \<and> m < n + w + w \<and> bit x m)"
    using assms(2) by (auto; metis add.assoc mult_2 not_le le_add1 le_trans)
  moreover have "bit (y OR drop_bit w y) n \<longleftrightarrow> bit y n \<or> bit y (n + w)"
    by (simp add: bit_simps add.commute)
  ultimately show "bit (y OR drop_bit w y) n \<longleftrightarrow> (\<exists>m. n \<le> m \<and> m < n + 2 * w \<and> bit x m)"
    using assms(1) by (simp add: smeared_def)
qed

lemma smeared_mask:
  assumes "smeared 64 x y" and "x \<noteq> 0"
  obtains k where "k < 64" "bit x k" "y = mask (Suc k)" "x AND mask (Suc k) = x"
proof -
  let ?B = "{n. bit x n}"
  have fin: "finite ?B" by (rule finite_subset [of _ "{..<64}"]) (auto dest: bit_imp_le_length)
  have ne: "?B \<noteq> {}" using assms(2) by (auto simp: bit_eq_iff)
  define k where "k = Max ?B"
  have k: "bit x k" "\<And>n. bit x n \<Longrightarrow> n \<le> k" using Max_in [OF fin ne] Max_ge [OF fin] by (auto simp: k_def)
  have k64: "k < 64" using bit_imp_le_length [OF k(1)] by simp
  have "bit y n \<longleftrightarrow> n \<le> k" for n
  proof -
    have "bit y n \<longleftrightarrow> (\<exists>m. n \<le> m \<and> m < n + 64 \<and> bit x m)" using assms(1) by (simp add: smeared_def)
    also have "\<dots> \<longleftrightarrow> n \<le> k"
    proof
      assume "\<exists>m. n \<le> m \<and> m < n + 64 \<and> bit x m"
      then show "n \<le> k" using k(2) by (meson order_trans)
    next
      assume "n \<le> k"
      moreover have "k < n + 64" using k64 by linarith
      ultimately show "\<exists>m. n \<le> m \<and> m < n + 64 \<and> bit x m" using k(1) by blast
    qed
    finally show ?thesis .
  qed
  then have "y = mask (Suc k)"
    by (intro bit_word_eqI) (simp add: bit_mask_iff less_Suc_eq_le)
  moreover have "x AND mask (Suc k) = x"
  proof (rule bit_word_eqI)
    fix n assume "n < LENGTH(64)"
    then show "bit (x AND mask (Suc k)) n = bit x n"
      using k(2) [of n] by (auto simp: bit_and_iff bit_mask_iff less_Suc_eq_le)
  qed
  ultimately show thesis using that k64 k(1) by blast
qed

lemma ceilToPow2_exponent:
  assumes "1 \<le> unat x" and "unat x \<le> 2 ^ 63"
  shows "\<exists>k\<le>63. ceilToPow2 x = 2 ^ k \<and> unat x \<le> 2 ^ k \<and> (\<forall>j. unat x \<le> 2 ^ j \<longrightarrow> k \<le> j)"
proof -
  let ?v = "x - 1"
  have v: "unat ?v = unat x - 1" using unat_sub_le [of 1 x] assms(1) by (simp only: unat_1)
  define y where "y = ceilToPow2 x - 1"
  have "smeared 64 ?v y"
  proof -
    have "smeared 1 ?v ?v" by (simp add: smeared_def less_Suc_eq_le) (metis le_antisym order_refl)
    from smeared_double [OF smeared_double [OF smeared_double [OF smeared_double [OF smeared_double
          [OF smeared_double [OF this]]]]]]
    show ?thesis by (simp add: y_def ceilToPow2_def Let_def)
  qed
  have c: "ceilToPow2 x = y + 1" by (simp add: y_def)
  show ?thesis
  proof (cases "?v = 0")
    case True
    then have "y = 0" using \<open>smeared 64 ?v y\<close> by (intro bit_word_eqI) (simp add: smeared_def)
    moreover have "unat x = 1" using True v assms(1) by (simp add: unat_eq_0 [symmetric])
    ultimately show ?thesis using c by (intro exI [of _ 0]) simp
  next
    case False
    obtain k where k: "k < 64" "bit ?v k" "y = mask (Suc k)" "?v AND mask (Suc k) = ?v"
      by (rule smeared_mask [OF \<open>smeared 64 ?v y\<close> False])
    have fits: "unat ?v = unat ?v mod 2 ^ Suc k" using k(4) by (metis unat_and_mask)
    have below: "unat ?v < 2 ^ Suc k" by (subst fits) (rule mod_less_divisor, simp)
    have "bit (unat ?v) k" using k(2) by (simp add: bit_unsigned_iff)
    then have above: "2 ^ k \<le> unat ?v"
      by (metis bit_nat_def div_less even_zero linorder_not_less bit_iff_odd)
    have k62: "Suc k \<le> 63"
    proof (rule ccontr)
      assume "\<not> Suc k \<le> 63"
      then have "(2::nat) ^ 63 \<le> 2 ^ k" by (intro power_increasing) auto
      then show False using above v assms by linarith
    qed
    have "ceilToPow2 x = 2 ^ Suc k" using c k(3) by (simp add: mask_eq_decr_exp)
    moreover have "unat x \<le> 2 ^ Suc k" using below v by linarith
    moreover have "Suc k \<le> j" if "unat x \<le> 2 ^ j" for j
    proof -
      have "2 ^ k < unat x" using above v assms(1) by linarith
      then have "(2::nat) ^ k < 2 ^ j" using that by linarith
      then show ?thesis by (simp add: Suc_le_eq)
    qed
    ultimately show ?thesis using k62 by blast
  qed
qed

text \<open>
  \<open>ceilToPow2\<close> computes the smallest power of two that is not below its argument, for every
  argument from 1 to \<open>2^63\<close>.
\<close>

theorem ceilToPow2_least:
  assumes "1 \<le> unat x" and "unat x \<le> 2 ^ 63"
  shows "\<exists>k\<le>63. ceilToPow2 x = 2 ^ k \<and> unat x \<le> 2 ^ k \<and> (\<forall>j. unat x \<le> 2 ^ j \<longrightarrow> k \<le> j)"
  by (rule ceilToPow2_exponent [OF assms])

lemma ceilToPow2_least_witness: "ceilToPow2 100001 = 131072 \<and> (\<exists>k\<le>63. ceilToPow2 100001 = 2 ^ k)"
proof -
  have "unat (100001 :: u64) = 100001" by simp
  then have "1 \<le> unat (100001 :: u64)" "unat (100001 :: u64) \<le> 2 ^ 63" by simp_all
  from ceilToPow2_least [OF this] have "\<exists>k\<le>63. ceilToPow2 100001 = 2 ^ k" by blast
  moreover have "ceilToPow2 100001 = 131072" by code_simp
  ultimately show ?thesis by simp
qed

section \<open>The blocks of a new queue\<close>

definition block_chain :: "u64 \<Rightarrow> nat \<Rightarrow> 'a Block list" where
  "block_chain c n = map (\<lambda>i. (make_block c)\<lparr>b_next := (if Suc i = n then 0 else Suc i)\<rparr>) [0..<n]"

lemma length_block_chain [simp]: "length (block_chain c n) = n"
  by (simp add: block_chain_def)

lemma nth_block_chain [simp]:
  "i < n \<Longrightarrow> block_chain c n ! i = (make_block c)\<lparr>b_next := (if Suc i = n then 0 else Suc i)\<rparr>"
  by (simp add: block_chain_def)

lemma block_chain_Suc:
  "(if block_chain c n = [] then block_chain c n
    else (block_chain c n)[n - 1 := (block_chain c n ! (n - 1))\<lparr>b_next := n\<rparr>]) @ [make_block c] = block_chain c (Suc n)"
proof (rule nth_equalityI)
  fix i
  assume "i < length ((if block_chain c n = [] then block_chain c n
    else (block_chain c n)[n - 1 := (block_chain c n ! (n - 1))\<lparr>b_next := n\<rparr>]) @ [make_block c])"
  then have "i < Suc n" by (simp split: if_splits)
  moreover have "make_block c = (make_block c)\<lparr>b_next := 0\<rparr>" by (simp add: make_block_def)
  moreover have "block_chain c n = [] \<longleftrightarrow> n = 0" by (metis length_block_chain length_0_conv)
  ultimately show "((if block_chain c n = [] then block_chain c n
    else (block_chain c n)[n - 1 := (block_chain c n ! (n - 1))\<lparr>b_next := n\<rparr>]) @ [make_block c]) ! i =
      block_chain c (Suc n) ! i"
    by (cases "i = n") (auto simp: nth_append nth_list_update)
qed simp

lemma add_blocks_chain: "add_blocks m c (block_chain c n) = block_chain c (n + m)"
proof (induction m arbitrary: n)
  case (Suc m)
  show ?case
    by (simp only: add_blocks.simps Let_def length_block_chain block_chain_Suc Suc.IH add_Suc add_Suc_right)
qed simp

lemma block_ok_new:
  assumes "0 < k" and "k < 64"
  shows "block_ok (make_block (2 ^ k)) []"
proof (rule block_okI)
  show "window_ok (make_block (2 ^ k)) [] \<lparr>ps_k = k, ps_lf = 0, ps_f = 0, ps_lt = 0, ps_t = 0\<rparr>"
    using assms unat_two_power [of k] by (simp add: window_ok_def make_block_def mask_eq_decr_exp)
qed

lemma ring_ok_chain:
  assumes "0 < n" and "0 < k" and "k \<le> 10" and "q_blocks q = block_chain (2 ^ k) n"
    and "q_frontBlock q = 0" and "q_tailBlock q = 0" and "q_largestBlockSize q = 2 ^ k"
  shows "ring_ok q [0..<n] 0 (replicate n [])"
proof -
  have next': "b_next (q_blocks q ! i) = [0..<n] ! (Suc i mod n)" if "i < n" for i
    using that assms(4) by (cases "Suc i = n") simp_all
  have blocks: "block_ok (q_blocks q ! i) []" if "i < n" for i
    using that assms block_ok_new [of k] by simp
  have set': "set [0..<n] = {..<length (q_blocks q)}" using assms(4) by auto
  have k: "\<exists>k. q_largestBlockSize q = 2 ^ k \<and> 0 < k \<and> k \<le> 10" using assms by blast
  show ?thesis
    unfolding ring_ok_def using assms(1,5,6) next' blocks by (intro conjI k set') simp_all
qed

lemma capacity_chain:
  assumes "k < 64" and "q_blocks q = block_chain (2 ^ k) n" and "0 < n"
    and "m \<le> (if n = 1 then 2 ^ k - 1 else (n - 1) * (2 ^ k - 1))"
  shows "capacity_from q m"
proof -
  have mask: "unat (b_sizeMask (q_blocks q ! i)) = 2 ^ k - 1" if "i < n" for i
    using that assms(1,2) unat_mask64 [of k] by (simp add: make_block_def mask_eq_decr_exp)
  have "(\<Sum>i\<in>{..<n} - {p}. unat (b_sizeMask (q_blocks q ! i))) = (n - 1) * (2 ^ k - 1)" if "p < n" for p
  proof -
    have "(\<Sum>i\<in>{..<n} - {p}. unat (b_sizeMask (q_blocks q ! i))) = (\<Sum>i\<in>{..<n} - {p}. 2 ^ k - 1)"
      by (rule sum.cong) (auto simp: mask)
    then show ?thesis using that by simp
  qed
  then show ?thesis using mask assms(2,4) by (auto simp: capacity_from_def)
qed

lemma initialBlockCount_nat:
  assumes "unat sz < 2 ^ 63"
  shows "unat ((sz + MAX_BLOCK_SIZE * 2 - 3) div (MAX_BLOCK_SIZE - 1)) = (unat sz + 1021) div 511"
proof -
  have c: "MAX_BLOCK_SIZE * 2 = 1024" "MAX_BLOCK_SIZE - 1 = 511" by (simp_all add: MAX_BLOCK_SIZE_def)
  have "sz + MAX_BLOCK_SIZE * 2 - 3 = sz + 1021" by (simp add: MAX_BLOCK_SIZE_def)
  moreover have "unat (sz + 1021) = unat sz + 1021" using unat64_add [of sz 1021] assms by simp
  ultimately show ?thesis by (simp only: c(2) unat_div_distrib) simp
qed

text \<open>A queue built for \<open>sz\<close> elements is empty and never refuses one while it holds fewer.\<close>

lemma ReaderWriterQueue_new_ok:
  assumes "0 < unat sz" and "unat sz < 2 ^ 63"
  shows "queue_ok (ReaderWriterQueue_new sz :: 'a ReaderWriterQueue) []"
    and "capacity_from (ReaderWriterQueue_new sz :: 'a ReaderWriterQueue) (unat sz)"
proof -
  have s: "unat (sz + 1) = unat sz + 1" using unat64_add [of sz 1] assms by simp
  have "1 \<le> unat (sz + 1)" "unat (sz + 1) \<le> 2 ^ 63" unfolding s using assms by linarith+
  from ceilToPow2_exponent [OF this] obtain k where
    k: "k \<le> 63" "ceilToPow2 (sz + 1) = 2 ^ k" "unat sz + 1 \<le> 2 ^ k" unfolding s by blast
  let ?q = "ReaderWriterQueue_new sz :: 'a ReaderWriterQueue"
  have chains: "\<exists>n k. 0 < n \<and> 0 < k \<and> k \<le> 10 \<and> q_blocks ?q = block_chain (2 ^ k) n \<and> q_frontBlock ?q = 0 \<and>
      q_tailBlock ?q = 0 \<and> q_largestBlockSize ?q = 2 ^ k \<and>
      unat sz \<le> (if n = 1 then 2 ^ k - 1 else (n - 1) * (2 ^ k - 1))"
  proof (cases "MAX_BLOCK_SIZE * 2 < ceilToPow2 (sz + 1)")
    case True
    let ?n = "(unat sz + 1021) div 511"
    have "q_blocks ?q = block_chain MAX_BLOCK_SIZE ?n"
      using True initialBlockCount_nat [OF assms(2)] add_blocks_chain [of ?n MAX_BLOCK_SIZE 0]
      by (simp add: ReaderWriterQueue_new_def Let_def block_chain_def)
    moreover have "MAX_BLOCK_SIZE = 2 ^ 9" by (simp add: MAX_BLOCK_SIZE_def)
    moreover have "2 \<le> ?n" "unat sz \<le> (?n - 1) * 511" using assms(1) by linarith+
    ultimately show ?thesis using True
      by - (rule exI [of _ ?n], rule exI [of _ 9], simp add: ReaderWriterQueue_new_def Let_def)
  next
    case False
    then have "2 ^ k \<le> (1024 :: nat)"
      using k unat_two_power [of k] by (simp add: MAX_BLOCK_SIZE_def word_less_nat_alt)
    then have k10: "k \<le> 10" using power_increasing_iff [of "2::nat" k 10] by simp
    have "0 < k" using k(3) assms(1) by (cases k) auto
    moreover have "unat sz \<le> 2 ^ k - 1" using k(3) by linarith
    moreover have "q_blocks ?q = block_chain (2 ^ k) 1"
      using False k by (simp add: ReaderWriterQueue_new_def Let_def block_chain_def make_block_def)
    ultimately show ?thesis using False k k10
      by - (rule exI [of _ 1], rule exI [of _ k], simp add: ReaderWriterQueue_new_def Let_def)
  qed
  then obtain n j where c: "0 < n" "0 < j" "j \<le> 10" "q_blocks ?q = block_chain (2 ^ j) n"
    "q_frontBlock ?q = 0" "q_tailBlock ?q = 0" "q_largestBlockSize ?q = 2 ^ j"
    "unat sz \<le> (if n = 1 then 2 ^ j - 1 else (n - 1) * (2 ^ j - 1))" by blast
  show "queue_ok ?q []" by (rule queue_okI [OF ring_ok_chain [OF c(1-7)]]) simp
  show "capacity_from ?q (unat sz)" by (rule capacity_chain [OF _ c(4,1,8)]) (use c(3) in linarith)
qed

end
