(* ===== verification/Queue_Contract.thy ===== *)
theory Queue_Contract
  imports Queue_Capacity
begin

text \<open>
  The queue as its clients see it: a first-in first-out buffer with room for the number of
  elements it was built for. The contract is a locale, in which every sequence of operations is
  shown to behave as on a list; the blocks of the model fulfil it.
\<close>

section \<open>Looking at the queue\<close>

lemma block_ok_peek:
  assumes "block_ok b xs" and "xs \<noteq> []"
  shows "b_data b ! unat (b_front b) = Some (hd xs)"
proof -
  from assms(1) obtain ps where ps: "window_ok b xs ps" by (auto simp: block_ok_def)
  then show ?thesis using assms(2) by (force simp: window_ok_def hd_conv_nth)
qed

definition first_of :: "'a list \<Rightarrow> 'a option" where
  "first_of xs = (if xs = [] then None else Some (hd xs))"

definition peek_spec :: "'a list \<Rightarrow> ('a option \<times> 'a ReaderWriterQueue) option \<Rightarrow> bool" where
  "peek_spec xs r \<longleftrightarrow> (\<exists>q. r = Some (first_of xs, q) \<and> queue_ok q xs)"

lemma nonempty_front_elem:
  assumes "ring_ok q rs t xss" and "nonempty_front (rs ! 0) q"
  shows "xss ! 0 \<noteq> []"
  using dequeue_at_front [OF assms] by (metis list.distinct(1))

lemma concat_empty_head: "xss \<noteq> [] \<Longrightarrow> xss ! 0 = [] \<Longrightarrow> concat xss = concat (tl xss)"
  by (cases xss) auto

lemma peek_spec_at:
  assumes ring: "ring_ok q rs t xss" and "i < length rs" and "xss ! i \<noteq> []" and "\<forall>j<i. xss ! j = []"
  shows "peek_spec (concat xss) (peek_at (rs ! i) q)"
proof -
  have i: "i < length xss" using assms(2) ring_ok_ends(3) [OF ring] by simp
  have "concat (take i xss) = []" using assms(4) i by (auto simp: in_set_conv_nth)
  moreover have "concat xss = concat (take i xss) @ xss ! i @ concat (drop (Suc i) xss)"
    by (metis append_take_drop_id concat.simps(2) concat_append Cons_nth_drop_Suc [OF i])
  ultimately have "concat xss = xss ! i @ concat (drop (Suc i) xss)" by (simp only: append_Nil)
  then have "concat xss \<noteq> []" "hd (concat xss) = hd (xss ! i)" using assms(3) by (simp_all only: append_is_Nil_conv hd_append2) auto
  moreover have "queue_ok q (concat xss)" by (rule queue_okI [OF ring refl])
  ultimately show ?thesis
    using block_ok_peek [OF ring_ok_block [OF ring assms(2)] assms(3)]
    by (simp add: peek_spec_def peek_at_def first_of_def Let_def)
qed

lemma peek_correct:
  assumes "queue_ok q xs"
  shows "peek_spec xs (peek q)"
proof -
  from assms obtain rs t xss where ring: "ring_ok q rs t xss" and xs: "xs = concat xss"
    by (auto simp: queue_ok_def)
  have 0: "0 < length rs" by (rule ring_ok_ends [OF ring])
  let ?p = "rs ! 0" and ?q1 = "refresh_localTail (rs ! 0) q"
  let ?q2 = "refresh_localTail (rs ! 0) ?q1"
  have ring1: "ring_ok ?q1 rs t xss" by (rule ring_ok_refresh_tail [OF ring 0])
  have ring2: "ring_ok ?q2 rs t xss" by (rule ring_ok_refresh_tail [OF ring1 0])
  have ne: "nonempty_front ?p ?q1 \<longleftrightarrow> xss ! 0 \<noteq> []" "nonempty_front ?p ?q2 \<longleftrightarrow> xss ! 0 \<noteq> []"
    using nonempty_refresh [OF ring 0] nonempty_refresh [OF ring1 0] by auto
  have front: "q_frontBlock q = ?p" using ring_ok_ends(4) [OF ring] by simp
  show ?thesis
  proof (cases "xss ! 0 = []")
    case False
    then have "peek_spec (concat xss) (peek_at ?p q)" "peek_spec (concat xss) (peek_at ?p ?q1)"
      using peek_spec_at [OF ring 0] peek_spec_at [OF ring1 0] by auto
    then show ?thesis using False ne by (simp add: peek_def front xs Let_def)
  next
    case empty: True
    then have no: "\<not> nonempty_front ?p q" using nonempty_front_elem [OF ring] by blast
    show ?thesis
    proof (cases "t = 0")
      case True
      have "concat xss = []"
        using ring empty True by (fastforce simp: ring_ok_def in_set_conv_nth)
      moreover have "queue_ok ?q1 (concat xss)" by (rule queue_okI [OF ring1 refl])
      ultimately show ?thesis
        using no ne empty True ring_ok_ends(5) [OF ring]
        by (simp add: peek_def front xs Let_def peek_spec_def first_of_def)
    next
      case False
      then have t: "0 < t" and len: "1 < length rs" using ring_ok_ends(1) [OF ring] by linarith+
      have "?p \<noteq> q_tailBlock q"
        using False ring_ok_ends(1,2,5,6) [OF ring] by (metis nth_eq_iff_index_eq)
      moreover have n: "b_next (q_blocks ?q2 ! ?p) = rs ! 1" using ring_ok_next [OF ring2 0] len by simp
      moreover have some: "xss ! 1 \<noteq> []" using t by (intro ring_ok_nonempty [OF ring]) simp_all
      moreover have "b_front (q_blocks ?q2 ! (rs ! 1)) \<noteq> b_tail (q_blocks ?q2 ! (rs ! 1))"
        using block_ok_tail_empty [OF ring_ok_block [OF ring2 len]] some by simp
      moreover have "peek_spec (concat xss) (peek_at (rs ! 1) ?q2)"
        by (rule peek_spec_at [OF ring2 len some]) (use empty in simp)
      ultimately show ?thesis using no ne empty by (simp add: peek_def front xs Let_def)
    qed
  qed
qed

text \<open>The loop over the ring visits every block once.\<close>

lemma ring_sum_rest:
  assumes ring: "ring_ok q rs t xss" and "i < length rs"
  shows "ring_sum f (q_blocks q) (rs ! 0) (rs ! i) acc =
    Some (acc + sum_list (map (\<lambda>p. f (q_blocks q ! p)) (drop i rs)))"
  using assms(2)
proof (induction "length rs - i" arbitrary: i acc rule: less_induct)
  case (less i)
  have next': "b_next (q_blocks q ! (rs ! i)) = rs ! (Suc i mod length rs)" by (rule ring_ok_next [OF ring less.prems])
  have drop: "drop i rs = rs ! i # drop (Suc i) rs" by (simp add: Cons_nth_drop_Suc less.prems)
  show ?case
  proof (cases "Suc i = length rs")
    case True
    then show ?thesis by (subst ring_sum.simps) (simp add: next' drop Let_def)
  next
    case False
    then have i: "Suc i < length rs" using less.prems by linarith
    then have "rs ! Suc i \<noteq> rs ! 0"
      using ring_ok_ends(2,6) [OF ring] by (simp add: nth_eq_iff_index_eq)
    moreover have "length rs - Suc i < length rs - i" using i by linarith
    ultimately show ?thesis
      using less.hyps [of "Suc i"] i
      by (subst ring_sum.simps) (simp add: next' drop Let_def add.assoc)
  qed
qed

lemma take_bit_word_diff: "take_bit k (take_bit k a - take_bit k b) = take_bit k (a - b :: u64)"
  by transfer (simp add: take_bit_diff)

lemma block_ok_count:
  assumes "block_ok b xs"
  shows "(b_tail b - b_front b) AND b_sizeMask b = of_nat (length xs)"
proof -
  from assms obtain ps where ps: "window_ok b xs ps" by (auto simp: block_ok_def)
  let ?k = "ps_k ps"
  note w = ps [unfolded window_ok_def]
  have at: "x = take_bit ?k (of_nat m)" if "unat x = m mod 2 ^ ?k" for x :: u64 and m
  proof -
    have "x = of_nat (unat x)" by simp
    also have "\<dots> = of_nat (take_bit ?k m)" by (simp only: that take_bit_eq_mod)
    finally show ?thesis by (simp only: take_bit_of_nat)
  qed
  have "(b_tail b - b_front b) AND b_sizeMask b = take_bit ?k (b_tail b - b_front b)"
    using w by (simp add: take_bit_eq_mask)
  also have "\<dots> = take_bit ?k (take_bit ?k (of_nat (ps_t ps)) - take_bit ?k (of_nat (ps_f ps)))"
    using w at [of "b_tail b" "ps_t ps"] at [of "b_front b" "ps_f ps"] by simp
  also have "\<dots> = take_bit ?k (of_nat (ps_t ps) - of_nat (ps_f ps))"
    by (rule take_bit_word_diff)
  also have "\<dots> = take_bit ?k (of_nat (length xs))" using w by simp
  also have "\<dots> = of_nat (length xs)"
  proof -
    have "length xs < 2 ^ ?k" using w by linarith
    then show ?thesis by (simp add: take_bit_of_nat take_bit_nat_eq_self)
  qed
  finally show ?thesis .
qed

lemma size_approx_correct:
  assumes "queue_ok q xs"
  shows "size_approx q = Some (of_nat (length xs))"
proof -
  from assms obtain rs t xss where ring: "ring_ok q rs t xss" and xs: "xs = concat xss"
    by (auto simp: queue_ok_def)
  let ?f = "\<lambda>b. (b_tail b - b_front b) AND b_sizeMask b"
  have "map (\<lambda>p. ?f (q_blocks q ! p)) rs = map (\<lambda>ys. of_nat (length ys)) xss"
    using ring_ok_ends(3) [OF ring] block_ok_count [OF ring_ok_block [OF ring]]
    by (intro nth_equalityI) auto
  moreover have "sum_list (map (\<lambda>ys. of_nat (length ys)) xss) = (of_nat (length (concat xss)) :: u64)"
    by (induction xss) auto
  ultimately show ?thesis
    using ring_sum_rest [OF ring ring_ok_ends(2) [OF ring], of ?f 0] ring_ok_ends(4) [OF ring]
    by (simp add: size_approx_def xs)
qed

section \<open>The shape of the ring does not change\<close>

definition block_masks :: "'a ReaderWriterQueue \<Rightarrow> u64 list" where
  "block_masks q = map b_sizeMask (q_blocks q)"

lemma put_block_masks:
  assumes "b_sizeMask b = b_sizeMask (q_blocks q ! p)"
  shows "block_masks (put_block p b q) = block_masks q"
  using assms by (cases "p < length (q_blocks q)") (simp_all add: block_masks_def map_update list_update_same_conv list_update_beyond)

lemma block_masks_fields [simp]:
  "block_masks (q\<lparr>q_frontBlock := n\<rparr>) = block_masks q" "block_masks (q\<lparr>q_tailBlock := n\<rparr>) = block_masks q"
  by (simp_all add: block_masks_def)

lemma block_masks_refresh [simp]:
  "block_masks (refresh_localTail p q) = block_masks q" "block_masks (refresh_localFront p q) = block_masks q"
  "block_masks (store_at p x q) = block_masks q"
  by (simp_all add: refresh_localTail_def refresh_localFront_def store_at_def Let_def put_block_masks)

lemma dequeue_at_masks: "dequeue_at p q = Some (r, q') \<Longrightarrow> block_masks q' = block_masks q"
  by (auto simp: dequeue_at_def Let_def put_block_masks split: option.splits)

lemma try_dequeue_masks: "try_dequeue q = Some (r, q') \<Longrightarrow> block_masks q' = block_masks q"
  by (auto simp: try_dequeue_def Let_def dest!: dequeue_at_masks split: if_splits)

lemma peek_masks: "peek q = Some (r, q') \<Longrightarrow> block_masks q' = block_masks q"
  by (auto simp: peek_def peek_at_def Let_def split: if_splits option.splits)

lemma try_enqueue_masks: "try_enqueue x q = Some (r, q') \<Longrightarrow> block_masks q' = block_masks q"
  by (auto simp: try_enqueue_def inner_enqueue_def Let_def split: if_splits)

lemma capacity_masks: "block_masks q' = block_masks q \<Longrightarrow> capacity_from q' n \<longleftrightarrow> capacity_from q n"
  by (rule capacity_cong) (simp add: block_masks_def)

section \<open>The contract\<close>

datatype 'a queue_op = Enq 'a | Deq | Peek | Count

datatype 'a queue_answer = Enqueued bool | Taken "'a option" | Seen "'a option" | Counted u64

text \<open>
  The answers a list gives that holds \<open>xs\<close>; an element may be refused when \<open>n\<close> or more are held.
\<close>

fun fifo_answers :: "nat \<Rightarrow> 'a list \<Rightarrow> 'a queue_op list \<Rightarrow> 'a queue_answer list \<Rightarrow> bool" where
  "fifo_answers n xs [] [] \<longleftrightarrow> True"
| "fifo_answers n xs (Enq x # ops) (Enqueued ok # as) \<longleftrightarrow>
     (ok \<or> n \<le> length xs) \<and> fifo_answers n (if ok then xs @ [x] else xs) ops as"
| "fifo_answers n xs (Deq # ops) (Taken r # as) \<longleftrightarrow> r = first_of xs \<and> fifo_answers n (tl xs) ops as"
| "fifo_answers n xs (Peek # ops) (Seen r # as) \<longleftrightarrow> r = first_of xs \<and> fifo_answers n xs ops as"
| "fifo_answers n xs (Count # ops) (Counted c # as) \<longleftrightarrow> c = of_nat (length xs) \<and> fifo_answers n xs ops as"
| "fifo_answers n xs _ _ \<longleftrightarrow> False"

text \<open>One operation on a queue given by its four operations, and a sequence of them.\<close>

record ('s, 'a) queue_ops =
  op_enq :: "'a \<Rightarrow> 's \<Rightarrow> (bool \<times> 's) option"
  op_deq :: "'s \<Rightarrow> ('a option \<times> 's) option"
  op_peek :: "'s \<Rightarrow> ('a option \<times> 's) option"
  op_count :: "'s \<Rightarrow> u64 option"

fun queue_call :: "('s, 'a) queue_ops \<Rightarrow> 'a queue_op \<Rightarrow> 's \<Rightarrow> ('a queue_answer \<times> 's) option" where
  "queue_call f (Enq x) s = map_option (\<lambda>(r, s). (Enqueued r, s)) (op_enq f x s)"
| "queue_call f Deq s = map_option (\<lambda>(r, s). (Taken r, s)) (op_deq f s)"
| "queue_call f Peek s = map_option (\<lambda>(r, s). (Seen r, s)) (op_peek f s)"
| "queue_call f Count s = map_option (\<lambda>c. (Counted c, s)) (op_count f s)"

fun queue_run :: "('s, 'a) queue_ops \<Rightarrow> 'a queue_op list \<Rightarrow> 's \<Rightarrow> ('a queue_answer list \<times> 's) option" where
  "queue_run f [] s = Some ([], s)"
| "queue_run f (op # ops) s = do {
     (a, s) \<leftarrow> queue_call f op s;
     (as, s) \<leftarrow> queue_run f ops s;
     Some (a # as, s)
   }"

locale fifo_queue =
  fixes f :: "('s, 'a) queue_ops"
    and holds :: "nat \<Rightarrow> 's \<Rightarrow> 'a list \<Rightarrow> bool"
  assumes enq: "holds n s xs \<Longrightarrow> \<exists>ok s'. op_enq f x s = Some (ok, s') \<and>
      holds n s' (if ok then xs @ [x] else xs) \<and> (ok \<or> n \<le> length xs)"
    and deq: "holds n s xs \<Longrightarrow> \<exists>s'. op_deq f s = Some (first_of xs, s') \<and> holds n s' (tl xs)"
    and peek: "holds n s xs \<Longrightarrow> \<exists>s'. op_peek f s = Some (first_of xs, s') \<and> holds n s' xs"
    and count: "holds n s xs \<Longrightarrow> op_count f s = Some (of_nat (length xs))"
begin

lemma run_fifo:
  assumes "holds n s xs"
  shows "\<exists>as s'. queue_run f ops s = Some (as, s') \<and> fifo_answers n xs ops as"
  using assms
proof (induction ops arbitrary: s xs)
  case (Cons op ops)
  have step: "\<exists>a s' ys. queue_call f op s = Some (a, s') \<and> holds n s' ys \<and>
      (\<forall>as. fifo_answers n ys ops as \<longrightarrow> fifo_answers n xs (op # ops) (a # as))"
    using enq [OF Cons.prems] deq [OF Cons.prems] peek [OF Cons.prems] count [OF Cons.prems] Cons.prems
    by (cases op) fastforce+
  then obtain a s' ys where a: "queue_call f op s = Some (a, s')" "holds n s' ys"
    "\<forall>as. fifo_answers n ys ops as \<longrightarrow> fifo_answers n xs (op # ops) (a # as)" by blast
  from Cons.IH [OF a(2)] obtain as s'' where "queue_run f ops s' = Some (as, s'')" "fifo_answers n ys ops as"
    by blast
  then show ?case using a by simp
qed simp

end

section \<open>The queue of blocks\<close>

definition rw_queue :: "('a ReaderWriterQueue, 'a) queue_ops" where
  "rw_queue = \<lparr>op_enq = try_enqueue, op_deq = try_dequeue, op_peek = peek, op_count = size_approx\<rparr>"

definition rw_holds :: "nat \<Rightarrow> 'a ReaderWriterQueue \<Rightarrow> 'a list \<Rightarrow> bool" where
  "rw_holds n q xs \<longleftrightarrow> queue_ok q xs \<and> capacity_from q n"

lemma rw_holds_enq:
  assumes "rw_holds n q xs"
  shows "\<exists>ok q'. try_enqueue x q = Some (ok, q') \<and> rw_holds n q' (if ok then xs @ [x] else xs) \<and>
    (ok \<or> n \<le> length xs)"
proof -
  have ok: "queue_ok q xs" and cap: "capacity_from q n" using assms by (simp_all add: rw_holds_def)
  have "enqueue_spec q xs x (try_enqueue x q)" unfolding try_enqueue_def by (rule inner_enqueue_spec [OF ok])
  then obtain r q' where q': "try_enqueue x q = Some (r, q')" "queue_ok q' (if r then xs @ [x] else xs)"
    "r \<or> n \<le> length xs" using cap unfolding enqueue_spec_def by fastforce
  then show ?thesis using cap capacity_masks [OF try_enqueue_masks [OF q'(1)]] by (simp add: rw_holds_def)
qed

lemma rw_holds_deq:
  assumes "rw_holds n q xs"
  shows "\<exists>q'. try_dequeue q = Some (first_of xs, q') \<and> rw_holds n q' (tl xs)"
proof -
  have ok: "queue_ok q xs" and cap: "capacity_from q n" using assms by (simp_all add: rw_holds_def)
  obtain q' where q': "try_dequeue q = Some (first_of xs, q')" "queue_ok q' (tl xs)"
    using try_dequeue_spec [OF ok] by (auto simp: dequeue_spec_def first_of_def split: list.splits)
  then show ?thesis using cap capacity_masks [OF try_dequeue_masks [OF q'(1)]] by (simp add: rw_holds_def)
qed

lemma rw_holds_peek:
  assumes "rw_holds n q xs"
  shows "\<exists>q'. peek q = Some (first_of xs, q') \<and> rw_holds n q' xs"
proof -
  have ok: "queue_ok q xs" and cap: "capacity_from q n" using assms by (simp_all add: rw_holds_def)
  obtain q' where q': "peek q = Some (first_of xs, q')" "queue_ok q' xs"
    using peek_correct [OF ok] by (auto simp: peek_spec_def)
  then show ?thesis using cap capacity_masks [OF peek_masks [OF q'(1)]] by (simp add: rw_holds_def)
qed

lemma rw_holds_count: "rw_holds n q xs \<Longrightarrow> size_approx q = Some (of_nat (length xs))"
  by (simp add: rw_holds_def size_approx_correct)

interpretation rwq: fifo_queue rw_queue rw_holds
  by unfold_locales
    (simp_all only: rw_queue_def queue_ops.simps rw_holds_enq rw_holds_deq rw_holds_peek rw_holds_count)

lemma rw_holds_new:
  "0 < unat sz \<Longrightarrow> unat sz < 2 ^ 63 \<Longrightarrow> rw_holds (unat sz) (ReaderWriterQueue_new sz) []"
  by (simp add: rw_holds_def ReaderWriterQueue_new_ok)

text \<open>
  C35: A queue built for \<open>sz\<close> elements (at least one, less than \<open>2^63\<close>) answers every sequence of
  \<open>try_enqueue\<close>, \<open>try_dequeue\<close>, \<open>peek\<close> and \<open>size_approx\<close> as a list does: nothing fails, elements
  leave in the order they came, sizes are exact, and an element is refused only while at least
  \<open>sz\<close> are held.
\<close>

theorem queue_fifo:
  assumes "0 < unat sz" and "unat sz < 2 ^ 63"
  shows "\<exists>as q. queue_run rw_queue ops (ReaderWriterQueue_new sz) = Some (as, q) \<and> fifo_answers (unat sz) [] ops as"
  by (rule rwq.run_fifo [OF rw_holds_new [OF assms]])

text \<open>
  Three slots hold three elements, the fourth is refused, and the index wraps.
\<close>

definition demo_ops :: "nat queue_op list" where
  "demo_ops = [Enq 1, Enq 2, Peek, Enq 3, Enq 4, Count, Deq, Enq 5, Deq, Deq, Deq, Deq]"

lemma queue_fifo_witness:
  "map_option fst (queue_run rw_queue demo_ops (ReaderWriterQueue_new 3)) =
     Some [Enqueued True, Enqueued True, Seen (Some 1), Enqueued True, Enqueued False, Counted 3, Taken (Some 1),
       Enqueued True, Taken (Some 2), Taken (Some 3), Taken (Some 5), Taken None] \<and>
   (\<exists>as q. queue_run rw_queue demo_ops (ReaderWriterQueue_new 3) = Some (as, q) \<and> fifo_answers 3 [] demo_ops as)"
proof -
  have "map_option fst (queue_run rw_queue demo_ops (ReaderWriterQueue_new 3)) =
     Some [Enqueued True, Enqueued True, Seen (Some 1), Enqueued True, Enqueued False, Counted 3, Taken (Some 1),
       Enqueued True, Taken (Some 2), Taken (Some 3), Taken (Some 5), Taken None]" by code_simp
  then show ?thesis using queue_fifo [of 3 demo_ops] by simp
qed

end
