(* ===== verification/Queue_Lifetime.thy ===== *)
theory Queue_Lifetime
  imports Queue_Contract
begin

text \<open>
  The memory of a queue of \<^verbatim>\<open>external/readerwriterqueue.h\<close>: where a block and its elements lie in
  the memory that was allocated for them, what moving a queue leaves behind, and what destroying it
  destroys and frees.
\<close>

section \<open>Moving\<close>

text \<open>
  A moved queue keeps the blocks; the other one gets a new block of 32 slots that is its own
  successor. Without memory for it the program is aborted.
\<close>

definition ReaderWriterQueue_move :: "bool \<Rightarrow> 'a ReaderWriterQueue \<Rightarrow> ('a ReaderWriterQueue \<times> 'a ReaderWriterQueue) option" where
  "ReaderWriterQueue_move malloc_ok other = (
     if \<not> malloc_ok then None
     else Some (\<lparr>q_blocks = q_blocks other, q_frontBlock = q_frontBlock other, q_tailBlock = q_tailBlock other,
                 q_largestBlockSize = q_largestBlockSize other\<rparr>,
               other\<lparr>q_blocks := [(make_block 32)\<lparr>b_next := 0\<rparr>], q_frontBlock := 0, q_tailBlock := 0,
                 q_largestBlockSize := 32\<rparr>))"

text \<open>Move assignment swaps the two queues; each keeps its blocks in this model.\<close>

definition ReaderWriterQueue_swap :: "'a ReaderWriterQueue \<Rightarrow> 'a ReaderWriterQueue \<Rightarrow> 'a ReaderWriterQueue \<times> 'a ReaderWriterQueue" where
  "ReaderWriterQueue_swap this other = (other, this)"

lemma moved_from: "ReaderWriterQueue_move True q = Some (q, ReaderWriterQueue_new 31)"
proof -
  have "ReaderWriterQueue_new 31 = (\<lparr>q_blocks = [make_block 32], q_frontBlock = 0, q_tailBlock = 0,
      q_largestBlockSize = 32\<rparr> :: 'a ReaderWriterQueue)"
    by (simp add: ReaderWriterQueue_new_def ceilToPow2_def MAX_BLOCK_SIZE_def)
  then show ?thesis by (simp add: ReaderWriterQueue_move_def make_block_def)
qed

section \<open>Destruction\<close>

text \<open>
  The elements from front to tail of a block are destroyed, then the block is freed. A slot without
  an element, or a block that was freed before, is undefined. The result is the destroyed elements
  and the freed blocks, in order.
\<close>

partial_function (option) destroy_elements :: "'a Block \<Rightarrow> u64 \<Rightarrow> 'a list \<Rightarrow> 'a list option" where
  "destroy_elements b i acc = (
     if i = b_tail b then Some acc
     else (case b_data b ! unat i of
        None \<Rightarrow> None
      | Some x \<Rightarrow> destroy_elements b ((i + 1) AND b_sizeMask b) (acc @ [x])))"

partial_function (option) destroy_blocks ::
    "'a Block list \<Rightarrow> nat \<Rightarrow> nat \<Rightarrow> 'a list \<Rightarrow> nat list \<Rightarrow> ('a list \<times> nat list) option" where
  "destroy_blocks bs start p acc freed = (
     if p \<in> set freed then None
     else do {
       let nextBlock = b_next (bs ! p);
       acc \<leftarrow> destroy_elements (bs ! p) (b_front (bs ! p)) acc;
       if nextBlock = start then Some (acc, freed @ [p])
       else destroy_blocks bs start nextBlock acc (freed @ [p]) })"

lemmas [code] = destroy_elements.simps destroy_blocks.simps

definition ReaderWriterQueue_destroy :: "'a ReaderWriterQueue \<Rightarrow> ('a list \<times> nat list) option" where
  "ReaderWriterQueue_destroy q = destroy_blocks (q_blocks q) (q_frontBlock q) (q_frontBlock q) [] []"

lemma destroy_elements_window:
  assumes w: "window_ok b xs ps" and "j \<le> length xs" and "unat i = (ps_f ps + j) mod 2 ^ ps_k ps"
  shows "destroy_elements b i acc = Some (acc @ drop j xs)"
  using assms(2,3)
proof (induction "length xs - j" arbitrary: j i acc)
  case 0
  then have "j = length xs" by simp
  then have "unat i = unat (b_tail b)" using 0 w by (simp add: window_ok_def)
  then have "i = b_tail b" by (simp add: word_unat_eq_iff)
  then show ?case using 0 by (subst destroy_elements.simps) simp
next
  case (Suc n)
  note u = w [unfolded window_ok_def]
  have j: "j < length xs" using Suc.hyps(2) by simp
  have "i \<noteq> b_tail b"
    using index_eq [of i "ps_f ps + j" "2 ^ ps_k ps" "b_tail b" "ps_t ps"] Suc.prems(2) u j by simp
  moreover have "b_data b ! unat i = Some (xs ! j)" using u j Suc.prems(2) by simp
  moreover have "unat ((i + 1) AND b_sizeMask b) = (ps_f ps + Suc j) mod 2 ^ ps_k ps"
    using unat_next_index [of "ps_k ps" i "ps_f ps + j"] u Suc.prems(2) by simp
  from Suc.hyps(1) [OF _ _ this, of "acc @ [xs ! j]"] Suc.hyps(2) j
  have "destroy_elements b ((i + 1) AND b_sizeMask b) (acc @ [xs ! j]) = Some (acc @ xs ! j # drop (Suc j) xs)" by simp
  ultimately show ?case using j by (subst destroy_elements.simps) (simp add: Cons_nth_drop_Suc)
qed

lemma destroy_elements_block:
  assumes "block_ok b xs"
  shows "destroy_elements b (b_front b) acc = Some (acc @ xs)"
proof -
  from assms obtain ps where "window_ok b xs ps" by (auto simp: block_ok_def)
  from destroy_elements_window [OF this, of 0 "b_front b" acc] this show ?thesis by (simp add: window_ok_def)
qed

lemma destroy_blocks_rest:
  assumes ring: "ring_ok q rs t xss" and "i < length rs"
  shows "destroy_blocks (q_blocks q) (rs ! 0) (rs ! i) acc (take i rs) = Some (acc @ concat (drop i xss), rs)"
  using assms(2)
proof (induction "length rs - i" arbitrary: i acc rule: less_induct)
  case (less i)
  have len: "length xss = length rs" and d: "distinct rs" by (rule ring_ok_ends [OF ring])+
  have next': "b_next (q_blocks q ! (rs ! i)) = rs ! (Suc i mod length rs)" by (rule ring_ok_next [OF ring less.prems])
  have fresh: "rs ! i \<notin> set (take i rs)"
    using d less.prems by (auto simp: in_set_conv_nth nth_eq_iff_index_eq)
  have el: "destroy_elements (q_blocks q ! (rs ! i)) (b_front (q_blocks q ! (rs ! i))) acc = Some (acc @ xss ! i)"
    by (rule destroy_elements_block [OF ring_ok_block [OF ring less.prems]])
  have split: "concat (drop i xss) = xss ! i @ concat (drop (Suc i) xss)"
    using less.prems len by (simp flip: Cons_nth_drop_Suc)
  have grow: "take i rs @ [rs ! i] = take (Suc i) rs" using less.prems by (simp add: take_Suc_conv_app_nth)
  show ?case
  proof (cases "Suc i = length rs")
    case True
    then show ?thesis using len
      by (subst destroy_blocks.simps) (simp add: fresh el next' split grow)
  next
    case False
    then have i: "Suc i < length rs" using less.prems by linarith
    then have "rs ! Suc i \<noteq> rs ! 0"
      using ring_ok_ends(2,6) [OF ring] by (simp add: nth_eq_iff_index_eq)
    moreover have "length rs - Suc i < length rs - i" using i by linarith
    ultimately show ?thesis
      using less.hyps [of "Suc i" "acc @ xss ! i"] i
      by (subst destroy_blocks.simps) (simp add: fresh el next' split grow)
  qed
qed

text \<open>
  C39: Destroying a queue destroys every element it holds, once and in order, and frees every block,
  once; the elements a queue was moved with are destroyed with the new one, and the queue they were
  moved out of can be used and destroyed.
\<close>

theorem queue_destroyed_once:
  assumes "queue_ok q xs" and "ReaderWriterQueue_move True q = Some (q', other)"
  shows "\<exists>freed other_freed. ReaderWriterQueue_destroy q' = Some (xs, freed) \<and> distinct freed \<and>
    set freed = {..<length (q_blocks q)} \<and>
    queue_ok other [] \<and> ReaderWriterQueue_destroy other = Some ([], other_freed) \<and> length other_freed = length (q_blocks other)"
proof -
  have all: "\<exists>rs. ReaderWriterQueue_destroy q = Some (xs, rs) \<and> distinct rs \<and> set rs = {..<length (q_blocks q)}"
    if "queue_ok q xs" for q :: "'a ReaderWriterQueue" and xs
  proof -
    from that obtain rs t xss where ring: "ring_ok q rs t xss" "xs = concat xss" by (auto simp: queue_ok_def)
    from destroy_blocks_rest [OF ring(1) ring_ok_ends(2) [OF ring(1)], of "[]"] ring show ?thesis
      by (auto simp: ReaderWriterQueue_destroy_def ring_ok_def)
  qed
  have "q' = q" "other = ReaderWriterQueue_new 31" using assms(2) moved_from [of q] by simp_all
  moreover have new: "queue_ok (ReaderWriterQueue_new 31 :: 'a ReaderWriterQueue) []"
    by (rule ReaderWriterQueue_new_ok) simp_all
  moreover obtain rs where "ReaderWriterQueue_destroy (ReaderWriterQueue_new 31 :: 'a ReaderWriterQueue) = Some ([], rs)"
      "distinct rs" "set rs = {..<length (q_blocks (ReaderWriterQueue_new 31 :: 'a ReaderWriterQueue))}"
    using all [OF new] by blast
  moreover have "length rs = length (q_blocks (ReaderWriterQueue_new 31 :: 'a ReaderWriterQueue))"
    using distinct_card [OF \<open>distinct rs\<close>] \<open>set rs = _\<close> by simp
  ultimately show ?thesis using all [OF assms(1)] by blast
qed

lemma queue_destroyed_once_witness:
  "\<exists>q q' other freed. map_option snd (try_enqueue 5 (ReaderWriterQueue_new 3)) = Some q \<and>
     ReaderWriterQueue_move True q = Some (q', other) \<and> ReaderWriterQueue_destroy q' = Some ([5 :: nat], freed) \<and>
     queue_ok other []"
proof -
  have "rw_holds 3 (ReaderWriterQueue_new 3 :: nat ReaderWriterQueue) []"
    using rw_holds_new [of 3] by simp
  from rw_holds_enq [OF this, of 5] obtain q where
    q: "try_enqueue 5 (ReaderWriterQueue_new 3) = Some (True, q)" "queue_ok q [5 :: nat]"
    by (auto simp: rw_holds_def split: if_splits)
  from queue_destroyed_once [OF q(2) moved_from] moved_from [of q] q(1) show ?thesis by auto
qed

section \<open>The memory of a block\<close>

text \<open>
  \<open>align_for\<close> moves a pointer up to the next multiple of the alignment. The sizes and alignments
  of a block and of an element are those the compiler chose.
\<close>

definition align_for :: "u64 \<Rightarrow> u64 \<Rightarrow> u64" where
  "align_for alignment ptr = ptr + (alignment - ptr mod alignment) mod alignment"

record block_layout =
  bl_sizeof_Block :: u64
  bl_align_Block :: u64
  bl_sizeof_T :: u64
  bl_align_T :: u64

definition block_bytes :: "block_layout \<Rightarrow> u64 \<Rightarrow> u64" where
  "block_bytes l capacity = bl_sizeof_Block l + bl_align_Block l - 1 + (bl_sizeof_T l * capacity + bl_align_T l - 1)"

definition block_address :: "block_layout \<Rightarrow> u64 \<Rightarrow> u64" where
  "block_address l raw = align_for (bl_align_Block l) raw"

definition data_address :: "block_layout \<Rightarrow> u64 \<Rightarrow> u64" where
  "data_address l raw = align_for (bl_align_T l) (block_address l raw + bl_sizeof_Block l)"

lemma align_for_ok:
  assumes "0 < unat a" and "unat p + unat a \<le> 2 ^ 64"
  shows "unat a dvd unat (align_for a p)" and "unat p \<le> unat (align_for a p)"
    and "unat (align_for a p) < unat p + unat a"
proof -
  let ?m = "unat p mod unat a"
  have m: "?m < unat a" using assms(1) by simp
  have le: "unat (p mod a) \<le> unat a" using m by (simp add: unat_mod_distrib)
  have d: "unat ((a - p mod a) mod a) = (unat a - ?m) mod unat a"
    by (simp add: unat_mod_distrib unat_sub_le [OF le])
  have lt: "(unat a - ?m) mod unat a < unat a" using assms(1) by simp
  then have sum: "unat (align_for a p) = unat p + (unat a - ?m) mod unat a"
    unfolding align_for_def using assms(2) d by (subst unat64_add) simp_all
  show "unat p \<le> unat (align_for a p)" "unat (align_for a p) < unat p + unat a" using sum lt by simp_all
  have "(unat p + (unat a - ?m) mod unat a) mod unat a = (unat p + (unat a - ?m)) mod unat a"
    by (rule mod_add_right_eq)
  also have "\<dots> = (?m + (unat a - ?m)) mod unat a" by (rule mod_add_left_eq [symmetric])
  also have "\<dots> = 0" using m by simp
  finally show "unat a dvd unat (align_for a p)" by (simp only: sum dvd_eq_mod_eq_0)
qed

text \<open>
  The block and its elements lie inside the memory that \<open>make_block\<close> asks for, aligned for their
  types and without overlap, wherever the allocator puts it.
\<close>

theorem make_block_fits:
  assumes "0 < unat (bl_align_Block l)" and "0 < unat (bl_align_T l)"
    and "unat (bl_sizeof_Block l) + unat (bl_align_Block l) + unat (bl_sizeof_T l) * unat capacity + unat (bl_align_T l) +
      unat raw \<le> 2 ^ 64"
  shows "unat (bl_align_Block l) dvd unat (block_address l raw) \<and> unat (bl_align_T l) dvd unat (data_address l raw) \<and>
    unat raw \<le> unat (block_address l raw) \<and>
    unat (block_address l raw) + unat (bl_sizeof_Block l) \<le> unat (data_address l raw) \<and>
    unat (data_address l raw) + unat (bl_sizeof_T l) * unat capacity \<le> unat raw + unat (block_bytes l capacity)"
proof -
  let ?B = "bl_sizeof_Block l" and ?a = "bl_align_Block l" and ?T = "bl_sizeof_T l" and ?c = "bl_align_T l"
  have small: "unat raw + unat ?a \<le> 2 ^ 64" using assms(3) by simp
  note b = align_for_ok [OF assms(1) small, folded block_address_def]
  have sum: "unat (block_address l raw + ?B) = unat (block_address l raw) + unat ?B"
    using b(3) assms(2,3) by (intro unat64_add) simp
  then have small': "unat (block_address l raw + ?B) + unat ?c \<le> 2 ^ 64" using b(3) assms(3) by simp
  note d = align_for_ok [OF assms(2) small', folded data_address_def]
  have mult: "unat (?T * capacity) = unat ?T * unat capacity"
    using assms by (simp add: unat_word_ariths)
  have s1: "unat (?B + ?a) = unat ?B + unat ?a" using assms by (intro unat64_add) simp
  then have s2: "unat (?B + ?a - 1) = unat ?B + unat ?a - 1"
    using assms(1) by (subst unat_sub_le) simp_all
  have s3: "unat (?T * capacity + ?c) = unat ?T * unat capacity + unat ?c"
    using assms mult by (subst unat64_add) simp_all
  then have s4: "unat (?T * capacity + ?c - 1) = unat ?T * unat capacity + unat ?c - 1"
    using assms(2) by (subst unat_sub_le) simp_all
  have "unat (block_bytes l capacity) = (unat ?B + unat ?a - 1) + (unat ?T * unat capacity + unat ?c - 1)"
    unfolding block_bytes_def using assms s2 s4 by (subst unat64_add) simp_all
  then show ?thesis using b d sum assms(1,2) by auto
qed

lemma make_block_fits_witness:
  "data_address \<lparr>bl_sizeof_Block = 200, bl_align_Block = 64, bl_sizeof_T = 4, bl_align_T = 4\<rparr> 1001 = 1224 \<and>
   (1224 :: nat) + 4 * 16 \<le> 1001 + unat (block_bytes \<lparr>bl_sizeof_Block = 200, bl_align_Block = 64, bl_sizeof_T = 4, bl_align_T = 4\<rparr> 16)"
proof -
  let ?l = "\<lparr>bl_sizeof_Block = 200, bl_align_Block = 64, bl_sizeof_T = 4, bl_align_T = 4\<rparr>"
  have at: "data_address ?l 1001 = 1224" by (simp add: data_address_def block_address_def align_for_def)
  from make_block_fits [of ?l 16 1001] at show ?thesis by simp
qed

end
