(* ===== verification/Light_Semaphore.thy ===== *)
theory Light_Semaphore
  imports Kym_Prelude
begin

text \<open>
  The semaphore of \<^verbatim>\<open>external/atomicops.h\<close> under the blocking queue: a counter that both threads
  change with atomic additions, and a kernel semaphore on which the consumer sleeps. One thread
  signals and one waits. Each is at a point of its code between two atomic accesses, and a turn of
  a thread makes one of them, so every interleaving is a list of turns. The counter is a \<open>ssize_t\<close>
  in the code, whose additions wrap, and an \<open>int\<close> here: it never leaves the range from -1 to the
  number of permits (\<open>sema_inv_range\<close>), so the two agree as long as there are less than 2^63 of them.
\<close>

section \<open>The state\<close>

record light_sema =
  ls_count :: int
  ls_sema :: nat

definition LightweightSemaphore :: "int \<Rightarrow> light_sema option" where
  "LightweightSemaphore initialCount =
     (if 0 \<le> initialCount then Some \<lparr>ls_count = initialCount, ls_sema = 0\<rparr> else None)"

definition fetch_add :: "int \<Rightarrow> light_sema \<Rightarrow> int \<times> light_sema" where
  "fetch_add n s = (ls_count s, s\<lparr>ls_count := ls_count s + n\<rparr>)"

definition availableApprox :: "light_sema \<Rightarrow> nat" where
  "availableApprox s = (if 0 < ls_count s then nat (ls_count s) else 0)"

section \<open>The kernel semaphore\<close>

text \<open>
  What \<open>sem_wait\<close>, \<open>sem_timedwait\<close> or \<open>sem_trywait\<close> report: the semaphore was taken, a signal
  handler interrupted the call, or it failed (a timeout, or nothing to take). They take the
  semaphore only when its value is positive, and \<open>sem_trywait\<close> fails only when it is not.
\<close>

datatype sem_reply = Acquired | Interrupted | Failed

text \<open>
  One call inside the retry loops: \<open>None\<close> when the call cannot give this answer now, inside it
  \<open>None\<close> when the loop goes on, else whether the semaphore was taken.
\<close>

definition Semaphore_wait :: "sem_reply \<Rightarrow> nat \<Rightarrow> (bool option \<times> nat) option" where
  "Semaphore_wait reply v = (case reply of
     Acquired \<Rightarrow> if 0 < v then Some (Some True, v - 1) else None
   | Interrupted \<Rightarrow> Some (None, v)
   | Failed \<Rightarrow> Some (Some False, v))"

definition Semaphore_try_wait :: "sem_reply \<Rightarrow> nat \<Rightarrow> (bool option \<times> nat) option" where
  "Semaphore_try_wait reply v = (case reply of
     Acquired \<Rightarrow> if 0 < v then Some (Some True, v - 1) else None
   | Interrupted \<Rightarrow> Some (None, v)
   | Failed \<Rightarrow> if v = 0 then Some (Some False, v) else None)"

text \<open>
  The time \<open>timed_wait\<close> computes for \<open>sem_timedwait\<close>, in seconds and nanoseconds, from that of the
  clock; the call itself is \<open>Semaphore_wait\<close>.
\<close>

definition timed_wait_until :: "u64 \<Rightarrow> int \<times> int \<Rightarrow> int \<times> int" where
  "timed_wait_until usecs = (\<lambda>(sec, nsec).
     let sec = sec + uint usecs div 1000000; nsec = nsec + (uint usecs mod 1000000) * 1000
     in if 1000000000 \<le> nsec then (sec + 1, nsec - 1000000000) else (sec, nsec))"

section \<open>Waiting\<close>

text \<open>
  The points of \<open>tryWait\<close> (\<open>Entry\<close>, \<open>Entry_take\<close>) and of \<open>waitWithPartialSpinning\<close> behind it.
\<close>

datatype wait_pc = Entry | Entry_take | Spin nat | Spin_take | Kernel | Restore | Retake | Try | Returned bool

text \<open>A wait without argument has the timeout \<open>-1\<close>.\<close>

datatype wait_call = TryWait | Wait int

definition spins :: nat where
  "spins = 1024"

fun wait_timeout :: "wait_call \<Rightarrow> int" where
  "wait_timeout TryWait = 0"
| "wait_timeout (Wait t) = t"

text \<open>A retry loop around the kernel semaphore: where a turn of it leads.\<close>

definition kernel_turn :: "(bool option \<times> nat) option \<Rightarrow> wait_pc \<Rightarrow> light_sema \<Rightarrow> (wait_pc \<times> light_sema) option" where
  "kernel_turn res stay s = (case res of
     None \<Rightarrow> None
   | Some (None, v) \<Rightarrow> Some (stay, s)
   | Some (Some ok, v) \<Rightarrow> Some (if ok then Returned True else Restore, s\<lparr>ls_sema := v\<rparr>))"

fun wait_turn :: "wait_call \<Rightarrow> sem_reply \<Rightarrow> wait_pc \<Rightarrow> light_sema \<Rightarrow> (wait_pc \<times> light_sema) option" where
  "wait_turn c reply Entry s = Some (
     if 0 < ls_count s then Entry_take
     else (case c of TryWait \<Rightarrow> Returned False | Wait _ \<Rightarrow> Spin spins), s)"
| "wait_turn c reply Entry_take s = Some (Returned True, snd (fetch_add (- 1) s))"
| "wait_turn c reply (Spin n) s =
     (if n \<noteq> 0 then Some (if 0 < ls_count s then Spin_take else Spin (n - 1), s)
      else (let (oldCount, s) = fetch_add (- 1) s in
        Some (if 0 < oldCount then Returned True
              else if wait_timeout c = 0 then Restore else Kernel, s)))"
| "wait_turn c reply Spin_take s = Some (Returned True, snd (fetch_add (- 1) s))"
| "wait_turn c reply Kernel s = kernel_turn (Semaphore_wait reply (ls_sema s)) Kernel s"
| "wait_turn c reply Restore s = (let (oldCount, s) = fetch_add 1 s in
     Some (if oldCount < 0 then Returned False else Retake, s))"
| "wait_turn c reply Retake s = (let (oldCount, s) = fetch_add (- 1) s in
     Some (if 0 < oldCount then Try else Restore, s))"
| "wait_turn c reply Try s = kernel_turn (Semaphore_try_wait reply (ls_sema s)) Try s"
| "wait_turn c reply (Returned b) s = None"

section \<open>Signalling\<close>

text \<open>
  \<open>Post k\<close>: \<open>k\<close> posts to the kernel semaphore are left; one that fails is repeated. \<open>None\<close> is a
  failed assertion.
\<close>

datatype signal_pc = Add int | Post nat | Signalled

fun signal_turn :: "bool \<Rightarrow> signal_pc \<Rightarrow> light_sema \<Rightarrow> (signal_pc \<times> light_sema) option" where
  "signal_turn posted (Add n) s =
     (if n < 0 then None
      else (let (oldCount, s) = fetch_add n s in
        if oldCount < - 1 then None
        else Some (if oldCount < 0 then Post 1 else Signalled, s)))"
| "signal_turn posted (Post k) s =
     (if k = 0 then Some (Signalled, s)
      else if posted then Some (Post (k - 1), s\<lparr>ls_sema := ls_sema s + 1\<rparr>)
      else Some (Post k, s))"
| "signal_turn posted Signalled s = None"

section \<open>The invariant\<close>

text \<open>
  \<open>p\<close> permits are there, one of which a waiting thread at some points has already taken from the
  counter. A post to the kernel semaphore is made or under way exactly when a thread that gave up
  spinning has a permit.
\<close>

fun borrowed :: "wait_pc option \<Rightarrow> int" where
  "borrowed (Some Kernel) = 1"
| "borrowed (Some Restore) = 1"
| "borrowed (Some Try) = 1"
| "borrowed _ = 0"

fun posts :: "wait_pc option \<Rightarrow> nat \<Rightarrow> nat" where
  "posts (Some Kernel) p = (if 0 < p then 1 else 0)"
| "posts (Some Restore) p = (if 0 < p then 1 else 0)"
| "posts (Some Try) p = 1"
| "posts (Some Retake) p = 1"
| "posts _ p = 0"

fun to_post :: "signal_pc option \<Rightarrow> nat" where
  "to_post (Some (Post k)) = k"
| "to_post _ = 0"

definition sema_inv :: "light_sema \<Rightarrow> wait_pc option \<Rightarrow> signal_pc option \<Rightarrow> nat \<Rightarrow> bool" where
  "sema_inv s w g p \<longleftrightarrow> ls_count s = int p - borrowed w \<and> ls_sema s + to_post g = posts w p \<and>
     (w \<in> {Some Entry_take, Some Spin_take, Some Retake, Some Try} \<longrightarrow> 0 < p) \<and> (\<forall>b. w \<noteq> Some (Returned b)) \<and>
     (\<forall>n. w = Some (Spin n) \<longrightarrow> n \<le> spins)"

lemma sema_inv_start: "LightweightSemaphore c = Some s \<Longrightarrow> sema_inv s None None (nat c)"
  by (auto simp: LightweightSemaphore_def sema_inv_def split: if_splits)

lemma sema_inv_range: "sema_inv s w g p \<Longrightarrow> - 1 \<le> ls_count s \<and> ls_count s \<le> int p"
  by (cases w rule: borrowed.cases) (auto simp: sema_inv_def)

lemma sema_inv_call: "sema_inv s None g p \<Longrightarrow> sema_inv s (Some Entry) g p"
  by (simp add: sema_inv_def)

lemma sema_inv_signal: "sema_inv s w None p \<Longrightarrow> sema_inv s w (Some (Add n)) p"
  by (simp add: sema_inv_def)

text \<open>A turn of the waiting thread keeps it, and returns what the number of permits tells.\<close>

definition after_wait :: "light_sema \<Rightarrow> wait_pc \<Rightarrow> signal_pc option \<Rightarrow> nat \<Rightarrow> bool" where
  "after_wait s pc g p \<longleftrightarrow> (case pc of
     Returned True \<Rightarrow> 0 < p \<and> sema_inv s None g (p - 1)
   | Returned False \<Rightarrow> p = 0 \<and> sema_inv s None g p
   | _ \<Rightarrow> sema_inv s (Some pc) g p)"

lemma wait_turn_inv:
  assumes "sema_inv s (Some pc) g p" and "wait_turn c reply pc s = Some (pc', s')"
  shows "after_wait s' pc' g p"
  using assms
  by (cases pc) (auto simp: sema_inv_def after_wait_def fetch_add_def kernel_turn_def Semaphore_wait_def
      Semaphore_try_wait_def Let_def split: if_splits wait_call.splits sem_reply.splits option.splits)

definition unless_done :: "signal_pc \<Rightarrow> signal_pc option" where
  "unless_done g = (if g = Signalled then None else Some g)"

lemma signal_turn_add:
  assumes "sema_inv s w (Some (Add n)) p" and "0 < n"
  shows "\<exists>g s'. signal_turn posted (Add n) s = Some (g, s') \<and> sema_inv s' w (unless_done g) (p + nat n)"
proof (cases w)
  case (Some pc)
  then show ?thesis using assms
    by (cases pc) (auto simp: sema_inv_def fetch_add_def Let_def unless_done_def)
qed (use assms in \<open>auto simp: sema_inv_def fetch_add_def Let_def unless_done_def\<close>)

lemma signal_turn_post:
  assumes "sema_inv s w (Some (Post k)) p"
  shows "\<exists>g s'. signal_turn posted (Post k) s = Some (g, s') \<and> sema_inv s' w (unless_done g) p"
  using assms by (auto simp: sema_inv_def unless_done_def)

end
