(* ===== verification/Semaphore_Runs.thy ===== *)
theory Semaphore_Runs
  imports Light_Semaphore
begin

text \<open>
  One thread that signals and one that waits on the semaphore, in any interleaving: what they see is
  what a plain counter of permits allows, no permit is lost, and a wait ends.
\<close>

section \<open>Two threads\<close>

record sema_system =
  sy_sema :: light_sema
  sy_wait :: "(wait_call \<times> wait_pc) option"
  sy_signal :: "signal_pc option"

datatype sema_turn = Call wait_call | Wait_turn sem_reply | Signal int | Signal_turn bool

datatype sema_event = Added int | Granted | Denied

text \<open>A call that returns is over: its last access decides what it returns.\<close>

definition wait_done :: "wait_call \<Rightarrow> wait_pc \<Rightarrow> (wait_call \<times> wait_pc) option" where
  "wait_done c pc = (case pc of Returned _ \<Rightarrow> None | _ \<Rightarrow> Some (c, pc))"

definition wait_events :: "wait_pc \<Rightarrow> sema_event list" where
  "wait_events pc = (case pc of Returned ok \<Rightarrow> [if ok then Granted else Denied] | _ \<Rightarrow> [])"

definition signal_events :: "signal_pc \<Rightarrow> sema_event list" where
  "signal_events g = (case g of Add n \<Rightarrow> [Added n] | _ \<Rightarrow> [])"

fun system_turn :: "sema_turn \<Rightarrow> sema_system \<Rightarrow> (sema_event list \<times> sema_system) option" where
  "system_turn (Call c) y = (if sy_wait y = None then Some ([], y\<lparr>sy_wait := Some (c, Entry)\<rparr>) else None)"
| "system_turn (Wait_turn reply) y = (case sy_wait y of
     None \<Rightarrow> None
   | Some (c, pc) \<Rightarrow> do {
       (pc, s) \<leftarrow> wait_turn c reply pc (sy_sema y);
       Some (wait_events pc, y\<lparr>sy_sema := s, sy_wait := wait_done c pc\<rparr>) })"
| "system_turn (Signal n) y = (if sy_signal y = None then Some ([], y\<lparr>sy_signal := Some (Add n)\<rparr>) else None)"
| "system_turn (Signal_turn posted) y = (case sy_signal y of
     None \<Rightarrow> None
   | Some g \<Rightarrow> do {
       (g', s) \<leftarrow> signal_turn posted g (sy_sema y);
       Some (signal_events g, y\<lparr>sy_sema := s, sy_signal := unless_done g'\<rparr>) })"

fun sema_run :: "sema_turn list \<Rightarrow> sema_system \<Rightarrow> (sema_event list \<times> sema_system) option" where
  "sema_run [] y = Some ([], y)"
| "sema_run (t # ts) y = do {
     (es, y) \<leftarrow> system_turn t y;
     (es', y) \<leftarrow> sema_run ts y;
     Some (es @ es', y) }"

definition sema_start :: "int \<Rightarrow> sema_system option" where
  "sema_start c = map_option (\<lambda>s. \<lparr>sy_sema = s, sy_wait = None, sy_signal = None\<rparr>) (LightweightSemaphore c)"

section \<open>The counter they implement\<close>

text \<open>A wait that fails saw no permit.\<close>

fun permits_after :: "nat \<Rightarrow> sema_event list \<Rightarrow> nat option" where
  "permits_after p [] = Some p"
| "permits_after p (Added n # es) = permits_after (p + nat n) es"
| "permits_after p (Granted # es) = (if 0 < p then permits_after (p - 1) es else None)"
| "permits_after p (Denied # es) = (if p = 0 then permits_after p es else None)"

lemma permits_after_append:
  "permits_after p (es @ es') = Option.bind (permits_after p es) (\<lambda>p. permits_after p es')"
  by (induction p es rule: permits_after.induct) auto

text \<open>
  The callers in the code signal with a positive count, the default 1. (A \<open>signal(0)\<close> while the other
  thread sleeps would post for nothing.) A run gives out what its signals add up to.
\<close>

definition proper_turn :: "sema_turn \<Rightarrow> bool" where
  "proper_turn t \<longleftrightarrow> (case t of Signal n \<Rightarrow> 0 < n | _ \<Rightarrow> True)"

fun signalled :: "sema_turn \<Rightarrow> int" where
  "signalled (Signal n) = n"
| "signalled _ = 0"

definition signals :: "sema_turn list \<Rightarrow> int" where
  "signals ts = sum_list (map signalled ts)"

lemma signals_simps [simp]: "signals [] = 0" "signals (t # ts) = signalled t + signals ts"
  by (simp_all add: signals_def)

fun to_add :: "signal_pc option \<Rightarrow> int" where
  "to_add (Some (Add n)) = n"
| "to_add _ = 0"

definition system_inv :: "sema_system \<Rightarrow> nat \<Rightarrow> bool" where
  "system_inv y p \<longleftrightarrow> sema_inv (sy_sema y) (map_option snd (sy_wait y)) (sy_signal y) p \<and>
     (\<forall>n. sy_signal y = Some (Add n) \<longrightarrow> 0 < n) \<and> sy_signal y \<noteq> Some Signalled"

lemma after_wait_events:
  assumes "after_wait s pc g p"
  shows "\<exists>p'. permits_after p (wait_events pc) = Some p' \<and> sema_inv s (map_option snd (wait_done c pc)) g p'"
  using assms by (auto simp: after_wait_def wait_events_def wait_done_def split: wait_pc.splits bool.splits)

lemma unless_done_Add: "signal_turn posted g s = Some (g', s') \<Longrightarrow> unless_done g' \<noteq> Some (Add n) \<and> unless_done g' \<noteq> Some Signalled"
  by (cases g) (auto simp: unless_done_def fetch_add_def Let_def split: if_splits)

lemma signal_turn_ok:
  assumes "system_inv y p" and "sy_signal y = Some g"
  shows "\<exists>g' s'. signal_turn posted g (sy_sema y) = Some (g', s')"
    and "signal_turn posted g (sy_sema y) = Some (g', s') \<Longrightarrow> \<exists>p'. permits_after p (signal_events g) = Some p' \<and>
      sema_inv s' (map_option snd (sy_wait y)) (unless_done g') p'"
proof -
  have "\<exists>p' g' s'. permits_after p (signal_events g) = Some p' \<and> signal_turn posted g (sy_sema y) = Some (g', s') \<and>
      sema_inv s' (map_option snd (sy_wait y)) (unless_done g') p'"
    using assms signal_turn_add [of "sy_sema y" "map_option snd (sy_wait y)"]
      signal_turn_post [of "sy_sema y" "map_option snd (sy_wait y)"]
    by (cases g) (fastforce simp: system_inv_def signal_events_def)+
  then show "\<exists>g' s'. signal_turn posted g (sy_sema y) = Some (g', s')"
    and "signal_turn posted g (sy_sema y) = Some (g', s') \<Longrightarrow> \<exists>p'. permits_after p (signal_events g) = Some p' \<and>
      sema_inv s' (map_option snd (sy_wait y)) (unless_done g') p'" by auto
qed

lemma system_turn_inv:
  assumes "system_turn t y = Some (es, y')" and "system_inv y p" and "proper_turn t"
  shows "\<exists>p'. permits_after p es = Some p' \<and> system_inv y' p'"
proof (cases t)
  case (Call c)
  then show ?thesis using assms sema_inv_call by (auto simp: system_inv_def split: if_splits)
next
  case (Signal n)
  then show ?thesis using assms sema_inv_signal by (auto simp: system_inv_def proper_turn_def split: if_splits)
next
  case (Wait_turn reply)
  with assms(1) obtain c pc pc' s where w: "sy_wait y = Some (c, pc)" "wait_turn c reply pc (sy_sema y) = Some (pc', s)"
    "es = wait_events pc'" "y' = y\<lparr>sy_sema := s, sy_wait := wait_done c pc'\<rparr>"
    by (auto elim!: bindE split: option.splits)
  have "sema_inv (sy_sema y) (Some pc) (sy_signal y) p" using assms(2) w(1) by (simp add: system_inv_def)
  from after_wait_events [OF wait_turn_inv [OF this w(2)], of c] show ?thesis
    using assms(2) w by (auto simp: system_inv_def)
next
  case (Signal_turn posted)
  with assms(1) obtain g g' s where g: "sy_signal y = Some g" "signal_turn posted g (sy_sema y) = Some (g', s)"
    "es = signal_events g" "y' = y\<lparr>sy_sema := s, sy_signal := unless_done g'\<rparr>"
    by (auto elim!: bindE split: option.splits)
  from signal_turn_ok(2) [OF assms(2) g(1,2)] unless_done_Add [OF g(2)] show ?thesis
    using g by (auto simp: system_inv_def)
qed

lemma to_add_done: "signal_turn posted g s = Some (g', s') \<Longrightarrow> to_add (unless_done g') = 0"
  by (cases g) (auto simp: unless_done_def fetch_add_def Let_def split: if_splits)

text \<open>What there is and what is being added is at most what there was and what a turn signals.\<close>

lemma system_turn_bound:
  assumes "system_turn t y = Some (es, y')" and "system_inv y p" and "permits_after p es = Some p'"
  shows "int p' + to_add (sy_signal y') \<le> int p + to_add (sy_signal y) + signalled t"
proof (cases t)
  case (Wait_turn reply)
  then show ?thesis using assms(1,3)
    by (auto simp: wait_events_def elim!: bindE split: option.splits wait_pc.splits if_splits)
next
  case (Signal_turn posted)
  with assms(1) obtain g g' s where g: "sy_signal y = Some g" "signal_turn posted g (sy_sema y) = Some (g', s)"
    "es = signal_events g" "y' = y\<lparr>sy_sema := s, sy_signal := unless_done g'\<rparr>"
    by (auto elim!: bindE split: option.splits)
  have "0 < n" if "g = Add n" for n using assms(2) g(1) that by (auto simp: system_inv_def)
  then show ?thesis using assms(3) g to_add_done [OF g(2)] Signal_turn
    by (cases g) (auto simp: signal_events_def)
qed (use assms(1,3) in \<open>auto split: if_splits\<close>)

lemma sema_run_inv:
  assumes "sema_run ts y = Some (es, y')" and "system_inv y p" and "list_all proper_turn ts"
  shows "\<exists>p'. permits_after p es = Some p' \<and> system_inv y' p' \<and>
    int p' + to_add (sy_signal y') \<le> int p + to_add (sy_signal y) + signals ts"
  using assms
proof (induction ts arbitrary: y es p)
  case (Cons t ts)
  then obtain es1 y1 es2 where 1: "system_turn t y = Some (es1, y1)" "sema_run ts y1 = Some (es2, y')" "es = es1 @ es2"
    by (auto elim!: bindE)
  from system_turn_inv [OF 1(1) Cons.prems(2)] Cons.prems(3)
  obtain p1 where p1: "permits_after p es1 = Some p1" "system_inv y1 p1" by auto
  from Cons.IH [OF 1(2) p1(2)] Cons.prems(3) obtain p' where p': "permits_after p1 es2 = Some p'" "system_inv y' p'"
    "int p' + to_add (sy_signal y') \<le> int p1 + to_add (sy_signal y1) + signals ts" by auto
  with system_turn_bound [OF 1(1) Cons.prems(2) p1(1)] show ?case
    by (simp add: 1(3) permits_after_append p1(1))
qed simp

lemma sema_start_inv:
  "sema_start c = Some y \<Longrightarrow> system_inv y (nat c) \<and> int (nat c) = c \<and> to_add (sy_signal y) = 0"
  by (auto simp: sema_start_def system_inv_def LightweightSemaphore_def dest: sema_inv_start [rotated]
      intro!: sema_inv_start split: if_splits)

text \<open>In a run of less than 2^63 permits the counter never wraps.\<close>

lemma sema_run_counts:
  assumes "sema_start c = Some y" and "list_all proper_turn ts" and "c + signals ts < 2 ^ 63"
    and "sema_run ts y = Some (es, y')"
  obtains p where "permits_after (nat c) es = Some p" "system_inv y' p"
    "- 1 \<le> ls_count (sy_sema y')" "ls_count (sy_sema y') < 2 ^ 63"
proof -
  note start = sema_start_inv [OF assms(1)]
  obtain p where p: "permits_after (nat c) es = Some p" "system_inv y' p"
    "int p + to_add (sy_signal y') \<le> int (nat c) + to_add (sy_signal y) + signals ts"
    using sema_run_inv [OF assms(4) conjunct1 [OF start] assms(2)] by blast
  have "0 \<le> to_add (sy_signal y')"
    using p(2) by (cases "sy_signal y'" rule: to_add.cases) (auto simp: system_inv_def)
  with p(2,3) start assms(3) have "- 1 \<le> ls_count (sy_sema y')" "ls_count (sy_sema y') < 2 ^ 63"
    by (auto simp: system_inv_def dest!: sema_inv_range)
  with p(1,2) show thesis by (rule that)
qed

text \<open>
  C37: For a thread that only signals positive counts, and while the permits given out in all are less
  than 2^63: however the turns of the two threads are interleaved, and however often the kernel calls
  are interrupted, fail or time out, the semaphore behaves as a counter. A wait succeeds only with a
  permit, which it takes, and fails only at a moment when there is none; no assertion of a signal
  fails; and the counter stays between -1 and 2^63 - 1, so the machine word never wraps.
\<close>

theorem semaphore_counts:
  assumes "sema_start c = Some y" and "list_all proper_turn ts" and "c + signals ts < 2 ^ 63"
    and "sema_run ts y = Some (es, y')"
  shows "(\<exists>p. permits_after (nat c) es = Some p) \<and>
    (\<forall>posted. sy_signal y' \<noteq> None \<longrightarrow> system_turn (Signal_turn posted) y' \<noteq> None) \<and>
    - 1 \<le> ls_count (sy_sema y') \<and> ls_count (sy_sema y') < 2 ^ 63"
proof -
  obtain p where p: "permits_after (nat c) es = Some p" "system_inv y' p"
    "- 1 \<le> ls_count (sy_sema y')" "ls_count (sy_sema y') < 2 ^ 63"
    by (rule sema_run_counts [OF assms])
  have "system_turn (Signal_turn posted) y' \<noteq> None" if "sy_signal y' \<noteq> None" for posted
  proof -
    from that obtain g where g: "sy_signal y' = Some g" by auto
    with signal_turn_ok(1) [OF p(2) g, of posted] show ?thesis by auto
  qed
  with p show ?thesis by blast
qed

text \<open>
  The waiting thread goes to sleep, is signalled on its way, times out all the same and finds the
  permit.
\<close>

definition demo_turns :: "sema_turn list" where
  "demo_turns = [Call (Wait 5)] @ replicate 1026 (Wait_turn Failed) @
     [Signal 1, Signal_turn False, Wait_turn Interrupted, Wait_turn Failed, Wait_turn Failed,
      Wait_turn Failed, Wait_turn Failed, Signal_turn True, Wait_turn Failed, Wait_turn Failed,
      Wait_turn Acquired]"

lemma demo_turns_run:
  "map_option fst (Option.bind (sema_start 0) (sema_run demo_turns)) = Some [Added 1, Granted]"
  by code_simp

theorem semaphore_counts_witness:
  "\<exists>y y'. sema_start 0 = Some y \<and> sema_run demo_turns y = Some ([Added 1, Granted], y') \<and>
     permits_after 0 [Added 1, Granted] \<noteq> None"
proof -
  obtain y where y: "sema_start 0 = Some y" by (auto simp: sema_start_def LightweightSemaphore_def)
  with demo_turns_run obtain y' where run: "sema_run demo_turns y = Some ([Added 1, Granted], y')" by auto
  have "list_all proper_turn demo_turns" by (simp add: demo_turns_def proper_turn_def list_all_iff)
  moreover have "0 + signals demo_turns < 2 ^ 63" by (simp add: demo_turns_def signals_def sum_list_replicate)
  ultimately show ?thesis using semaphore_counts [OF y _ _ run] y run by fastforce
qed

section \<open>A wait ends\<close>

definition decides :: "nat \<Rightarrow> sema_turn \<Rightarrow> sema_event \<Rightarrow> sema_system \<Rightarrow> bool" where
  "decides k t ev y \<longleftrightarrow> (\<exists>j\<le>k. \<exists>y'. sema_run (replicate j t) y = Some ([ev], y'))"

lemma decides_now: "system_turn t y = Some ([ev], y') \<Longrightarrow> decides (Suc k) t ev y"
  by (auto simp: decides_def intro!: exI [of _ "Suc 0"])

lemma decides_step:
  assumes "system_turn t y = Some ([], y')" and "decides k t ev y'"
  shows "decides (Suc k) t ev y"
proof -
  from assms(2) obtain j y'' where "j \<le> k" "sema_run (replicate j t) y' = Some ([ev], y'')" by (auto simp: decides_def)
  then show ?thesis using assms(1) by (auto simp: decides_def intro!: exI [of _ "Suc j"])
qed

lemma decides_mono: "decides k t ev y \<Longrightarrow> k \<le> n \<Longrightarrow> decides n t ev y"
  by (auto simp: decides_def) (meson le_trans)

lemmas turn_defs = wait_events_def wait_done_def fetch_add_def kernel_turn_def Semaphore_wait_def
  Semaphore_try_wait_def Let_def

lemma wait_granted:
  assumes "sema_inv s (Some pc) None p" and "0 < p"
  shows "decides 3 (Wait_turn Acquired) Granted \<lparr>sy_sema = s, sy_wait = Some (c, pc), sy_signal = None\<rparr>"
proof -
  let ?y = "\<lambda>s pc. \<lparr>sy_sema = s, sy_wait = Some (c, pc), sy_signal = None\<rparr>"
  let ?d = "\<lambda>k s pc. decides k (Wait_turn Acquired) Granted (?y s pc)"
  note i = assms [unfolded sema_inv_def]
  have take: "?d (Suc 0) s Entry_take" "?d (Suc 0) s Spin_take" for s
    by (rule decides_now, simp add: turn_defs)+
  have try': "?d (Suc 0) s Try" if "ls_sema s = Suc 0" for s :: light_sema
    by (rule decides_now) (simp add: turn_defs that)
  have retake: "?d (Suc (Suc 0)) s Retake" if "ls_sema s = Suc 0" "0 < ls_count s" for s :: light_sema
    by (rule decides_step [OF _ try']) (simp add: turn_defs that)+
  have "?d 3 s pc"
  proof (cases pc)
    case Entry
    have "?d (Suc (Suc 0)) s pc"
      by (rule decides_step [OF _ take(1)]) (use i in \<open>simp add: Entry turn_defs\<close>)
    then show ?thesis by (rule decides_mono) simp
  next
    case (Spin n)
    show ?thesis
    proof (cases "n = 0")
      case True
      have "?d (Suc 2) s pc" by (rule decides_now) (use i in \<open>simp add: Spin True turn_defs\<close>)
      then show ?thesis by (simp add: numeral_3_eq_3)
    next
      case False
      have "?d (Suc (Suc 0)) s pc"
        by (rule decides_step [OF _ take(2)]) (use i in \<open>simp add: Spin False turn_defs\<close>)
      then show ?thesis by (rule decides_mono) simp
    qed
  next
    case Kernel
    have "?d (Suc 2) s pc" by (rule decides_now) (use i in \<open>simp add: Kernel turn_defs\<close>)
    then show ?thesis by (simp add: numeral_3_eq_3)
  next
    case Restore
    have "?d (Suc (Suc (Suc 0))) s pc"
      by (rule decides_step [OF _ retake]) (use i in \<open>simp add: Restore turn_defs\<close>)+
    then show ?thesis by (simp add: numeral_3_eq_3)
  next
    case Retake
    have "?d (Suc (Suc 0)) s Retake" by (rule retake) (use i in \<open>simp_all add: Retake\<close>)
    then show ?thesis unfolding Retake by (rule decides_mono) simp
  next
    case Try
    have "?d (Suc 0) s Try" by (rule try') (use i in \<open>simp add: Try\<close>)
    then show ?thesis unfolding Try by (rule decides_mono) simp
  next
    case (Returned b)
    then show ?thesis using i by auto
  qed (use take [of s] in \<open>auto elim: decides_mono\<close>)
  then show ?thesis .
qed

lemma wait_denied:
  assumes "sema_inv s (Some pc) None 0"
  shows "decides 1028 (Wait_turn Failed) Denied \<lparr>sy_sema = s, sy_wait = Some (c, pc), sy_signal = None\<rparr>"
proof -
  let ?y = "\<lambda>s pc. \<lparr>sy_sema = s, sy_wait = Some (c, pc), sy_signal = None\<rparr>"
  let ?d = "\<lambda>k s pc. decides k (Wait_turn Failed) Denied (?y s pc)"
  have restore: "?d (Suc 0) s Restore" if "ls_count s = - 1" for s :: light_sema
    by (rule decides_now) (simp add: turn_defs that)
  have kernel: "?d (Suc (Suc 0)) s Kernel" if "ls_count s = - 1" for s :: light_sema
    by (rule decides_step [OF _ restore]) (simp add: turn_defs that)+
  have spin: "?d (n + 3) s (Spin n)" if "ls_count s = 0" for n s
  proof (induction n)
    case 0
    show ?case
    proof (cases "wait_timeout c = 0")
      case True
      have "?d (Suc (Suc 0)) s (Spin 0)"
        by (rule decides_step [OF _ restore]) (simp add: turn_defs that True)+
      then show ?thesis by (rule decides_mono) simp
    next
      case False
      have "?d (Suc (Suc (Suc 0))) s (Spin 0)"
        by (rule decides_step [OF _ kernel]) (simp add: turn_defs that False)+
      then show ?thesis by (simp add: numeral_3_eq_3)
    qed
  next
    case (Suc n)
    have "?d (Suc (n + 3)) s (Spin (Suc n))"
      by (rule decides_step [OF _ Suc]) (simp add: turn_defs that)
    then show ?case by simp
  qed
  note i = assms(1) [unfolded sema_inv_def]
  show ?thesis
  proof (cases pc)
    case Entry
    then have 0: "ls_count s = 0" using i by simp
    show ?thesis
    proof (cases c)
      case TryWait
      have "?d (Suc 1027) s pc" by (rule decides_now) (simp add: Entry TryWait turn_defs 0)
      then show ?thesis by simp
    next
      case (Wait t)
      have "?d (Suc (spins + 3)) s pc"
        by (rule decides_step [OF _ spin [OF 0]]) (simp add: Entry Wait turn_defs 0)
      then show ?thesis by (simp add: spins_def)
    qed
  next
    case (Spin n)
    have "?d (n + 3) s pc" unfolding Spin by (rule spin) (use i Spin in simp)
    then show ?thesis by (rule decides_mono) (use i Spin in \<open>simp add: spins_def\<close>)
  next
    case Kernel
    have "?d (Suc (Suc 0)) s pc" unfolding Kernel by (rule kernel) (use i Kernel in simp)
    then show ?thesis by (rule decides_mono) simp
  next
    case Restore
    have "?d (Suc 0) s pc" unfolding Restore by (rule restore) (use i Restore in simp)
    then show ?thesis by (rule decides_mono) simp
  qed (use i in auto)
qed

text \<open>
  C38: No wake-up is lost and no wait hangs, for a thread that only signals positive counts and while
  the permits given out in all are less than 2^63: once no signal is under way, the waiting thread,
  wherever the interleaving left it, returns successfully within three more accesses of its own when
  there is a permit (a kernel call it still makes acquires the semaphore, which is posted by then);
  when there is none and the kernel calls time out, it fails within 1028.
\<close>

theorem semaphore_wait_ends:
  assumes "sema_start c = Some y" and "list_all proper_turn ts" and "c + signals ts < 2 ^ 63"
    and "sema_run ts y = Some (es, y')" and "sy_wait y' \<noteq> None" and "sy_signal y' = None"
    and "permits_after (nat c) es = Some p"
  shows "(0 < p \<longrightarrow> (\<exists>k\<le>3. \<exists>y''. sema_run (replicate k (Wait_turn Acquired)) y' = Some ([Granted], y''))) \<and>
    (p = 0 \<longrightarrow> (\<exists>k\<le>1028. \<exists>y''. sema_run (replicate k (Wait_turn Failed)) y' = Some ([Denied], y'')))"
proof -
  from assms(5) obtain call pc where w: "sy_wait y' = Some (call, pc)" by auto
  have "system_inv y' p"
    by (rule sema_run_counts [OF assms(1-4)]) (use assms(7) in simp)
  then have inv: "sema_inv (sy_sema y') (Some pc) None p" using w assms(6) by (simp add: system_inv_def)
  have y': "y' = \<lparr>sy_sema = sy_sema y', sy_wait = Some (call, pc), sy_signal = None\<rparr>"
    using w assms(6) by simp
  show ?thesis
    using wait_granted [OF inv, of call] wait_denied [of "sy_sema y'" pc call] inv y'
    unfolding decides_def by metis
qed

lemma demo_sleep:
  "map_option (\<lambda>(es, y). es = [Added 2] \<and> sy_wait y = Some (Wait 5, Kernel) \<and> sy_signal y = None)
    (Option.bind (sema_start 0) (sema_run ([Call (Wait 5)] @ replicate 1026 (Wait_turn Failed) @
      [Signal 2] @ replicate 3 (Signal_turn True)))) = Some True"
  by code_simp

theorem semaphore_wait_ends_witness:
  "\<exists>y' y'' k. sy_wait y' = Some (Wait 5, Kernel) \<and> sema_run (replicate k (Wait_turn Acquired)) y' = Some ([Granted], y'')"
proof -
  let ?ts = "[Call (Wait 5)] @ replicate 1026 (Wait_turn Failed) @ [Signal 2] @ replicate 3 (Signal_turn True)"
  obtain y where y: "sema_start 0 = Some y" by (auto simp: sema_start_def LightweightSemaphore_def)
  from demo_sleep have "map_option (\<lambda>(es, y). es = [Added 2] \<and> sy_wait y = Some (Wait 5, Kernel) \<and> sy_signal y = None)
    (sema_run ?ts y) = Some True" by (simp only: y bind.bind_lunit)
  then obtain es y' where run: "sema_run ?ts y = Some (es, y')"
    "es = [Added 2] \<and> sy_wait y' = Some (Wait 5, Kernel) \<and> sy_signal y' = None" by (rule run_test)
  have "list_all proper_turn ?ts" by (simp add: proper_turn_def list_all_iff)
  moreover have "0 + signals ?ts < 2 ^ 63" by (simp add: signals_def sum_list_replicate)
  ultimately show ?thesis using semaphore_wait_ends [OF y _ _ run(1)] run(2) by fastforce
qed

section \<open>Deadlines\<close>

text \<open>
  A timed wait asks for the time of the clock plus its timeout, to the nanosecond, as a well-formed
  time whatever the timeout is.
\<close>

theorem timed_wait_deadline:
  assumes "0 \<le> nsec" and "nsec < 1000000000" and "timed_wait_until usecs (sec, nsec) = (sec', nsec')"
  shows "sec' * 1000000000 + nsec' = sec * 1000000000 + nsec + uint usecs * 1000 \<and>
    0 \<le> nsec' \<and> nsec' < 1000000000 \<and> sec \<le> sec'"
proof -
  define q r where qr: "q = uint usecs div 1000000" "r = uint usecs mod 1000000"
  have u: "uint usecs = 1000000 * q + r" "0 \<le> q" "0 \<le> r" "r < 1000000"
    by (simp_all add: qr pos_imp_zdiv_nonneg_iff)
  have "timed_wait_until usecs (sec, nsec) =
      (if 1000000000 \<le> nsec + r * 1000 then (sec + q + 1, nsec + r * 1000 - 1000000000) else (sec + q, nsec + r * 1000))"
    by (simp add: timed_wait_until_def qr Let_def)
  with assms u show ?thesis by (auto split: if_splits)
qed

theorem timed_wait_deadline_witness:
  "timed_wait_until 2500000 (7, 900000000) = (10, 400000000) \<and> (10::int) * 1000000000 + 400000000 = 7 * 1000000000 + 900000000 + 2500000 * 1000"
proof -
  have run: "timed_wait_until 2500000 (7, 900000000) = (10, 400000000)" by (simp add: timed_wait_until_def)
  from timed_wait_deadline [OF _ _ this] run show ?thesis by simp
qed

end
