(* ===== verification/Blocking_Queue.thy ===== *)
theory Blocking_Queue
  imports Light_Semaphore Queue_Lifetime
begin

text \<open>
  \<open>BlockingReaderWriterQueue\<close> of \<^verbatim>\<open>external/readerwriterqueue.h\<close>: the queue with a semaphore that
  counts its elements. The producer enters an element and then signals, the consumer waits and then
  takes; the turns of both are interleaved as for the semaphore, an operation of the inner queue is
  one turn. An assertion that fails is \<open>None\<close>.
\<close>

section \<open>The two threads\<close>

text \<open>
  The operations of the consumer; the timeout is in microseconds. \<open>Taking\<close> is behind a wait that
  succeeded. A producer that has an element in the inner queue is at a point of its signal.
\<close>

datatype dequeue_op = Try_dequeue | Wait_dequeue | Wait_dequeue_timed int | Pop

datatype consumer = Idle | Waiting dequeue_op wait_pc | Taking dequeue_op

record 'a BlockingReaderWriterQueue =
  bq_inner :: "'a ReaderWriterQueue"
  bq_sema :: light_sema

record 'a bq_threads = "'a BlockingReaderWriterQueue" +
  bq_consumer :: consumer
  bq_producer :: "('a \<times> signal_pc) option"

definition BlockingReaderWriterQueue_new :: "u64 \<Rightarrow> 'a bq_threads option" where
  "BlockingReaderWriterQueue_new sz = map_option (\<lambda>s. \<lparr>bq_inner = ReaderWriterQueue_new sz, bq_sema = s,
     bq_consumer = Idle, bq_producer = None\<rparr>) (LightweightSemaphore 0)"

fun sema_call :: "dequeue_op \<Rightarrow> wait_call" where
  "sema_call Try_dequeue = TryWait"
| "sema_call Wait_dequeue = Wait (- 1)"
| "sema_call (Wait_dequeue_timed timeout_usecs) = Wait timeout_usecs"
| "sema_call Pop = TryWait"

text \<open>What a thread has done: put an element where the consumer may see it, taken or dropped one.\<close>

datatype 'a bq_event = Put 'a | Full 'a | Took 'a | Dropped | Nothing

definition bq_enqueue ::
    "bool \<Rightarrow> bool \<Rightarrow> 'a \<Rightarrow> 'a bq_threads \<Rightarrow> ('a bq_event list \<times> 'a bq_threads) option" where
  "bq_enqueue canAlloc malloc_ok x y = do {
     (ok, q) \<leftarrow> inner_enqueue canAlloc malloc_ok x (bq_inner y);
     Some (if ok then ([], y\<lparr>bq_inner := q, bq_producer := Some (x, Add 1)\<rparr>)
           else ([Full x], y\<lparr>bq_inner := q\<rparr>)) }"

text \<open>Where a wait leads: \<open>while (!sema->wait());\<close> starts again, the others give up.\<close>

definition after_sema :: "dequeue_op \<Rightarrow> wait_pc \<Rightarrow> 'a bq_event list \<times> consumer" where
  "after_sema op pc = (case pc of
     Returned True \<Rightarrow> ([], Taking op)
   | Returned False \<Rightarrow> if op = Wait_dequeue then ([], Waiting op Entry) else ([Nothing], Idle)
   | _ \<Rightarrow> ([], Waiting op pc))"

definition bq_take :: "dequeue_op \<Rightarrow> 'a bq_threads \<Rightarrow> ('a bq_event list \<times> 'a bq_threads) option" where
  "bq_take op y = (
     if op = Pop then do {
       (ok, q) \<leftarrow> pop (bq_inner y);
       if ok then Some ([Dropped], y\<lparr>bq_inner := q, bq_consumer := Idle\<rparr>) else None }
     else do {
       (r, q) \<leftarrow> try_dequeue (bq_inner y);
       (case r of None \<Rightarrow> None | Some x \<Rightarrow> Some ([Took x], y\<lparr>bq_inner := q, bq_consumer := Idle\<rparr>)) })"

datatype 'a bq_turn = Enqueue bool bool 'a | Producer bool | Dequeue dequeue_op | Consumer sem_reply

text \<open>
  \<open>None\<close> for a turn of a thread that is idle, or busy with another operation, or waits in the kernel,
  and for a failed assertion.
\<close>

fun bq_step :: "'a bq_turn \<Rightarrow> 'a bq_threads \<Rightarrow> ('a bq_event list \<times> 'a bq_threads) option" where
  "bq_step (Enqueue canAlloc malloc_ok x) y =
     (if bq_producer y \<noteq> None then None else bq_enqueue canAlloc malloc_ok x y)"
| "bq_step (Producer posted) y = (case bq_producer y of
     None \<Rightarrow> None
   | Some (x, g) \<Rightarrow> do {
       (g', s) \<leftarrow> signal_turn posted g (bq_sema y);
       Some (case g of Add _ \<Rightarrow> [Put x] | _ \<Rightarrow> [],
         y\<lparr>bq_sema := s, bq_producer := map_option (Pair x) (unless_done g')\<rparr>) })"
| "bq_step (Dequeue op) y =
     (if bq_consumer y \<noteq> Idle then None else Some ([], y\<lparr>bq_consumer := Waiting op Entry\<rparr>))"
| "bq_step (Consumer reply) y = (case bq_consumer y of
     Idle \<Rightarrow> None
   | Taking op \<Rightarrow> bq_take op y
   | Waiting op pc \<Rightarrow> do {
       (pc, s) \<leftarrow> wait_turn (sema_call op) reply pc (bq_sema y);
       case after_sema op pc of (es, c) \<Rightarrow> Some (es, y\<lparr>bq_sema := s, bq_consumer := c\<rparr>) })"

fun bq_run :: "'a bq_turn list \<Rightarrow> 'a bq_threads \<Rightarrow> ('a bq_event list \<times> 'a bq_threads) option" where
  "bq_run [] y = Some ([], y)"
| "bq_run (t # ts) y = do {
     (es, y) \<leftarrow> bq_step t y;
     (es', y) \<leftarrow> bq_run ts y;
     Some (es @ es', y) }"

definition bq_size_approx :: "'a bq_threads \<Rightarrow> nat" where
  "bq_size_approx y = availableApprox (bq_sema y)"

definition bq_peek :: "'a bq_threads \<Rightarrow> ('a option \<times> 'a bq_threads) option" where
  "bq_peek y = do {
     (r, q) \<leftarrow> peek (bq_inner y);
     Some (r, y\<lparr>bq_inner := q\<rparr>) }"

definition bq_max_capacity :: "'a bq_threads \<Rightarrow> u64 option" where
  "bq_max_capacity y = max_capacity (bq_inner y)"

text \<open>
  Moving takes the semaphore away: the other queue is left with a fresh inner queue and a null
  pointer, \<open>None\<close>. Move assignment swaps.
\<close>

definition bq_move ::
    "bool \<Rightarrow> 'a BlockingReaderWriterQueue \<Rightarrow>
     ('a BlockingReaderWriterQueue \<times> 'a ReaderWriterQueue \<times> light_sema option) option" where
  "bq_move malloc_ok other = do {
     (q, q') \<leftarrow> ReaderWriterQueue_move malloc_ok (bq_inner other);
     Some (\<lparr>bq_inner = q, bq_sema = bq_sema other\<rparr>, q', None) }"

definition bq_swap ::
    "'a BlockingReaderWriterQueue \<Rightarrow> 'a BlockingReaderWriterQueue \<Rightarrow>
     'a BlockingReaderWriterQueue \<times> 'a BlockingReaderWriterQueue" where
  "bq_swap this other = (
     let (sema, sema') = (bq_sema other, bq_sema this);
         (inner, inner') = ReaderWriterQueue_swap (bq_inner this) (bq_inner other)
     in (\<lparr>bq_inner = inner, bq_sema = sema\<rparr>, \<lparr>bq_inner = inner', bq_sema = sema'\<rparr>))"

section \<open>The list they implement\<close>

fun list_after :: "'a list \<Rightarrow> 'a bq_event list \<Rightarrow> 'a list option" where
  "list_after xs [] = Some xs"
| "list_after xs (Put x # es) = list_after (xs @ [x]) es"
| "list_after xs (Full x # es) = list_after xs es"
| "list_after xs (Took x # es) = (if xs \<noteq> [] \<and> x = hd xs then list_after (tl xs) es else None)"
| "list_after xs (Dropped # es) = (if xs \<noteq> [] then list_after (tl xs) es else None)"
| "list_after xs (Nothing # es) = (if xs = [] then list_after xs es else None)"

lemma list_after_append:
  "list_after xs (es @ es') = Option.bind (list_after xs es) (\<lambda>xs. list_after xs es')"
  by (induction xs es rule: list_after.induct) auto

section \<open>The invariant\<close>

text \<open>
  \<open>xs\<close> is what the consumer may take. An element whose signal has not begun is in the inner queue
  behind it; a permit that the consumer has is for the first element.
\<close>

definition unsignalled :: "'a bq_threads \<Rightarrow> 'a list" where
  "unsignalled y = (case bq_producer y of Some (x, Add _) \<Rightarrow> [x] | _ \<Rightarrow> [])"

definition waiting_at :: "'a bq_threads \<Rightarrow> wait_pc option" where
  "waiting_at y = (case bq_consumer y of Waiting op pc \<Rightarrow> Some pc | _ \<Rightarrow> None)"

definition granted :: "'a bq_threads \<Rightarrow> nat" where
  "granted y = (case bq_consumer y of Taking op \<Rightarrow> 1 | _ \<Rightarrow> 0)"

definition bq_inv :: "'a bq_threads \<Rightarrow> 'a list \<Rightarrow> bool" where
  "bq_inv y xs \<longleftrightarrow> queue_ok (bq_inner y) (xs @ unsignalled y) \<and> granted y \<le> length xs \<and>
     sema_inv (bq_sema y) (waiting_at y) (map_option snd (bq_producer y)) (length xs - granted y) \<and>
     (\<forall>x n. bq_producer y = Some (x, Add n) \<longrightarrow> n = 1) \<and> (\<forall>x. bq_producer y \<noteq> Some (x, Signalled))"

lemmas bq_parts = unsignalled_def waiting_at_def granted_def

lemma bq_inv_new:
  assumes "BlockingReaderWriterQueue_new sz = Some y" and "0 < unat sz" and "unat sz < 2 ^ 63"
  shows "bq_inv y []"
proof -
  obtain s where s: "LightweightSemaphore 0 = Some s" "y = \<lparr>bq_inner = ReaderWriterQueue_new sz, bq_sema = s,
     bq_consumer = Idle, bq_producer = None\<rparr>"
    using assms(1) by (auto simp: BlockingReaderWriterQueue_new_def)
  from sema_inv_start [OF s(1)] ReaderWriterQueue_new_ok [OF assms(2,3)] show ?thesis
    by (simp add: bq_inv_def bq_parts s(2))
qed

lemma bq_enqueue_inv:
  assumes "bq_enqueue canAlloc malloc_ok x y = Some (es, y')" and "bq_inv y xs" and "bq_producer y = None"
  shows "\<exists>ys. list_after xs es = Some ys \<and> bq_inv y' ys"
proof -
  have q: "queue_ok (bq_inner y) xs" using assms(2,3) by (simp add: bq_inv_def unsignalled_def)
  from assms(1) obtain ok q' where r: "inner_enqueue canAlloc malloc_ok x (bq_inner y) = Some (ok, q')"
    "(es, y') = (if ok then ([], y\<lparr>bq_inner := q', bq_producer := Some (x, Add 1)\<rparr>) else ([Full x], y\<lparr>bq_inner := q'\<rparr>))"
    by (auto simp: bq_enqueue_def elim!: bindE)
  have "queue_ok q' (if ok then xs @ [x] else xs)"
    using inner_enqueue_spec [OF q, of x canAlloc malloc_ok] r(1) by (auto simp: enqueue_spec_def)
  then show ?thesis using r(2) assms(2,3) sema_inv_signal
    by (auto simp: bq_inv_def bq_parts split: if_splits)
qed

lemma bq_producer_inv:
  assumes "bq_step (Producer posted) y = Some (es, y')" and "bq_inv y xs"
  shows "\<exists>ys. list_after xs es = Some ys \<and> bq_inv y' ys"
proof -
  from assms(1) obtain x g g' s where g: "bq_producer y = Some (x, g)" "signal_turn posted g (bq_sema y) = Some (g', s)"
    "es = (case g of Add _ \<Rightarrow> [Put x] | _ \<Rightarrow> [])"
    "y' = y\<lparr>bq_sema := s, bq_producer := map_option (Pair x) (unless_done g')\<rparr>"
    by (auto elim!: bindE split: option.splits)
  note i = assms(2) [unfolded bq_inv_def]
  have fresh: "unless_done g' \<noteq> Some (Add n)" "unless_done g' \<noteq> Some Signalled" for n
    using g(2) by (cases g; auto simp: unless_done_def fetch_add_def Let_def split: if_splits)+
  have none: "unsignalled y' = []"
    using fresh(1) by (cases "unless_done g'") (auto simp: unsignalled_def g(4) split: signal_pc.splits)
  have same: "waiting_at y' = waiting_at y" "granted y' = granted y" "bq_inner y' = bq_inner y"
    "map_option snd (bq_producer y') = unless_done g'"
    by (simp_all add: waiting_at_def granted_def g(4) option.map_comp comp_def option.map_ident)
  show ?thesis
  proof (cases g)
    case (Add n)
    then have n: "n = 1" using i g(1) by blast
    then have inv: "sema_inv (bq_sema y) (waiting_at y) (Some (Add 1)) (length xs - granted y)"
      using i g(1) Add n by auto
    from signal_turn_add [OF inv, of posted] g(2) Add n
    have "sema_inv s (waiting_at y) (unless_done g') (length xs - granted y + 1)" by auto
    then have "bq_inv y' (xs @ [x])"
      using i none same g fresh Add by (auto simp: bq_inv_def unsignalled_def Suc_diff_le)
    then show ?thesis by (simp add: g(3) Add)
  next
    case (Post k)
    then have inv: "sema_inv (bq_sema y) (waiting_at y) (Some (Post k)) (length xs - granted y)"
      using i g(1) by simp
    from signal_turn_post [OF inv, of posted] g(2) Post
    have "sema_inv s (waiting_at y) (unless_done g') (length xs - granted y)" by auto
    then have "bq_inv y' xs"
      using i none same g fresh Post by (auto simp: bq_inv_def unsignalled_def)
    then show ?thesis by (simp add: g(3) Post)
  next
    case Signalled
    then show ?thesis using g(2) by simp
  qed
qed

lemma bq_take_inv:
  assumes "bq_inv y xs" and "bq_consumer y = Taking op"
  shows "\<exists>es y' ys. bq_take op y = Some (es, y') \<and> list_after xs es = Some ys \<and> bq_inv y' ys"
proof -
  note i = assms(1) [unfolded bq_inv_def]
  have g: "granted y = 1" "waiting_at y = None" using assms(2) by (simp_all add: bq_parts)
  then obtain x ys where xs: "xs = x # ys" using i by (cases xs) auto
  from try_dequeue_spec [of "bq_inner y" "xs @ unsignalled y"] i
  obtain q where q: "try_dequeue (bq_inner y) = Some (Some x, q)" "queue_ok q (ys @ unsignalled y)"
    by (auto simp: xs dequeue_spec_def)
  let ?y = "y\<lparr>bq_inner := q, bq_consumer := Idle\<rparr>"
  have "bq_inv ?y ys" using i g xs q(2) by (auto simp: bq_inv_def bq_parts)
  moreover have "bq_take op y = Some (if op = Pop then [Dropped] else [Took x], ?y)"
    using q(1) by (auto simp: bq_take_def pop_def)
  ultimately show ?thesis by (auto simp: xs)
qed

lemma bq_consumer_inv:
  assumes "bq_step (Consumer reply) y = Some (es, y')" and "bq_inv y xs"
  shows "\<exists>ys. list_after xs es = Some ys \<and> bq_inv y' ys"
proof (cases "bq_consumer y")
  case Idle
  then show ?thesis using assms(1) by simp
next
  case (Taking op)
  then show ?thesis using assms(1) bq_take_inv [OF assms(2) Taking] by auto
next
  case (Waiting op pc)
  note i = assms(2) [unfolded bq_inv_def]
  have g: "granted y = 0" "waiting_at y = Some pc" using Waiting by (simp_all add: bq_parts)
  from assms(1) Waiting obtain pc' s c where w: "wait_turn (sema_call op) reply pc (bq_sema y) = Some (pc', s)"
    "after_sema op pc' = (es, c)" "y' = y\<lparr>bq_sema := s, bq_consumer := c\<rparr>"
    by (auto elim!: bindE split: prod.splits)
  have "sema_inv (bq_sema y) (Some pc) (map_option snd (bq_producer y)) (length xs)" using i g by simp
  from wait_turn_inv [OF this w(1)] have a: "after_wait s pc' (map_option snd (bq_producer y)) (length xs)" .
  have same: "unsignalled y' = unsignalled y" by (simp add: unsignalled_def w(3))
  show ?thesis
  proof (cases "\<exists>b. pc' = Returned b")
    case False
    then have "es = []" "c = Waiting op pc'" "sema_inv s (Some pc') (map_option snd (bq_producer y)) (length xs)"
      using w(2) a by (auto simp: after_sema_def after_wait_def split: wait_pc.splits)
    then show ?thesis using i same w(3) by (simp add: bq_inv_def waiting_at_def granted_def)
  next
    case True
    then obtain b where b: "pc' = Returned b" by blast
    show ?thesis
    proof (cases b)
      case True
      then have "es = []" "c = Taking op" "0 < length xs" "sema_inv s None (map_option snd (bq_producer y)) (length xs - 1)"
        using w(2) a b by (auto simp: after_sema_def after_wait_def)
      then show ?thesis using i same w(3) by (simp add: bq_inv_def waiting_at_def granted_def Suc_le_eq)
    next
      case False
      then have "xs = []" "sema_inv s None (map_option snd (bq_producer y)) 0"
        "es = [] \<and> c = Waiting op Entry \<or> es = [Nothing] \<and> c = Idle"
        using w(2) a b by (auto simp: after_sema_def after_wait_def split: if_splits)
      then show ?thesis using i same w(3) sema_inv_call by (auto simp: bq_inv_def waiting_at_def granted_def)
    qed
  qed
qed

lemma bq_step_inv:
  assumes "bq_step t y = Some (es, y')" and "bq_inv y xs"
  shows "\<exists>ys. list_after xs es = Some ys \<and> bq_inv y' ys"
proof (cases t)
  case (Enqueue canAlloc malloc_ok x)
  then have free: "bq_producer y = None" using assms(1) by (cases "bq_producer y") auto
  then have "bq_enqueue canAlloc malloc_ok x y = Some (es, y')" using Enqueue assms(1) by simp
  then show ?thesis using assms(2) free by (rule bq_enqueue_inv)
next
  case (Producer posted)
  then show ?thesis using assms bq_producer_inv by blast
next
  case (Dequeue op)
  then have "bq_consumer y = Idle" "y' = y\<lparr>bq_consumer := Waiting op Entry\<rparr>" "es = []"
    using assms(1) by (auto split: if_splits)
  then show ?thesis using assms(2) sema_inv_call by (auto simp: bq_inv_def bq_parts)
next
  case (Consumer reply)
  then show ?thesis using assms bq_consumer_inv by blast
qed

lemma bq_run_inv:
  assumes "bq_run ts y = Some (es, y')" and "bq_inv y xs"
  shows "\<exists>ys. list_after xs es = Some ys \<and> bq_inv y' ys"
  using assms
proof (induction ts arbitrary: y es xs)
  case (Cons t ts)
  then obtain es1 y1 es2 where 1: "bq_step t y = Some (es1, y1)" "bq_run ts y1 = Some (es2, y')" "es = es1 @ es2"
    by (auto elim!: bindE)
  from bq_step_inv [OF 1(1) Cons.prems(2)] obtain ys where ys: "list_after xs es1 = Some ys" "bq_inv y1 ys" by blast
  from Cons.IH [OF 1(2) ys(2)] show ?case by (simp add: 1(3) list_after_append ys(1))
qed simp

section \<open>The queue under any interleaving\<close>

text \<open>
  C36: However the producer and the consumer are interleaved, and whatever the waits do, the blocking
  queue behaves as a list: elements come out once, in the order in which they were put in, and an
  operation that gives up saw no element. The assertion that an element is there after a successful
  wait never fails, nor does that of a signal, and while both threads are idle the size is exact.
  The counter of the semaphore stays between -1 and the number of elements, so it cannot wrap while
  the queue holds less than 2^63.
\<close>

theorem blocking_queue_fifo:
  assumes "BlockingReaderWriterQueue_new sz = Some y" and "0 < unat sz" and "unat sz < 2 ^ 63"
    and "bq_run ts y = Some (es, y')"
  shows "\<exists>xs. list_after [] es = Some xs \<and>
    (\<forall>op reply. bq_consumer y' = Taking op \<longrightarrow> bq_step (Consumer reply) y' \<noteq> None) \<and>
    (\<forall>posted. bq_producer y' \<noteq> None \<longrightarrow> bq_step (Producer posted) y' \<noteq> None) \<and>
    (bq_consumer y' = Idle \<and> bq_producer y' = None \<longrightarrow> bq_size_approx y' = length xs) \<and>
    - 1 \<le> ls_count (bq_sema y') \<and> ls_count (bq_sema y') \<le> int (length xs)"
proof -
  from bq_run_inv [OF assms(4) bq_inv_new [OF assms(1-3)]]
  obtain xs where xs: "list_after [] es = Some xs" "bq_inv y' xs" by blast
  note i = xs(2) [unfolded bq_inv_def]
  have take: "bq_step (Consumer reply) y' \<noteq> None" if "bq_consumer y' = Taking op" for op reply
    using bq_take_inv [OF xs(2) that] that by auto
  have signal: "bq_step (Producer posted) y' \<noteq> None" if p: "bq_producer y' \<noteq> None" for posted
  proof -
    from p obtain x g where g: "bq_producer y' = Some (x, g)" by auto
    let ?inv = "\<lambda>g. sema_inv (bq_sema y') (waiting_at y') (Some g) (length xs - granted y')"
    have "?inv g" using i g by simp
    moreover have "g \<noteq> Signalled" "\<And>n. g = Add n \<Longrightarrow> n = 1" using i g by auto
    ultimately have "\<exists>g' s. signal_turn posted g (bq_sema y') = Some (g', s)"
      using signal_turn_add [of "bq_sema y'" "waiting_at y'" 1 "length xs - granted y'" posted]
        signal_turn_post [of "bq_sema y'" "waiting_at y'" _ "length xs - granted y'" posted]
      by (cases g) fastforce+
    then show ?thesis using g by auto
  qed
  have exact: "bq_size_approx y' = length xs" if "bq_consumer y' = Idle \<and> bq_producer y' = None"
    using i that by (auto simp: bq_size_approx_def availableApprox_def sema_inv_def bq_parts)
  have "\<forall>op reply. bq_consumer y' = Taking op \<longrightarrow> bq_step (Consumer reply) y' \<noteq> None"
    by (intro allI impI take)
  moreover have "\<forall>posted. bq_producer y' \<noteq> None \<longrightarrow> bq_step (Producer posted) y' \<noteq> None"
    by (intro allI impI signal)
  moreover have "- 1 \<le> ls_count (bq_sema y')" "ls_count (bq_sema y') \<le> int (length xs)"
    using i by (auto dest!: sema_inv_range)
  ultimately show ?thesis using exact xs(1) by (intro exI [of _ xs] conjI) (assumption | rule impI)+
qed

text \<open>
  The consumer asks before the signal and finds nothing, asks again and waits while the second
  element is put in, then takes the first.
\<close>

definition demo_bq_turns :: "nat bq_turn list" where
  "demo_bq_turns = [Enqueue False False 7, Dequeue Try_dequeue, Consumer Failed, Producer True, Dequeue Wait_dequeue,
     Consumer Failed, Enqueue True True 8, Producer True, Consumer Failed, Consumer Failed, Dequeue Pop,
     Consumer Failed, Consumer Failed, Consumer Failed]"

lemma demo_bq_run:
  "map_option fst (Option.bind (BlockingReaderWriterQueue_new 3) (bq_run demo_bq_turns)) =
     Some [Nothing, Put 7, Put 8, Took 7, Dropped]"
  by code_simp

theorem blocking_queue_fifo_witness:
  "\<exists>y y'. BlockingReaderWriterQueue_new 3 = Some y \<and>
     bq_run demo_bq_turns y = Some ([Nothing, Put 7, Put 8, Took 7, Dropped], y') \<and>
     list_after [] [Nothing, Put (7 :: nat), Put 8, Took 7, Dropped] \<noteq> None"
proof -
  obtain y :: "nat bq_threads" where y: "BlockingReaderWriterQueue_new 3 = Some y"
    by (auto simp: BlockingReaderWriterQueue_new_def LightweightSemaphore_def)
  with demo_bq_run obtain y' where run: "bq_run demo_bq_turns y = Some ([Nothing, Put 7, Put 8, Took 7, Dropped], y')"
    by auto
  from blocking_queue_fifo [OF y _ _ run] obtain xs where "list_after [] [Nothing, Put (7 :: nat), Put 8, Took 7, Dropped] = Some xs"
    by auto
  with y run show ?thesis by blast
qed

end
