(* ===== verification/Spec2Isabelle.thy ===== *)
theory Spec2Isabelle
  imports Kym_Prelude Kym_Status Verbs Ring_Buffer Reverse_Buffer Ring_Protocol Magic_Link Reverse_Link
    Endpoint Endpoint_Setup Magic_Buffer Receive_Queue Acknowledge Conn Write_Sender Write_Variants
    Write_Receiver Write_Waiting Write_Safety Write_Limits Write_Setup Write_Connect Write_Agreement
    Floating Interfaces Bench Bandwidth Bench_Trace Bench_Window Bench_Results Async_Events
    Read_Connection Read_Safety Send_Receive Send_Receive_Safety
    Direct_Write Remote_Memory Read_Exchange Direct_Write_System Direct_Write_Safety
    Write_Atomic Atomic_Free Atomic_Ring
    Buffered_Read Byte_Memory Buffered_Read_Calls Buffered_Read_System Buffered_Read_Safety
    Reader_Writer_Queue Queue_Blocks Queue_Ring Queue_Producer Queue_Capacity Queue_Contract
    Queue_Lifetime Light_Semaphore Semaphore_Runs Blocking_Queue
begin

text \<open>
  KnowYourMemory is a C++ library for messaging over RDMA: an endpoint wraps a queue pair and its
  completion queues, receive queues keep buffers posted, ring buffers place messages in the
  receiver's memory, and write connections send messages through them. This development models
  the library, the write connections of \<^verbatim>\<open>tests/write\<close>, the benchmarks and the queue the shared
  receive queue rests on, and proves what makes them correct.

  \<^bold>\<open>How the code is read.\<close> A class is a record of its fields, a method \<open>C::m\<close> the function \<open>C_m\<close>
  on that record; integers keep their width (\<open>u8\<close>, \<open>u16\<close>, \<open>u32\<close>, \<open>u64\<close> of \<open>Kym_Prelude\<close>), so additions
  wrap where the C++ ones do. \<open>StatusOr\<close> is \<open>status + 'a\<close> (\<open>Kym_Status\<close>, \<^verbatim>\<open>src/error.hpp\<close>). Code that
  is not in the repository, libibverbs, librdmacm and the operating system, is an environment
  (\<open>Verbs\<close>): it records the calls the library makes, with what they returned (\<open>replied\<close>, \<open>given\<close>),
  and holds the replies still to come. A property holds for every sequence of replies, unless
  its statement limits them (that completions still to come are successful, that a poll returns at
  most what was asked for, that loads are from the memory at hand); its text then says so. An operation returns \<open>None\<close> when the replies are
  used up while it still polls, or when the C++ code has no defined behaviour there (a failed
  assertion, a null pointer). A polling loop uses up a reply in every turn, so it is a
  \<open>partial_function\<close> over \<open>option\<close> and needs no fuel; the only fuel is the digit count of \<open>to_string\<close>.

  \<^bold>\<open>Ring buffers.\<close> \<open>Ring_Buffer\<close> (\<^verbatim>\<open>ring_buffer/ring_buffer.{hpp,cpp}\<close>) and \<open>Reverse_Buffer\<close>
  (\<^verbatim>\<open>ring_buffer/reverse_buffer.{hpp,cpp}\<close>) hold both sides of the three buffers. \<open>Ring_Protocol\<close> states
  a link of two sides with messages and heads in transit, its specification by counting bytes,
  and the contracts of the interfaces \<open>RemoteBuffer\<close> and \<open>Buffer\<close> as locales (\<open>remote_contract\<close>,
  \<open>buffer_contract\<close>, \<open>ring_link\<close>), in which refinement, safety and order are proved once.
  \<open>Magic_Link\<close> and \<open>Reverse_Link\<close> interpret them on the code and derive the properties of each
  buffer, with the uses for which they fail. \<open>Magic_Buffer\<close> (\<^verbatim>\<open>ring_buffer/magic_buffer.cpp\<close>) is the
  doubly mapped memory, its acquisition and release.

  \<^bold>\<open>Endpoints and queues.\<close> \<open>Endpoint\<close> is the data path of \<^verbatim>\<open>endpoint.cpp\<close>: posting, polling and the
  batch of receive completions; \<open>Endpoint_Setup\<close> has \<open>Create\<close>, \<open>Connect\<close>, \<open>Dial\<close>, \<open>Listen\<close>, \<open>Accept\<close>
  and the transitions of a native queue pair. \<open>Receive_Queue\<close> (\<^verbatim>\<open>receive_queue.cpp\<close>,
  \<^verbatim>\<open>shared_receive_queue.cpp\<close>) accounts for every buffer: its request was taken by the card, is
  collected, or was in a batch the card refused (\<open>accepted_wrs\<close>, \<open>rq_pending\<close>, \<open>refused_wrs\<close>), which the
  queue does not lend again; this goes through the locale \<open>repost_contract\<close> that both queues fulfil.
  The loop \<open>Run\<close> is given its turns: what the stubs pass on before each and whether it goes on.

  \<^bold>\<open>Write connections.\<close> \<open>Acknowledge\<close> (\<^verbatim>\<open>tests/write/acknowledge.cpp\<close>) carries heads back, \<open>Conn\<close> has the
  regions and the allocator, \<open>Write_Sender\<close>, \<open>Write_Variants\<close> and \<open>Write_Receiver\<close> the four senders and
  receivers of \<^verbatim>\<open>tests/write/write.cpp\<close> and \<^verbatim>\<open>tests/write/reverse.cpp\<close>. \<open>Write_Waiting\<close>, \<open>Write_Safety\<close> and
  \<open>Write_Limits\<close> prove when \<open>Wait\<close> returns, what is written where, how far the acknowledged head lags,
  which frames are accepted and which messages are never sent. What a receiver told its sender is read
  off the recorded calls (\<open>told\<close>) over whole runs (\<open>receiver_run\<close>). \<open>Write_Setup\<close> and \<open>Write_Connect\<close>
  are the exchange of connection details, dialing, accepting and closing; \<open>Write_Agreement\<close> shows
  that a dialed sender and an accepted receiver are the two ends of a link at its start, so that
  the properties of the ring buffers hold for the connection.

  \<^bold>\<open>Other connections.\<close> \<open>Read_Connection\<close> is \<^verbatim>\<open>tests/read/read.cpp\<close>, whose receiver reads the message
  and then sets a byte the sender waits for; \<open>Read_Safety\<close> shows which byte is set, through the table
  of outstanding acknowledgements, and which completions are lost; \<open>Read_Exchange\<close> follows one request
  over the network, from the local variable of the send to what \<open>ReceiveRequest\<close> loads. \<open>Send_Receive\<close> is
  \<^verbatim>\<open>tests/send_recv/send_receive.cpp\<close>, with the listener that receives for all its connections;
  \<open>Send_Receive_Safety\<close> has its reachable states and the way a buffer goes back to its queue.
  \<open>Direct_Write\<close> is \<^verbatim>\<open>tests/direct_write/direct_write.cpp\<close>, whose receiver writes the addresses of its
  free buffers into a table of the sender. \<open>Remote_Memory\<close> gives the recorded calls a meaning on the
  memories of two hosts; \<open>Direct_Write_System\<close> has the step relation of the two sides with the
  writes on their way, and its invariant; \<open>Direct_Write_Safety\<close> shows that messages arrive in order,
  overwrite nothing and keep arriving. There a posted write takes its data along at once and writes
  of one side land in the order they were posted; a side that was given an error stops; messages have
  a length other than 0; and the application calls \<open>Receive\<close> only while it does not hold every buffer,
  without which \<open>held_message_again\<close> gets a held message a second time. \<open>dw_delivery\<close> has the steps of
  the network and of \<open>Receive\<close> alone.
  \<open>Write_Atomic\<close> is \<^verbatim>\<open>tests/write_atomic/write_atomic.cpp\<close>, where many senders reserve places in one
  buffer by remote fetch-and-adds. \<open>Atomic_Free\<close> shows that the head is the first byte not freed, in
  whatever order regions come back; \<open>Atomic_Ring\<close> has the step relation of all senders and the
  receiver, in which nothing overlaps and every message is recovered from 32 bits of immediate data.
  There a stream stays below \<open>2^64 - 2^33\<close> bytes, the buffer below 2 GiB, and messages are not empty.
  \<open>Buffered_Read\<close> is \<^verbatim>\<open>tests/buffered_read/buffered_read.cpp\<close>, whose sender fills a ring in its own memory
  and whose receiver fetches all new bytes at once. \<open>Byte_Memory\<close> gives calls a meaning on bytes, with a
  ring that is mapped twice; \<open>Buffered_Read_Calls\<close> reads off what each operation does,
  \<open>Buffered_Read_System\<close> has the two hosts, where the sender goes on while the receiver reads from it, and
  \<open>Buffered_Read_Safety\<close> the invariant: for messages of one size that is safe (\<open>safe_size\<close>), received one
  at a time, the stream arrives whole and nothing is overwritten or stuck; for sizes whose records fill the
  ring exactly the sender never waits. There \<open>Send\<close> and \<open>Free\<close> are one step each, and posted reads and
  writes take effect; the system starts from two connections with the fields that \<open>remote_buffers\<close> gives
  them (\<open>setup_linked\<close>).

  \<^bold>\<open>Benchmarks and events.\<close> \<open>Interfaces\<close> turns the abstract classes of \<^verbatim>\<open>conn.hpp\<close> into records of
  operations; \<open>Bench\<close> and \<open>Bandwidth\<close> are \<^verbatim>\<open>bench/bench.cpp\<close> over any such records, with the
  arithmetic of \<open>double\<close> values in \<open>Floating\<close>. \<open>Bench_Trace\<close> wraps a sender so that its calls are
  recorded (locales \<open>recording_sender\<close> and \<open>window_sender\<close>), \<open>Bench_Window\<close> and \<open>Bench_Results\<close> give the
  recorded calls and the results of whole runs. \<open>Async_Events\<close> is \<^verbatim>\<open>async_events.cpp\<close>.

  \<^bold>\<open>The queue of the stubs.\<close> \<open>Reader_Writer_Queue\<close> is \<open>ReaderWriterQueue\<close> of
  \<^verbatim>\<open>external/readerwriterqueue.h\<close>: a ring of circular blocks with stale copies of the indices.
  \<open>Queue_Blocks\<close> proves one block against a window of a stream, \<open>Queue_Ring\<close> and \<open>Queue_Producer\<close> the
  consumer and the producer against the contents, \<open>Queue_Capacity\<close> the constructor, and \<open>Queue_Contract\<close>
  interprets the locale \<open>fifo_queue\<close>: every sequence of operations answers as a list does.
  \<open>Queue_Lifetime\<close> has the layout of a block, moving and destruction. \<open>Light_Semaphore\<close>
  (\<^verbatim>\<open>external/atomicops.h\<close>) splits the semaphore of the blocking queue into its atomic accesses, with
  the invariant of two threads; \<open>Semaphore_Runs\<close> shows for every interleaving that it is a counter
  and that no wait hangs, for a thread that signals positive counts (\<open>proper_turn\<close>) of less than 2^63
  in all, where its \<open>ssize_t\<close>, here an \<open>int\<close>, does not wrap; \<open>Blocking_Queue\<close> that the queue on top of it stays first-in first-out.

  \<^bold>\<open>Bounds.\<close> Ring buffer properties need a positive length of at most \<open>2^31\<close> that is half of the registered
  region (\<open>ring_size_ok\<close>) and messages shorter than the buffer (\<open>proper_event\<close>); other sizes are the
  subject of separate properties. A queue is built for at least one and less than \<open>2^63\<close> elements.

  \<^bold>\<open>Not modelled.\<close> The branch of \<^verbatim>\<open>endpoint.cpp\<close> under \<open>WITH_MANUAL_RDMACM\<close>, which no build file defines;
  printing and debug output; destructors, which only release memory, except that of the queue; contents of memory that only
  the devices write, except through loads; the operations of the inner queue as interleaved
  memory accesses (each is one step here, so fences have no effect); the vendored option parser \<^verbatim>\<open>external/cxxopts.hpp\<close>; the drivers in
  \<^verbatim>\<open>tests\<close> that parse a command line and start threads.
\<close>

end
